(* ===== verification/Prelude.thy ===== *)
theory Prelude
  imports Main "HOL-Library.Word" "HOL-Library.Char_ord" "HOL-Library.List_Lexorder"
    "HOL-Library.Multiset" "HOL-Library.Code_Target_Numeral"
begin

text \<open>
  What every component of the model shares: the outcome of a Rust call that may return
  \<open>Ok\<close>, return \<open>Err\<close> or panic; the machine integers; the little-endian byte codecs of
  the standard library (\<open>to_le_bytes\<close>, \<open>from_le_bytes\<close>); and generic facts on
  lists, sorting and folds.  Rust's \<open>usize\<close> is 64 bits wide (the engine's targets) and is
  written \<open>nat\<close> where it counts or indexes memory that exists, with the wrap-around
  written out where the source computes with it.  A Rust \<open>String\<close> is the list of its
  UTF-8 bytes, a HOL \<open>string\<close>; \<open>Ord\<close> on strings is the lexicographic order of the
  bytes, which List_Lexorder and Char_ord give on \<open>string\<close>.
\<close>

section \<open>Results, errors and panics\<close>

datatype ('e, 'a) outcome = Ok (unwrap: 'a) | Err 'e | Panic

text \<open>The \<open>?\<close> operator of the source: an error or a panic ends the caller.\<close>

primrec and_then :: "('e, 'a) outcome \<Rightarrow> ('a \<Rightarrow> ('e, 'b) outcome) \<Rightarrow> ('e, 'b) outcome" where
  "and_then (Ok a) f = f a"
| "and_then (Err e) f = Err e"
| "and_then Panic f = Panic"

definition ok_or :: "'e \<Rightarrow> 'a option \<Rightarrow> ('e, 'a) outcome" where
  "ok_or e x = (case x of None \<Rightarrow> Err e | Some a \<Rightarrow> Ok a)"

named_theorems outcome_simps \<open>how the error operators compute\<close>

lemma and_then_eq_Ok [outcome_simps]:
  "and_then x f = Ok b \<longleftrightarrow> (\<exists>a. x = Ok a \<and> f a = Ok b)"
  by (cases x) auto

lemma and_then_eq_Panic [outcome_simps]:
  "and_then x f = Panic \<longleftrightarrow> x = Panic \<or> (\<exists>a. x = Ok a \<and> f a = Panic)"
  by (cases x) auto

lemma ok_or_eq_Ok [outcome_simps]: "ok_or e x = Ok a \<longleftrightarrow> x = Some a"
  by (simp add: ok_or_def split: option.splits)

lemma ok_or_eq_Err [outcome_simps]: "ok_or e x = Err e' \<longleftrightarrow> x = None \<and> e' = e"
  by (auto simp add: ok_or_def split: option.splits)

lemma ok_or_not_Panic [simp]: "ok_or e x \<noteq> Panic"
  by (simp add: ok_or_def split: option.splits)

text \<open>
  Code that mutates a state and may fail: the state comes back on every exit, as a
  \<open>&mut\<close> argument does.
\<close>

type_synonym ('s, 'e, 'a) stateful = "'s \<Rightarrow> ('e, 'a) outcome \<times> 's"

definition ret :: "'a \<Rightarrow> ('s, 'e, 'a) stateful" where
  "ret a = (\<lambda>s. (Ok a, s))"

definition pure_op :: "('e, 'a) outcome \<Rightarrow> ('s, 'e, 'a) stateful" where
  "pure_op x = (\<lambda>s. (x, s))"

definition and_run :: "('s, 'e, 'a) stateful \<Rightarrow> ('a \<Rightarrow> ('s, 'e, 'b) stateful) \<Rightarrow> ('s, 'e, 'b) stateful" where
  "and_run m f = (\<lambda>s. case m s of
     (Ok a, s') \<Rightarrow> f a s'
   | (Err e, s') \<Rightarrow> (Err e, s')
   | (Panic, s') \<Rightarrow> (Panic, s'))"

lemma ret_apply [simp]: "ret a s = (Ok a, s)"
  by (simp add: ret_def)

lemma pure_op_apply [simp]: "pure_op x s = (x, s)"
  by (simp add: pure_op_def)

lemma and_run_Ok [simp]: "m s = (Ok a, s') \<Longrightarrow> and_run m f s = f a s'"
  and and_run_Err [simp]: "m s = (Err e, s') \<Longrightarrow> and_run m f s = (Err e, s')"
  and and_run_Panic [simp]: "m s = (Panic, s') \<Longrightarrow> and_run m f s = (Panic, s')"
  by (simp_all add: and_run_def)

lemma and_run_apply: "and_run m f s = (case m s of
     (Ok a, s') \<Rightarrow> f a s'
   | (Err e, s') \<Rightarrow> (Err e, s')
   | (Panic, s') \<Rightarrow> (Panic, s'))"
  by (simp add: and_run_def)

lemma and_run_eq_Ok [outcome_simps]:
  "and_run m f s = (Ok b, s'') \<longleftrightarrow> (\<exists>a s'. m s = (Ok a, s') \<and> f a s' = (Ok b, s''))"
  by (auto simp: and_run_def split: prod.splits outcome.splits)

text \<open>\<open>str::strip_prefix\<close> and \<open>Option::or_else\<close>.\<close>

fun strip_prefix :: "string \<Rightarrow> string \<Rightarrow> string option" where
  "strip_prefix [] s = Some s"
| "strip_prefix (p # ps) [] = None"
| "strip_prefix (p # ps) (c # cs) = (if p = c then strip_prefix ps cs else None)"

definition or_else :: "'a option \<Rightarrow> 'a option \<Rightarrow> 'a option" where
  "or_else x y = (case x of None \<Rightarrow> y | Some a \<Rightarrow> Some a)"

text \<open>The decimal text of an unsigned integer, and \<open>str::parse\<close> back into a \<open>usize\<close>.\<close>

fun decimal :: "nat \<Rightarrow> string" where
  "decimal n = (if n < 10 then [char_of (48 + n)] else decimal (n div 10) @ [char_of (48 + n mod 10)])"

declare decimal.simps [simp del]

definition digit_value :: "char \<Rightarrow> nat option" where
  "digit_value c = (let d = of_char c :: nat in if 48 \<le> d \<and> d < 58 then Some (d - 48) else None)"

fun parse_digits :: "nat \<Rightarrow> string \<Rightarrow> nat option" where
  "parse_digits acc [] = Some acc"
| "parse_digits acc (c # cs) = (case digit_value c of
     None \<Rightarrow> None
   | Some d \<Rightarrow> if acc * 10 + d < 2 ^ 64 then parse_digits (acc * 10 + d) cs else None)"

definition parse_usize :: "string \<Rightarrow> nat option" where
  "parse_usize s = (case s of
     [] \<Rightarrow> None
   | c # cs \<Rightarrow> if c = CHR ''+'' then (if cs = [] then None else parse_digits 0 cs) else parse_digits 0 s)"

lemma digit_value_char [simp]: "d < 10 \<Longrightarrow> digit_value (char_of (48 + d)) = Some d"
  by (simp add: digit_value_def)

lemma parse_digits_append:
  "parse_digits acc (cs @ ds) = Option.bind (parse_digits acc cs) (\<lambda>a. parse_digits a ds)"
  by (induction cs arbitrary: acc) (auto split: option.splits)

lemma parse_digits_decimal: "n < 2 ^ 64 \<Longrightarrow> parse_digits 0 (decimal n) = Some n"
proof (induction n rule: decimal.induct)
  case (1 n)
  show ?case
  proof (cases "n < 10")
    case True
    then show ?thesis by (simp add: decimal.simps)
  next
    case False
    have "parse_digits 0 (decimal (n div 10)) = Some (n div 10)"
      using 1 False by simp
    moreover have "n div 10 * 10 + n mod 10 = n"
      by (rule div_mult_mod_eq)
    ultimately show ?thesis
      using False 1(2) by (subst decimal.simps) (simp add: parse_digits_append)
  qed
qed

lemma decimal_digits: "c \<in> set (decimal n) \<Longrightarrow> digit_value c \<noteq> None"
proof (induction n rule: decimal.induct)
  case (1 n)
  then show ?case by (subst (asm) (2) decimal.simps) (auto split: if_splits)
qed

lemma decimal_not_Nil [simp]: "decimal n \<noteq> []"
  by (subst decimal.simps) simp

lemma parse_usize_decimal [simp]: "n < 2 ^ 64 \<Longrightarrow> parse_usize (decimal n) = Some n"
proof -
  assume n: "n < 2 ^ 64"
  obtain c cs where c: "decimal n = c # cs"
    by (cases "decimal n") simp_all
  with decimal_digits [of c n] have "c \<noteq> CHR ''+''"
    by (auto simp: digit_value_def)
  with c parse_digits_decimal [OF n] show ?thesis
    by (simp add: parse_usize_def)
qed

text \<open>\<open>to_ascii_lowercase\<close> and \<open>eq_ignore_ascii_case\<close>\<close>

definition lower :: "char \<Rightarrow> char" where
  "lower c = (let d = of_char c :: nat in if 65 \<le> d \<and> d \<le> 90 then char_of (d + 32) else c)"

definition eq_ignore_case :: "string \<Rightarrow> string \<Rightarrow> bool" where
  "eq_ignore_case s t \<longleftrightarrow> map lower s = map lower t"

section \<open>Machine integers\<close>

type_synonym u8 = "8 word"
type_synonym u16 = "16 word"
type_synonym u32 = "32 word"
type_synonym u64 = "64 word"
type_synonym bytes = "8 word list"

definition usize_bound :: nat where
  "usize_bound = 2 ^ 64"

text \<open>The bytes of a Rust string.\<close>

definition as_bytes :: "string \<Rightarrow> bytes" where
  "as_bytes s = map of_char s"

lemma of_char_u8_inject: "(of_char c :: u8) = of_char d \<longleftrightarrow> c = d"
proof
  assume eq: "(of_char c :: u8) = of_char d"
  have "unat (of_char x :: u8) = of_char x" for x :: char
  proof -
    have "(of_char x :: u8) = word_of_nat (of_char x)"
      by (simp add: of_nat_of_char)
    moreover have "(of_char x :: nat) mod 256 = of_char x"
      by (rule of_char_mod_256)
    ultimately show ?thesis
      by (simp add: unat_of_nat)
  qed
  with eq have "(of_char c :: nat) = of_char d"
    by metis
  then show "c = d" by simp
qed simp

lemma as_bytes_inject [simp]: "as_bytes s = as_bytes t \<longleftrightarrow> s = t"
proof -
  have "inj (of_char :: char \<Rightarrow> u8)"
    by (rule injI) (simp add: of_char_u8_inject)
  then show ?thesis
    by (simp add: as_bytes_def inj_map_eq_map)
qed

lemma length_as_bytes [simp]: "length (as_bytes s) = length s"
  by (simp add: as_bytes_def)

section \<open>Little-endian encoding\<close>

text \<open>\<open>x.to_le_bytes()\<close> for an integer of \<open>k\<close> bytes, and \<open>from_le_bytes\<close>.\<close>

fun to_le :: "nat \<Rightarrow> nat \<Rightarrow> bytes" where
  "to_le 0 x = []"
| "to_le (Suc k) x = word_of_nat (x mod 256) # to_le k (x div 256)"

fun from_le :: "bytes \<Rightarrow> nat" where
  "from_le [] = 0"
| "from_le (b # bs) = unat b + 256 * from_le bs"

lemma length_to_le [simp]: "length (to_le k x) = k"
  by (induction k arbitrary: x) auto

lemma from_to_le: "from_le (to_le k x) = x mod 256 ^ k"
proof (induction k arbitrary: x)
  case 0
  then show ?case by simp
next
  case (Suc k)
  have "unat (word_of_nat (x mod 256) :: u8) = x mod 256"
    by (simp add: unat_of_nat)
  with Suc show ?case
    by (simp add: mod_mult2_eq)
qed

lemma from_to_le_small [simp]: "x < 256 ^ k \<Longrightarrow> from_le (to_le k x) = x"
  by (simp add: from_to_le)

lemma to_le_inject: "x < 256 ^ k \<Longrightarrow> y < 256 ^ k \<Longrightarrow> to_le k x = to_le k y \<longleftrightarrow> x = y"
  by (metis from_to_le_small)

lemma from_le_bound: "from_le bs < 256 ^ length bs"
proof (induction bs)
  case Nil
  then show ?case by simp
next
  case (Cons b bs)
  have "unat b < 256"
    using unsigned_less [of b, where ?'a = nat] by simp
  with Cons show ?case by simp
qed

lemma to_from_le [simp]: "to_le (length bs) (from_le bs) = bs"
proof (induction bs)
  case (Cons b bs)
  have "unat b < 256"
    using unsigned_less [of b, where ?'a = nat] by simp
  with Cons show ?case by simp
qed simp

section \<open>Lists, sorting, folds\<close>

text \<open>\<open>Iterator::min_by_key\<close>: the first of the elements with the least key.\<close>

fun min_by_key :: "('a \<Rightarrow> 'k::linorder) \<Rightarrow> 'a list \<Rightarrow> 'a option" where
  "min_by_key f [] = None"
| "min_by_key f (x # xs) =
     (case min_by_key f xs of
        None \<Rightarrow> Some x
      | Some y \<Rightarrow> if f y < f x then Some y else Some x)"

lemma min_by_key_None [simp]: "min_by_key f xs = None \<longleftrightarrow> xs = []"
  by (cases xs) (auto split: option.splits)

lemma min_by_key_in: "min_by_key f xs = Some y \<Longrightarrow> y \<in> set xs"
  by (induction xs arbitrary: y) (auto split: option.splits if_splits)

lemma min_by_key_least: "min_by_key f xs = Some y \<Longrightarrow> x \<in> set xs \<Longrightarrow> f y \<le> f x"
  by (induction xs arbitrary: y) (fastforce split: option.splits if_splits)+

lemma min_by_key_first:
  assumes "min_by_key f xs = Some y"
  shows "\<exists>us vs. xs = us @ y # vs \<and> (\<forall>u \<in> set us. f y < f u)"
  using assms
proof (induction xs arbitrary: y)
  case Nil
  then show ?case by simp
next
  case (Cons x xs)
  show ?case
  proof (cases "y = x \<and> (\<forall>z. min_by_key f xs = Some z \<longrightarrow> \<not> f z < f x)")
    case True
    then have "x # xs = [] @ y # xs \<and> (\<forall>u \<in> set []. f y < f u)" by simp
    then show ?thesis by blast
  next
    case False
    with Cons.prems have "min_by_key f xs = Some y" and "f y < f x"
      by (auto split: option.splits if_splits)
    with Cons.IH [of y] obtain us vs where "xs = us @ y # vs" "\<forall>u \<in> set us. f y < f u"
      by auto
    with \<open>f y < f x\<close> have "x # xs = (x # us) @ y # vs \<and> (\<forall>u \<in> set (x # us). f y < f u)"
      by simp
    then show ?thesis by blast
  qed
qed

lemma filter_eq_single: "distinct zs \<Longrightarrow> filter ((=) k) zs = (if k \<in> set zs then [k] else [])"
  by (induction zs) auto

lemma list_split2:
  assumes "i < length ts" and "j < length ts" and "i \<noteq> j"
  obtains us x vs y ws where "ts = us @ x # vs @ y # ws" and "{x, y} = {ts ! i, ts ! j}"
proof -
  have split: "\<exists>us vs ws. ts = us @ (ts ! i) # vs @ (ts ! j) # ws" if "i < j" "j < length ts" for i j
  proof -
    have "drop (Suc i) ts = take (j - Suc i) (drop (Suc i) ts) @ (ts ! j) # drop (Suc j) ts"
      using that id_take_nth_drop [of "j - Suc i" "drop (Suc i) ts"] by simp
    then have "ts = take i ts @ (ts ! i) # take (j - Suc i) (drop (Suc i) ts) @ (ts ! j) # drop (Suc j) ts"
      using that id_take_nth_drop [of i ts] by simp
    then show ?thesis by blast
  qed
  show thesis
  proof (cases "i < j")
    case True
    then show thesis
      using split [OF True assms(2)] that by blast
  next
    case False
    with assms(3) have "j < i" by simp
    from split [OF this assms(1)] show thesis
      using that by (metis insert_commute)
  qed
qed

text \<open>Sorting by a key that tells the elements apart depends on the elements only.\<close>

lemma sort_key_perm_eq:
  assumes "mset xs = mset ys" and "distinct (map f xs)"
  shows "sort_key f xs = sort_key f ys"
proof (rule properties_for_sort_key)
  show "mset (sort_key f ys) = mset xs"
    using assms(1) by simp
  show "sorted (map f (sort_key f ys))"
    by simp
  fix k
  have inj: "inj_on f (set xs)"
    using assms(2) by (simp add: distinct_map)
  assume "k \<in> set (sort_key f ys)"
  with assms(1) have "k \<in> set xs"
    by (metis mset_eq_setD set_sort)
  have dys: "distinct ys" and sys: "set ys = set xs"
    using assms by (metis distinct_map mset_eq_imp_distinct_iff, metis mset_eq_setD)
  have uniq: "filter (\<lambda>x. f k = f x) zs = [k]" if "distinct zs" "set zs = set xs" for zs
  proof -
    have "\<And>x. x \<in> set zs \<Longrightarrow> (f k = f x) = (k = x)"
      using inj that(2) \<open>k \<in> set xs\<close> by (auto dest: inj_onD)
    then have "filter (\<lambda>x. f k = f x) zs = filter ((=) k) zs"
      by (rule filter_cong [OF refl])
    also have "\<dots> = [k]"
      using that \<open>k \<in> set xs\<close> by (simp add: filter_eq_single)
    finally show ?thesis .
  qed
  show "filter (\<lambda>x. f k = f x) (sort_key f ys) = filter (\<lambda>x. f k = f x) xs"
    using uniq [of "sort_key f ys"] uniq [of xs] assms(2) dys sys by (simp add: distinct_map)
qed

end
