(* ===== verification/Partition.thy ===== *)
theory Partition
  imports Prelude
begin

text \<open>
  The layer partition of a model over the cluster nodes:
  \<open>crates/ai-engine-cluster/src/partition.rs\<close> (all of it) with the data of
  \<open>capability.rs\<close>.  The dynamic program of \<open>auto_partition\<close> is written row by row as the
  loops of the source fill it, its backtracking walks the same table, and the lemmas show
  that the manifest it returns covers every layer once, links the nodes into one ring and
  has the least possible bottleneck.  SHA-256 is a parameter \<open>sha\<close> of the definitions that
  hash; the byte string that is hashed is modelled.
\<close>

section \<open>Data\<close>

datatype backend_kind = Cpu | Cuda | Metal | Wgpu

record capability =
  cap_node_id :: string
  cap_backend :: backend_kind
  cap_device_index :: nat
  cap_memory :: u64
  cap_score :: u32
  cap_link_mbps :: u32

type_synonym layer_range = "nat \<times> nat"

record node_assignment =
  na_node_id :: string
  na_range :: layer_range
  na_hosts_embedding :: bool
  na_hosts_output :: bool
  na_previous :: "string option"
  na_next :: "string option"

record manifest =
  mf_model_id :: string
  mf_hash :: bytes
  mf_assignments :: "node_assignment list"

record hop =
  hop_node_id :: string
  hop_local :: bool

datatype partition_error =
    NoNodes
  | ZeroLayers
  | DoesNotFit string nat nat u64
  | NoFeasible string
  | NotContiguous nat nat nat string
  | EmptyRange nat nat string
  | NotCovering nat nat
  | UnknownNode string
  | NeedsMemory string nat nat u64 u64

type_synonym 'a partition_result = "(partition_error, 'a) outcome"

section \<open>Reading a manifest\<close>

definition for_node :: "manifest \<Rightarrow> string \<Rightarrow> node_assignment option" where
  "for_node m i = List.find (\<lambda>a. na_node_id a = i) (mf_assignments m)"

definition embedding_host :: "manifest \<Rightarrow> string option" where
  "embedding_host m = map_option na_node_id (List.find na_hosts_embedding (mf_assignments m))"

definition output_host :: "manifest \<Rightarrow> string option" where
  "output_host m = map_option na_node_id (List.find na_hosts_output (mf_assignments m))"

lemma for_node_Some: "for_node m i = Some a \<Longrightarrow> a \<in> set (mf_assignments m) \<and> na_node_id a = i"
  by (auto simp: for_node_def find_Some_iff)

text \<open>
  The loop of \<open>pipeline_order\<close>.  The set \<open>seen\<close> of the source holds exactly the elements
  pushed on \<open>order\<close>, so the list stands for both.
\<close>

function pipeline_walk :: "manifest \<Rightarrow> string list \<Rightarrow> string option \<Rightarrow> string list option" where
  "pipeline_walk m order None = Some order"
| "pipeline_walk m order (Some i) =
     (if i \<in> set order then None
      else case for_node m i of
             None \<Rightarrow> None
           | Some a \<Rightarrow> pipeline_walk m (order @ [i]) (na_next a))"
  by pat_completeness auto
termination
proof (relation "measure (\<lambda>(m, order, cur). card (na_node_id ` set (mf_assignments m) - set order))")
  fix m order i a
  assume "i \<notin> set order" and "for_node m i = Some a"
  then have "i \<in> na_node_id ` set (mf_assignments m) - set order"
    by (auto dest: for_node_Some)
  then have "na_node_id ` set (mf_assignments m) - set (order @ [i])
      \<subset> na_node_id ` set (mf_assignments m) - set order"
    by auto
  then show "((m, order @ [i], na_next a), m, order, Some i)
      \<in> measure (\<lambda>(m, order, cur). card (na_node_id ` set (mf_assignments m) - set order))"
    by (simp add: psubset_card_mono)
qed simp

definition pipeline_order :: "manifest \<Rightarrow> string list option" where
  "pipeline_order m =
     (case List.find na_hosts_embedding (mf_assignments m) of
        None \<Rightarrow> None
      | Some head \<Rightarrow>
          (case pipeline_walk m [] (Some (na_node_id head)) of
             None \<Rightarrow> None
           | Some order \<Rightarrow>
               if length order \<noteq> length (mf_assignments m) then None else Some order))"

definition forward_plan :: "manifest \<Rightarrow> string \<Rightarrow> hop list option" where
  "forward_plan m local_id =
     map_option (map (\<lambda>i. \<lparr>hop_node_id = i, hop_local = (i = local_id)\<rparr>)) (pipeline_order m)"

section \<open>The content hash\<close>

definition assignment_bytes :: "node_assignment \<Rightarrow> bytes" where
  "assignment_bytes a =
     as_bytes (na_node_id a) @ to_le 8 (fst (na_range a)) @ to_le 8 (snd (na_range a))"

definition manifest_preimage :: "string \<Rightarrow> nat \<Rightarrow> node_assignment list \<Rightarrow> bytes" where
  "manifest_preimage model_id n_layers as =
     as_bytes model_id @ to_le 8 n_layers @ concat (map assignment_bytes as)"

definition compute_manifest_hash ::
    "(bytes \<Rightarrow> bytes) \<Rightarrow> string \<Rightarrow> nat \<Rightarrow> node_assignment list \<Rightarrow> bytes" where
  "compute_manifest_hash sha model_id n_layers as = sha (manifest_preimage model_id n_layers as)"

definition manifests_agree :: "manifest \<Rightarrow> manifest \<Rightarrow> bool" where
  "manifests_agree a b \<longleftrightarrow> mf_hash a = mf_hash b"

section \<open>The dynamic program\<close>

definition node_overhead :: "nat \<Rightarrow> u64 \<Rightarrow> u64 \<Rightarrow> u64" where
  "node_overhead i embed_output_bytes per_node_overhead =
     (if i = 0 then embed_output_bytes + per_node_overhead else per_node_overhead)"

definition max_layers :: "u64 \<Rightarrow> u64 \<Rightarrow> capability \<Rightarrow> nat partition_result" where
  "max_layers overhead layer_bytes c =
     (if cap_memory c \<le> overhead then Ok 0
      else if layer_bytes = 0 then Panic
      else Ok (unat ((cap_memory c - overhead) div layer_bytes)))"

fun max_layers_per_node ::
    "nat \<Rightarrow> u64 \<Rightarrow> u64 \<Rightarrow> u64 \<Rightarrow> capability list \<Rightarrow> nat list partition_result" where
  "max_layers_per_node i lb eo po [] = Ok []"
| "max_layers_per_node i lb eo po (c # cs) =
     and_then (max_layers (node_overhead i eo po) lb c) (\<lambda>l.
     and_then (max_layers_per_node (Suc i) lb eo po cs) (\<lambda>ls. Ok (l # ls)))"

definition dp_inf :: nat where
  "dp_inf = (2 ^ 64 - 1) div 4"

definition dp_stage :: "nat \<Rightarrow> nat \<Rightarrow> nat" where
  "dp_stage score assigned =
     (if score = 0 then dp_inf else (assigned * 1000) mod 2 ^ 64 div score)"

text \<open>One iteration over \<open>j\<close>: the pair is \<open>(cost[k][i], back[k][i])\<close>.\<close>

definition dp_try ::
    "(nat \<times> nat) list \<Rightarrow> nat \<Rightarrow> nat \<Rightarrow> nat \<Rightarrow> nat \<Rightarrow> nat \<times> nat \<Rightarrow> nat \<times> nat" where
  "dp_try prev max_l score i j cell =
     (if fst (prev ! j) = dp_inf then cell
      else if i - j > max_l then cell
      else let candidate = max (fst (prev ! j)) (dp_stage score (i - j))
           in if candidate < fst cell then (candidate, j) else cell)"

definition dp_cell :: "(nat \<times> nat) list \<Rightarrow> nat \<Rightarrow> nat \<Rightarrow> nat \<Rightarrow> nat \<times> nat" where
  "dp_cell prev max_l score i = fold (dp_try prev max_l score i) [0..<Suc i] (dp_inf, 0)"

definition dp_row :: "nat \<Rightarrow> (nat \<times> nat) list \<Rightarrow> nat \<times> nat \<Rightarrow> (nat \<times> nat) list" where
  "dp_row n_layers prev node = map (dp_cell prev (fst node) (snd node)) [0..<Suc n_layers]"

text \<open>The rows \<open>1..=n\<close>; a node is its layer capacity and its compute score.\<close>

fun dp_rows :: "nat \<Rightarrow> (nat \<times> nat) list \<Rightarrow> (nat \<times> nat) list \<Rightarrow> (nat \<times> nat) list list" where
  "dp_rows n_layers prev [] = []"
| "dp_rows n_layers prev (node # nodes) =
     (let r = dp_row n_layers prev node in r # dp_rows n_layers r nodes)"

definition dp_row0 :: "nat \<Rightarrow> (nat \<times> nat) list" where
  "dp_row0 n_layers = (0, 0) # replicate n_layers (dp_inf, 0)"

text \<open>The values \<open>prev\<close> pushed by the backtracking loop, over the rows from the last.\<close>

fun backtrack :: "(nat \<times> nat) list list \<Rightarrow> nat \<Rightarrow> nat list" where
  "backtrack [] cur = []"
| "backtrack (r # rs) cur = (let prev = snd (r ! cur) in prev # backtrack rs prev)"

definition dp_cuts :: "(nat \<times> nat) list list \<Rightarrow> nat \<Rightarrow> nat list" where
  "dp_cuts rows n_layers = rev (n_layers # backtrack (rev rows) n_layers)"

definition build_assignments :: "capability list \<Rightarrow> nat list \<Rightarrow> node_assignment list" where
  "build_assignments caps cuts =
     map (\<lambda>idx.
       \<lparr>na_node_id = cap_node_id (caps ! idx),
        na_range = (cuts ! idx, cuts ! Suc idx),
        na_hosts_embedding = (idx = 0),
        na_hosts_output = (Suc idx = length caps),
        na_previous = (if idx = 0 then None else Some (cap_node_id (caps ! (idx - 1)))),
        na_next = (if Suc idx = length caps then None else Some (cap_node_id (caps ! Suc idx)))\<rparr>)
       [0..<length cuts - 1]"

definition auto_partition ::
    "(bytes \<Rightarrow> bytes) \<Rightarrow> string \<Rightarrow> capability list \<Rightarrow> nat \<Rightarrow> u64 \<Rightarrow> u64 \<Rightarrow> u64 \<Rightarrow> manifest partition_result" where
  "auto_partition sha model_id caps n_layers layer_bytes embed_output_bytes per_node_overhead =
     (if caps = [] then Err NoNodes
      else if n_layers = 0 then Err ZeroLayers
      else
        and_then (max_layers_per_node 0 layer_bytes embed_output_bytes per_node_overhead caps)
          (\<lambda>maxes.
            let total_cap = sum_list maxes mod 2 ^ 64 in
            if total_cap < n_layers
            then Err (DoesNotFit model_id n_layers total_cap (sum_list (map cap_memory caps)))
            else
              let rows = dp_rows n_layers (dp_row0 n_layers) (zip maxes (map (unat \<circ> cap_score) caps));
                  last_row = last (dp_row0 n_layers # rows)
              in if fst (last_row ! n_layers) = dp_inf then Err (NoFeasible model_id)
                 else
                   let as = build_assignments caps (dp_cuts rows n_layers)
                   in Ok \<lparr>mf_model_id = model_id,
                          mf_hash = compute_manifest_hash sha model_id n_layers as,
                          mf_assignments = as\<rparr>))"

definition agreed_manifest ::
    "(bytes \<Rightarrow> bytes) \<Rightarrow> string \<Rightarrow> capability list \<Rightarrow> nat \<Rightarrow> u64 \<Rightarrow> u64 \<Rightarrow> u64 \<Rightarrow> manifest partition_result" where
  "agreed_manifest sha model_id caps n_layers layer_bytes embed_output_bytes per_node_overhead =
     auto_partition sha model_id (sort_key cap_node_id caps) n_layers
       layer_bytes embed_output_bytes per_node_overhead"

section \<open>An explicit partition\<close>

fun check_cover :: "nat \<Rightarrow> (string \<times> layer_range) list \<Rightarrow> nat partition_result" where
  "check_cover expected [] = Ok expected"
| "check_cover expected ((node, s, e) # rs) =
     (if s \<noteq> expected then Err (NotContiguous expected s e node)
      else if s \<ge> e then Err (EmptyRange s e node)
      else check_cover e rs)"

fun check_memory ::
    "capability list \<Rightarrow> u64 \<Rightarrow> u64 \<Rightarrow> u64 \<Rightarrow> nat \<Rightarrow> (string \<times> layer_range) list \<Rightarrow> unit partition_result" where
  "check_memory caps lb eo po i [] = Ok ()"
| "check_memory caps lb eo po i ((node, s, e) # rs) =
     and_then (ok_or (UnknownNode node) (List.find (\<lambda>c. cap_node_id c = node) caps)) (\<lambda>cap.
       let need = of_nat (e - s) * lb + node_overhead i eo po in
       if need > cap_memory cap then Err (NeedsMemory node s e need (cap_memory cap))
       else check_memory caps lb eo po (Suc i) rs)"

text \<open>The first pass over the sorted ranges, then the pass that fills \<open>next_node\<close>.\<close>

definition manual_first_pass :: "(string \<times> layer_range) list \<Rightarrow> node_assignment list" where
  "manual_first_pass rs =
     map (\<lambda>idx.
       \<lparr>na_node_id = fst (rs ! idx),
        na_range = snd (rs ! idx),
        na_hosts_embedding = (idx = 0),
        na_hosts_output = (Suc idx = length rs),
        na_previous = (if idx = 0 then None else Some (fst (rs ! (idx - 1)))),
        na_next = None\<rparr>) [0..<length rs]"

definition link_next :: "nat \<Rightarrow> node_assignment list \<Rightarrow> node_assignment list" where
  "link_next i as = as[i := (as ! i)\<lparr>na_next := Some (na_node_id (as ! Suc i))\<rparr>]"

definition manual_assignments :: "(string \<times> layer_range) list \<Rightarrow> node_assignment list" where
  "manual_assignments rs =
     (let as = manual_first_pass rs in fold link_next [0..<length as - 1] as)"

definition manual_partition ::
    "(bytes \<Rightarrow> bytes) \<Rightarrow> string \<Rightarrow> capability list \<Rightarrow> nat \<Rightarrow> (string \<times> layer_range) list
      \<Rightarrow> u64 \<Rightarrow> u64 \<Rightarrow> u64 \<Rightarrow> manifest partition_result" where
  "manual_partition sha model_id caps n_layers ranges layer_bytes embed_output_bytes per_node_overhead =
     (let rs = sort_key (fst \<circ> snd) ranges in
      and_then (check_cover 0 rs) (\<lambda>covered.
      if covered \<noteq> n_layers then Err (NotCovering covered n_layers)
      else
        and_then (check_memory caps layer_bytes embed_output_bytes per_node_overhead 0 rs) (\<lambda>_.
          let as = manual_assignments rs in
          Ok \<lparr>mf_model_id = model_id,
              mf_hash = compute_manifest_hash sha model_id n_layers as,
              mf_assignments = as\<rparr>)))"

section \<open>Reference semantics of a split\<close>

text \<open>
  A split of the layers is a list of cut points; node \<open>k\<close> serves the layers between the
  cuts \<open>k\<close> and \<open>k + 1\<close>.  \<open>cuts_ok\<close> says that the cuts never go back and that every node
  has the memory for its share and a non-zero score; \<open>bottleneck\<close> is the cost of the
  slowest stage, in the source's unit of a thousandth of a layer per score.
\<close>

type_synonym dp_node = "nat \<times> nat"

fun cuts_ok :: "dp_node list \<Rightarrow> nat list \<Rightarrow> bool" where
  "cuts_ok [] [s] = True"
| "cuts_ok (node # nodes) (s # e # cs) =
     (s \<le> e \<and> e - s \<le> fst node \<and> snd node \<noteq> 0 \<and> cuts_ok nodes (e # cs))"
| "cuts_ok _ _ = False"

fun bottleneck :: "dp_node list \<Rightarrow> nat list \<Rightarrow> nat" where
  "bottleneck (node # nodes) (s # e # cs) =
     max ((e - s) * 1000 div snd node) (bottleneck nodes (e # cs))"
| "bottleneck _ _ = 0"

lemma cuts_ok_length: "cuts_ok nodes cs \<Longrightarrow> length cs = Suc (length nodes)"
  by (induction nodes cs rule: cuts_ok.induct) auto

lemma list_two_cases [case_names Nil single more]:
  obtains "xs = []" | x where "xs = [x]" | x y ys where "xs = x # y # ys"
  by (cases xs; cases "tl xs") auto

lemma cuts_ok_Nil_iff: "cuts_ok [] cs \<longleftrightarrow> length cs = 1"
  by (cases cs rule: list_two_cases) auto

lemma cuts_ok_snoc:
  "cs \<noteq> [] \<Longrightarrow> cuts_ok (nodes @ [node]) (cs @ [i]) \<longleftrightarrow>
     cuts_ok nodes cs \<and> last cs \<le> i \<and> i - last cs \<le> fst node \<and> snd node \<noteq> 0"
proof (induction nodes arbitrary: cs)
  case Nil
  then show ?case by (cases cs rule: list_two_cases) (auto simp: cuts_ok_Nil_iff)
next
  case (Cons node' nodes)
  show ?case
  proof (cases cs rule: list_two_cases)
    case (single x)
    then show ?thesis by (cases nodes) simp_all
  next
    case (more x y ys)
    with Cons.IH [of "y # ys"] show ?thesis by simp
  qed (use Cons.prems in simp)
qed

lemma bottleneck_snoc:
  "cuts_ok nodes cs \<Longrightarrow>
     bottleneck (nodes @ [node]) (cs @ [i]) =
       max (bottleneck nodes cs) ((i - last cs) * 1000 div snd node)"
  by (induction nodes cs rule: cuts_ok.induct) (auto simp: max.assoc)

lemma cuts_ok_snocE:
  assumes "cuts_ok (nodes @ [node]) cs"
  obtains cs' i where "cs = cs' @ [i]" and "cs' \<noteq> []" and "cuts_ok nodes cs'"
    and "last cs' \<le> i" and "i - last cs' \<le> fst node" and "snd node \<noteq> 0"
proof -
  from assms have "length cs = Suc (Suc (length nodes))"
    by (auto dest: cuts_ok_length)
  then obtain cs' i where cs: "cs = cs' @ [i]" and ne: "cs' \<noteq> []"
    by (metis append_butlast_last_id length_0_conv length_append_singleton nat.distinct(1)
        old.nat.inject self_append_conv2)
  with assms cuts_ok_snoc [OF ne, of nodes node i] show thesis
    by (intro that [OF cs ne]) auto
qed

lemma cuts_ok_sorted: "cuts_ok nodes cs \<Longrightarrow> sorted cs"
proof (induction nodes cs rule: cuts_ok.induct)
  case (2 node nodes s e cs)
  then show ?case by (cases cs) auto
qed auto

lemma cuts_ok_nth:
  "cuts_ok nodes cs \<Longrightarrow> k < length nodes \<Longrightarrow>
     cs ! k \<le> cs ! Suc k \<and> cs ! Suc k - cs ! k \<le> fst (nodes ! k)"
proof (induction nodes cs arbitrary: k rule: cuts_ok.induct)
  case (2 node nodes s e cs)
  then show ?case by (cases k) auto
qed auto

lemma sorted_le_last: "sorted xs \<Longrightarrow> x \<in> set xs \<Longrightarrow> x \<le> last xs"
  by (induction xs) auto

lemmas cuts_ok_le_last = sorted_le_last [OF cuts_ok_sorted]

section \<open>The table holds the least bottlenecks\<close>

lemma dp_stage_small:
  assumes "l \<le> 2 ^ 52" and "score \<noteq> 0"
  shows "dp_stage score l = l * 1000 div score"
  using assms by (simp add: dp_stage_def)

lemma dp_stage_less_inf:
  assumes "l \<le> 2 ^ 52" and "score \<noteq> 0"
  shows "l * 1000 div score < dp_inf"
proof -
  have "l * 1000 div score \<le> l * 1000" by simp
  also have "\<dots> < dp_inf" using assms(1) by (simp add: dp_inf_def)
  finally show ?thesis .
qed

text \<open>What the loop over \<open>j\<close> computes: a minimum over the usable \<open>j\<close>, with its place.\<close>

definition dp_usable :: "(nat \<times> nat) list \<Rightarrow> nat \<Rightarrow> nat \<Rightarrow> nat \<Rightarrow> bool" where
  "dp_usable prev max_l i j \<longleftrightarrow> fst (prev ! j) \<noteq> dp_inf \<and> i - j \<le> max_l"

definition dp_candidate :: "(nat \<times> nat) list \<Rightarrow> nat \<Rightarrow> nat \<Rightarrow> nat \<Rightarrow> nat" where
  "dp_candidate prev score i j = max (fst (prev ! j)) (dp_stage score (i - j))"

lemma dp_try_alt:
  "dp_try prev max_l score i j cell =
     (if dp_usable prev max_l i j \<and> dp_candidate prev score i j < fst cell
      then (dp_candidate prev score i j, j) else cell)"
  by (auto simp: dp_try_def dp_usable_def dp_candidate_def Let_def)

lemma fold_dp_try:
  assumes "fold (dp_try prev max_l score i) js cell = (c, b)"
  shows "c \<le> fst cell"
    and "\<And>j. j \<in> set js \<Longrightarrow> dp_usable prev max_l i j \<Longrightarrow> c \<le> dp_candidate prev score i j"
    and "(c, b) = cell \<or>
      (b \<in> set js \<and> dp_usable prev max_l i b \<and> dp_candidate prev score i b = c \<and> c < fst cell)"
proof -
  have "c \<le> fst cell
    \<and> (\<forall>j \<in> set js. dp_usable prev max_l i j \<longrightarrow> c \<le> dp_candidate prev score i j)
    \<and> ((c, b) = cell \<or>
      (b \<in> set js \<and> dp_usable prev max_l i b \<and> dp_candidate prev score i b = c \<and> c < fst cell))"
    using assms
  proof (induction js arbitrary: cell)
    case Nil
    then show ?case by auto
  next
    case (Cons j js)
    let ?cell = "dp_try prev max_l score i j cell"
    from Cons.prems have "fold (dp_try prev max_l score i) js ?cell = (c, b)"
      by simp
    note IH = Cons.IH [OF this]
    have step: "fst ?cell \<le> fst cell"
      "dp_usable prev max_l i j \<Longrightarrow> fst ?cell \<le> dp_candidate prev score i j"
      by (auto simp: dp_try_alt)
    from IH step show ?case
      by (cases "dp_usable prev max_l i j \<and> dp_candidate prev score i j < fst cell")
        (auto simp: dp_try_alt)
  qed
  then show "c \<le> fst cell"
    and "\<And>j. j \<in> set js \<Longrightarrow> dp_usable prev max_l i j \<Longrightarrow> c \<le> dp_candidate prev score i j"
    and "(c, b) = cell \<or>
      (b \<in> set js \<and> dp_usable prev max_l i b \<and> dp_candidate prev score i b = c \<and> c < fst cell)"
    by blast+
qed

lemma dp_cell_le_inf: "fst (dp_cell prev max_l score i) \<le> dp_inf"
  using fold_dp_try(1) [of prev max_l score i "[0..<Suc i]" "(dp_inf, 0)"]
  by (metis dp_cell_def fst_conv prod.collapse)

lemma dp_cell_least:
  "j \<le> i \<Longrightarrow> dp_usable prev max_l i j \<Longrightarrow>
     fst (dp_cell prev max_l score i) \<le> dp_candidate prev score i j"
  using fold_dp_try(2) [of prev max_l score i "[0..<Suc i]" "(dp_inf, 0)"]
  by (metis atLeastLessThan_iff dp_cell_def le_imp_less_Suc prod.collapse set_upt zero_le)

lemma dp_cell_attained:
  assumes "dp_cell prev max_l score i = (c, b)" and "c < dp_inf"
  shows "b \<le> i" and "dp_usable prev max_l i b" and "dp_candidate prev score i b = c"
  using fold_dp_try(3) [of prev max_l score i "[0..<Suc i]" "(dp_inf, 0)" c b] assms
  by (auto simp: dp_cell_def less_Suc_eq_le)

text \<open>A row is sound when its entries bound every split of the nodes before it from below.\<close>

definition row_ok :: "nat \<Rightarrow> dp_node list \<Rightarrow> (nat \<times> nat) list \<Rightarrow> bool" where
  "row_ok n nodes r \<longleftrightarrow> length r = Suc n \<and>
     (\<forall>i \<le> n. fst (r ! i) \<le> dp_inf \<and>
        (\<forall>cs. cuts_ok nodes cs \<longrightarrow> hd cs = 0 \<longrightarrow> last cs = i \<longrightarrow> fst (r ! i) \<le> bottleneck nodes cs))"

lemma length_dp_row [simp]: "length (dp_row n prev node) = Suc n"
  by (simp add: dp_row_def)

lemma dp_row_nth: "i \<le> n \<Longrightarrow> dp_row n prev node ! i = dp_cell prev (fst node) (snd node) i"
  by (simp add: dp_row_def del: upt_Suc)

lemma dp_row0_nth: "i \<le> n \<Longrightarrow> dp_row0 n ! i = (if i = 0 then 0 else dp_inf, 0)"
  by (cases i) (simp_all add: dp_row0_def)

lemma row_ok_row0: "row_ok n [] (dp_row0 n)"
proof -
  have "length (dp_row0 n) = Suc n"
    by (simp add: dp_row0_def)
  moreover have "fst (dp_row0 n ! i) \<le> bottleneck [] cs"
    if "i \<le> n" "cuts_ok [] cs" "hd cs = 0" "last cs = i" for i cs
    using that by (cases cs rule: list_two_cases) (auto simp: dp_row0_nth)
  ultimately show ?thesis
    by (auto simp: row_ok_def dp_row0_nth)
qed

lemma bottleneck_less_inf:
  "cuts_ok nodes cs \<Longrightarrow> last cs \<le> 2 ^ 52 \<Longrightarrow> bottleneck nodes cs < dp_inf"
proof (induction nodes cs rule: cuts_ok.induct)
  case (2 node nodes s e cs)
  have "e \<le> last (e # cs)"
    using 2 cuts_ok_le_last [of nodes "e # cs" e] by simp
  with 2 have "e - s \<le> 2 ^ 52" by simp
  with 2 show ?case by (simp add: dp_stage_less_inf)
qed (auto simp: dp_inf_def)

lemma row_ok_step:
  assumes r: "row_ok n nodes r" and n: "n \<le> 2 ^ 52"
  shows "row_ok n (nodes @ [node]) (dp_row n r node)"
proof -
  have "fst (dp_row n r node ! i) \<le> bottleneck (nodes @ [node]) cs"
    if i: "i \<le> n" and cs: "cuts_ok (nodes @ [node]) cs" "hd cs = 0" "last cs = i" for i cs
  proof -
    from cs(1) obtain cs' i' where split: "cs = cs' @ [i']" "cs' \<noteq> []" "cuts_ok nodes cs'"
      "last cs' \<le> i'" "i' - last cs' \<le> fst node" "snd node \<noteq> 0"
      by (rule cuts_ok_snocE)
    let ?j = "last cs'"
    have j: "?j \<le> i" "?j \<le> n" "i' = i" and hd: "hd cs' = 0"
      using split cs i by (auto simp: hd_append)
    have below: "fst (r ! ?j) \<le> bottleneck nodes cs'"
      using r split(3) hd j(2) by (auto simp: row_ok_def)
    have "bottleneck nodes cs' < dp_inf"
      using split(3) j(2) n by (intro bottleneck_less_inf) auto
    with below split(5) j have "dp_usable r (fst node) i ?j"
      by (simp add: dp_usable_def)
    then have "fst (dp_row n r node ! i) \<le> dp_candidate r (snd node) i ?j"
      using i j by (simp add: dp_row_nth dp_cell_least)
    also have "\<dots> = max (fst (r ! ?j)) ((i - ?j) * 1000 div snd node)"
      using i n split(6) by (simp add: dp_candidate_def dp_stage_small)
    also have "\<dots> \<le> bottleneck (nodes @ [node]) cs"
      using below split j by (simp add: bottleneck_snoc)
    finally show ?thesis .
  qed
  then show ?thesis
    by (auto simp: row_ok_def dp_row_nth dp_cell_le_inf)
qed

lemma dp_rows_snoc:
  "dp_rows n prev (nodes @ [node]) =
     dp_rows n prev nodes @ [dp_row n (last (prev # dp_rows n prev nodes)) node]"
  by (induction nodes arbitrary: prev) (auto simp: Let_def)

definition table_row :: "nat \<Rightarrow> dp_node list \<Rightarrow> (nat \<times> nat) list" where
  "table_row n nodes = last (dp_row0 n # dp_rows n (dp_row0 n) nodes)"

lemma table_row_snoc: "table_row n (nodes @ [node]) = dp_row n (table_row n nodes) node"
  by (simp add: table_row_def dp_rows_snoc)

lemma row_ok_table: "n \<le> 2 ^ 52 \<Longrightarrow> row_ok n nodes (table_row n nodes)"
proof (induction nodes rule: rev_induct)
  case Nil
  show ?case by (simp add: table_row_def row_ok_row0)
next
  case (snoc node nodes)
  then show ?case by (simp add: table_row_snoc row_ok_step)
qed

lemma dp_cuts_snoc: "dp_cuts (rows @ [r]) i = dp_cuts rows (snd (r ! i)) @ [i]"
  by (simp add: dp_cuts_def Let_def)

lemma dp_cuts_not_Nil [simp]: "dp_cuts rows i \<noteq> []"
  by (simp add: dp_cuts_def)

lemma last_dp_cuts [simp]: "last (dp_cuts rows i) = i"
  by (simp add: dp_cuts_def)

text \<open>Backtracking finds a split whose bottleneck is the table's entry.\<close>

lemma dp_cuts_attained:
  assumes "n \<le> 2 ^ 52" and "i \<le> n" and "fst (table_row n nodes ! i) < dp_inf"
  defines "cs \<equiv> dp_cuts (dp_rows n (dp_row0 n) nodes) i"
  shows "cuts_ok nodes cs \<and> hd cs = 0 \<and> bottleneck nodes cs = fst (table_row n nodes ! i)"
  using assms(2,3) unfolding cs_def
proof (induction nodes arbitrary: i rule: rev_induct)
  case Nil
  then show ?case
    by (auto simp: table_row_def dp_row0_nth dp_cuts_def split: if_splits)
next
  case (snoc node nodes)
  let ?r = "table_row n nodes"
  obtain c b where cell: "dp_cell ?r (fst node) (snd node) i = (c, b)"
    by (cases "dp_cell ?r (fst node) (snd node) i")
  from snoc.prems cell have c: "c < dp_inf" and entry: "table_row n (nodes @ [node]) ! i = (c, b)"
    by (auto simp: table_row_snoc dp_row_nth)
  note att = dp_cell_attained [OF cell c]
  let ?cs = "dp_cuts (dp_rows n (dp_row0 n) nodes) b"
  have b: "b \<le> n" using att(1) snoc.prems(1) by simp
  have "fst (?r ! b) < dp_inf"
    using c att(3) by (auto simp: dp_candidate_def)
  from snoc.IH [OF b this]
  have IH: "cuts_ok nodes ?cs" "hd ?cs = 0" "bottleneck nodes ?cs = fst (?r ! b)"
    by auto
  have score: "snd node \<noteq> 0"
    using c att(3) by (auto simp: dp_candidate_def dp_stage_def split: if_splits)
  have cuts: "dp_cuts (dp_rows n (dp_row0 n) (nodes @ [node])) i = ?cs @ [i]"
    using entry by (simp add: dp_rows_snoc dp_cuts_snoc table_row_def)
  have "i - b \<le> 2 ^ 52" using snoc.prems(1) assms(1) by simp
  then have "dp_stage (snd node) (i - b) = (i - b) * 1000 div snd node"
    using score by (rule dp_stage_small)
  with att(3) IH(3) have "bottleneck (nodes @ [node]) (?cs @ [i]) = c"
    by (simp add: bottleneck_snoc [OF IH(1)] dp_candidate_def)
  moreover have "cuts_ok (nodes @ [node]) (?cs @ [i])"
    using IH(1) att score by (simp add: cuts_ok_snoc dp_usable_def)
  ultimately show ?case
    using IH(2) entry cuts by (simp add: hd_append)
qed

section \<open>Well-formed manifests\<close>

text \<open>
  The contract of a manifest: the ranges follow one another from layer 0 to the last, and
  the nodes form one chain, the first with the embedding, the last with the output, each
  linked to the node before and after it.
\<close>

definition ring :: "string list \<Rightarrow> layer_range list \<Rightarrow> node_assignment list" where
  "ring ids rs =
     map (\<lambda>k.
       \<lparr>na_node_id = ids ! k, na_range = rs ! k,
        na_hosts_embedding = (k = 0), na_hosts_output = (Suc k = length ids),
        na_previous = (if k = 0 then None else Some (ids ! (k - 1))),
        na_next = (if Suc k = length ids then None else Some (ids ! Suc k))\<rparr>) [0..<length ids]"

fun covers_from :: "nat \<Rightarrow> nat \<Rightarrow> layer_range list \<Rightarrow> bool" where
  "covers_from s n [] \<longleftrightarrow> s = n"
| "covers_from s n (r # rs) \<longleftrightarrow> fst r = s \<and> fst r \<le> snd r \<and> covers_from (snd r) n rs"

abbreviation mf_ids :: "manifest \<Rightarrow> string list" where
  "mf_ids m \<equiv> map na_node_id (mf_assignments m)"

abbreviation mf_ranges :: "manifest \<Rightarrow> layer_range list" where
  "mf_ranges m \<equiv> map na_range (mf_assignments m)"

definition wf_manifest :: "nat \<Rightarrow> manifest \<Rightarrow> bool" where
  "wf_manifest n m \<longleftrightarrow> mf_assignments m \<noteq> [] \<and>
     mf_assignments m = ring (mf_ids m) (mf_ranges m) \<and> covers_from 0 n (mf_ranges m)"

lemma length_ring [simp]: "length (ring ids rs) = length ids"
  by (simp add: ring_def)

lemma ring_nth:
  "k < length ids \<Longrightarrow> ring ids rs ! k =
     \<lparr>na_node_id = ids ! k, na_range = rs ! k,
      na_hosts_embedding = (k = 0), na_hosts_output = (Suc k = length ids),
      na_previous = (if k = 0 then None else Some (ids ! (k - 1))),
      na_next = (if Suc k = length ids then None else Some (ids ! Suc k))\<rparr>"
  by (simp add: ring_def)

lemma ring_ids [simp]: "map na_node_id (ring ids rs) = ids"
  by (simp add: list_eq_iff_nth_eq ring_nth)

lemma ring_ranges [simp]: "length rs = length ids \<Longrightarrow> map na_range (ring ids rs) = rs"
  by (simp add: list_eq_iff_nth_eq ring_nth)

lemma ring_eq_Nil [simp]: "ring ids rs = [] \<longleftrightarrow> ids = []"
  by (simp add: ring_def)

lemma wf_manifest_ring:
  "length rs = length ids \<Longrightarrow> ids \<noteq> [] \<Longrightarrow> covers_from 0 n rs \<Longrightarrow> mf_assignments m = ring ids rs
     \<Longrightarrow> wf_manifest n m"
  by (simp add: wf_manifest_def)

lemma wf_manifest_nth:
  assumes "wf_manifest n m" and "k < length (mf_assignments m)"
  shows "na_hosts_embedding (mf_assignments m ! k) \<longleftrightarrow> k = 0"
    and "na_hosts_output (mf_assignments m ! k) \<longleftrightarrow> Suc k = length (mf_assignments m)"
    and "na_previous (mf_assignments m ! k) =
      (if k = 0 then None else Some (na_node_id (mf_assignments m ! (k - 1))))"
    and "na_next (mf_assignments m ! k) =
      (if Suc k = length (mf_assignments m) then None else Some (na_node_id (mf_assignments m ! Suc k)))"
proof -
  have "mf_assignments m ! k = ring (mf_ids m) (mf_ranges m) ! k"
    using assms(1) unfolding wf_manifest_def by (metis (no_types))
  also have "\<dots> = \<lparr>na_node_id = mf_ids m ! k, na_range = mf_ranges m ! k,
     na_hosts_embedding = (k = 0), na_hosts_output = (Suc k = length (mf_ids m)),
     na_previous = (if k = 0 then None else Some (mf_ids m ! (k - 1))),
     na_next = (if Suc k = length (mf_ids m) then None else Some (mf_ids m ! Suc k))\<rparr>"
    by (rule ring_nth) (use assms(2) in simp)
  finally have eq: "mf_assignments m ! k = \<dots>" .
  show "na_hosts_embedding (mf_assignments m ! k) \<longleftrightarrow> k = 0"
    by (subst eq) simp
  show "na_hosts_output (mf_assignments m ! k) \<longleftrightarrow> Suc k = length (mf_assignments m)"
    by (subst eq) simp
  show "na_previous (mf_assignments m ! k) =
      (if k = 0 then None else Some (na_node_id (mf_assignments m ! (k - 1))))"
    by (subst eq) (use assms(2) in simp)
  show "na_next (mf_assignments m ! k) =
      (if Suc k = length (mf_assignments m) then None else Some (na_node_id (mf_assignments m ! Suc k)))"
    by (subst eq) (use assms(2) in simp)
qed

text \<open>Every layer is in exactly one range.\<close>

lemma covers_from_bounds:
  "covers_from s n rs \<Longrightarrow> r \<in> set rs \<Longrightarrow> s \<le> fst r \<and> fst r \<le> snd r \<and> snd r \<le> n"
proof (induction rs arbitrary: s)
  case (Cons r' rs)
  have "s' \<le> n" if "covers_from s' n ts" for s' ts
    using that by (induction ts arbitrary: s') fastforce+
  with Cons show ?case by fastforce
qed simp

lemma covers_from_unique:
  assumes "covers_from s n rs" and "s \<le> l" and "l < n"
  shows "\<exists>!k. k < length rs \<and> fst (rs ! k) \<le> l \<and> l < snd (rs ! k)"
  using assms
proof (induction rs arbitrary: s)
  case Nil
  then show ?case by simp
next
  case (Cons r rs)
  show ?case
  proof (cases "l < snd r")
    case True
    have "\<not> (fst (rs ! k) \<le> l)" if "k < length rs" for k
      using covers_from_bounds [of "snd r" n rs "rs ! k"] that Cons.prems(1) True by auto
    with True Cons.prems show ?thesis
      by (intro ex1I [of _ 0]) (auto simp: less_Suc_eq_0_disj)
  next
    case False
    with Cons.IH [of "snd r"] Cons.prems obtain k where
      k: "k < length rs \<and> fst (rs ! k) \<le> l \<and> l < snd (rs ! k)"
      and uniq: "\<And>j. j < length rs \<and> fst (rs ! j) \<le> l \<and> l < snd (rs ! j) \<Longrightarrow> j = k"
      by (auto elim!: ex1E)
    show ?thesis
    proof (rule ex1I [of _ "Suc k"])
      fix j
      assume "j < length (r # rs) \<and> fst ((r # rs) ! j) \<le> l \<and> l < snd ((r # rs) ! j)"
      then show "j = Suc k"
        using False uniq by (cases j) auto
    qed (use k in simp)
  qed
qed

section \<open>The pipeline order of a well-formed manifest\<close>

lemma find_nth:
  "k < length xs \<Longrightarrow> P (xs ! k) \<Longrightarrow> (\<And>j. j < k \<Longrightarrow> \<not> P (xs ! j)) \<Longrightarrow> List.find P xs = Some (xs ! k)"
  by (auto simp: find_Some_iff)

lemma for_node_nth:
  assumes "distinct (mf_ids m)" and "k < length (mf_assignments m)"
  shows "for_node m (mf_ids m ! k) = Some (mf_assignments m ! k)"
  unfolding for_node_def
proof (rule find_nth)
  fix j assume "j < k"
  with assms show "na_node_id (mf_assignments m ! j) \<noteq> mf_ids m ! k"
    by (metis (no_types, lifting) length_map less_trans nat_neq_iff nth_eq_iff_index_eq nth_map)
qed (use assms in auto)

lemma pipeline_walk_from:
  assumes wf: "wf_manifest n m" and dist: "distinct (mf_ids m)"
  shows "k \<le> length (mf_ids m) \<Longrightarrow>
    pipeline_walk m (take k (mf_ids m)) (if k = length (mf_ids m) then None else Some (mf_ids m ! k))
      = Some (mf_ids m)"
proof (induction "length (mf_ids m) - k" arbitrary: k)
  case 0
  then show ?case by simp
next
  case (Suc d)
  then have k: "k < length (mf_ids m)" by simp
  with dist have "mf_ids m ! k \<notin> set (take k (mf_ids m))"
    by (metis distinct_take id_take_nth_drop not_distinct_conv_prefix take_Suc_conv_app_nth)
  moreover have "na_next (mf_assignments m ! k)
      = (if Suc k = length (mf_ids m) then None else Some (mf_ids m ! Suc k))"
    using wf_manifest_nth(4) [OF wf, of k] k by simp
  moreover have "take k (mf_ids m) @ [mf_ids m ! k] = take (Suc k) (mf_ids m)"
    using k by (simp add: take_Suc_conv_app_nth)
  ultimately show ?case
    using Suc.hyps(1) [of "Suc k"] Suc.hyps(2) k for_node_nth [OF dist, of k]
    by (auto simp del: nth_map)
qed

lemma pipeline_order_wf:
  assumes "wf_manifest n m" and "distinct (mf_ids m)"
  shows "pipeline_order m = Some (mf_ids m)"
proof -
  have ne: "0 < length (mf_assignments m)"
    using assms(1) by (simp add: wf_manifest_def)
  then have "List.find na_hosts_embedding (mf_assignments m) = Some (mf_assignments m ! 0)"
    using wf_manifest_nth(1) [OF assms(1), of 0] by (intro find_nth) auto
  moreover have "pipeline_walk m [] (Some (na_node_id (mf_assignments m ! 0))) = Some (mf_ids m)"
    using pipeline_walk_from [OF assms, of 0] ne by simp
  ultimately show ?thesis
    by (simp add: pipeline_order_def)
qed

text \<open>What the order promises of any manifest, malformed ones included.\<close>

definition linked :: "manifest \<Rightarrow> string list \<Rightarrow> bool" where
  "linked m order \<longleftrightarrow> (\<forall>k. Suc k < length order \<longrightarrow>
     (\<exists>a. for_node m (order ! k) = Some a \<and> na_next a = Some (order ! Suc k)))"

lemma pipeline_walk_sound:
  assumes "pipeline_walk m order cur = Some res" and "distinct order" and "linked m order"
    and "order \<noteq> [] \<Longrightarrow> \<exists>a. for_node m (last order) = Some a \<and> na_next a = cur"
  shows "distinct res \<and> linked m res \<and> set res \<subseteq> set order \<union> set (mf_ids m)
    \<and> (\<exists>zs. res = order @ zs \<and> (zs \<noteq> [] \<longrightarrow> cur = Some (hd zs)) \<and> (zs = [] \<longrightarrow> cur = None))
    \<and> (res \<noteq> [] \<longrightarrow> (\<exists>a. for_node m (last res) = Some a \<and> na_next a = None))"
  using assms
proof (induction m order cur rule: pipeline_walk.induct)
  case (1 m order)
  then show ?case by auto
next
  case (2 m order i)
  from "2.prems"(1) obtain a where a: "i \<notin> set order" "for_node m i = Some a"
    "pipeline_walk m (order @ [i]) (na_next a) = Some res"
    by (auto split: if_splits option.splits)
  have "linked m (order @ [i])"
    unfolding linked_def
  proof (intro allI impI)
    fix k assume k: "Suc k < length (order @ [i])"
    show "\<exists>a. for_node m ((order @ [i]) ! k) = Some a \<and> na_next a = Some ((order @ [i]) ! Suc k)"
    proof (cases "Suc k < length order")
      case True
      with "2.prems"(3) show ?thesis by (simp add: linked_def nth_append)
    next
      case False
      with k have "Suc k = length order" by simp
      with "2.prems"(4) show ?thesis
        by (cases order rule: rev_cases) (auto simp: nth_append)
    qed
  qed
  with "2.IH" [OF a(1,2,3)] a "2.prems"(2) for_node_Some [OF a(2)]
  show ?case by auto
qed

section \<open>The manifests of the solvers are well-formed\<close>

definition node_capacity :: "u64 \<Rightarrow> u64 \<Rightarrow> capability \<Rightarrow> nat" where
  "node_capacity layer_bytes overhead c =
     (unat (cap_memory c) - unat overhead) div unat layer_bytes"

definition cluster_nodes :: "u64 \<Rightarrow> u64 \<Rightarrow> u64 \<Rightarrow> capability list \<Rightarrow> dp_node list" where
  "cluster_nodes layer_bytes eo po caps =
     map (\<lambda>k. (node_capacity layer_bytes (node_overhead k eo po) (caps ! k), unat (cap_score (caps ! k))))
       [0..<length caps]"

lemma max_layers_Ok: "max_layers ov lb c = Ok l \<Longrightarrow> l = node_capacity lb ov c"
  by (auto simp: max_layers_def node_capacity_def unat_div unat_sub word_le_nat_alt not_le
      split: if_splits)

lemma max_layers_total: "lb \<noteq> 0 \<Longrightarrow> \<exists>l. max_layers ov lb c = Ok l"
  by (simp add: max_layers_def)

lemma max_layers_per_node_Ok:
  "max_layers_per_node i lb eo po caps = Ok ls \<Longrightarrow>
     ls = map (\<lambda>k. node_capacity lb (node_overhead (i + k) eo po) (caps ! k)) [0..<length caps]"
proof (induction caps arbitrary: i ls)
  case Nil
  then show ?case by simp
next
  case (Cons c caps)
  then obtain l ls' where "max_layers (node_overhead i eo po) lb c = Ok l"
    and ls': "max_layers_per_node (Suc i) lb eo po caps = Ok ls'" and "ls = l # ls'"
    by (auto simp: outcome_simps)
  with Cons.IH [OF ls'] show ?case
    by (simp add: max_layers_Ok map_upt_Suc del: upt_Suc)
qed

lemma max_layers_per_node_total: "lb \<noteq> 0 \<Longrightarrow> \<exists>ls. max_layers_per_node i lb eo po caps = Ok ls"
proof (induction caps arbitrary: i)
  case (Cons c caps)
  with max_layers_total [OF Cons.prems] show ?case
    by (metis and_then.simps(1) max_layers_per_node.simps(2))
qed simp

lemma zip_capacities:
  "zip (map (\<lambda>k. node_capacity lb (node_overhead k eo po) (caps ! k)) [0..<length caps])
       (map (unat \<circ> cap_score) caps) = cluster_nodes lb eo po caps"
  by (rule nth_equalityI) (simp_all add: cluster_nodes_def)

lemma length_cluster_nodes [simp]: "length (cluster_nodes lb eo po caps) = length caps"
  by (simp add: cluster_nodes_def)

lemma build_assignments_ring:
  "length cuts = Suc (length caps) \<Longrightarrow>
     build_assignments caps cuts = ring (map cap_node_id caps) (zip cuts (tl cuts))"
  by (rule nth_equalityI) (simp_all add: build_assignments_def ring_nth nth_tl)

lemma covers_from_cuts: "cuts_ok nodes cs \<Longrightarrow> covers_from (hd cs) (last cs) (zip cs (tl cs))"
proof (induction nodes cs rule: cuts_ok.induct)
  case (2 node nodes s e cs)
  then show ?case by simp
qed auto

text \<open>What an \<open>Ok\<close> of \<open>auto_partition\<close> is made of.\<close>

lemma auto_partition_Ok:
  assumes "auto_partition sha model_id caps n lb eo po = Ok m"
  defines "nodes \<equiv> cluster_nodes lb eo po caps"
  defines "cuts \<equiv> dp_cuts (dp_rows n (dp_row0 n) nodes) n"
  shows "caps \<noteq> []" and "n \<noteq> 0" and "fst (table_row n nodes ! n) \<noteq> dp_inf"
    and "mf_model_id m = model_id" and "mf_assignments m = build_assignments caps cuts"
    and "mf_hash m = compute_manifest_hash sha model_id n (mf_assignments m)"
proof -
  obtain maxes where Ok: "max_layers_per_node 0 lb eo po caps = Ok maxes"
    using assms(1) unfolding auto_partition_def
    by (cases "max_layers_per_node 0 lb eo po caps")
      (simp_all only: and_then.simps outcome.distinct split: if_splits)
  then have nodes: "zip maxes (map (unat \<circ> cap_score) caps) = nodes"
    using max_layers_per_node_Ok [OF Ok] by (simp only: nodes_def zip_capacities add_0)
  have "caps \<noteq> [] \<and> n \<noteq> 0 \<and> fst (table_row n nodes ! n) \<noteq> dp_inf
    \<and> m = \<lparr>mf_model_id = model_id,
           mf_hash = compute_manifest_hash sha model_id n (build_assignments caps cuts),
           mf_assignments = build_assignments caps cuts\<rparr>"
    using assms(1) unfolding auto_partition_def Ok and_then.simps Let_def nodes cuts_def table_row_def
    by (simp only: outcome.inject outcome.distinct simp_thms split: if_splits)
  then show "caps \<noteq> []" and "n \<noteq> 0" and "fst (table_row n nodes ! n) \<noteq> dp_inf"
    and "mf_model_id m = model_id" and "mf_assignments m = build_assignments caps cuts"
    and "mf_hash m = compute_manifest_hash sha model_id n (mf_assignments m)"
    by simp_all
qed

lemma auto_partition_cuts:
  assumes "auto_partition sha model_id caps n lb eo po = Ok m" and "n \<le> 2 ^ 52"
  defines "nodes \<equiv> cluster_nodes lb eo po caps"
  defines "cuts \<equiv> dp_cuts (dp_rows n (dp_row0 n) nodes) n"
  shows "cuts_ok nodes cuts" and "hd cuts = 0" and "last cuts = n"
    and "bottleneck nodes cuts = fst (table_row n nodes ! n)"
    and "mf_assignments m = ring (map cap_node_id caps) (zip cuts (tl cuts))"
proof -
  have "row_ok n nodes (table_row n nodes)"
    using assms(2) by (rule row_ok_table)
  with auto_partition_Ok(3) [OF assms(1)] have "fst (table_row n nodes ! n) < dp_inf"
    unfolding nodes_def row_ok_def by (metis le_neq_implies_less order_refl)
  from dp_cuts_attained [OF assms(2) order_refl this]
  show ok: "cuts_ok nodes cuts" and "hd cuts = 0"
    and "bottleneck nodes cuts = fst (table_row n nodes ! n)"
    by (auto simp: cuts_def)
  show "last cuts = n" by (simp add: cuts_def)
  show "mf_assignments m = ring (map cap_node_id caps) (zip cuts (tl cuts))"
    using auto_partition_Ok(5) [OF assms(1)] cuts_ok_length [OF ok]
    by (simp add: build_assignments_ring cuts_def nodes_def)
qed

lemma auto_partition_wf:
  assumes "auto_partition sha model_id caps n lb eo po = Ok m" and "n \<le> 2 ^ 52"
  shows "wf_manifest n m" and "mf_ids m = map cap_node_id caps"
proof -
  note cuts = auto_partition_cuts [OF assms]
  note len = cuts_ok_length [OF cuts(1)]
  show "wf_manifest n m"
  proof (rule wf_manifest_ring [OF _ _ _ cuts(5)])
    show "map cap_node_id caps \<noteq> []"
      using auto_partition_Ok(1) [OF assms(1)] by simp
    show "covers_from 0 n (zip (dp_cuts (dp_rows n (dp_row0 n) (cluster_nodes lb eo po caps)) n)
        (tl (dp_cuts (dp_rows n (dp_row0 n) (cluster_nodes lb eo po caps)) n)))"
      using covers_from_cuts [OF cuts(1)] cuts(2,3) by simp
  qed (use len in simp)
  show "mf_ids m = map cap_node_id caps"
    by (simp add: cuts(5))
qed

lemma fold_link_next_nth:
  "k < length as \<Longrightarrow> length (fold link_next [0..<k] as) = length as \<and>
    (\<forall>j < length as. fold link_next [0..<k] as ! j =
      (if j < k then (as ! j)\<lparr>na_next := Some (na_node_id (as ! Suc j))\<rparr> else as ! j))"
proof (induction k)
  case (Suc k)
  then show ?case by (auto simp: link_next_def nth_list_update)
qed simp

lemma manual_assignments_ring: "manual_assignments rs = ring (map fst rs) (map snd rs)"
proof (cases "rs = []")
  case True
  then show ?thesis by (simp add: manual_assignments_def manual_first_pass_def ring_def)
next
  case False
  let ?as = "manual_first_pass rs"
  have len: "length ?as = length rs"
    by (simp add: manual_first_pass_def)
  with False have "length ?as - 1 < length ?as" by simp
  from fold_link_next_nth [OF this] len show ?thesis
    by (intro nth_equalityI)
      (auto simp: manual_assignments_def Let_def ring_nth manual_first_pass_def)
qed

lemma check_cover_Ok:
  "check_cover s rs = Ok e \<longleftrightarrow>
     covers_from s e (map snd rs) \<and> (\<forall>r \<in> set rs. fst (snd r) < snd (snd r))"
proof (induction s rs arbitrary: e rule: check_cover.induct)
  case (1 s)
  then show ?case by auto
next
  case (2 s node a b rs)
  then show ?case by auto
qed

lemma manual_partition_Ok:
  assumes "manual_partition sha model_id caps n ranges lb eo po = Ok m"
  defines "rs \<equiv> sort_key (fst \<circ> snd) ranges"
  shows "check_cover 0 rs = Ok n" and "check_memory caps lb eo po 0 rs = Ok ()"
    and "mf_assignments m = ring (map fst rs) (map snd rs)" and "mf_model_id m = model_id"
    and "mf_hash m = compute_manifest_hash sha model_id n (mf_assignments m)"
  using assms
  by (auto simp: manual_partition_def Let_def outcome_simps manual_assignments_ring split: if_splits)

lemma manual_partition_wf:
  assumes "manual_partition sha model_id caps n ranges lb eo po = Ok m" and "n \<noteq> 0"
  shows "wf_manifest n m" and "mf_ids m = map fst (sort_key (fst \<circ> snd) ranges)"
proof -
  note parts = manual_partition_Ok [OF assms(1)]
  let ?rs = "sort_key (fst \<circ> snd) ranges"
  have cover: "covers_from 0 n (map snd ?rs)"
    using parts(1) by (simp add: check_cover_Ok)
  with assms(2) have "?rs \<noteq> []" by (cases ?rs) auto
  then show "wf_manifest n m"
    using cover parts(3) by (intro wf_manifest_ring) auto
  show "mf_ids m = map fst ?rs"
    by (simp add: parts(3))
qed

section \<open>The contract the cluster relies on\<close>

text \<open>
  The leader and the coordinator only know that the manifest came out of a solver.  What they
  rely on is one law, that every \<open>Ok\<close> is a well-formed manifest over the given nodes.
\<close>

locale partition_source =
  fixes solve :: "'p \<Rightarrow> manifest partition_result"
    and layers_of :: "'p \<Rightarrow> nat"
    and nodes_of :: "'p \<Rightarrow> string list"
    and admissible :: "'p \<Rightarrow> bool"
  assumes solve_wf: "admissible p \<Longrightarrow> solve p = Ok m \<Longrightarrow> wf_manifest (layers_of p) m"
    and solve_nodes: "admissible p \<Longrightarrow> solve p = Ok m \<Longrightarrow> mf_ids m = nodes_of p"
begin

lemma pipeline_order_nodes:
  assumes "admissible p" and "solve p = Ok m" and "distinct (nodes_of p)"
  shows "pipeline_order m = Some (nodes_of p)"
  using pipeline_order_wf [OF solve_wf [OF assms(1,2)]] solve_nodes [OF assms(1,2)] assms(3)
  by simp

lemma layer_served_once:
  assumes "admissible p" and "solve p = Ok m" and "l < layers_of p"
  shows "\<exists>!k. k < length (mf_assignments m)
    \<and> fst (na_range (mf_assignments m ! k)) \<le> l \<and> l < snd (na_range (mf_assignments m ! k))"
proof -
  have "covers_from 0 (layers_of p) (mf_ranges m)"
    using solve_wf [OF assms(1,2)] by (simp add: wf_manifest_def)
  from covers_from_unique [OF this _ assms(3)]
  have "\<exists>!k. k < length (mf_ranges m) \<and> fst (mf_ranges m ! k) \<le> l \<and> l < snd (mf_ranges m ! k)"
    by simp
  moreover have "(\<lambda>k. k < length (mf_ranges m) \<and> fst (mf_ranges m ! k) \<le> l \<and> l < snd (mf_ranges m ! k))
    = (\<lambda>k. k < length (mf_assignments m)
      \<and> fst (na_range (mf_assignments m ! k)) \<le> l \<and> l < snd (na_range (mf_assignments m ! k)))"
    by (rule ext) (metis length_map nth_map)
  ultimately show ?thesis by simp
qed

lemma plan_nodes:
  assumes "admissible p" and "solve p = Ok m" and "distinct (nodes_of p)"
  shows "forward_plan m i = Some (map (\<lambda>j. \<lparr>hop_node_id = j, hop_local = (j = i)\<rparr>) (nodes_of p))"
  using pipeline_order_nodes [OF assms] by (simp add: forward_plan_def)

lemma hosts:
  assumes "admissible p" and "solve p = Ok m"
  shows "embedding_host m = Some (hd (nodes_of p))" and "output_host m = Some (last (nodes_of p))"
proof -
  note wf = solve_wf [OF assms] and ids = solve_nodes [OF assms]
  have ne: "mf_assignments m \<noteq> []"
    using wf by (simp add: wf_manifest_def)
  let ?n = "length (mf_assignments m) - 1"
  have n: "?n < length (mf_assignments m)"
    using ne by simp
  have "List.find na_hosts_embedding (mf_assignments m) = Some (mf_assignments m ! 0)"
    using wf_manifest_nth(1) [OF wf, of 0] ne by (intro find_nth) auto
  then show "embedding_host m = Some (hd (nodes_of p))"
    using ne by (simp add: embedding_host_def hd_conv_nth flip: ids)
  have "List.find na_hosts_output (mf_assignments m) = Some (mf_assignments m ! ?n)"
    using wf_manifest_nth(2) [OF wf] n by (intro find_nth) auto
  then show "output_host m = Some (last (nodes_of p))"
    using ne by (simp add: output_host_def last_conv_nth flip: ids)
qed

end

interpretation auto: partition_source
  "\<lambda>(sha, model_id, caps, n, lb, eo, po). auto_partition sha model_id caps n lb eo po"
  "\<lambda>(sha, model_id, caps, n, lb, eo, po). n"
  "\<lambda>(sha, model_id, caps, n, lb, eo, po). map cap_node_id caps"
  "\<lambda>(sha, model_id, caps, n, lb, eo, po). n \<le> 2 ^ 52"
  by unfold_locales (auto simp: auto_partition_wf simp del: power_numeral)

interpretation agreed: partition_source
  "\<lambda>(sha, model_id, caps, n, lb, eo, po). agreed_manifest sha model_id caps n lb eo po"
  "\<lambda>(sha, model_id, caps, n, lb, eo, po). n"
  "\<lambda>(sha, model_id, caps, n, lb, eo, po). map cap_node_id (sort_key cap_node_id caps)"
  "\<lambda>(sha, model_id, caps, n, lb, eo, po). n \<le> 2 ^ 52"
  by unfold_locales (auto simp: agreed_manifest_def auto_partition_wf simp del: power_numeral)

interpretation manual: partition_source
  "\<lambda>(sha, model_id, caps, n, ranges, lb, eo, po). manual_partition sha model_id caps n ranges lb eo po"
  "\<lambda>(sha, model_id, caps, n, ranges, lb, eo, po). n"
  "\<lambda>(sha, model_id, caps, n, ranges, lb, eo, po). map fst (sort_key (fst \<circ> snd) ranges)"
  "\<lambda>(sha, model_id, caps, n, ranges, lb, eo, po). n \<noteq> 0"
  by unfold_locales (auto simp: manual_partition_wf)

section \<open>Properties\<close>

lemma mf_cuts:
  assumes "auto_partition sha model_id caps n lb eo po = Ok m" and "n \<le> 2 ^ 52"
  shows "0 # map snd (mf_ranges m) = dp_cuts (dp_rows n (dp_row0 n) (cluster_nodes lb eo po caps)) n"
proof -
  let ?cuts = "dp_cuts (dp_rows n (dp_row0 n) (cluster_nodes lb eo po caps)) n"
  note cuts = auto_partition_cuts [OF assms]
  have len: "length ?cuts = Suc (length caps)"
    using cuts_ok_length [OF cuts(1)] by simp
  then have "map snd (mf_ranges m) = tl ?cuts"
    using cuts(5) by (simp add: map_snd_zip_take)
  moreover have "?cuts = 0 # tl ?cuts"
    using cuts(2) len by (metis dp_cuts_not_Nil list.collapse)
  ultimately show ?thesis by simp
qed

lemma cuts_ok_total: "cuts_ok nodes cs \<Longrightarrow> last cs - hd cs \<le> sum_list (map fst nodes)"
proof (induction nodes cs rule: cuts_ok.induct)
  case (2 node nodes s e cs)
  then show ?case by (auto split: if_splits)
qed auto

lemma auto_partition_feasible:
  assumes "layer_bytes \<noteq> 0" and "n \<noteq> 0" and "n \<le> 2 ^ 52"
    and nodes: "nodes = cluster_nodes layer_bytes eo po caps"
    and fits: "sum_list (map fst nodes) < 2 ^ 64"
    and cs: "cuts_ok nodes cs" "hd cs = 0" "last cs = n"
  shows "\<exists>m. auto_partition sha model_id caps n layer_bytes eo po = Ok m"
proof -
  obtain maxes where maxes: "max_layers_per_node 0 layer_bytes eo po caps = Ok maxes"
    using max_layers_per_node_total [OF assms(1)] by blast
  have zip: "zip maxes (map (unat \<circ> cap_score) caps) = nodes"
    using max_layers_per_node_Ok [OF maxes] by (simp only: nodes zip_capacities add_0)
  have len: "length maxes = length caps"
    using max_layers_per_node_Ok [OF maxes] by simp
  then have sum: "sum_list maxes = sum_list (map fst nodes)"
    by (simp flip: zip)
  then have cap: "\<not> sum_list maxes mod 2 ^ 64 < n"
    using cuts_ok_total [OF cs(1)] cs(2,3) fits by simp
  have ne: "caps \<noteq> []"
  proof
    assume "caps = []"
    then have "nodes = []" using nodes by (simp add: cluster_nodes_def)
    with cs \<open>n \<noteq> 0\<close> show False by (cases cs rule: list_two_cases) auto
  qed
  have "fst (table_row n nodes ! n) \<le> bottleneck nodes cs"
    using row_ok_table [OF assms(3)] cs by (auto simp: row_ok_def)
  also have "\<dots> < dp_inf"
    using cs assms(3) by (intro bottleneck_less_inf) auto
  finally have "fst (table_row n nodes ! n) \<noteq> dp_inf" by simp
  then show ?thesis
    using ne assms(2) cap unfolding auto_partition_def maxes and_then.simps Let_def zip table_row_def
    by (simp only: if_False simp_thms) blast
qed

text \<open>The bytes that are hashed pin the ranges down once the node ids are known.\<close>

lemma assignment_bytes_inject:
  assumes "map na_node_id as = map na_node_id bs"
    and "\<forall>a \<in> set as \<union> set bs. fst (na_range a) < 2 ^ 64 \<and> snd (na_range a) < 2 ^ 64"
    and "concat (map assignment_bytes as) = concat (map assignment_bytes bs)"
  shows "map na_range as = map na_range bs"
proof -
  have "length as = length bs"
    using assms(1) by (metis length_map)
  then show ?thesis
    using assms
  proof (induction as bs rule: list_induct2)
    case (Cons a as b bs)
    from Cons.prems(1,3) have
      "to_le 8 (fst (na_range a)) @ to_le 8 (snd (na_range a)) @ concat (map assignment_bytes as)
        = to_le 8 (fst (na_range b)) @ to_le 8 (snd (na_range b)) @ concat (map assignment_bytes bs)"
      by (simp add: assignment_bytes_def [of a] assignment_bytes_def [of b])
    then have "to_le 8 (fst (na_range a)) = to_le 8 (fst (na_range b))"
      and "to_le 8 (snd (na_range a)) = to_le 8 (snd (na_range b))"
      and "concat (map assignment_bytes as) = concat (map assignment_bytes bs)"
      by (simp_all add: append_eq_append_conv)
    moreover have "(2::nat) ^ 64 = 256 ^ 8" by simp
    ultimately have "na_range a = na_range b"
      using Cons.prems(2) by (auto simp: to_le_inject prod_eq_iff simp del: power_numeral)
    with Cons show ?case by (simp add: \<open>concat (map assignment_bytes as) = _\<close>)
  qed simp
qed

lemma manifest_preimage_inject:
  assumes "map na_node_id as = map na_node_id bs"
    and "\<forall>a \<in> set as \<union> set bs. fst (na_range a) < 2 ^ 64 \<and> snd (na_range a) < 2 ^ 64"
    and "manifest_preimage mid n as = manifest_preimage mid n bs"
  shows "map na_range as = map na_range bs"
  using assms(3) by (intro assignment_bytes_inject [OF assms(1,2)]) (simp add: manifest_preimage_def)

lemma wf_manifest_range_bound:
  assumes "wf_manifest n m" and "a \<in> set (mf_assignments m)"
  shows "fst (na_range a) \<le> snd (na_range a)" and "snd (na_range a) \<le> n"
  using assms covers_from_bounds [of 0 n "mf_ranges m" "na_range a"]
  by (auto simp: wf_manifest_def)

text \<open>
  C14: the split that \<open>auto_partition\<close> returns respects every node's memory and score, and no
  split of the layers over the same nodes in the same order that does has a smaller
  bottleneck (the cost of the slowest stage).  Layer counts up to 2^52 keep the source's
  64-bit arithmetic exact and below its \<open>INF\<close>.
\<close>

theorem auto_partition_optimal:
  assumes "auto_partition sha model_id caps n lb eo po = Ok m" and "n \<le> 2 ^ 52"
    and "cuts_ok (cluster_nodes lb eo po caps) cs" and "hd cs = 0" and "last cs = n"
  shows "cuts_ok (cluster_nodes lb eo po caps) (0 # map snd (mf_ranges m))
    \<and> bottleneck (cluster_nodes lb eo po caps) (0 # map snd (mf_ranges m))
        \<le> bottleneck (cluster_nodes lb eo po caps) cs"
proof -
  note cuts = auto_partition_cuts [OF assms(1,2)]
  have "row_ok n (cluster_nodes lb eo po caps) (table_row n (cluster_nodes lb eo po caps))"
    using assms(2) by (rule row_ok_table)
  with assms(3-5) cuts(1,4) show ?thesis
    unfolding mf_cuts [OF assms(1,2)] row_ok_def by auto
qed

definition ex_caps :: "capability list" where
  "ex_caps =
     [\<lparr>cap_node_id = ''b'', cap_backend = Cuda, cap_device_index = 0, cap_memory = 100,
       cap_score = 2, cap_link_mbps = 0\<rparr>,
      \<lparr>cap_node_id = ''a'', cap_backend = Cpu, cap_device_index = 0, cap_memory = 50,
       cap_score = 1, cap_link_mbps = 0\<rparr>]"

definition ex_manifest :: manifest where
  "ex_manifest = unwrap (auto_partition (\<lambda>b. b) ''m'' ex_caps 3 10 5 1)"

lemma ex_auto: "auto_partition (\<lambda>b. b) ''m'' ex_caps 3 10 5 1 = Ok ex_manifest"
  by code_simp

lemma auto_partition_optimal_witness:
  "bottleneck (cluster_nodes 10 5 1 ex_caps) (0 # map snd (mf_ranges ex_manifest))
     \<le> bottleneck (cluster_nodes 10 5 1 ex_caps) [0, 1, 3]"
proof -
  have "cuts_ok (cluster_nodes 10 5 1 ex_caps) [0, 1, 3]" by code_simp
  from auto_partition_optimal [OF ex_auto _ this] show ?thesis by simp
qed



text \<open>
  C20: nodes that discover the same peers agree without a leader: the agreed manifest, its
  hash included, does not depend on the order in which the capabilities were collected.
\<close>

theorem agreed_manifest_order_independent:
  assumes "mset caps = mset caps'" and "distinct (map cap_node_id caps)"
  shows "agreed_manifest sha model_id caps n lb eo po = agreed_manifest sha model_id caps' n lb eo po"
  by (simp add: agreed_manifest_def sort_key_perm_eq [OF assms])

lemma agreed_manifest_order_independent_witness:
  "agreed_manifest (\<lambda>b. b) ''m'' ex_caps 3 10 5 1 = agreed_manifest (\<lambda>b. b) ''m'' (rev ex_caps) 3 10 5 1"
  by (rule agreed_manifest_order_independent) (simp_all add: ex_caps_def)

text \<open>
  C39: an agreed manifest gives every coordinator the same ring: the pipeline order is the
  node ids in ascending order, every layer below \<open>n\<close> lies in exactly one node's range, and
  the plan of the coordinator \<open>i\<close> visits that order with only its own hop marked local.
\<close>

theorem agreed_manifest_pipeline:
  assumes "agreed_manifest sha model_id caps n lb eo po = Ok m" and "n \<le> 2 ^ 52"
    and "distinct (map cap_node_id caps)"
  shows "pipeline_order m = Some (map cap_node_id (sort_key cap_node_id caps))
    \<and> (\<forall>l < n. \<exists>!k. k < length (mf_assignments m)
      \<and> fst (na_range (mf_assignments m ! k)) \<le> l \<and> l < snd (na_range (mf_assignments m ! k)))
    \<and> (\<forall>i. forward_plan m i =
      Some (map (\<lambda>c. \<lparr>hop_node_id = cap_node_id c, hop_local = (cap_node_id c = i)\<rparr>)
        (sort_key cap_node_id caps)))"
proof (intro conjI)
  have "mset (map cap_node_id (sort_key cap_node_id caps)) = mset (map cap_node_id caps)"
    by simp
  then have dist: "distinct (map cap_node_id (sort_key cap_node_id caps))"
    using assms(3) by (metis mset_eq_imp_distinct_iff)
  let ?p = "(sha, model_id, caps, n, lb, eo, po)"
  show "pipeline_order m = Some (map cap_node_id (sort_key cap_node_id caps))"
    using agreed.pipeline_order_nodes [of ?p m] assms(1,2) dist by simp
  show "\<forall>l < n. \<exists>!k. k < length (mf_assignments m)
      \<and> fst (na_range (mf_assignments m ! k)) \<le> l \<and> l < snd (na_range (mf_assignments m ! k))"
    using agreed.layer_served_once [of ?p m] assms(1,2) by simp
  show "\<forall>i. forward_plan m i =
      Some (map (\<lambda>c. \<lparr>hop_node_id = cap_node_id c, hop_local = (cap_node_id c = i)\<rparr>)
        (sort_key cap_node_id caps))"
    using agreed.plan_nodes [of ?p m] assms(1,2) dist by (simp add: comp_def)
qed

definition ex_agreed :: manifest where
  "ex_agreed = unwrap (agreed_manifest (\<lambda>b. b) ''m'' ex_caps 3 10 5 1)"

lemma ex_agreed: "agreed_manifest (\<lambda>b. b) ''m'' ex_caps 3 10 5 1 = Ok ex_agreed"
  by code_simp

lemma agreed_manifest_pipeline_witness: "pipeline_order ex_agreed = Some [''a'', ''b'']"
proof -
  have "distinct (map cap_node_id ex_caps)" by (simp add: ex_caps_def)
  from agreed_manifest_pipeline [OF ex_agreed _ this]
  have "pipeline_order ex_agreed = Some (map cap_node_id (sort_key cap_node_id ex_caps))" by simp
  moreover have "map cap_node_id (sort_key cap_node_id ex_caps) = [''a'', ''b'']" by code_simp
  ultimately show ?thesis by simp
qed

text \<open>A range fits the first node of its name: the memory it needs, in 64 bits, is there.\<close>

definition range_fits :: "capability list \<Rightarrow> u64 \<Rightarrow> u64 \<Rightarrow> u64 \<Rightarrow> nat \<Rightarrow> string \<times> layer_range \<Rightarrow> bool" where
  "range_fits caps lb eo po i r =
     (case List.find (\<lambda>c. cap_node_id c = fst r) caps of
        None \<Rightarrow> False
      | Some c \<Rightarrow> of_nat (snd (snd r) - fst (snd r)) * lb + node_overhead i eo po \<le> cap_memory c)"

lemma check_memory_Ok:
  "check_memory caps lb eo po i rs = Ok () \<longleftrightarrow> (\<forall>k < length rs. range_fits caps lb eo po (i + k) (rs ! k))"
proof (induction rs arbitrary: i)
  case (Cons r rs)
  obtain node s e where r: "r = (node, s, e)" by (cases r) auto
  have "(\<forall>k < length (r # rs). range_fits caps lb eo po (i + k) ((r # rs) ! k))
    \<longleftrightarrow> range_fits caps lb eo po i r \<and> (\<forall>k < length rs. range_fits caps lb eo po (Suc i + k) (rs ! k))"
    by (auto simp: nth_Cons split: nat.split)
  then show ?case
    using Cons.IH [of "Suc i"]
    by (auto simp: r range_fits_def outcome_simps Let_def not_less ok_or_def split: option.splits)
qed simp

text \<open>
  C21: \<open>manual_partition\<close> returns a manifest exactly when the override, sorted by start, is
  a gap-free cover of the layers by non-empty ranges whose nodes are all known and have the
  memory; the manifest then is the ring over these ranges, its hash is that of its content
  and the result never panics.
\<close>

theorem manual_partition_correct:
  fixes ranges :: "(string \<times> layer_range) list"
  defines "rs \<equiv> sort_key (fst \<circ> snd) ranges"
  shows "((\<exists>m. manual_partition sha model_id caps n ranges lb eo po = Ok m) \<longleftrightarrow>
        covers_from 0 n (map snd rs) \<and> (\<forall>r \<in> set rs. fst (snd r) < snd (snd r))
          \<and> (\<forall>i < length rs. range_fits caps lb eo po i (rs ! i)))
    \<and> manual_partition sha model_id caps n ranges lb eo po \<noteq> Panic
    \<and> (\<forall>m. manual_partition sha model_id caps n ranges lb eo po = Ok m \<longrightarrow>
        mf_assignments m = ring (map fst rs) (map snd rs)
          \<and> mf_hash m = compute_manifest_hash sha model_id n (mf_assignments m))"
proof -
  have no_panic: "check_cover s qs \<noteq> Panic" "check_memory caps lb eo po i qs \<noteq> Panic" for s i qs
    by (induction qs arbitrary: s i) (auto simp: outcome_simps Let_def split: if_splits)
  have "(\<exists>m. manual_partition sha model_id caps n ranges lb eo po = Ok m) \<longleftrightarrow>
      covers_from 0 n (map snd rs) \<and> (\<forall>r \<in> set rs. fst (snd r) < snd (snd r))
        \<and> (\<forall>i < length rs. range_fits caps lb eo po i (rs ! i))"
    using check_cover_Ok [of 0 rs n] check_memory_Ok [of caps lb eo po 0 rs]
    by (auto simp: manual_partition_def rs_def Let_def outcome_simps split: if_splits)
  moreover have "manual_partition sha model_id caps n ranges lb eo po \<noteq> Panic"
    using no_panic by (auto simp: manual_partition_def Let_def outcome_simps split: if_splits)
  moreover have "mf_assignments m = ring (map fst rs) (map snd rs)
        \<and> mf_hash m = compute_manifest_hash sha model_id n (mf_assignments m)"
    if "manual_partition sha model_id caps n ranges lb eo po = Ok m" for m
    using manual_partition_Ok(3,5) [OF that] unfolding rs_def by blast
  ultimately show ?thesis by blast
qed

definition ex_ranges :: "(string \<times> layer_range) list" where
  "ex_ranges = [(''b'', 1, 3), (''a'', 0, 1)]"

definition ex_manual :: manifest where
  "ex_manual = unwrap (manual_partition (\<lambda>b. b) ''m'' ex_caps 3 ex_ranges 10 5 1)"

lemma ex_manual: "manual_partition (\<lambda>b. b) ''m'' ex_caps 3 ex_ranges 10 5 1 = Ok ex_manual"
  by code_simp

lemma manual_partition_correct_witness:
  "mf_assignments ex_manual = ring [''a'', ''b''] [(0, 1), (1, 3)]
    \<and> covers_from 0 3 [(0, 1), (1, 3)]"
proof -
  have rs: "sort_key (fst \<circ> snd) ex_ranges = [(''a'', 0, 1), (''b'', 1, 3)]"
    by (simp add: ex_ranges_def)
  show ?thesis
    using manual_partition_correct [of "\<lambda>b. b" "''m''" ex_caps 3 ex_ranges 10 5 1] ex_manual
    by (auto simp: rs)
qed

lemma pipeline_order_facts:
  assumes "pipeline_order m = Some order"
  shows "distinct order \<and> set order = set (mf_ids m) \<and> linked m order
    \<and> order \<noteq> [] \<and> embedding_host m = Some (hd order)
    \<and> (\<exists>a. for_node m (last order) = Some a \<and> na_next a = None)"
proof -
  from assms obtain a where a: "List.find na_hosts_embedding (mf_assignments m) = Some a"
    "pipeline_walk m [] (Some (na_node_id a)) = Some order"
    by (auto simp: pipeline_order_def split: option.splits if_splits)
  have "linked m []" by (simp add: linked_def)
  with pipeline_walk_sound [OF a(2)] have walk: "distinct order \<and> linked m order
      \<and> set order \<subseteq> set (mf_ids m) \<and> order \<noteq> [] \<and> hd order = na_node_id a
      \<and> (\<exists>a. for_node m (last order) = Some a \<and> na_next a = None)"
    by auto
  have "length order = length (mf_ids m)"
    using assms by (auto simp: pipeline_order_def split: option.splits if_splits)
  with walk have "card (set (mf_ids m)) \<le> card (set order)"
    by (metis card_length distinct_card)
  with walk have "set order = set (mf_ids m)"
    by (metis List.finite_set card_seteq)
  with walk a show ?thesis
    by (simp add: embedding_host_def)
qed

text \<open>
  Whatever the manifest, \<open>pipeline_order\<close> ends, and an order it returns visits every
  node, each once, starts at the embedding host, follows \<open>next_node\<close> and stops at a
  node that has no next one.
\<close>

theorem pipeline_order_sound:
  assumes "pipeline_order m = Some order"
  shows "distinct order \<and> set order = set (mf_ids m) \<and> linked m order
    \<and> order \<noteq> [] \<and> embedding_host m = Some (hd order)
    \<and> (\<exists>a. for_node m (last order) = Some a \<and> na_next a = None)"
  using pipeline_order_facts [OF assms] .

lemma pipeline_order_sound_witness:
  "pipeline_order ex_manual = Some [''a'', ''b''] \<and> embedding_host ex_manual = Some ''a''"
proof -
  have "pipeline_order ex_manual = Some [''a'', ''b'']" by code_simp
  with pipeline_order_sound [OF this] show ?thesis by simp
qed

text \<open>
  C40: two well-formed manifests over the same nodes in the same order agree, by the hash test
  every peer makes, exactly when they give every node the same layers, provided the hash does
  not collide on their two contents.
\<close>

theorem manifests_agree_iff_same_layers:
  assumes "wf_manifest n m" and "wf_manifest n m'" and "mf_ids m = mf_ids m'"
    and "mf_hash m = compute_manifest_hash sha mid n (mf_assignments m)"
    and "mf_hash m' = compute_manifest_hash sha mid n (mf_assignments m')"
    and "n < 2 ^ 64"
    and no_collision: "sha (manifest_preimage mid n (mf_assignments m))
        = sha (manifest_preimage mid n (mf_assignments m'))
      \<Longrightarrow> manifest_preimage mid n (mf_assignments m) = manifest_preimage mid n (mf_assignments m')"
  shows "manifests_agree m m' \<longleftrightarrow> mf_ranges m = mf_ranges m'"
proof
  assume "manifests_agree m m'"
  then have "manifest_preimage mid n (mf_assignments m) = manifest_preimage mid n (mf_assignments m')"
    using assms(4,5) no_collision by (simp add: manifests_agree_def compute_manifest_hash_def)
  moreover have "\<forall>a \<in> set (mf_assignments m) \<union> set (mf_assignments m').
      fst (na_range a) < 2 ^ 64 \<and> snd (na_range a) < 2 ^ 64"
    using wf_manifest_range_bound assms(1,2,6) by (metis Un_iff le_less_trans)
  ultimately show "mf_ranges m = mf_ranges m'"
    using manifest_preimage_inject [OF assms(3)] by blast
next
  assume ranges: "mf_ranges m = mf_ranges m'"
  have "map assignment_bytes (mf_assignments m) = map assignment_bytes (mf_assignments m')"
  proof (rule nth_equalityI)
    show len: "length (map assignment_bytes (mf_assignments m))
        = length (map assignment_bytes (mf_assignments m'))"
      using assms(3) by (metis length_map)
    fix k assume "k < length (map assignment_bytes (mf_assignments m))"
    moreover from this len have "na_node_id (mf_assignments m ! k) = na_node_id (mf_assignments m' ! k)"
      and "na_range (mf_assignments m ! k) = na_range (mf_assignments m' ! k)"
      using assms(3) ranges by (metis length_map nth_map)+
    ultimately show "map assignment_bytes (mf_assignments m) ! k
        = map assignment_bytes (mf_assignments m') ! k"
      using len by (simp add: assignment_bytes_def)
  qed
  then show "manifests_agree m m'"
    by (simp add: manifests_agree_def assms(4,5) compute_manifest_hash_def manifest_preimage_def)
qed

definition ex_manual2 :: manifest where
  "ex_manual2 = unwrap (manual_partition (\<lambda>b. b) ''m'' ex_caps 3 [(''a'', 0, 2), (''b'', 2, 3)] 10 5 1)"

lemma ex_manual2: "manual_partition (\<lambda>b. b) ''m'' ex_caps 3 [(''a'', 0, 2), (''b'', 2, 3)] 10 5 1
    = Ok ex_manual2"
  by code_simp

lemma manifests_agree_iff_same_layers_witness:
  "manifests_agree ex_manual ex_manual2 \<longleftrightarrow> mf_ranges ex_manual = mf_ranges ex_manual2"
proof (rule manifests_agree_iff_same_layers [where sha = "\<lambda>b. b" and mid = "''m''" and n = 3])
  show "wf_manifest 3 ex_manual" "wf_manifest 3 ex_manual2"
    using manual_partition_wf(1) [OF ex_manual] manual_partition_wf(1) [OF ex_manual2] by simp_all
  show "mf_ids ex_manual = mf_ids ex_manual2" by code_simp
  show "mf_hash ex_manual = compute_manifest_hash (\<lambda>b. b) ''m'' 3 (mf_assignments ex_manual)"
    "mf_hash ex_manual2 = compute_manifest_hash (\<lambda>b. b) ''m'' 3 (mf_assignments ex_manual2)"
    using manual_partition_Ok(5) [OF ex_manual] manual_partition_Ok(5) [OF ex_manual2] by simp_all
qed simp_all

text \<open>
  The hashed bytes do not separate the fields, so equal contents do not mean an equal
  layer assignment: two different well-formed manifests over different node ids, of the
  same model and the same number of layers, hash the same under every hash function.
\<close>

definition amb1 :: "node_assignment list" where
  "amb1 = ring
     [''a'' @ map char_of [0::nat,0,0,0,0,0,0,0, 1,0,0,0,0,0,0,0] @ ''t'', ''u'',
      ''y'' @ map char_of [1::nat,0,0,0,0,0,0,0, 3,0,0,0,0,0,0,0] @ ''z'']
     [(0, 2), (2, 3), (3, 4)]"

definition amb2 :: "node_assignment list" where
  "amb2 = ring
     [''a'', ''t'' @ map char_of [0::nat,0,0,0,0,0,0,0, 2,0,0,0,0,0,0,0] @ ''u''
        @ map char_of [2::nat,0,0,0,0,0,0,0, 3,0,0,0,0,0,0,0] @ ''y'', ''z'']
     [(0, 1), (1, 3), (3, 4)]"

theorem manifest_hash_ambiguous:
  "map na_range amb1 \<noteq> map na_range amb2 \<and> distinct (map na_node_id amb1) \<and> distinct (map na_node_id amb2)
    \<and> compute_manifest_hash sha mid 4 amb1 = compute_manifest_hash sha mid 4 amb2"
proof -
  have "concat (map assignment_bytes amb1) = concat (map assignment_bytes amb2)"
    by code_simp
  moreover have "map na_range amb1 \<noteq> map na_range amb2" by code_simp
  moreover have "distinct (map na_node_id amb1)" by code_simp
  moreover have "distinct (map na_node_id amb2)" by code_simp
  ultimately show ?thesis
    by (simp add: compute_manifest_hash_def manifest_preimage_def)
qed

end
