(* ===== verification/BlockTable.thy ===== *)
theory BlockTable
  imports Prelude
begin

text \<open>
  The pool of fixed-size KV blocks (\<open>candle/src/paged/block_table.rs\<close>): the allocator
  with its free list, the block table of one sequence, growth, release and address
  translation.  A \<open>Vec\<close> used as a stack has its top at the end of the list.  The locale
  \<open>block_pool\<close> is what the scheduler relies on: blocks are neither lost nor duplicated, and
  a refused growth changes nothing.
\<close>

section \<open>The allocator\<close>

type_synonym block_table = "u32 list"

record allocator =
  al_block_size :: nat
  al_free :: "u32 list"

definition new_allocator :: "nat \<Rightarrow> nat \<Rightarrow> allocator" where
  "new_allocator num_blocks block_size =
     \<lparr>al_block_size = block_size, al_free = rev (map of_nat [0..<num_blocks mod 2 ^ 32])\<rparr>"

definition free_count :: "allocator \<Rightarrow> nat" where
  "free_count a = length (al_free a)"

text \<open>\<open>usize::div_ceil\<close>, which panics on a zero divisor.\<close>

definition blocks_for :: "allocator \<Rightarrow> nat \<Rightarrow> (unit, nat) outcome" where
  "blocks_for a n_tokens =
     (if al_block_size a = 0 then Panic
      else Ok (n_tokens div al_block_size a + (if n_tokens mod al_block_size a > 0 then 1 else 0)))"

text \<open>The loop that pops \<open>extra\<close> blocks; \<open>expect\<close> panics on an empty free list.\<close>

fun pop_blocks :: "nat \<Rightarrow> allocator \<Rightarrow> block_table \<Rightarrow> (unit, allocator \<times> block_table) outcome" where
  "pop_blocks 0 a t = Ok (a, t)"
| "pop_blocks (Suc extra) a t =
     (if al_free a = [] then Panic
      else pop_blocks extra (a\<lparr>al_free := butlast (al_free a)\<rparr>) (t @ [last (al_free a)]))"

text \<open>The boolean tells \<open>Ok(())\<close> from \<open>Err(())\<close>; both hand the state back.\<close>

definition ensure_capacity ::
    "allocator \<Rightarrow> block_table \<Rightarrow> nat \<Rightarrow> (unit, bool \<times> allocator \<times> block_table) outcome" where
  "ensure_capacity a t n_tokens =
     and_then (blocks_for a n_tokens) (\<lambda>need.
       if need \<le> length t then Ok (True, a, t)
       else
         let extra = need - length t in
         if extra > length (al_free a) then Ok (False, a, t)
         else and_then (pop_blocks extra a t) (\<lambda>(a', t'). Ok (True, a', t')))"

definition release :: "allocator \<Rightarrow> block_table \<Rightarrow> allocator \<times> block_table" where
  "release a t = (a\<lparr>al_free := al_free a @ t\<rparr>, [])"

text \<open>Slice indexing panics out of range, division by a zero block size too.\<close>

definition locate :: "allocator \<Rightarrow> block_table \<Rightarrow> nat \<Rightarrow> ('e, u32 \<times> nat) outcome" where
  "locate a t pos =
     (if al_block_size a = 0 then Panic
      else if pos div al_block_size a < length t
      then Ok (t ! (pos div al_block_size a), pos mod al_block_size a)
      else Panic)"

section \<open>What each operation does\<close>

definition blocks_needed :: "nat \<Rightarrow> nat \<Rightarrow> nat" where
  "blocks_needed bs n = n div bs + (if n mod bs > 0 then 1 else 0)"

lemma blocks_needed_least: "0 < bs \<Longrightarrow> blocks_needed bs n \<le> k \<longleftrightarrow> n \<le> k * bs"
proof -
  assume bs: "0 < bs"
  have n: "n = n div bs * bs + n mod bs" by simp
  have lt: "n mod bs < bs" using bs by simp
  show ?thesis
  proof (cases "n mod bs = 0")
    case True
    with n have "n = n div bs * bs" by linarith
    then show ?thesis
      using bs True by (metis add_0_right blocks_needed_def less_not_refl mult_le_cancel2)
  next
    case False
    have "n div bs < k \<longleftrightarrow> n < k * bs"
      using bs by (simp add: div_less_iff_less_mult)
    moreover have "n \<noteq> k * bs"
      using False by auto
    ultimately show ?thesis
      using False by (auto simp: blocks_needed_def)
  qed
qed

lemma pop_blocks_Ok:
  "k \<le> length (al_free a) \<Longrightarrow> pop_blocks k a t =
     Ok (a\<lparr>al_free := take (length (al_free a) - k) (al_free a)\<rparr>,
         t @ rev (drop (length (al_free a) - k) (al_free a)))"
proof (induction k arbitrary: a t)
  case 0
  then show ?case by simp
next
  case (Suc k)
  then obtain ys y where free: "al_free a = ys @ [y]"
    by (cases "al_free a" rule: rev_cases) auto
  with Suc show ?case by simp
qed

lemma ensure_capacity_cases:
  fixes n :: nat
  assumes "0 < al_block_size a"
  defines "need \<equiv> blocks_needed (al_block_size a) n"
  shows "ensure_capacity a t n =
    Ok (if need \<le> length t then (True, a, t)
        else if need - length t > length (al_free a) then (False, a, t)
        else (True, a\<lparr>al_free := take (length (al_free a) - (need - length t)) (al_free a)\<rparr>,
              t @ rev (drop (length (al_free a) - (need - length t)) (al_free a))))"
  using assms
  by (simp add: ensure_capacity_def blocks_for_def blocks_needed_def [symmetric] Let_def pop_blocks_Ok)

lemma ensure_capacity_block_size:
  "ensure_capacity a t n = Ok (g, a', t') \<Longrightarrow> al_block_size a' = al_block_size a"
proof (cases "al_block_size a = 0")
  case True
  moreover assume "ensure_capacity a t n = Ok (g, a', t')"
  ultimately show ?thesis by (simp add: ensure_capacity_def blocks_for_def)
next
  case False
  moreover assume "ensure_capacity a t n = Ok (g, a', t')"
  ultimately show ?thesis by (auto simp: ensure_capacity_cases split: if_splits)
qed

lemma ensure_capacity_conserves:
  assumes "0 < al_block_size a" and "ensure_capacity a t n = Ok (g, a', t')"
  shows "mset (al_free a') + mset t' = mset (al_free a) + mset t"
proof -
  have "mset (take k xs) + (mset ys + mset (drop k xs)) = mset xs + mset ys" for k and xs ys :: "u32 list"
    by (metis append_take_drop_id mset_append union_assoc union_commute)
  then show ?thesis
    using assms by (auto simp: ensure_capacity_cases split: if_splits)
qed

lemma ensure_capacity_granted:
  assumes "0 < al_block_size a" and "ensure_capacity a t n = Ok (True, a', t')"
  shows "n \<le> length t' * al_block_size a" and "\<exists>ext. t' = t @ ext"
  using assms blocks_needed_least [OF assms(1), of n "length t'"]
  by (auto simp: ensure_capacity_cases split: if_splits)

lemma ensure_capacity_refused:
  assumes "0 < al_block_size a" and "ensure_capacity a t n = Ok (False, a', t')"
  shows "a' = a \<and> t' = t \<and> (length t + free_count a) * al_block_size a < n"
  using assms blocks_needed_least [OF assms(1), of n "length t + free_count a"]
  by (auto simp: ensure_capacity_cases free_count_def split: if_splits)

lemma release_conserves:
  "release a t = (a', t') \<Longrightarrow> mset (al_free a') + mset t' = mset (al_free a) + mset t"
  by (auto simp: release_def)

lemma locate_eq_Ok:
  "0 < al_block_size a \<Longrightarrow> locate a t pos = Ok x \<longleftrightarrow> pos < length t * al_block_size a
    \<and> x = (t ! (pos div al_block_size a), pos mod al_block_size a)"
  by (auto simp: locate_def div_less_iff_less_mult)

lemma locate_total: "pos < length t * al_block_size a \<Longrightarrow> \<exists>x. locate a t pos = Ok x"
  using locate_eq_Ok [of a t pos] by (cases "al_block_size a = 0") auto

lemma locate_inject:
  assumes "distinct t" and "locate a t p = Ok x" and "locate a t q = Ok x"
  shows "p = q"
proof -
  let ?bs = "al_block_size a"
  have "?bs \<noteq> 0"
    using assms(2) by (cases "?bs = 0") (simp_all add: locate_def)
  with assms have "p div ?bs = q div ?bs \<and> p mod ?bs = q mod ?bs"
    by (auto simp: locate_def nth_eq_iff_index_eq split: if_splits)
  then show ?thesis
    by (metis div_mult_mod_eq)
qed

section \<open>The contract of a block pool\<close>

text \<open>
  The scheduler's view of the allocator.  \<open>stock\<close> are the blocks in the pool, \<open>held\<close> those
  of a table, \<open>room\<close> the number of tokens a table has space for.
\<close>

locale block_pool =
  fixes grow :: "'a \<Rightarrow> 't \<Rightarrow> nat \<Rightarrow> (unit, bool \<times> 'a \<times> 't) outcome"
    and give_back :: "'a \<Rightarrow> 't \<Rightarrow> 'a \<times> 't"
    and stock :: "'a \<Rightarrow> 'b multiset"
    and held :: "'t \<Rightarrow> 'b multiset"
    and room :: "'a \<Rightarrow> 't \<Rightarrow> nat"
    and valid :: "'a \<Rightarrow> bool"
  assumes grow_total: "valid a \<Longrightarrow> \<exists>g a' t'. grow a t n = Ok (g, a', t')"
    and grow_conserves: "valid a \<Longrightarrow> grow a t n = Ok (g, a', t') \<Longrightarrow>
      valid a' \<and> stock a' + held t' = stock a + held t"
    and grow_room: "valid a \<Longrightarrow> grow a t n = Ok (True, a', t') \<Longrightarrow> n \<le> room a' t'"
    and grow_other: "valid a \<Longrightarrow> grow a t n = Ok (g, a', t') \<Longrightarrow> room a' t2 = room a t2"
    and grow_refused: "valid a \<Longrightarrow> grow a t n = Ok (False, a', t') \<Longrightarrow> a' = a \<and> t' = t"
    and give_conserves: "valid a \<Longrightarrow> give_back a t = (a', t') \<Longrightarrow>
      valid a' \<and> stock a' = stock a + held t \<and> held t' = {#}"
    and give_other: "valid a \<Longrightarrow> give_back a t = (a', t') \<Longrightarrow> room a' t2 = room a t2"
begin

lemma grow_balanced:
  assumes "valid a" and "grow a t n = Ok (g, a', t')"
    and "stock a + (\<Sum>\<^sub># (mset (map held (us @ t # vs)))) = N"
  shows "stock a' + (\<Sum>\<^sub># (mset (map held (us @ t' # vs)))) = N"
proof -
  let ?r = "(\<Sum>\<^sub># (mset (map held us))) + (\<Sum>\<^sub># (mset (map held vs)))"
  have "stock a' + (\<Sum>\<^sub># (mset (map held (us @ t' # vs)))) = (stock a' + held t') + ?r"
    by (simp add: ac_simps)
  also have "\<dots> = (stock a + held t) + ?r"
    using grow_conserves [OF assms(1,2)] by simp
  also have "\<dots> = N"
    using assms(3) by (simp add: ac_simps)
  finally show ?thesis .
qed

lemma give_balanced:
  assumes "valid a" and "give_back a t = (a', t')"
    and "stock a + (\<Sum>\<^sub># (mset (map held (us @ t # vs)))) = N"
  shows "stock a' + (\<Sum>\<^sub># (mset (map held (us @ vs)))) = N"
  using give_conserves [OF assms(1,2)] assms(3) by (simp add: ac_simps)

text \<open>When no block was duplicated to begin with, no two tables share one.\<close>

lemma balanced_disjoint:
  assumes "stock a + (\<Sum>\<^sub># (mset (map held ts))) = N" and "\<forall>b. count N b \<le> 1"
    and "i < length ts" and "j < length ts" and "i \<noteq> j" and "b \<in># held (ts ! i)"
  shows "b \<notin># held (ts ! j)"
proof
  assume b: "b \<in># held (ts ! j)"
  obtain us x vs y ws where ts: "ts = us @ x # vs @ y # ws" and "b \<in># held x" "b \<in># held y"
    using list_split2 [OF assms(3-5)] b assms(6) by (metis insertCI insertE singletonD)
  then have "1 + 1 \<le> count (held x) b + count (held y) b"
    by (intro add_mono) (simp_all add: Suc_leI)
  moreover have "count N b = count (stock a) b + count (\<Sum>\<^sub># (mset (map held us))) b + count (held x) b
      + count (\<Sum>\<^sub># (mset (map held vs))) b + count (held y) b + count (\<Sum>\<^sub># (mset (map held ws))) b"
    by (simp add: ts flip: assms(1))
  moreover have "count N b \<le> 1"
    using assms(2) by blast
  ultimately show False by linarith
qed

end

interpretation pool: block_pool ensure_capacity release "\<lambda>a. mset (al_free a)" mset
    "\<lambda>a t. length t * al_block_size a" "\<lambda>a. 0 < al_block_size a"
proof (unfold_locales, goal_cases)
  case (1 a t n)
  then obtain x where "ensure_capacity a t n = Ok x"
    using ensure_capacity_cases by blast
  then show ?case
    by (cases x) auto
next
  case (2 a t n g a' t')
  then show ?case
    using ensure_capacity_conserves ensure_capacity_block_size by metis
next
  case (3 a t n a' t')
  then show ?case
    using ensure_capacity_granted(1) ensure_capacity_block_size by metis
next
  case (4 a t n g a' t' t2)
  then show ?case
    using ensure_capacity_block_size by metis
next
  case (5 a t n a' t')
  then show ?case
    using ensure_capacity_refused by blast
qed (auto simp: release_def)

section \<open>Properties\<close>

text \<open>
  C17: growing a block table never panics for a positive block size, keeps every block either
  free or in the table, and is all or nothing: it succeeds exactly when the free blocks
  suffice, then the table is extended to hold the tokens, else nothing changes.
\<close>

theorem ensure_capacity_all_or_nothing:
  assumes "0 < al_block_size a"
  shows "\<exists>granted a' t'. ensure_capacity a t n = Ok (granted, a', t')
    \<and> mset (al_free a') + mset t' = mset (al_free a) + mset t
    \<and> (granted \<longleftrightarrow> n \<le> (length t + free_count a) * al_block_size a)
    \<and> (granted \<longrightarrow> (\<exists>ext. t' = t @ ext) \<and> n \<le> length t' * al_block_size a
        \<and> (\<forall>k \<ge> length t. n \<le> k * al_block_size a \<longrightarrow> length t' \<le> k))
    \<and> (\<not> granted \<longrightarrow> a' = a \<and> t' = t)"
proof -
  obtain g a' t' where grow: "ensure_capacity a t n = Ok (g, a', t')"
    using pool.grow_total [OF assms] by blast
  have least: "length t' \<le> k" if "length t \<le> k" "n \<le> k * al_block_size a" "g" for k
    using grow that blocks_needed_least [OF assms, of n k]
    by (auto simp: ensure_capacity_cases [OF assms] split: if_splits)
  have "g" if "n \<le> (length t + free_count a) * al_block_size a"
    using grow that blocks_needed_least [OF assms, of n "length t + free_count a"]
    by (auto simp: ensure_capacity_cases [OF assms] free_count_def split: if_splits)
  moreover have "n \<le> (length t + free_count a) * al_block_size a" if g
    using grow that blocks_needed_least [OF assms, of n "length t + free_count a"]
    by (auto simp: ensure_capacity_cases [OF assms] free_count_def split: if_splits)
  ultimately show ?thesis
    using grow ensure_capacity_conserves [OF assms grow] ensure_capacity_granted [OF assms, of t n a' t']
      ensure_capacity_refused [OF assms, of t n a' t'] ensure_capacity_block_size [OF grow] least
    by (intro exI [of _ g] exI [of _ a'] exI [of _ t']) auto
qed

lemma ensure_capacity_all_or_nothing_witness:
  "\<exists>t' a'. ensure_capacity (new_allocator 4 16) [] 17 = Ok (True, a', t') \<and> 17 \<le> length t' * 16"
proof -
  have "0 < al_block_size (new_allocator 4 16)" by (simp add: new_allocator_def)
  from ensure_capacity_all_or_nothing [OF this, of "[]" 17] show ?thesis
    by (auto simp: new_allocator_def free_count_def)
qed

text \<open>
  Address translation.  Every position below the capacity of the table has an address,
  any other position panics; different positions of one sequence, and positions of
  sequences that share no block, have different addresses.
\<close>

theorem locate_addresses:
  assumes "0 < al_block_size a" and "distinct t" and "set t \<inter> set u = {}"
  shows "(locate a t p = (Panic :: (unit, u32 \<times> nat) outcome) \<longleftrightarrow> length t * al_block_size a \<le> p)
    \<and> (locate a t p = (Ok (b, slot) :: (unit, u32 \<times> nat) outcome) \<longrightarrow> b \<in> set t \<and> slot < al_block_size a
        \<and> (locate a t q = (Ok (b, slot) :: (unit, u32 \<times> nat) outcome) \<longleftrightarrow> q = p)
        \<and> locate a u q \<noteq> (Ok (b, slot) :: (unit, u32 \<times> nat) outcome))"
proof -
  have block: "p < length v * al_block_size a \<Longrightarrow> p div al_block_size a < length v" for p and v :: block_table
    by (simp add: less_mult_imp_div_less)
  have "locate a t p = (Panic :: (unit, u32 \<times> nat) outcome) \<longleftrightarrow> length t * al_block_size a \<le> p"
    using assms(1) by (auto simp: locate_def div_less_iff_less_mult not_less)
  moreover have "b \<in> set t \<and> slot < al_block_size a
        \<and> (locate a t q = (Ok (b, slot) :: (unit, u32 \<times> nat) outcome) \<longleftrightarrow> q = p)
        \<and> locate a u q \<noteq> (Ok (b, slot) :: (unit, u32 \<times> nat) outcome)"
    if loc: "locate a t p = (Ok (b, slot) :: (unit, u32 \<times> nat) outcome)"
  proof (intro conjI)
    have p: "p < length t * al_block_size a" and bs: "b = t ! (p div al_block_size a)" "slot = p mod al_block_size a"
      using loc by (auto simp: locate_eq_Ok [OF assms(1)])
    show b: "b \<in> set t"
      using block [OF p] by (simp add: bs)
    show "slot < al_block_size a"
      using assms(1) by (simp add: bs)
    show "locate a t q = (Ok (b, slot) :: (unit, u32 \<times> nat) outcome) \<longleftrightarrow> q = p"
      using loc locate_inject [OF assms(2)] by metis
    show "locate a u q \<noteq> (Ok (b, slot) :: (unit, u32 \<times> nat) outcome)"
    proof
      assume "locate a u q = (Ok (b, slot) :: (unit, u32 \<times> nat) outcome)"
      then have "q < length u * al_block_size a" "b = u ! (q div al_block_size a)"
        by (auto simp: locate_eq_Ok [OF assms(1)])
      with block have "b \<in> set u" by simp
      with b assms(3) show False by blast
    qed
  qed
  ultimately show ?thesis by blast
qed

lemma locate_addresses_witness:
  "locate (new_allocator 4 16) [0, 1] 17 = (Ok (1, 1) :: (unit, u32 \<times> nat) outcome)
    \<and> locate (new_allocator 4 16) [2] 1 \<noteq> (Ok (1, 1) :: (unit, u32 \<times> nat) outcome)"
proof -
  let ?a = "new_allocator 4 16"
  have "0 < al_block_size ?a" "distinct [0, 1 :: u32]" "set [0, 1 :: u32] \<inter> set [2] = {}"
    by (simp_all add: new_allocator_def)
  from locate_addresses [OF this, of 17 1 1 1] show ?thesis
    by (simp add: new_allocator_def locate_def)
qed

end
