(* ===== verification/PagedKv.thy ===== *)
theory PagedKv
  imports BlockTable
begin

text \<open>
  The paged key/value storage of one layer (\<open>KvPool\<close> in
  \<open>candle/src/paged/attention.rs\<close>).  The two pool tensors of shape
  (blocks, block size, heads, head size) are lists of rows in row-major order, one row per
  (block, slot); a row is opaque.  Indexing out of a tensor is an error of the tensor library,
  indexing out of a slice is a panic.  The lemmas show that the pool is a store of
  histories: what a sequence wrote, in order, is what it gathers, whatever the other
  sequences write.
\<close>

datatype tensor_error = TensorError

record 'v kv_pool =
  kp_k :: "'v list"
  kp_v :: "'v list"
  kp_num_blocks :: nat
  kp_block_size :: nat

definition new_kv_pool :: "nat \<Rightarrow> nat \<Rightarrow> 'v \<Rightarrow> 'v kv_pool" where
  "new_kv_pool num_blocks block_size zero =
     \<lparr>kp_k = replicate (num_blocks * block_size) zero, kp_v = replicate (num_blocks * block_size) zero,
      kp_num_blocks = num_blocks, kp_block_size = block_size\<rparr>"

text \<open>\<open>slice_assign\<close> at one (block, slot) of the pool of keys, then of values.\<close>

definition assign_k :: "nat \<Rightarrow> nat \<Rightarrow> 'v \<Rightarrow> ('v kv_pool, tensor_error, unit) stateful" where
  "assign_k bid slot row = (\<lambda>pool.
     if bid < kp_num_blocks pool \<and> slot < kp_block_size pool
     then (Ok (), pool\<lparr>kp_k := (kp_k pool)[bid * kp_block_size pool + slot := row]\<rparr>)
     else (Err TensorError, pool))"

definition assign_v :: "nat \<Rightarrow> nat \<Rightarrow> 'v \<Rightarrow> ('v kv_pool, tensor_error, unit) stateful" where
  "assign_v bid slot row = (\<lambda>pool.
     if bid < kp_num_blocks pool \<and> slot < kp_block_size pool
     then (Ok (), pool\<lparr>kp_v := (kp_v pool)[bid * kp_block_size pool + slot := row]\<rparr>)
     else (Err TensorError, pool))"

fun kv_write ::
    "allocator \<Rightarrow> block_table \<Rightarrow> nat \<Rightarrow> 'v list \<Rightarrow> 'v list \<Rightarrow> ('v kv_pool, tensor_error, unit) stateful" where
  "kv_write alloc table pos [] vs = ret ()"
| "kv_write alloc table pos (k # ks) vs =
     and_run (pure_op (locate alloc table pos)) (\<lambda>(block_id, slot).
       case vs of
         [] \<Rightarrow> pure_op (Err TensorError)
       | v # vs' \<Rightarrow>
           and_run (assign_k (unat block_id) slot k) (\<lambda>_.
           and_run (assign_v (unat block_id) slot v) (\<lambda>_.
           kv_write alloc table (Suc pos) ks vs')))"

text \<open>The flat row index of a position, computed in \<open>u32\<close>.\<close>

fun gather_index :: "nat \<Rightarrow> block_table \<Rightarrow> nat list \<Rightarrow> (tensor_error, u32 list) outcome" where
  "gather_index bs table [] = Ok []"
| "gather_index bs table (pos # ps) =
     (if bs = 0 \<or> length table \<le> pos div bs then Panic
      else and_then (gather_index bs table ps) (\<lambda>idx.
        Ok ((table ! (pos div bs) * of_nat bs + of_nat (pos mod bs)) # idx)))"

definition index_select :: "'v list \<Rightarrow> u32 list \<Rightarrow> (tensor_error, 'v list) outcome" where
  "index_select rows idx =
     (if list_all (\<lambda>i. unat i < length rows) idx then Ok (map (\<lambda>i. rows ! unat i) idx)
      else Err TensorError)"

definition gather_seq :: "block_table \<Rightarrow> nat \<Rightarrow> ('v kv_pool, tensor_error, 'v list \<times> 'v list) stateful" where
  "gather_seq table len = (\<lambda>pool.
     (and_then (gather_index (kp_block_size pool) table [0..<len]) (\<lambda>idx.
        and_then (index_select (kp_k pool) idx) (\<lambda>ks.
        and_then (index_select (kp_v pool) idx) (\<lambda>vs. Ok (ks, vs)))), pool))"

section \<open>The pool as a store of histories\<close>

definition pool_ok :: "'v kv_pool \<Rightarrow> bool" where
  "pool_ok pool \<longleftrightarrow> 0 < kp_block_size pool
     \<and> length (kp_k pool) = kp_num_blocks pool * kp_block_size pool
     \<and> length (kp_v pool) = kp_num_blocks pool * kp_block_size pool
     \<and> kp_num_blocks pool * kp_block_size pool \<le> 2 ^ 32"

definition table_ok :: "'v kv_pool \<Rightarrow> block_table \<Rightarrow> bool" where
  "table_ok pool t \<longleftrightarrow> distinct t \<and> (\<forall>b \<in> set t. unat b < kp_num_blocks pool)"

text \<open>Two pools of the same shape.\<close>

definition same_shape :: "'v kv_pool \<Rightarrow> 'v kv_pool \<Rightarrow> bool" where
  "same_shape p q \<longleftrightarrow> kp_num_blocks p = kp_num_blocks q \<and> kp_block_size p = kp_block_size q
     \<and> length (kp_k p) = length (kp_k q) \<and> length (kp_v p) = length (kp_v q)"

definition flat_slot :: "'v kv_pool \<Rightarrow> block_table \<Rightarrow> nat \<Rightarrow> nat" where
  "flat_slot pool t p =
     unat (t ! (p div kp_block_size pool)) * kp_block_size pool + p mod kp_block_size pool"

definition kv_holds :: "'v kv_pool \<Rightarrow> block_table \<Rightarrow> ('v \<times> 'v) list \<Rightarrow> bool" where
  "kv_holds pool t h \<longleftrightarrow> length h \<le> length t * kp_block_size pool
     \<and> (\<forall>p < length h. kp_k pool ! flat_slot pool t p = fst (h ! p)
          \<and> kp_v pool ! flat_slot pool t p = snd (h ! p))"

lemma same_shape_refl [simp]: "same_shape p p"
  by (simp add: same_shape_def)

lemma same_shape_trans: "same_shape p q \<Longrightarrow> same_shape q r \<Longrightarrow> same_shape p r"
  by (simp add: same_shape_def)

lemma same_shape_ok:
  assumes "same_shape p q"
  shows "pool_ok p \<Longrightarrow> pool_ok q" and "table_ok p t \<Longrightarrow> table_ok q t"
    and "flat_slot q t i = flat_slot p t i"
  using assms by (auto simp: same_shape_def pool_ok_def table_ok_def flat_slot_def)

lemma pos_block:
  "p < length t * kp_block_size pool \<Longrightarrow> p div kp_block_size pool < length t"
  by (simp add: less_mult_imp_div_less)

lemma flat_slot_bound:
  assumes "pool_ok pool" and "table_ok pool t" and "p < length t * kp_block_size pool"
  shows "flat_slot pool t p < kp_num_blocks pool * kp_block_size pool"
proof -
  have "unat (t ! (p div kp_block_size pool)) < kp_num_blocks pool"
    using assms(2) pos_block [OF assms(3)] by (simp add: table_ok_def)
  then have "Suc (unat (t ! (p div kp_block_size pool))) * kp_block_size pool
      \<le> kp_num_blocks pool * kp_block_size pool"
    by (intro mult_le_mono1) simp
  moreover have "p mod kp_block_size pool < kp_block_size pool"
    using assms(1) by (simp add: pool_ok_def)
  ultimately show ?thesis
    by (simp add: flat_slot_def)
qed

lemma flat_slot_block:
  assumes "pool_ok pool"
  shows "flat_slot pool t p div kp_block_size pool = unat (t ! (p div kp_block_size pool))"
    and "flat_slot pool t p mod kp_block_size pool = p mod kp_block_size pool"
  using assms by (simp_all add: flat_slot_def pool_ok_def)

lemma flat_slot_inject:
  assumes "pool_ok pool" and "distinct t"
    and "p < length t * kp_block_size pool" and "q < length t * kp_block_size pool"
  shows "flat_slot pool t p = flat_slot pool t q \<longleftrightarrow> p = q"
proof
  assume eq: "flat_slot pool t p = flat_slot pool t q"
  from eq flat_slot_block [OF assms(1)] have "t ! (p div kp_block_size pool) = t ! (q div kp_block_size pool)"
    by (metis word_unat_eq_iff)
  with assms pos_block have "p div kp_block_size pool = q div kp_block_size pool"
    by (metis nth_eq_iff_index_eq)
  moreover from eq flat_slot_block(2) [OF assms(1)]
  have "p mod kp_block_size pool = q mod kp_block_size pool" by metis
  ultimately show "p = q"
    by (metis div_mult_mod_eq)
qed simp

lemma flat_slot_disjoint:
  assumes "pool_ok pool" and "set t \<inter> set u = {}"
    and "p < length t * kp_block_size pool" and "q < length u * kp_block_size pool"
  shows "flat_slot pool t p \<noteq> flat_slot pool u q"
proof
  assume "flat_slot pool t p = flat_slot pool u q"
  with flat_slot_block(1) [OF assms(1)]
  have "t ! (p div kp_block_size pool) = u ! (q div kp_block_size pool)"
    by (metis word_unat_eq_iff)
  with assms(2) pos_block [OF assms(3)] pos_block [OF assms(4)] show False
    by (metis disjoint_iff nth_mem)
qed

section \<open>Writing and gathering\<close>

text \<open>One row written at the end of a history.\<close>

definition put_row :: "'v kv_pool \<Rightarrow> nat \<Rightarrow> 'v \<Rightarrow> 'v \<Rightarrow> 'v kv_pool" where
  "put_row pool i k v = pool\<lparr>kp_k := (kp_k pool)[i := k], kp_v := (kp_v pool)[i := v]\<rparr>"

lemma put_row_shape: "same_shape pool (put_row pool i k v)"
  by (simp add: same_shape_def put_row_def)

lemma put_row_sel [simp]:
  "kp_block_size (put_row pool i k v) = kp_block_size pool"
  "kp_num_blocks (put_row pool i k v) = kp_num_blocks pool"
  "kp_k (put_row pool i k v) = (kp_k pool)[i := k]"
  "kp_v (put_row pool i k v) = (kp_v pool)[i := v]"
  "flat_slot (put_row pool i k v) t q = flat_slot pool t q"
  by (simp_all add: put_row_def flat_slot_def)

lemma kv_write_Cons:
  assumes "pool_ok pool" and "table_ok pool t" and "p < length t * kp_block_size pool"
    and "al_block_size a = kp_block_size pool"
  shows "kv_write a t p (k # ks) (v # vs) pool
    = kv_write a t (Suc p) ks vs (put_row pool (flat_slot pool t p) k v)"
proof -
  have bs: "0 < al_block_size a"
    using assms(1,4) by (simp add: pool_ok_def)
  have "(locate a t p :: (tensor_error, _) outcome) = Ok (t ! (p div kp_block_size pool), p mod kp_block_size pool)"
    using assms(3,4) by (simp add: locate_eq_Ok [OF bs])
  moreover have "unat (t ! (p div kp_block_size pool)) < kp_num_blocks pool"
    using assms(2) pos_block [OF assms(3)] by (simp add: table_ok_def)
  moreover have "p mod kp_block_size pool < kp_block_size pool"
    using assms(1) by (simp add: pool_ok_def)
  ultimately show ?thesis
    by (simp add: and_run_def assign_k_def assign_v_def put_row_def flat_slot_def)
qed

lemma put_row_holds:
  assumes "pool_ok pool" and "table_ok pool t" and "kv_holds pool t h"
    and "length h < length t * kp_block_size pool"
  shows "kv_holds (put_row pool (flat_slot pool t (length h)) k v) t (h @ [(k, v)])"
proof -
  let ?q = "put_row pool (flat_slot pool t (length h)) k v"
  have bound: "flat_slot pool t (length h) < kp_num_blocks pool * kp_block_size pool"
    using flat_slot_bound assms(1,2,4) by blast
  have "kp_k ?q ! flat_slot pool t p = fst ((h @ [(k, v)]) ! p)
      \<and> kp_v ?q ! flat_slot pool t p = snd ((h @ [(k, v)]) ! p)" if "p < Suc (length h)" for p
  proof (cases "p = length h")
    case True
    with bound assms(1) show ?thesis
      by (simp add: pool_ok_def)
  next
    case False
    with that have p: "p < length h" by simp
    then have "flat_slot pool t p \<noteq> flat_slot pool t (length h)"
      using flat_slot_inject [OF assms(1)] assms(2,4) by (simp add: table_ok_def)
    with p assms(3) show ?thesis
      by (simp add: kv_holds_def nth_append)
  qed
  then show ?thesis
    using assms(4) by (simp add: kv_holds_def)
qed

lemma put_row_other:
  assumes "pool_ok pool" and "kv_holds pool u h" and "set t \<inter> set u = {}"
    and "p < length t * kp_block_size pool"
  shows "kv_holds (put_row pool (flat_slot pool t p) k v) u h"
proof -
  have "flat_slot pool t p \<noteq> flat_slot pool u q" if "q < length h" for q
    using flat_slot_disjoint [OF assms(1,3,4), of q] assms(2) that
    by (auto simp: kv_holds_def)
  then show ?thesis
    using assms(2) by (simp add: kv_holds_def)
qed

lemma kv_write_holds:
  assumes "pool_ok pool" and "table_ok pool t" and "kv_holds pool t h"
    and "al_block_size a = kp_block_size pool"
    and "length h + length ks \<le> length t * kp_block_size pool" and "length vs = length ks"
  shows "\<exists>pool'. kv_write a t (length h) ks vs pool = (Ok (), pool') \<and> same_shape pool pool'
    \<and> kv_holds pool' t (h @ zip ks vs)
    \<and> (\<forall>u g. set t \<inter> set u = {} \<longrightarrow> kv_holds pool u g \<longrightarrow> kv_holds pool' u g)"
  using assms
proof (induction ks arbitrary: vs h pool)
  case Nil
  then show ?case by (auto intro!: exI [of _ pool])
next
  case (Cons k ks)
  then obtain v vs' where vs: "vs = v # vs'" by (cases vs) auto
  have lt: "length h < length t * kp_block_size pool"
    using Cons.prems(5) by simp
  let ?q = "put_row pool (flat_slot pool t (length h)) k v"
  have shape: "same_shape pool ?q" by (rule put_row_shape)
  then have size: "kp_block_size ?q = kp_block_size pool"
    by (simp add: same_shape_def)
  have "\<exists>pool'. kv_write a t (length (h @ [(k, v)])) ks vs' ?q = (Ok (), pool') \<and> same_shape ?q pool'
    \<and> kv_holds pool' t ((h @ [(k, v)]) @ zip ks vs')
    \<and> (\<forall>u g. set t \<inter> set u = {} \<longrightarrow> kv_holds ?q u g \<longrightarrow> kv_holds pool' u g)"
  proof (rule Cons.IH)
    show "pool_ok ?q" "table_ok ?q t"
      using same_shape_ok [OF shape] Cons.prems by blast+
    show "kv_holds ?q t (h @ [(k, v)])"
      by (rule put_row_holds [OF Cons.prems(1-3) lt])
  qed (use Cons.prems vs size in simp_all)
  then show ?case
    using kv_write_Cons [OF Cons.prems(1,2) lt Cons.prems(4)] put_row_other [OF Cons.prems(1) _ _ lt]
      same_shape_trans [OF shape]
    by (auto simp: vs)
qed

lemma gather_index_Ok:
  assumes "0 < bs" and "\<forall>p \<in> set ps. p < length t * bs"
  shows "gather_index bs t ps = Ok (map (\<lambda>p. t ! (p div bs) * of_nat bs + of_nat (p mod bs)) ps)"
  using assms(2)
proof (induction ps)
  case (Cons p ps)
  then have "p div bs < length t" by (simp add: less_mult_imp_div_less)
  with Cons assms(1) show ?case by simp
qed simp

lemma unat_flat_slot:
  assumes "pool_ok pool" and "table_ok pool t" and "p < length t * kp_block_size pool"
  shows "unat (t ! (p div kp_block_size pool) * of_nat (kp_block_size pool)
      + of_nat (p mod kp_block_size pool) :: u32) = flat_slot pool t p"
proof -
  have lt: "flat_slot pool t p < 2 ^ 32"
    using flat_slot_bound [OF assms] assms(1) by (simp add: pool_ok_def)
  have "t ! (p div kp_block_size pool) * of_nat (kp_block_size pool) + of_nat (p mod kp_block_size pool)
      = (of_nat (flat_slot pool t p) :: u32)"
    by (simp add: flat_slot_def)
  then show ?thesis
    using lt by (simp add: unat_of_nat del: power_numeral)
qed

lemma gather_seq_holds:
  assumes "pool_ok pool" and "table_ok pool t" and "kv_holds pool t h"
  shows "gather_seq t (length h) pool = (Ok (map fst h, map snd h), pool)"
proof -
  let ?bs = "kp_block_size pool"
  let ?idx = "map (\<lambda>p. t ! (p div ?bs) * of_nat ?bs + of_nat (p mod ?bs) :: u32) [0..<length h]"
  have room: "p < length t * ?bs" if "p < length h" for p
    using assms(3) that by (simp add: kv_holds_def)
  have index: "gather_index ?bs t [0..<length h] = Ok ?idx"
    using assms(1) room by (intro gather_index_Ok) (auto simp: pool_ok_def)
  have select: "index_select rows ?idx = Ok (map (\<lambda>p. rows ! flat_slot pool t p) [0..<length h])"
    if "length rows = kp_num_blocks pool * ?bs" for rows :: "'a list"
    using unat_flat_slot [OF assms(1,2) room] flat_slot_bound [OF assms(1,2) room] that
    by (simp add: index_select_def list_all_iff)
  have "map (\<lambda>p. kp_k pool ! flat_slot pool t p) [0..<length h] = map fst h"
    "map (\<lambda>p. kp_v pool ! flat_slot pool t p) [0..<length h] = map snd h"
    using assms(3) by (auto simp: kv_holds_def intro: nth_equalityI)
  then show ?thesis
    using assms(1) by (simp add: gather_seq_def index select pool_ok_def)
qed

end
