(* ===== verification/Transformer.thy ===== *)
theory Transformer
  imports PagedKv
begin

text \<open>
  The forward pass of the paged backend (\<open>candle/src/paged/transformer.rs\<close>, \<open>build_mask\<close>
  and \<open>sdpa\<close> of \<open>paged/attention.rs\<close>): one decode step for a batch of sequences and the
  prefill of one prompt.  The tensor library is not in the repository: its row-wise
  operations are the fields of \<open>tensor_ops\<close> and of a \<open>layer\<close>, a tensor row is opaque, and the
  code's plumbing between them (projections, biases, rotary positions, writes to and reads from
  the pools, padding, masks, residuals) is written out.  A shape or device error of the
  library other than an index out of range is not modelled.

  The reference semantics processes one sequence alone, one token at a time, over a plain
  list of keys and values.  The theorems show that the batched, paged code computes it.
\<close>

record 'v tensor_ops =
  op_add :: "'v \<Rightarrow> 'v \<Rightarrow> 'v"
  op_mul :: "'v \<Rightarrow> 'v \<Rightarrow> 'v"
  op_silu :: "'v \<Rightarrow> 'v"
  op_rope :: "'v \<Rightarrow> nat \<Rightarrow> 'v"  \<comment> \<open>rotate by the row of the position\<close>
  op_sdpa :: "'v \<Rightarrow> 'v list \<Rightarrow> 'v list \<Rightarrow> bool list \<Rightarrow> 'v"  \<comment> \<open>query, keys, values, masked\<close>
  op_zero :: 'v

record 'v layer =
  ly_attn_norm :: "'v \<Rightarrow> 'v"
  ly_attn_q :: "'v \<Rightarrow> 'v"
  ly_attn_k :: "'v \<Rightarrow> 'v"
  ly_attn_v :: "'v \<Rightarrow> 'v"
  ly_attn_o :: "'v \<Rightarrow> 'v"
  ly_q_bias :: "'v option"
  ly_k_bias :: "'v option"
  ly_v_bias :: "'v option"
  ly_q_norm :: "('v \<Rightarrow> 'v) option"
  ly_k_norm :: "('v \<Rightarrow> 'v) option"
  ly_ffn_norm :: "'v \<Rightarrow> 'v"
  ly_ffn_gate :: "'v \<Rightarrow> 'v"
  ly_ffn_up :: "'v \<Rightarrow> 'v"
  ly_ffn_down :: "'v \<Rightarrow> 'v"

record 'v transformer =
  tr_embed :: "'v list"
  tr_layers :: "'v layer list"
  tr_out_norm :: "'v \<Rightarrow> 'v"
  tr_lm_head :: "'v \<Rightarrow> 'v"
  tr_context :: nat  \<comment> \<open>rows of the rotary tables\<close>

section \<open>The parts of a layer\<close>

definition bias :: "'v tensor_ops \<Rightarrow> 'v option \<Rightarrow> 'v \<Rightarrow> 'v" where
  "bias ops b x = (case b of None \<Rightarrow> x | Some b \<Rightarrow> op_add ops x b)"

definition opt_norm :: "('v \<Rightarrow> 'v) option \<Rightarrow> 'v \<Rightarrow> 'v" where
  "opt_norm f x = (case f of None \<Rightarrow> x | Some g \<Rightarrow> g x)"

definition project_qkv :: "'v tensor_ops \<Rightarrow> 'v layer \<Rightarrow> 'v \<Rightarrow> nat \<Rightarrow> 'v \<times> 'v \<times> 'v" where
  "project_qkv ops l x rope_row =
     (let xn = ly_attn_norm l x;
          q = bias ops (ly_q_bias l) (ly_attn_q l xn);
          k = bias ops (ly_k_bias l) (ly_attn_k l xn);
          v = bias ops (ly_v_bias l) (ly_attn_v l xn)
      in (op_rope ops (opt_norm (ly_q_norm l) q) rope_row,
          op_rope ops (opt_norm (ly_k_norm l) k) rope_row,
          v))"

definition finish_layer :: "'v tensor_ops \<Rightarrow> 'v layer \<Rightarrow> 'v \<Rightarrow> 'v \<Rightarrow> 'v" where
  "finish_layer ops l x attn =
     (let x1 = op_add ops x (ly_attn_o l attn);
          xn = ly_ffn_norm l x1;
          gate = op_silu ops (ly_ffn_gate l xn);
          up = ly_ffn_up l xn
      in op_add ops x1 (ly_ffn_down l (op_mul ops gate up)))"

text \<open>One row of the additive mask; \<open>True\<close> stands for minus infinity.\<close>

definition build_mask :: "nat list \<Rightarrow> nat list \<Rightarrow> nat \<Rightarrow> bool list list" where
  "build_mask seq_lens q_positions kv_len =
     map2 (\<lambda>n p. map (\<lambda>k. n \<le> k \<or> p < k) [0..<kv_len]) seq_lens q_positions"

section \<open>Decode: one token for every sequence of the batch\<close>

definition pad_rows :: "'v tensor_ops \<Rightarrow> nat \<Rightarrow> 'v list \<Rightarrow> 'v list" where
  "pad_rows ops kv_len xs = xs @ replicate (kv_len - length xs) (op_zero ops)"

text \<open>The loop over the batch: write the new row, gather the sequence, pad it.\<close>

fun decode_rows ::
    "'v tensor_ops \<Rightarrow> allocator \<Rightarrow> nat \<Rightarrow> (block_table \<times> nat \<times> 'v \<times> 'v) list
      \<Rightarrow> ('v kv_pool, tensor_error, ('v list \<times> 'v list) list) stateful" where
  "decode_rows ops alloc kv_len [] = ret []"
| "decode_rows ops alloc kv_len ((table, n, k, v) # rows) =
     and_run (kv_write alloc table n [k] [v]) (\<lambda>_.
     and_run (gather_seq table (Suc n)) (\<lambda>(gk, gv).
     and_run (decode_rows ops alloc kv_len rows) (\<lambda>rest.
       ret ((pad_rows ops kv_len gk, pad_rows ops kv_len gv) # rest))))"

definition decode_layer ::
    "'v tensor_ops \<Rightarrow> allocator \<Rightarrow> block_table list \<Rightarrow> nat list \<Rightarrow> nat list \<Rightarrow> nat list \<Rightarrow> nat
      \<Rightarrow> 'v layer \<Rightarrow> 'v list \<Rightarrow> ('v kv_pool, tensor_error, 'v list) stateful" where
  "decode_layer ops alloc tables rope_rows positions seq_lens kv_len l xs =
     (if xs = [] then pure_op (Err TensorError)
      else
        let qkv = map2 (project_qkv ops l) xs rope_rows;
            rows = zip tables (zip seq_lens (map snd qkv)) in
        and_run (decode_rows ops alloc kv_len rows) (\<lambda>kvs.
          let mask = build_mask (map Suc seq_lens) positions kv_len;
              attn = map2 (\<lambda>q ((ks, vs), m). op_sdpa ops q ks vs m) (map fst qkv) (zip kvs mask)
          in ret (map2 (finish_layer ops l) xs attn)))"

text \<open>The loop over the layers; layer \<open>li\<close> owns pool \<open>kv[li]\<close>.\<close>

fun on_layers ::
    "('l \<Rightarrow> 'x \<Rightarrow> ('p, 'e, 'x) stateful) \<Rightarrow> 'l list \<Rightarrow> 'x \<Rightarrow> ('p list, 'e, 'x) stateful" where
  "on_layers step [] x kv = (Ok x, kv)"
| "on_layers step (l # ls) x [] = (Panic, [])"
| "on_layers step (l # ls) x (pool # pools) =
     (case step l x pool of
        (Ok x', pool') \<Rightarrow> (case on_layers step ls x' pools of (r, pools') \<Rightarrow> (r, pool' # pools'))
      | (Err e, pool') \<Rightarrow> (Err e, pool' # pools)
      | (Panic, pool') \<Rightarrow> (Panic, pool' # pools))"

definition decode_step ::
    "'v tensor_ops \<Rightarrow> 'v transformer \<Rightarrow> u32 list \<Rightarrow> nat list \<Rightarrow> nat list \<Rightarrow> allocator
      \<Rightarrow> block_table list \<Rightarrow> ('v kv_pool list, tensor_error, 'v list) stateful" where
  "decode_step ops tr token_ids positions seq_lens alloc tables =
     and_run (pure_op (index_select (tr_embed tr) token_ids)) (\<lambda>xs.
     and_run (pure_op (index_select [0..<tr_context tr] (map of_nat positions))) (\<lambda>rope_rows.
       let kv_len = foldr max seq_lens 0 + 1 in
       and_run (on_layers (decode_layer ops alloc tables rope_rows positions seq_lens kv_len)
                 (tr_layers tr) xs) (\<lambda>xs'.
         ret (map (\<lambda>x. tr_lm_head tr (tr_out_norm tr x)) xs'))))"

section \<open>Prefill: a whole prompt at once\<close>

fun write_each ::
    "allocator \<Rightarrow> block_table \<Rightarrow> nat \<Rightarrow> ('v \<times> 'v) list \<Rightarrow> ('v kv_pool, tensor_error, unit) stateful" where
  "write_each alloc table pos [] = ret ()"
| "write_each alloc table pos ((k, v) # kvs) =
     and_run (kv_write alloc table pos [k] [v]) (\<lambda>_. write_each alloc table (Suc pos) kvs)"

definition causal_mask :: "nat \<Rightarrow> bool list list" where
  "causal_mask n = map (\<lambda>i. map (\<lambda>j. i < j) [0..<n]) [0..<n]"

definition prefill_layer ::
    "'v tensor_ops \<Rightarrow> allocator \<Rightarrow> block_table \<Rightarrow> nat list \<Rightarrow> 'v layer \<Rightarrow> 'v list
      \<Rightarrow> ('v kv_pool, tensor_error, 'v list) stateful" where
  "prefill_layer ops alloc table rope_rows l xs =
     (let qkv = map2 (project_qkv ops l) xs rope_rows in
      and_run (write_each alloc table 0 (map snd qkv)) (\<lambda>_.
        let ks = map (fst \<circ> snd) qkv; vs = map (snd \<circ> snd) qkv;
            attn = map2 (\<lambda>q m. op_sdpa ops q ks vs m) (map fst qkv) (causal_mask (length xs))
        in ret (map2 (finish_layer ops l) xs attn)))"

text \<open>The last row is taken at index \<open>n_seq - 1\<close>; for an empty prompt that is out of range.\<close>

definition prefill_seq ::
    "'v tensor_ops \<Rightarrow> 'v transformer \<Rightarrow> u32 list \<Rightarrow> block_table \<Rightarrow> allocator
      \<Rightarrow> ('v kv_pool list, tensor_error, 'v) stateful" where
  "prefill_seq ops tr prompt_ids table alloc =
     and_run (pure_op (index_select (tr_embed tr) prompt_ids)) (\<lambda>xs.
     and_run (pure_op (index_select [0..<tr_context tr] (map of_nat [0..<length prompt_ids]))) (\<lambda>rope_rows.
     and_run (on_layers (prefill_layer ops alloc table rope_rows) (tr_layers tr) xs) (\<lambda>xs'.
       if xs' = [] then pure_op (Err TensorError)
       else ret (tr_lm_head tr (tr_out_norm tr (last xs'))))))"

section \<open>The reference: one sequence, one token at a time\<close>

type_synonym 'v history = "('v \<times> 'v) list"

definition dense_layer ::
    "'v tensor_ops \<Rightarrow> 'v layer \<Rightarrow> nat \<Rightarrow> 'v \<Rightarrow> 'v history \<Rightarrow> 'v \<times> 'v history" where
  "dense_layer ops l pos x h =
     (let (q, k, v) = project_qkv ops l x pos; h' = h @ [(k, v)]
      in (finish_layer ops l x (op_sdpa ops q (map fst h') (map snd h') (replicate (length h') False)), h'))"

fun dense_layers ::
    "'v tensor_ops \<Rightarrow> 'v layer list \<Rightarrow> nat \<Rightarrow> 'v \<Rightarrow> 'v history list \<Rightarrow> 'v \<times> 'v history list" where
  "dense_layers ops [] pos x hs = (x, [])"
| "dense_layers ops (l # ls) pos x [] = (x, [])"
| "dense_layers ops (l # ls) pos x (h # hs) =
     (let (x', h') = dense_layer ops l pos x h; (x'', hs') = dense_layers ops ls pos x' hs
      in (x'', h' # hs'))"

definition dense_step ::
    "'v tensor_ops \<Rightarrow> 'v transformer \<Rightarrow> u32 \<Rightarrow> nat \<Rightarrow> 'v history list \<Rightarrow> 'v \<times> 'v history list" where
  "dense_step ops tr token pos hs =
     (let (x, hs') = dense_layers ops (tr_layers tr) pos (tr_embed tr ! unat token) hs
      in (tr_lm_head tr (tr_out_norm tr x), hs'))"

text \<open>
  What the code relies on of the library: a key whose mask is minus infinity has no weight
  in the softmax, so attention over masked keys is attention over the others.
\<close>

definition kept :: "bool list \<Rightarrow> 'v list \<Rightarrow> 'v list" where
  "kept ms xs = map snd (filter (\<lambda>(m, _). \<not> m) (zip ms xs))"

definition mask_neutral :: "'v tensor_ops \<Rightarrow> bool" where
  "mask_neutral ops \<longleftrightarrow> (\<forall>q ks vs ms. length ks = length ms \<longrightarrow> length vs = length ms \<longrightarrow> False \<in> set ms \<longrightarrow>
     op_sdpa ops q ks vs ms
       = op_sdpa ops q (kept ms ks) (kept ms vs) (replicate (length (kept ms ks)) False))"

section \<open>Masked attention\<close>

lemma kept_Nil [simp]: "kept [] xs = []"
  by (simp add: kept_def)

lemma kept_append: "length ms = length xs \<Longrightarrow> kept (ms @ ms') (xs @ xs') = kept ms xs @ kept ms' xs'"
  by (simp add: kept_def)

lemma kept_all [simp]: "kept (replicate (length xs) False) xs = xs"
  by (induction xs) (auto simp: kept_def)

lemma kept_none [simp]: "kept (replicate n True) xs = []"
  by (auto simp: kept_def filter_empty_conv dest: set_zip_leftD)

lemma mask_row_decode:
  assumes "n < kv_len"
  shows "map (\<lambda>k. Suc n \<le> k \<or> n < k) [0..<kv_len]
    = replicate (Suc n) False @ replicate (kv_len - Suc n) True"
proof (rule nth_equalityI)
  show "length (map (\<lambda>k. Suc n \<le> k \<or> n < k) [0..<kv_len])
      = length (replicate (Suc n) False @ replicate (kv_len - Suc n) True)"
    using assms by simp
qed (auto simp: nth_append nth_Cons split: nat.splits)

lemma sdpa_padded:
  assumes "mask_neutral ops" and "length ks = Suc n" and "length vs = Suc n" and "n < kv_len"
  shows "op_sdpa ops q (pad_rows ops kv_len ks) (pad_rows ops kv_len vs)
      (map (\<lambda>k. Suc n \<le> k \<or> n < k) [0..<kv_len])
    = op_sdpa ops q ks vs (replicate (Suc n) False)"
proof -
  let ?ms = "replicate (Suc n) False @ replicate (kv_len - Suc n) True"
  have kept: "kept ?ms (pad_rows ops kv_len xs) = xs" if "length xs = Suc n" for xs
    unfolding pad_rows_def using that kept_all [of xs] by (subst kept_append) auto
  have len: "length (pad_rows ops kv_len xs) = length ?ms" if "length xs = Suc n" for xs
    using that assms(4) by (simp add: pad_rows_def)
  have "False \<in> set ?ms" by simp
  with assms(1-3) len kept show ?thesis
    unfolding mask_row_decode [OF assms(4)] mask_neutral_def by (metis (no_types))
qed

section \<open>Decoding a batch\<close>

text \<open>
  A row of the batch in one layer: its input, its block table, its history.  Tables of
  different rows share no block.
\<close>

definition disjoint_tables :: "block_table list \<Rightarrow> bool" where
  "disjoint_tables ts \<longleftrightarrow> sorted_wrt (\<lambda>t u. set t \<inter> set u = {}) ts"

definition row_ready :: "'v kv_pool \<Rightarrow> block_table \<Rightarrow> 'v history \<Rightarrow> bool" where
  "row_ready pool t h \<longleftrightarrow> table_ok pool t \<and> kv_holds pool t h
     \<and> length h < length t * kp_block_size pool"

lemma row_ready_shape:
  "same_shape p q \<Longrightarrow> row_ready p t h \<Longrightarrow> kv_holds q t h \<Longrightarrow> row_ready q t h"
  using same_shape_ok(2) by (auto simp: row_ready_def same_shape_def)

lemma decode_rows_holds:
  assumes "pool_ok pool" and "al_block_size a = kp_block_size pool"
    and "\<forall>(t, h, k, v) \<in> set rows. row_ready pool t h"
    and "disjoint_tables (map fst rows)"
  shows "\<exists>pool'. decode_rows ops a kv_len (map (\<lambda>(t, h, k, v). (t, length h, k, v)) rows) pool
      = (Ok (map (\<lambda>(t, h, k, v). (pad_rows ops kv_len (map fst h @ [k]), pad_rows ops kv_len (map snd h @ [v]))) rows),
         pool')
    \<and> same_shape pool pool'
    \<and> (\<forall>(t, h, k, v) \<in> set rows. kv_holds pool' t (h @ [(k, v)]))
    \<and> (\<forall>u g. (\<forall>t \<in> set (map fst rows). set t \<inter> set u = {}) \<longrightarrow> kv_holds pool u g \<longrightarrow> kv_holds pool' u g)"
  using assms
proof (induction rows arbitrary: pool)
  case Nil
  then show ?case by auto
next
  case (Cons row rows)
  obtain t h k v where row: "row = (t, h, k, v)" by (cases row) auto
  have ready: "row_ready pool t h" "\<forall>(t, h, k, v) \<in> set rows. row_ready pool t h"
    and disj: "\<forall>u \<in> set (map fst rows). set t \<inter> set u = {}" "disjoint_tables (map fst rows)"
    using Cons.prems(3,4) by (auto simp: row disjoint_tables_def)
  have "\<exists>p1. kv_write a t (length h) [k] [v] pool = (Ok (), p1) \<and> same_shape pool p1
    \<and> kv_holds p1 t (h @ zip [k] [v])
    \<and> (\<forall>u g. set t \<inter> set u = {} \<longrightarrow> kv_holds pool u g \<longrightarrow> kv_holds p1 u g)"
    using Cons.prems(1,2) ready(1) by (intro kv_write_holds) (auto simp: row_ready_def)
  then obtain p1 where p1: "kv_write a t (length h) [k] [v] pool = (Ok (), p1)" "same_shape pool p1"
    "kv_holds p1 t (h @ [(k, v)])" "\<And>u g. set t \<inter> set u = {} \<Longrightarrow> kv_holds pool u g \<Longrightarrow> kv_holds p1 u g"
    by auto
  have ok1: "pool_ok p1" "table_ok p1 t"
    using same_shape_ok [OF p1(2)] Cons.prems(1) ready(1) by (auto simp: row_ready_def)
  have "gather_seq t (length (h @ [(k, v)])) p1 = (Ok (map fst (h @ [(k, v)]), map snd (h @ [(k, v)])), p1)"
    by (rule gather_seq_holds [OF ok1 p1(3)])
  then have gather: "gather_seq t (Suc (length h)) p1 = (Ok (map fst h @ [k], map snd h @ [v]), p1)"
    by simp
  have ready1: "\<forall>(t, h, k, v) \<in> set rows. row_ready p1 t h"
  proof (clarify)
    fix t' h' k' v' assume in_rows: "(t', h', k', v') \<in> set rows"
    with ready(2) have "row_ready pool t' h'" by auto
    moreover have "kv_holds p1 t' h'"
      using p1(4) disj(1) in_rows calculation by (force simp: row_ready_def)
    ultimately show "row_ready p1 t' h'"
      by (rule row_ready_shape [OF p1(2)])
  qed
  have "al_block_size a = kp_block_size p1"
    using p1(2) Cons.prems(2) by (simp add: same_shape_def)
  from Cons.IH [OF ok1(1) this ready1 disj(2)] obtain p2 where p2:
    "decode_rows ops a kv_len (map (\<lambda>(t, h, k, v). (t, length h, k, v)) rows) p1
      = (Ok (map (\<lambda>(t, h, k, v). (pad_rows ops kv_len (map fst h @ [k]), pad_rows ops kv_len (map snd h @ [v]))) rows), p2)"
    "same_shape p1 p2" "\<forall>(t, h, k, v) \<in> set rows. kv_holds p2 t (h @ [(k, v)])"
    "\<And>u g. \<forall>t \<in> set (map fst rows). set t \<inter> set u = {} \<Longrightarrow> kv_holds p1 u g \<Longrightarrow> kv_holds p2 u g"
    by blast
  have "kv_holds p2 t (h @ [(k, v)])"
    using p2(4) [OF _ p1(3)] disj(1) by (auto simp: Int_commute)
  moreover have "decode_rows ops a kv_len (map (\<lambda>(t, h, k, v). (t, length h, k, v)) (row # rows)) pool
      = (Ok (map (\<lambda>(t, h, k, v). (pad_rows ops kv_len (map fst h @ [k]), pad_rows ops kv_len (map snd h @ [v])))
          (row # rows)), p2)"
    unfolding row list.map prod.case decode_rows.simps
    by (simp only: and_run_apply p1(1) gather p2(1) prod.case outcome.case ret_apply)
  moreover from calculation(1) have "\<forall>(t, h, k, v) \<in> set (row # rows). kv_holds p2 t (h @ [(k, v)])"
    using p2(3) by (auto simp: row)
  moreover have "\<forall>u g. (\<forall>t \<in> set (map fst (row # rows)). set t \<inter> set u = {}) \<longrightarrow> kv_holds pool u g \<longrightarrow> kv_holds p2 u g"
    using p1(4) p2(4) by (auto simp: row)
  ultimately show ?case
    using same_shape_trans [OF p1(2) p2(2)] by blast
qed

lemma decode_layer_refines:
  assumes "mask_neutral ops" and "pool_ok pool" and "al_block_size a = kp_block_size pool"
    and "rows \<noteq> []" and "\<forall>(x, t, h) \<in> set rows. row_ready pool t h \<and> length h < kv_len"
    and "disjoint_tables (map (\<lambda>(x, t, h). t) rows)"
  defines "ns \<equiv> map (\<lambda>(x, t, h). length h) rows"
  shows "\<exists>pool'. decode_layer ops a (map (\<lambda>(x, t, h). t) rows) ns ns ns kv_len l (map (\<lambda>(x, t, h). x) rows) pool
      = (Ok (map (\<lambda>(x, t, h). fst (dense_layer ops l (length h) x h)) rows), pool')
    \<and> same_shape pool pool'
    \<and> (\<forall>(x, t, h) \<in> set rows. kv_holds pool' t (snd (dense_layer ops l (length h) x h)))
    \<and> (\<forall>u g. (\<forall>(x, t, h) \<in> set rows. set t \<inter> set u = {}) \<longrightarrow> kv_holds pool u g \<longrightarrow> kv_holds pool' u g)"
proof -
  define kv where "kv = (\<lambda>(x, t :: block_table, h). snd (project_qkv ops l x (length (h :: 'a history))))"
  define qr where "qr = (\<lambda>(x, t :: block_table, h). fst (project_qkv ops l x (length (h :: 'a history))))"
  define rs where "rs = map (\<lambda>(x, t, h). (t, h, fst (kv (x, t, h)), snd (kv (x, t, h)))) rows"
  let ?out = "map (\<lambda>(t, h, k, v). (pad_rows ops kv_len (map fst h @ [k]), pad_rows ops kv_len (map snd h @ [v]))) rs"
  have tables: "map fst rs = map (\<lambda>(x, t, h). t) rows"
    by (auto simp: rs_def)
  have "\<forall>(t, h, k, v) \<in> set rs. row_ready pool t h"
    using assms(5) by (auto simp: rs_def)
  with decode_rows_holds [OF assms(2,3) this, of ops kv_len] assms(6) tables
  obtain pool' where p: "decode_rows ops a kv_len (map (\<lambda>(t, h, k, v). (t, length h, k, v)) rs) pool = (Ok ?out, pool')"
    "same_shape pool pool'" "\<forall>(t, h, k, v) \<in> set rs. kv_holds pool' t (h @ [(k, v)])"
    "\<forall>u g. (\<forall>t \<in> set (map fst rs). set t \<inter> set u = {}) \<longrightarrow> kv_holds pool u g \<longrightarrow> kv_holds pool' u g"
    by auto
  have zipped: "zip (map (\<lambda>(x, t, h). t) rows) (zip ns (map snd (map2 (project_qkv ops l) (map (\<lambda>(x, t, h). x) rows) ns)))
      = map (\<lambda>(t, h, k, v). (t, length h, k, v)) rs"
    by (simp add: ns_def rs_def kv_def map2_map_map zip_map_map zip_same_conv_map comp_def split_beta)
  have attn: "op_sdpa ops q (pad_rows ops kv_len (map fst (snd (snd r)) @ [k]))
      (pad_rows ops kv_len (map snd (snd (snd r)) @ [v]))
      (map (\<lambda>i. Suc (length (snd (snd r))) \<le> i \<or> length (snd (snd r)) < i) [0..<kv_len])
    = op_sdpa ops q (map fst (snd (snd r)) @ [k]) (map snd (snd (snd r)) @ [v])
        (False # replicate (length (snd (snd r))) False)"
    if "r \<in> set rows" for r q k v
    using that assms(1,5) sdpa_padded [of ops "map fst (snd (snd r)) @ [k]" "length (snd (snd r))"]
    by (cases r) auto
  have "map2 (finish_layer ops l) (map (\<lambda>(x, t, h). x) rows)
      (map2 (\<lambda>q ((ks, vs), m). op_sdpa ops q ks vs m)
        (map fst (map2 (project_qkv ops l) (map (\<lambda>(x, t, h). x) rows) ns))
        (zip ?out (build_mask (map Suc ns) ns kv_len)))
    = map (\<lambda>(x, t, h). fst (dense_layer ops l (length h) x h)) rows"
    using attn
    by (simp add: ns_def rs_def kv_def build_mask_def map2_map_map zip_map_map zip_same_conv_map comp_def
        split_beta dense_layer_def Let_def)
  moreover have "\<forall>(x, t, h) \<in> set rows. kv_holds pool' t (snd (dense_layer ops l (length h) x h))"
    using p(3) by (auto simp: rs_def kv_def dense_layer_def Let_def split_beta)
  moreover have "\<forall>u g. (\<forall>(x, t, h) \<in> set rows. set t \<inter> set u = {}) \<longrightarrow> kv_holds pool u g \<longrightarrow> kv_holds pool' u g"
    using p(4) unfolding tables by fastforce
  ultimately show ?thesis
    using p(1,2) assms(4) zipped
    by (intro exI [of _ pool']) (simp add: decode_layer_def Let_def)
qed

text \<open>All the layers: each owns one pool, each sequence has one history per layer.\<close>

definition seq_ready :: "'v kv_pool list \<Rightarrow> block_table \<Rightarrow> nat \<Rightarrow> 'v history list \<Rightarrow> bool" where
  "seq_ready pools t n hs \<longleftrightarrow> list_all2 (\<lambda>pool h. row_ready pool t h \<and> length h = n) pools hs"

definition seq_holds :: "'v kv_pool list \<Rightarrow> block_table \<Rightarrow> 'v history list \<Rightarrow> bool" where
  "seq_holds pools t hs \<longleftrightarrow> list_all2 (\<lambda>pool h. kv_holds pool t h) pools hs"

definition pools_ok :: "allocator \<Rightarrow> 'v kv_pool list \<Rightarrow> bool" where
  "pools_ok a pools \<longleftrightarrow> (\<forall>pool \<in> set pools. pool_ok pool \<and> al_block_size a = kp_block_size pool)"

lemma decode_layers_refine:
  assumes "mask_neutral ops" and "pools_ok a pools" and "rows \<noteq> []" and "length pools = length ls"
    and "\<forall>(x, t, n, hs) \<in> set rows. seq_ready pools t n hs \<and> n < kv_len"
    and "disjoint_tables (map (\<lambda>(x, t, n, hs). t) rows)"
  defines "ns \<equiv> map (\<lambda>(x, t, n, hs :: 'v history list). n) rows"
  shows "\<exists>pools'. on_layers (decode_layer ops a (map (\<lambda>(x, t, n, hs). t) rows) ns ns ns kv_len) ls
        (map (\<lambda>(x, t, n, hs). x) rows) pools
      = (Ok (map (\<lambda>(x, t, n, hs). fst (dense_layers ops ls n x hs)) rows), pools')
    \<and> list_all2 same_shape pools pools'
    \<and> (\<forall>(x, t, n, hs) \<in> set rows. seq_holds pools' t (snd (dense_layers ops ls n x hs)))
    \<and> (\<forall>u gs. (\<forall>(x, t, n, hs) \<in> set rows. set t \<inter> set u = {}) \<longrightarrow> seq_holds pools u gs \<longrightarrow> seq_holds pools' u gs)"
  using assms(2-6) unfolding ns_def
proof (induction ls arbitrary: rows pools)
  case Nil
  then show ?case
    by (auto simp: seq_holds_def split_beta)
next
  case (Cons l ls)
  obtain pool ps where pools: "pools = pool # ps"
    using Cons.prems(3) by (cases pools) auto
  define heads where "heads = map (\<lambda>(x, t, n, hs). (x, t, hd hs)) rows"
  define rest where "rest = map (\<lambda>(x, t, n, hs). (fst (dense_layer ops l n x (hd hs)), t, n, tl hs)) rows"
  have split: "\<exists>h hs'. hs = h # hs' \<and> row_ready pool t h \<and> length h = n \<and> seq_ready ps t n hs'"
    if "(x, t, n, hs) \<in> set rows" for x t n hs
    using Cons.prems(4) that by (fastforce simp: pools seq_ready_def list_all2_Cons1)
  have ns: "map (\<lambda>(x, t, h). length h) heads = map (\<lambda>(x, t, n, hs). n) rows"
    using split by (fastforce simp: heads_def)
  have ts: "map (\<lambda>(x, t, h). t) heads = map (\<lambda>(x, t, n, hs). t) rows"
    by (auto simp: heads_def)
  have xs: "map (\<lambda>(x, t, h). x) heads = map (\<lambda>(x, t, n, hs). x) rows"
    by (auto simp: heads_def)
  have out: "map (\<lambda>(x, t, h). fst (dense_layer ops l (length h) x h)) heads = map (\<lambda>(x, t, n, hs). x) rest"
    using split by (fastforce simp: heads_def rest_def)
  have "\<forall>(x, t, h) \<in> set heads. row_ready pool t h \<and> length h < kv_len"
    using split Cons.prems(4) by (fastforce simp: heads_def)
  moreover have "heads \<noteq> []" "pool_ok pool" "al_block_size a = kp_block_size pool"
    using Cons.prems(1,2) by (auto simp: heads_def pools pools_ok_def)
  ultimately obtain pool' where layer:
    "decode_layer ops a (map (\<lambda>(x, t, n, hs). t) rows) (map (\<lambda>(x, t, n, hs). n) rows) (map (\<lambda>(x, t, n, hs). n) rows)
       (map (\<lambda>(x, t, n, hs). n) rows) kv_len l (map (\<lambda>(x, t, n, hs). x) rows) pool
      = (Ok (map (\<lambda>(x, t, n, hs). x) rest), pool')"
    "same_shape pool pool'"
    "\<forall>(x, t, h) \<in> set heads. kv_holds pool' t (snd (dense_layer ops l (length h) x h))"
    "\<forall>u g. (\<forall>(x, t, h) \<in> set heads. set t \<inter> set u = {}) \<longrightarrow> kv_holds pool u g \<longrightarrow> kv_holds pool' u g"
    using decode_layer_refines [OF assms(1), of pool a heads kv_len l] Cons.prems(5)
    unfolding ns ts xs out by blast
  have keep: "map (\<lambda>(x, t, n, hs). t) rest = map (\<lambda>(x, t, n, hs). t) rows"
    "map (\<lambda>(x, t, n, hs). n) rest = map (\<lambda>(x, t, n, hs). n) rows"
    by (auto simp: rest_def)
  have "pools_ok a ps" "rest \<noteq> []" "length ps = length ls"
    using Cons.prems(1-3) by (auto simp: pools pools_ok_def rest_def)
  moreover have "\<forall>(x, t, n, hs) \<in> set rest. seq_ready ps t n hs \<and> n < kv_len"
    using split Cons.prems(4) by (fastforce simp: rest_def)
  ultimately obtain ps' where ps':
    "on_layers (decode_layer ops a (map (\<lambda>(x, t, n, hs). t) rows) (map (\<lambda>(x, t, n, hs). n) rows)
        (map (\<lambda>(x, t, n, hs). n) rows) (map (\<lambda>(x, t, n, hs). n) rows) kv_len) ls
        (map (\<lambda>(x, t, n, hs). x) rest) ps
      = (Ok (map (\<lambda>(x, t, n, hs). fst (dense_layers ops ls n x hs)) rest), ps')"
    "list_all2 same_shape ps ps'"
    "\<forall>(x, t, n, hs) \<in> set rest. seq_holds ps' t (snd (dense_layers ops ls n x hs))"
    "\<forall>u gs. (\<forall>(x, t, n, hs) \<in> set rest. set t \<inter> set u = {}) \<longrightarrow> seq_holds ps u gs \<longrightarrow> seq_holds ps' u gs"
    using Cons.IH [of ps rest] Cons.prems(5) unfolding keep by blast
  have res: "map (\<lambda>(x, t, n, hs). fst (dense_layers ops ls n x hs)) rest
      = map (\<lambda>(x, t, n, hs). fst (dense_layers ops (l # ls) n x hs)) rows"
    using split by (fastforce simp: rest_def split_beta)
  have run: "on_layers (decode_layer ops a (map (\<lambda>(x, t, n, hs). t) rows) (map (\<lambda>(x, t, n, hs). n) rows)
        (map (\<lambda>(x, t, n, hs). n) rows) (map (\<lambda>(x, t, n, hs). n) rows) kv_len) (l # ls)
        (map (\<lambda>(x, t, n, hs). x) rows) pools
      = (Ok (map (\<lambda>(x, t, n, hs). fst (dense_layers ops (l # ls) n x hs)) rows), pool' # ps')"
    unfolding pools on_layers.simps layer(1) ps'(1) prod.case outcome.case res ..
  have own: "seq_holds (pool' # ps') t (snd (dense_layers ops (l # ls) n x hs))"
    if row: "(x, t, n, hs) \<in> set rows" for x t n hs
  proof -
    from split [OF row] obtain h hs' where hs: "hs = h # hs'" "length h = n" by blast
    with row have "(x, t, h) \<in> set heads"
      by (force simp: heads_def)
    moreover from hs row have "(fst (dense_layer ops l n x h), t, n, hs') \<in> set rest"
      by (force simp: rest_def)
    ultimately show ?thesis
      using layer(3) ps'(3) hs by (fastforce simp: seq_holds_def split_beta)
  qed
  have other: "seq_holds (pool' # ps') u gs"
    if disj: "\<forall>(x, t, n, hs) \<in> set rows. set t \<inter> set u = {}" and gs: "seq_holds pools u gs" for u gs
  proof -
    from gs obtain g gs' where g: "gs = g # gs'" "kv_holds pool u g" "seq_holds ps u gs'"
      by (auto simp: pools seq_holds_def list_all2_Cons1)
    from disj have "\<forall>(x, t, h) \<in> set heads. set t \<inter> set u = {}" "\<forall>(x, t, n, hs) \<in> set rest. set t \<inter> set u = {}"
      by (auto simp: heads_def rest_def)
    with layer(4) ps'(4) g show ?thesis
      by (simp add: seq_holds_def)
  qed
  show ?case
  proof (intro exI [of _ "pool' # ps'"] conjI)
    show "list_all2 same_shape pools (pool' # ps')"
      using layer(2) ps'(2) by (simp add: pools)
    show "\<forall>(x, t, n, hs) \<in> set rows. seq_holds (pool' # ps') t (snd (dense_layers ops (l # ls) n x hs))"
      by (clarify, rule own)
  qed (use run other in blast)+
qed

lemma index_select_range:
  assumes "\<forall>p \<in> set ps. p < c" and "c \<le> 2 ^ 32"
  shows "index_select [0..<c] (map of_nat ps) = Ok ps"
proof -
  have "unat (of_nat p :: u32) = p" if "p \<in> set ps" for p
    using assms that by (fastforce simp: unat_of_nat simp del: power_numeral)
  then show ?thesis
    using assms(1) by (simp add: index_select_def list_all_iff map_idI)
qed

lemma index_select_all:
  "\<forall>i \<in> set idx. unat i < length rows \<Longrightarrow> index_select rows idx = Ok (map (\<lambda>i. rows ! unat i) idx)"
  by (simp add: index_select_def list_all_iff)

lemma less_foldr_max: "(n :: nat) \<in> set ns \<Longrightarrow> n < foldr max ns 0 + 1"
  by (induction ns) auto

lemma decode_step_refines:
  assumes "mask_neutral ops" and "pools_ok a pools" and "reqs \<noteq> []"
    and "length pools = length (tr_layers tr)" and "tr_context tr \<le> 2 ^ 32"
    and "\<forall>(tok, t, n, hs) \<in> set reqs. unat tok < length (tr_embed tr) \<and> n < tr_context tr
          \<and> seq_ready pools t n hs"
    and "disjoint_tables (map (\<lambda>(tok, t, n, hs). t) reqs)"
  defines "ns \<equiv> map (\<lambda>(tok :: u32, t :: block_table, n, hs :: 'v history list). n) reqs"
  shows "\<exists>pools'. decode_step ops tr (map (\<lambda>(tok, t, n, hs). tok) reqs) ns ns a (map (\<lambda>(tok, t, n, hs). t) reqs) pools
      = (Ok (map (\<lambda>(tok, t, n, hs). fst (dense_step ops tr tok n hs)) reqs), pools')
    \<and> list_all2 same_shape pools pools'
    \<and> (\<forall>(tok, t, n, hs) \<in> set reqs. seq_holds pools' t (snd (dense_step ops tr tok n hs)))
    \<and> (\<forall>u gs. (\<forall>(tok, t, n, hs) \<in> set reqs. set t \<inter> set u = {}) \<longrightarrow> seq_holds pools u gs \<longrightarrow> seq_holds pools' u gs)"
proof -
  define rows where "rows = map (\<lambda>(tok, t, n, hs). (tr_embed tr ! unat tok, t, n, hs)) reqs"
  have embed: "index_select (tr_embed tr) (map (\<lambda>(tok, t, n, hs). tok) reqs) = Ok (map (\<lambda>(x, t, n, hs). x) rows)"
    using assms(6) by (subst index_select_all) (fastforce simp: rows_def)+
  have rope: "index_select [0..<tr_context tr] (map of_nat ns) = Ok ns"
    using assms(5,6) by (intro index_select_range) (fastforce simp: ns_def)+
  have ns: "map (\<lambda>(x, t, n, hs). n) rows = ns" and ts: "map (\<lambda>(x, t, n, hs). t) rows = map (\<lambda>(tok, t, n, hs). t) reqs"
    by (auto simp: rows_def ns_def)
  have "\<forall>(x, t, n, hs) \<in> set rows. seq_ready pools t n hs \<and> n < foldr max ns 0 + 1"
  proof (clarify, rule conjI)
    fix x t n hs assume row: "(x, t, n, hs) \<in> set rows"
    then show "seq_ready pools t n hs"
      using assms(6) by (fastforce simp: rows_def)
    from row have "n \<in> set ns" by (force simp flip: ns)
    then show "n < foldr max ns 0 + 1" by (rule less_foldr_max)
  qed
  moreover have "rows \<noteq> []" using assms(3) by (simp add: rows_def)
  ultimately obtain pools' where layers:
    "on_layers (decode_layer ops a (map (\<lambda>(tok, t, n, hs). t) reqs) ns ns ns (foldr max ns 0 + 1)) (tr_layers tr)
        (map (\<lambda>(x, t, n, hs). x) rows) pools
      = (Ok (map (\<lambda>(x, t, n, hs). fst (dense_layers ops (tr_layers tr) n x hs)) rows), pools')"
    "list_all2 same_shape pools pools'"
    "\<forall>(x, t, n, hs) \<in> set rows. seq_holds pools' t (snd (dense_layers ops (tr_layers tr) n x hs))"
    "\<forall>u gs. (\<forall>(x, t, n, hs) \<in> set rows. set t \<inter> set u = {}) \<longrightarrow> seq_holds pools u gs \<longrightarrow> seq_holds pools' u gs"
    using decode_layers_refine [OF assms(1,2) _ assms(4), of rows "foldr max ns 0 + 1"] assms(7)
    unfolding ns ts by blast
  have "map (\<lambda>x. tr_lm_head tr (tr_out_norm tr x))
      (map (\<lambda>(x, t, n, hs). fst (dense_layers ops (tr_layers tr) n x hs)) rows)
    = map (\<lambda>(tok, t, n, hs). fst (dense_step ops tr tok n hs)) reqs"
    by (auto simp: rows_def dense_step_def Let_def split_beta)
  then have "decode_step ops tr (map (\<lambda>(tok, t, n, hs). tok) reqs) ns ns a (map (\<lambda>(tok, t, n, hs). t) reqs) pools
      = (Ok (map (\<lambda>(tok, t, n, hs). fst (dense_step ops tr tok n hs)) reqs), pools')"
    unfolding decode_step_def Let_def embed rope
    by (simp only: and_run_apply pure_op_apply layers(1) prod.case outcome.case ret_apply)
  moreover have "\<forall>(tok, t, n, hs) \<in> set reqs. seq_holds pools' t (snd (dense_step ops tr tok n hs))"
    using layers(3) by (fastforce simp: rows_def dense_step_def Let_def split_beta)
  moreover have "\<forall>u gs. (\<forall>(tok, t, n, hs) \<in> set reqs. set t \<inter> set u = {}) \<longrightarrow> seq_holds pools u gs \<longrightarrow> seq_holds pools' u gs"
    using layers(4) by (fastforce simp: rows_def)
  ultimately show ?thesis
    using layers(2) by blast
qed

section \<open>Prefilling a prompt\<close>

text \<open>
  The reference for prefill feeds the prompt token by token.  Prefill goes layer by layer;
  \<open>dense_run\<close> is one layer over all tokens, \<open>dense_tokens\<close> all layers token by token.
\<close>

fun dense_run ::
    "'v tensor_ops \<Rightarrow> 'v layer \<Rightarrow> nat \<Rightarrow> 'v list \<Rightarrow> 'v history \<Rightarrow> 'v list \<times> 'v history" where
  "dense_run ops l pos [] h = ([], h)"
| "dense_run ops l pos (x # xs) h =
     (let (y, h') = dense_layer ops l pos x h; (ys, h'') = dense_run ops l (Suc pos) xs h'
      in (y # ys, h''))"

fun dense_tokens ::
    "'v tensor_ops \<Rightarrow> 'v layer list \<Rightarrow> nat \<Rightarrow> 'v list \<Rightarrow> 'v history list \<Rightarrow> 'v list \<times> 'v history list" where
  "dense_tokens ops ls pos [] hs = ([], hs)"
| "dense_tokens ops ls pos (x # xs) hs =
     (let (y, hs') = dense_layers ops ls pos x hs; (ys, hs'') = dense_tokens ops ls (Suc pos) xs hs'
      in (y # ys, hs''))"

fun dense_prompt ::
    "'v tensor_ops \<Rightarrow> 'v transformer \<Rightarrow> nat \<Rightarrow> u32 list \<Rightarrow> 'v history list \<Rightarrow> 'v option \<times> 'v history list" where
  "dense_prompt ops tr pos [] hs = (None, hs)"
| "dense_prompt ops tr pos (tok # toks) hs =
     (let (logits, hs') = dense_step ops tr tok pos hs
      in if toks = [] then (Some logits, hs') else dense_prompt ops tr (Suc pos) toks hs')"

lemma dense_layers_Cons: "dense_layers ops (l # ls) pos x (h # hs)
    = (fst (dense_layers ops ls pos (fst (dense_layer ops l pos x h)) hs),
       snd (dense_layer ops l pos x h) # snd (dense_layers ops ls pos (fst (dense_layer ops l pos x h)) hs))"
  by (simp add: split_beta)

lemma length_dense_run [simp]: "length (fst (dense_run ops l pos xs h)) = length xs"
  by (induction xs arbitrary: pos h) (auto simp: split_beta)

lemma dense_tokens_Cons:
  "dense_tokens ops (l # ls) pos xs (h # hs)
    = (fst (dense_tokens ops ls pos (fst (dense_run ops l pos xs h)) hs),
       snd (dense_run ops l pos xs h) # snd (dense_tokens ops ls pos (fst (dense_run ops l pos xs h)) hs))"
proof (induction xs arbitrary: pos h hs)
  case (Cons x xs)
  show ?case
    using Cons.IH [of "Suc pos" "snd (dense_layer ops l pos x h)"
        "snd (dense_layers ops ls pos (fst (dense_layer ops l pos x h)) hs)"]
    by (simp add: split_beta Let_def)
qed simp

lemma dense_prompt_tokens:
  assumes "toks \<noteq> []"
  shows "dense_prompt ops tr pos toks hs
    = (Some (tr_lm_head tr (tr_out_norm tr
          (last (fst (dense_tokens ops (tr_layers tr) pos (map (\<lambda>i. tr_embed tr ! unat i) toks) hs))))),
       snd (dense_tokens ops (tr_layers tr) pos (map (\<lambda>i. tr_embed tr ! unat i) toks) hs))"
  using assms
proof (induction toks arbitrary: pos hs)
  case (Cons tok toks)
  show ?case
  proof (cases "toks = []")
    case True
    then show ?thesis
      by (simp add: dense_step_def split_beta Let_def)
  next
    case False
    then have "fst (dense_tokens ops (tr_layers tr) p (map (\<lambda>i. tr_embed tr ! unat i) toks) gs) \<noteq> []" for p gs
      by (cases toks) (simp_all add: split_beta Let_def)
    with Cons.IH [OF False] False show ?thesis
      by (simp add: dense_step_def split_beta Let_def)
  qed
qed simp

text \<open>One layer over the prompt: keys and values first, then attention under the causal mask.\<close>

lemma dense_run_history:
  "snd (dense_run ops l pos xs h)
    = h @ map2 (\<lambda>x p. snd (project_qkv ops l x p)) xs [pos..<pos + length xs]"
  by (induction xs arbitrary: pos h)
    (simp_all add: dense_layer_def split_beta Let_def upt_conv_Cons del: upt_Suc)

lemma dense_run_nth:
  assumes "i < length xs"
  shows "fst (dense_run ops l pos xs h) ! i
    = (let H = h @ take (Suc i) (map2 (\<lambda>x p. snd (project_qkv ops l x p)) xs [pos..<pos + length xs])
       in finish_layer ops l (xs ! i) (op_sdpa ops (fst (project_qkv ops l (xs ! i) (pos + i)))
            (map fst H) (map snd H) (replicate (length H) False)))"
  using assms
proof (induction xs arbitrary: pos h i)
  case (Cons x xs)
  have upt: "[pos..<pos + length (x # xs)] = pos # [Suc pos..<Suc pos + length xs]"
    by (simp add: upt_conv_Cons del: upt_Suc)
  show ?case
  proof (cases i)
    case 0
    then show ?thesis
      unfolding upt by (simp add: dense_layer_def split_beta Let_def del: upt_Suc)
  next
    case (Suc j)
    then have "j < length xs" using Cons.prems by simp
    from Cons.IH [OF this, of "Suc pos" "snd (dense_layer ops l pos x h)"] Suc show ?thesis
      unfolding upt by (simp add: split_beta Let_def del: upt_Suc) (simp add: dense_layer_def split_beta Let_def del: upt_Suc)
  qed
qed simp

lemma write_each_holds:
  assumes "pool_ok pool" and "table_ok pool t" and "kv_holds pool t h"
    and "al_block_size a = kp_block_size pool"
    and "length h + length kvs \<le> length t * kp_block_size pool"
  shows "\<exists>pool'. write_each a t (length h) kvs pool = (Ok (), pool') \<and> same_shape pool pool'
    \<and> kv_holds pool' t (h @ kvs)
    \<and> (\<forall>u g. set t \<inter> set u = {} \<longrightarrow> kv_holds pool u g \<longrightarrow> kv_holds pool' u g)"
  using assms
proof (induction kvs arbitrary: h pool)
  case Nil
  then show ?case by (auto intro!: exI [of _ pool])
next
  case (Cons kv kvs)
  obtain k v where kv: "kv = (k, v)" by (cases kv)
  have "\<exists>p. kv_write a t (length h) [k] [v] pool = (Ok (), p) \<and> same_shape pool p
    \<and> kv_holds p t (h @ zip [k] [v])
    \<and> (\<forall>u g. set t \<inter> set u = {} \<longrightarrow> kv_holds pool u g \<longrightarrow> kv_holds p u g)"
    using Cons.prems by (intro kv_write_holds) auto
  then obtain p where p: "kv_write a t (length h) [k] [v] pool = (Ok (), p)" "same_shape pool p"
    "kv_holds p t (h @ [(k, v)])" "\<And>u g. set t \<inter> set u = {} \<Longrightarrow> kv_holds pool u g \<Longrightarrow> kv_holds p u g"
    by auto
  have "\<exists>pool'. write_each a t (length (h @ [(k, v)])) kvs p = (Ok (), pool') \<and> same_shape p pool'
    \<and> kv_holds pool' t ((h @ [(k, v)]) @ kvs)
    \<and> (\<forall>u g. set t \<inter> set u = {} \<longrightarrow> kv_holds p u g \<longrightarrow> kv_holds pool' u g)"
    using Cons.prems p(3) same_shape_ok [OF p(2)] p(2)
    by (intro Cons.IH) (auto simp: same_shape_def)
  then obtain q where q: "write_each a t (Suc (length h)) kvs p = (Ok (), q)" "same_shape p q"
    "kv_holds q t (h @ kv # kvs)" "\<And>u g. set t \<inter> set u = {} \<Longrightarrow> kv_holds p u g \<Longrightarrow> kv_holds q u g"
    by (auto simp: kv)
  have "write_each a t (length h) (kv # kvs) pool = (Ok (), q)"
    unfolding kv write_each.simps
    by (simp only: and_run_apply p(1) prod.case outcome.case q(1))
  then show ?case
    using q(3,4) p(4) same_shape_trans [OF p(2) q(2)] by blast
qed

lemma kept_causal_row:
  assumes "i < n" and "length xs = n"
  shows "kept (map (\<lambda>j. i < j) [0..<n]) xs = take (Suc i) xs"
proof -
  have row: "map (\<lambda>j. i < j) [0..<n] = replicate (Suc i) False @ replicate (n - Suc i) True"
    using assms(1) by (intro nth_equalityI) (auto simp: nth_append nth_Cons split: nat.splits)
  have "kept (replicate (Suc i) False @ replicate (n - Suc i) True) (take (Suc i) xs @ drop (Suc i) xs)
      = take (Suc i) xs"
    using assms kept_all [of "take (Suc i) xs"] by (subst kept_append) auto
  then show ?thesis
    by (simp only: row append_take_drop_id)
qed

lemma prefill_attention:
  fixes l :: "'v layer"
  assumes "mask_neutral ops" and "i < length xs"
  defines "qkv \<equiv> map2 (project_qkv ops l) xs [0..<length xs]"
  shows "op_sdpa ops q (map (fst \<circ> snd) qkv) (map (snd \<circ> snd) qkv) (map (\<lambda>j. i < j) [0..<length xs])
    = op_sdpa ops q (take (Suc i) (map (fst \<circ> snd) qkv)) (take (Suc i) (map (snd \<circ> snd) qkv))
        (replicate (Suc i) False)"
proof -
  let ?ms = "map (\<lambda>j. i < j) [0..<length xs]"
    and ?ks = "map (fst \<circ> snd) qkv" and ?vs = "map (snd \<circ> snd) qkv"
  have len: "length ?ks = length ?ms" "length ?vs = length ?ms"
    by (simp_all add: qkv_def)
  have "False \<in> set ?ms"
    using assms(2) by force
  with assms(1) len have "op_sdpa ops q ?ks ?vs ?ms
      = op_sdpa ops q (kept ?ms ?ks) (kept ?ms ?vs) (replicate (length (kept ?ms ?ks)) False)"
    unfolding mask_neutral_def by blast
  also have "kept ?ms ?ks = take (Suc i) ?ks"
    using len(1) by (intro kept_causal_row [OF assms(2)]) simp
  also have "kept ?ms ?vs = take (Suc i) ?vs"
    using len(2) by (intro kept_causal_row [OF assms(2)]) simp
  also have "length (take (Suc i) ?ks) = Suc i"
    using len(1) assms(2) by simp
  finally show ?thesis .
qed

lemma prefill_layer_refines:
  assumes "mask_neutral ops" and "pool_ok pool" and "al_block_size a = kp_block_size pool"
    and "table_ok pool t" and "length xs \<le> length t * kp_block_size pool"
  shows "\<exists>pool'. prefill_layer ops a t [0..<length xs] l xs pool = (Ok (fst (dense_run ops l 0 xs [])), pool')
    \<and> same_shape pool pool' \<and> kv_holds pool' t (snd (dense_run ops l 0 xs []))
    \<and> (\<forall>u g. set t \<inter> set u = {} \<longrightarrow> kv_holds pool u g \<longrightarrow> kv_holds pool' u g)"
proof -
  let ?qkv = "map2 (project_qkv ops l) xs [0..<length xs]"
  have hist: "snd (dense_run ops l 0 xs []) = map snd ?qkv"
    by (simp add: dense_run_history split_beta comp_def)
  have "\<exists>pool'. write_each a t (length ([] :: 'a history)) (map snd ?qkv) pool = (Ok (), pool') \<and> same_shape pool pool'
    \<and> kv_holds pool' t ([] @ map snd ?qkv)
    \<and> (\<forall>u g. set t \<inter> set u = {} \<longrightarrow> kv_holds pool u g \<longrightarrow> kv_holds pool' u g)"
    using assms(2-5) by (intro write_each_holds) (auto simp: kv_holds_def)
  then obtain pool' where w: "write_each a t 0 (map snd ?qkv) pool = (Ok (), pool')" "same_shape pool pool'"
    "kv_holds pool' t (map snd ?qkv)"
    "\<forall>u g. set t \<inter> set u = {} \<longrightarrow> kv_holds pool u g \<longrightarrow> kv_holds pool' u g"
    by auto
  let ?out = "map2 (finish_layer ops l) xs
      (map2 (\<lambda>q m. op_sdpa ops q (map (fst \<circ> snd) ?qkv) (map (snd \<circ> snd) ?qkv) m) (map fst ?qkv)
        (causal_mask (length xs)))"
  have "?out = fst (dense_run ops l 0 xs [])"
  proof (rule nth_equalityI)
    fix i assume "i < length ?out"
    then have i: "i < length xs" by (simp add: causal_mask_def)
    have "?out ! i = finish_layer ops l (xs ! i) (op_sdpa ops (fst (project_qkv ops l (xs ! i) i))
        (take (Suc i) (map (fst \<circ> snd) ?qkv)) (take (Suc i) (map (snd \<circ> snd) ?qkv)) (replicate (Suc i) False))"
      using i prefill_attention [OF assms(1) i] by (simp add: causal_mask_def)
    also have "\<dots> = fst (dense_run ops l 0 xs []) ! i"
      using i by (simp add: dense_run_nth Let_def take_map split_beta comp_def min_absorb1 Suc_leI
          del: replicate_Suc)
    finally show "?out ! i = fst (dense_run ops l 0 xs []) ! i" .
  qed (simp add: causal_mask_def)
  then have "prefill_layer ops a t [0..<length xs] l xs pool = (Ok (fst (dense_run ops l 0 xs [])), pool')"
    unfolding prefill_layer_def Let_def
    by (simp only: and_run_apply w(1) prod.case outcome.case ret_apply)
  then show ?thesis
    using w(2-4) hist by auto
qed

lemma prefill_layers_refine:
  assumes "mask_neutral ops" and "pools_ok a pools" and "length pools = length ls"
    and "\<forall>pool \<in> set pools. table_ok pool t" and "length xs \<le> length t * al_block_size a"
    and "length xs = n"
  shows "\<exists>pools'. on_layers (prefill_layer ops a t [0..<n]) ls xs pools
      = (Ok (fst (dense_tokens ops ls 0 xs (replicate (length ls) []))), pools')
    \<and> list_all2 same_shape pools pools'
    \<and> seq_holds pools' t (snd (dense_tokens ops ls 0 xs (replicate (length ls) [])))
    \<and> (\<forall>u gs. set t \<inter> set u = {} \<longrightarrow> seq_holds pools u gs \<longrightarrow> seq_holds pools' u gs)"
  using assms(2-6)
proof (induction ls arbitrary: pools xs)
  case Nil
  have "dense_tokens ops [] 0 xs [] = (xs, [])"
  proof -
    have "dense_tokens ops [] p xs [] = (xs, [])" for p
      by (induction xs arbitrary: p) auto
    then show ?thesis .
  qed
  with Nil show ?case by (simp add: seq_holds_def)
next
  case (Cons l ls)
  obtain pool ps where pools: "pools = pool # ps"
    using Cons.prems(2) by (cases pools) auto
  have one: "pool_ok pool" "al_block_size a = kp_block_size pool" "table_ok pool t" "length xs \<le> length t * kp_block_size pool"
    using Cons.prems by (auto simp: pools pools_ok_def)
  from prefill_layer_refines [OF assms(1) one, of l] Cons.prems(5) obtain pool' where p:
    "prefill_layer ops a t [0..<n] l xs pool = (Ok (fst (dense_run ops l 0 xs [])), pool')"
    "same_shape pool pool'" "kv_holds pool' t (snd (dense_run ops l 0 xs []))"
    "\<forall>u g. set t \<inter> set u = {} \<longrightarrow> kv_holds pool u g \<longrightarrow> kv_holds pool' u g"
    by blast
  have "\<exists>pools'. on_layers (prefill_layer ops a t [0..<n]) ls (fst (dense_run ops l 0 xs [])) ps
      = (Ok (fst (dense_tokens ops ls 0 (fst (dense_run ops l 0 xs [])) (replicate (length ls) []))), pools')
    \<and> list_all2 same_shape ps pools'
    \<and> seq_holds pools' t (snd (dense_tokens ops ls 0 (fst (dense_run ops l 0 xs [])) (replicate (length ls) [])))
    \<and> (\<forall>u gs. set t \<inter> set u = {} \<longrightarrow> seq_holds ps u gs \<longrightarrow> seq_holds pools' u gs)"
    using Cons.prems by (intro Cons.IH) (auto simp: pools pools_ok_def)
  then obtain ps' where ps':
    "on_layers (prefill_layer ops a t [0..<n]) ls (fst (dense_run ops l 0 xs [])) ps
      = (Ok (fst (dense_tokens ops ls 0 (fst (dense_run ops l 0 xs [])) (replicate (length ls) []))), ps')"
    "list_all2 same_shape ps ps'"
    "seq_holds ps' t (snd (dense_tokens ops ls 0 (fst (dense_run ops l 0 xs [])) (replicate (length ls) [])))"
    "\<forall>u gs. set t \<inter> set u = {} \<longrightarrow> seq_holds ps u gs \<longrightarrow> seq_holds ps' u gs"
    by blast
  have tokens: "dense_tokens ops (l # ls) 0 xs (replicate (length (l # ls)) [])
      = (fst (dense_tokens ops ls 0 (fst (dense_run ops l 0 xs [])) (replicate (length ls) [])),
         snd (dense_run ops l 0 xs []) # snd (dense_tokens ops ls 0 (fst (dense_run ops l 0 xs [])) (replicate (length ls) [])))"
    by (simp add: dense_tokens_Cons)
  have "on_layers (prefill_layer ops a t [0..<n]) (l # ls) xs pools
      = (Ok (fst (dense_tokens ops (l # ls) 0 xs (replicate (length (l # ls)) []))), pool' # ps')"
    unfolding pools on_layers.simps p(1) ps'(1) prod.case outcome.case tokens fst_conv ..
  moreover have "seq_holds (pool' # ps') u gs" if "set t \<inter> set u = {}" and "seq_holds pools u gs" for u gs
    using that p(4) ps'(4) by (auto simp: pools seq_holds_def list_all2_Cons1)
  moreover have "seq_holds (pool' # ps') t (snd (dense_tokens ops (l # ls) 0 xs (replicate (length (l # ls)) [])))"
    unfolding tokens using p(3) ps'(3) by (simp add: seq_holds_def)
  moreover have "list_all2 same_shape pools (pool' # ps')"
    using p(2) ps'(2) by (simp add: pools)
  ultimately show ?case by blast
qed

lemma prefill_seq_refines:
  assumes "mask_neutral ops" and "pools_ok a pools" and "length pools = length (tr_layers tr)"
    and "\<forall>pool \<in> set pools. table_ok pool t" and "length ids \<le> length t * al_block_size a"
    and "ids \<noteq> []" and "\<forall>i \<in> set ids. unat i < length (tr_embed tr)"
    and "length ids \<le> tr_context tr" and "tr_context tr \<le> 2 ^ 32"
  shows "\<exists>pools' logits. prefill_seq ops tr ids t a pools = (Ok logits, pools')
    \<and> Some logits = fst (dense_prompt ops tr 0 ids (replicate (length (tr_layers tr)) []))
    \<and> list_all2 same_shape pools pools'
    \<and> seq_holds pools' t (snd (dense_prompt ops tr 0 ids (replicate (length (tr_layers tr)) [])))
    \<and> (\<forall>u gs. set t \<inter> set u = {} \<longrightarrow> seq_holds pools u gs \<longrightarrow> seq_holds pools' u gs)"
proof -
  let ?xs = "map (\<lambda>i. tr_embed tr ! unat i) ids" and ?hs = "replicate (length (tr_layers tr)) []"
  have embed: "index_select (tr_embed tr) ids = Ok ?xs"
    using assms(7) by (rule index_select_all)
  have rope: "index_select [0..<tr_context tr] (map of_nat [0..<length ids]) = Ok [0..<length ids]"
    using assms(8,9) by (intro index_select_range) auto
  from prefill_layers_refine [OF assms(1-4), of ?xs "length ids"] assms(5) obtain pools' where p:
    "on_layers (prefill_layer ops a t [0..<length ids]) (tr_layers tr) ?xs pools
      = (Ok (fst (dense_tokens ops (tr_layers tr) 0 ?xs ?hs)), pools')"
    "list_all2 same_shape pools pools'"
    "seq_holds pools' t (snd (dense_tokens ops (tr_layers tr) 0 ?xs ?hs))"
    "\<forall>u gs. set t \<inter> set u = {} \<longrightarrow> seq_holds pools u gs \<longrightarrow> seq_holds pools' u gs"
    by auto
  have "length (fst (dense_tokens ops ls q xs hs)) = length xs" for ls q and xs :: "'a list" and hs
    by (induction xs arbitrary: q hs) (auto simp: split_beta)
  then have ne: "fst (dense_tokens ops (tr_layers tr) 0 ?xs ?hs) \<noteq> []"
    using assms(6) by (metis length_0_conv length_map)
  have "prefill_seq ops tr ids t a pools
      = (Ok (tr_lm_head tr (tr_out_norm tr (last (fst (dense_tokens ops (tr_layers tr) 0 ?xs ?hs))))), pools')"
    unfolding prefill_seq_def embed rope
    by (simp only: and_run_apply pure_op_apply p(1) prod.case outcome.case ret_apply ne if_False)
  then show ?thesis
    using p(2-4) dense_prompt_tokens [OF assms(6), of ops tr 0 ?hs] by auto
qed

lemma dense_layer_length [simp]: "length (snd (dense_layer ops l pos x h)) = Suc (length h)"
  by (simp add: dense_layer_def split_beta Let_def)

lemma dense_layers_lengths:
  "\<forall>h \<in> set hs. length h = n \<Longrightarrow> \<forall>h \<in> set (snd (dense_layers ops ls pos x hs)). length h = Suc n"
proof (induction ls arbitrary: x hs)
  case (Cons l ls)
  then show ?case
    by (cases hs) (auto simp: split_beta Let_def)
qed simp

lemma dense_step_lengths:
  "\<forall>h \<in> set hs. length h = n \<Longrightarrow> \<forall>h \<in> set (snd (dense_step ops tr tok pos hs)). length h = Suc n"
  using dense_layers_lengths [of hs n ops "tr_layers tr" pos "tr_embed tr ! unat tok"]
  by (simp add: dense_step_def split_beta Let_def)

section \<open>Properties\<close>

text \<open>
  C32: one batched decode step over paged storage is, for every sequence of the batch, one step of
  the reference over its own keys and values: the logits are the same and the pool holds the
  extended history; sequences outside the batch keep theirs.
\<close>

theorem decode_step_correct:
  assumes "mask_neutral ops" and "pools_ok a pools" and "reqs \<noteq> []"
    and "length pools = length (tr_layers tr)" and "tr_context tr \<le> 2 ^ 32"
    and "\<forall>(tok, t, n, hs) \<in> set reqs. unat tok < length (tr_embed tr) \<and> n < tr_context tr
          \<and> seq_ready pools t n hs"
    and "disjoint_tables (map (\<lambda>(tok, t, n, hs). t) reqs)"
  shows "\<exists>pools'. decode_step ops tr (map (\<lambda>(tok, t, n, hs). tok) reqs)
        (map (\<lambda>(tok, t, n, hs). n) reqs) (map (\<lambda>(tok, t, n, hs). n) reqs) a (map (\<lambda>(tok, t, n, hs). t) reqs) pools
      = (Ok (map (\<lambda>(tok, t, n, hs). fst (dense_step ops tr tok n hs)) reqs), pools')
    \<and> (\<forall>(tok, t, n, hs) \<in> set reqs. seq_holds pools' t (snd (dense_step ops tr tok n hs)))
    \<and> (\<forall>u gs. (\<forall>(tok, t, n, hs) \<in> set reqs. set t \<inter> set u = {}) \<longrightarrow> seq_holds pools u gs \<longrightarrow> seq_holds pools' u gs)"
  using decode_step_refines [OF assms] by blast

definition ex_ops :: "nat tensor_ops" where
  "ex_ops = \<lparr>op_add = (\<lambda>x y. x + y), op_mul = (\<lambda>x y. x * y), op_silu = (\<lambda>x. x + 1),
     op_rope = (\<lambda>x p. x + p),
     op_sdpa = (\<lambda>q ks vs ms. q + sum_list (map2 (*) (kept ms ks) (kept ms vs))), op_zero = 0\<rparr>"

definition ex_layer :: "nat layer" where
  "ex_layer = \<lparr>ly_attn_norm = (\<lambda>x. x), ly_attn_q = (\<lambda>x. x + 1), ly_attn_k = (\<lambda>x. 2 * x), ly_attn_v = (\<lambda>x. x),
     ly_attn_o = (\<lambda>x. x), ly_q_bias = Some 1, ly_k_bias = None, ly_v_bias = None,
     ly_q_norm = Some (\<lambda>x. x), ly_k_norm = None, ly_ffn_norm = (\<lambda>x. x),
     ly_ffn_gate = (\<lambda>x. x), ly_ffn_up = (\<lambda>x. x), ly_ffn_down = (\<lambda>x. x mod 7)\<rparr>"

definition ex_model :: "nat transformer" where
  "ex_model = \<lparr>tr_embed = [1, 2, 3], tr_layers = [ex_layer], tr_out_norm = (\<lambda>x. x), tr_lm_head = (\<lambda>x. x),
     tr_context = 8\<rparr>"

definition ex_pools :: "nat kv_pool list" where
  "ex_pools = [new_kv_pool 4 2 0]"

lemma length_kept: "length xs = length ms \<Longrightarrow> length (kept ms xs) = length (filter Not ms)"
  by (induction xs ms rule: list_induct2) (auto simp: kept_def)

lemma ex_mask_neutral: "mask_neutral ex_ops"
proof -
  have "kept (replicate (length (kept ms ks)) False) (kept ms vs) = kept ms vs"
    if "length ks = length ms" "length vs = length ms" for ms and ks vs :: "nat list"
    using that length_kept [of ks ms] length_kept [of vs ms] kept_all [of "kept ms vs"] by simp
  then show ?thesis
    by (auto simp: mask_neutral_def ex_ops_def)
qed

lemma ex_pools_ok: "pools_ok (new_allocator 4 2) ex_pools"
  by (simp add: pools_ok_def ex_pools_def pool_ok_def new_kv_pool_def new_allocator_def)

lemma ex_table_ok: "set t \<subseteq> {0, 1, 2, 3} \<Longrightarrow> distinct t \<Longrightarrow> table_ok (new_kv_pool 4 2 (0 :: nat)) t"
  by (auto simp: table_ok_def new_kv_pool_def)

definition ex_batch :: "(u32 \<times> block_table \<times> nat \<times> nat history list) list" where
  "ex_batch = [(1, [2], 0, [[]]), (2, [0, 3], 0, [[]])]"

lemma decode_step_correct_witness:
  "fst (decode_step ex_ops ex_model [1, 2] [0, 0] [0, 0] (new_allocator 4 2) [[2], [0, 3]] ex_pools)
    = Ok [fst (dense_step ex_ops ex_model 1 0 [[]]), fst (dense_step ex_ops ex_model 2 0 [[]])]"
proof -
  have "row_ready (new_kv_pool 4 2 (0 :: nat)) t []" if "t = [2] \<or> t = [0, 3]" for t
    using that ex_table_ok [of t] by (auto simp: row_ready_def kv_holds_def) (simp_all add: new_kv_pool_def)
  then have ready: "\<forall>(tok, t, n, hs) \<in> set ex_batch. unat tok < length (tr_embed ex_model) \<and> n < tr_context ex_model
      \<and> seq_ready ex_pools t n hs"
    by (simp add: ex_batch_def ex_model_def ex_pools_def seq_ready_def)
  have "disjoint_tables (map (\<lambda>(tok, t, n, hs). t) ex_batch)"
    by (simp add: disjoint_tables_def ex_batch_def)
  from decode_step_correct [OF ex_mask_neutral ex_pools_ok _ _ _ ready this] show ?thesis
    by (auto simp: ex_batch_def ex_model_def ex_pools_def)
qed

text \<open>
  C16: prefilling a prompt in one pass, layer by layer under the causal mask, gives the logits and
  the stored keys and values of feeding it to the reference one token at a time; other
  sequences keep theirs.
\<close>

theorem prefill_correct:
  assumes "mask_neutral ops" and "pools_ok a pools" and "length pools = length (tr_layers tr)"
    and "\<forall>pool \<in> set pools. table_ok pool t" and "length ids \<le> length t * al_block_size a"
    and "ids \<noteq> []" and "\<forall>i \<in> set ids. unat i < length (tr_embed tr)"
    and "length ids \<le> tr_context tr" and "tr_context tr \<le> 2 ^ 32"
  shows "\<exists>pools' logits. prefill_seq ops tr ids t a pools = (Ok logits, pools')
    \<and> Some logits = fst (dense_prompt ops tr 0 ids (replicate (length (tr_layers tr)) []))
    \<and> seq_holds pools' t (snd (dense_prompt ops tr 0 ids (replicate (length (tr_layers tr)) [])))
    \<and> (\<forall>u gs. set t \<inter> set u = {} \<longrightarrow> seq_holds pools u gs \<longrightarrow> seq_holds pools' u gs)"
  using prefill_seq_refines [OF assms] by blast

lemma prefill_correct_witness:
  "\<exists>logits. fst (prefill_seq ex_ops ex_model [0, 2, 1] [3, 1] (new_allocator 4 2) ex_pools) = Ok logits
    \<and> fst (dense_prompt ex_ops ex_model 0 [0, 2, 1] [[]]) = Some logits"
proof -
  have "\<forall>pool \<in> set ex_pools. table_ok pool [3, 1]"
    using ex_table_ok [of "[3, 1]"] by (simp add: ex_pools_def)
  from prefill_correct [OF ex_mask_neutral ex_pools_ok _ this, of ex_model "[0, 2, 1]"] show ?thesis
    by (fastforce simp: ex_model_def ex_pools_def new_allocator_def)
qed

end
