(* ===== verification/Sample.thy ===== *)
theory Sample
  imports Prelude
begin

text \<open>
  Token sampling (\<open>runtime/src/sample.rs\<close>).  A 32-bit float is an opaque type whose
  operations are the fields of \<open>float_ops\<close>: comparison is not a total order (NaN), so
  \<open>fl_lt\<close> and \<open>fl_le\<close> are separate.  \<open>fl_rand seed\<close> is the first float drawn from a
  generator seeded with \<open>seed\<close>.  The stable \<open>sort_by\<close> is written as an insertion sort; on
  values that are not totally ordered the standard library leaves the order open.
\<close>

record 'f float_ops =
  fl_zero :: 'f
  fl_neg_inf :: 'f
  fl_add :: "'f \<Rightarrow> 'f \<Rightarrow> 'f"
  fl_sub :: "'f \<Rightarrow> 'f \<Rightarrow> 'f"
  fl_div :: "'f \<Rightarrow> 'f \<Rightarrow> 'f"
  fl_exp :: "'f \<Rightarrow> 'f"
  fl_eq :: "'f \<Rightarrow> 'f \<Rightarrow> bool"
  fl_lt :: "'f \<Rightarrow> 'f \<Rightarrow> bool"
  fl_le :: "'f \<Rightarrow> 'f \<Rightarrow> bool"
  fl_rand :: "u64 \<Rightarrow> 'f"

record 'f sampling_config =
  sc_temperature :: 'f
  sc_top_p :: "'f option"
  sc_top_k :: "nat option"
  sc_seed :: u64

fun argmax_from :: "'f float_ops \<Rightarrow> nat \<Rightarrow> nat \<Rightarrow> 'f \<Rightarrow> 'f list \<Rightarrow> nat" where
  "argmax_from f i bi bv [] = bi"
| "argmax_from f i bi bv (v # vs) =
     (if fl_lt f bv v then argmax_from f (Suc i) i v vs else argmax_from f (Suc i) bi bv vs)"

definition argmax :: "'f float_ops \<Rightarrow> 'f list \<Rightarrow> u32" where
  "argmax f logits = of_nat (argmax_from f 0 0 (fl_neg_inf f) logits)"

text \<open>The stable descending sort by probability.\<close>

fun insert_desc :: "'f float_ops \<Rightarrow> nat \<times> 'f \<Rightarrow> (nat \<times> 'f) list \<Rightarrow> (nat \<times> 'f) list" where
  "insert_desc f x [] = [x]"
| "insert_desc f x (y # ys) =
     (if fl_lt f (snd x) (snd y) then y # insert_desc f x ys else x # y # ys)"

definition sort_desc :: "'f float_ops \<Rightarrow> (nat \<times> 'f) list \<Rightarrow> (nat \<times> 'f) list" where
  "sort_desc f xs = foldr (insert_desc f) xs []"

text \<open>The loop that finds how many candidates reach the threshold.\<close>

fun top_p_cutoff :: "'f float_ops \<Rightarrow> 'f \<Rightarrow> 'f \<Rightarrow> nat \<Rightarrow> nat \<Rightarrow> (nat \<times> 'f) list \<Rightarrow> nat" where
  "top_p_cutoff f threshold cum i n [] = n"
| "top_p_cutoff f threshold cum i n (p # ps) =
     (let cum' = fl_add f cum (snd p) in
      if fl_le f threshold cum' then Suc i else top_p_cutoff f threshold cum' (Suc i) n ps)"

fun pick :: "'f float_ops \<Rightarrow> 'f \<Rightarrow> 'f \<Rightarrow> (nat \<times> 'f) list \<Rightarrow> nat option" where
  "pick f r acc [] = None"
| "pick f r acc ((idx, prob) # ps) =
     (let acc' = fl_add f acc prob in if fl_le f r acc' then Some idx else pick f r acc' ps)"

definition normalise :: "'f float_ops \<Rightarrow> (nat \<times> 'f) list \<Rightarrow> (nat \<times> 'f) list" where
  "normalise f ps =
     (let s = foldl (fl_add f) (fl_zero f) (map snd ps) in map (\<lambda>(i, p). (i, fl_div f p s)) ps)"

text \<open>The sorted logits after \<open>top_k\<close>, and their probabilities after \<open>top_p\<close>.\<close>

definition candidates :: "'f float_ops \<Rightarrow> 'f list \<Rightarrow> 'f sampling_config \<Rightarrow> (nat \<times> 'f) list" where
  "candidates f logits cfg =
     (let scaled = map (\<lambda>x. fl_div f x (sc_temperature cfg)) logits;
          probs = sort_desc f (zip [0..<length scaled] scaled)
      in case sc_top_k cfg of None \<Rightarrow> probs | Some k \<Rightarrow> take k probs)"

definition distribution :: "'f float_ops \<Rightarrow> 'f sampling_config \<Rightarrow> (nat \<times> 'f) list \<Rightarrow> (nat \<times> 'f) list" where
  "distribution f cfg probs =
     (let max_x = snd (hd probs);
          probs = normalise f (map (\<lambda>(i, p). (i, fl_exp f (fl_sub f p max_x))) probs)
      in case sc_top_p cfg of
           None \<Rightarrow> probs
         | Some t \<Rightarrow> normalise f (take (top_p_cutoff f t (fl_zero f) 0 (length probs) probs) probs))"

definition sample :: "'f float_ops \<Rightarrow> 'f list \<Rightarrow> 'f sampling_config \<Rightarrow> (unit, u32) outcome" where
  "sample f logits cfg =
     (if fl_eq f (sc_temperature cfg) (fl_zero f) \<or> length logits \<le> 1 then Ok (argmax f logits)
      else if candidates f logits cfg = [] then Panic
      else
        let probs = distribution f cfg (candidates f logits cfg);
            r = fl_rand f (sc_seed cfg)
        in case pick f r (fl_zero f) probs of
             Some idx \<Rightarrow> Ok (of_nat idx)
           | None \<Rightarrow> if probs = [] then Panic else Ok (of_nat (fst (last probs))))"

section \<open>The sample is a token of the row\<close>

lemma argmax_from_bound: "bi < i + length vs \<Longrightarrow> argmax_from f i bi bv vs < i + length vs"
proof (induction vs arbitrary: i bi bv)
  case (Cons v vs)
  then show ?case
    using Cons.IH [of i "Suc i" v] Cons.IH [of bi "Suc i" bv] by simp
qed simp

lemma set_insert_desc [simp]: "set (insert_desc f x ys) = insert x (set ys)"
  by (induction ys) auto

lemma length_insert_desc [simp]: "length (insert_desc f x ys) = Suc (length ys)"
  by (induction ys) auto

lemma set_sort_desc [simp]: "set (sort_desc f xs) = set xs"
  by (induction xs) (auto simp: sort_desc_def)

lemma length_sort_desc [simp]: "length (sort_desc f xs) = length xs"
  by (induction xs) (auto simp: sort_desc_def)

lemma pick_in: "pick f r acc ps = Some idx \<Longrightarrow> idx \<in> fst ` set ps"
  by (induction f r acc ps rule: pick.induct) (auto simp: Let_def split: if_splits)

lemma normalise_fst [simp]: "fst ` set (normalise f ps) = fst ` set ps"
  by (force simp: normalise_def Let_def)

lemma normalise_Nil [simp]: "normalise f ps = [] \<longleftrightarrow> ps = []"
  by (simp add: normalise_def Let_def)

lemma top_p_cutoff_pos: "0 < n \<Longrightarrow> 0 < top_p_cutoff f t cum i n ps"
  by (induction ps arbitrary: cum i) (auto simp: Let_def)

lemma candidates_range:
  assumes "logits \<noteq> []" and "sc_top_k cfg \<noteq> Some 0"
  shows "candidates f logits cfg \<noteq> []" and "fst ` set (candidates f logits cfg) \<subseteq> {..<length logits}"
proof -
  define sorted where "sorted = sort_desc f (zip [0..<length logits] (map (\<lambda>x. fl_div f x (sc_temperature cfg)) logits))"
  have cand: "candidates f logits cfg = (case sc_top_k cfg of None \<Rightarrow> sorted | Some k \<Rightarrow> take k sorted)"
    unfolding candidates_def sorted_def Let_def length_map ..
  have "length sorted = length logits"
    by (simp add: sorted_def)
  with assms(1) have "sorted \<noteq> []"
    by auto
  with assms(2) show "candidates f logits cfg \<noteq> []"
    by (auto simp: cand split: option.splits)
  have "fst ` set sorted \<subseteq> {..<length logits}"
    by (auto simp: sorted_def dest: set_zip_leftD)
  moreover have "set (candidates f logits cfg) \<subseteq> set sorted"
    by (auto simp: cand split: option.splits dest: in_set_takeD)
  ultimately show "fst ` set (candidates f logits cfg) \<subseteq> {..<length logits}"
    by blast
qed

lemma distribution_range:
  assumes "probs \<noteq> []"
  shows "distribution f cfg probs \<noteq> []" and "fst ` set (distribution f cfg probs) \<subseteq> fst ` set probs"
proof -
  define qs where "qs = normalise f (map (\<lambda>(i, p). (i, fl_exp f (fl_sub f p (snd (hd probs))))) probs)"
  have dist: "distribution f cfg probs = (case sc_top_p cfg of None \<Rightarrow> qs
      | Some t \<Rightarrow> normalise f (take (top_p_cutoff f t (fl_zero f) 0 (length qs) qs) qs))"
    unfolding distribution_def qs_def Let_def ..
  have qs: "qs \<noteq> []"
    using assms by (simp add: qs_def)
  then show "distribution f cfg probs \<noteq> []"
    using top_p_cutoff_pos [of "length qs" f] by (simp add: dist split: option.splits)
  have "fst ` set (distribution f cfg probs) \<subseteq> fst ` set qs"
    by (simp add: dist image_mono [OF set_take_subset] split: option.splits)
  also have "fst ` set qs = fst ` set probs"
    by (force simp: qs_def)
  finally show "fst ` set (distribution f cfg probs) \<subseteq> fst ` set probs" .
qed

lemma sample_in_range:
  assumes "logits \<noteq> []" and "sc_top_k cfg \<noteq> Some 0"
  shows "\<exists>i < length logits. sample f logits cfg = Ok (of_nat i)"
proof (cases "fl_eq f (sc_temperature cfg) (fl_zero f) \<or> length logits \<le> 1")
  case True
  then show ?thesis
    using assms(1) argmax_from_bound [of 0 0 logits f "fl_neg_inf f"]
    by (auto simp: sample_def argmax_def)
next
  case False
  note cand = candidates_range [OF assms, of f]
  define probs where "probs = distribution f cfg (candidates f logits cfg)"
  have probs: "probs \<noteq> []" "fst ` set probs \<subseteq> {..<length logits}"
    using distribution_range [OF cand(1), of f cfg] cand(2) unfolding probs_def by (blast, blast)
  have run: "sample f logits cfg = (case pick f (fl_rand f (sc_seed cfg)) (fl_zero f) probs of
      Some idx \<Rightarrow> Ok (of_nat idx) | None \<Rightarrow> Ok (of_nat (fst (last probs))))"
    using False cand(1) probs(1) by (simp add: sample_def Let_def flip: probs_def)
  show ?thesis
  proof (cases "pick f (fl_rand f (sc_seed cfg)) (fl_zero f) probs")
    case None
    moreover have "fst (last probs) < length logits"
      using probs last_in_set by auto
    ultimately show ?thesis
      using run by auto
  next
    case (Some idx)
    then have "idx < length logits"
      using pick_in [OF Some] probs(2) by (metis lessThan_iff subsetD)
    with Some run show ?thesis by auto
  qed
qed

section \<open>Greedy sampling\<close>

text \<open>On a total order with \<open>fl_neg_inf\<close> below everything, the first largest logit wins.\<close>

lemma argmax_from_largest:
  assumes lt: "\<And>x y. fl_lt f x y \<longleftrightarrow> g x < (g y :: 'o::linorder)"
    and "bi < i" and "i \<le> length all" and "vs = drop i all"
    and "all ! bi = bv" and "\<forall>j < i. g (all ! j) \<le> g bv" and "\<forall>j < bi. g (all ! j) < g bv"
  shows "argmax_from f i bi bv vs < length all
    \<and> (\<forall>j < length all. g (all ! j) \<le> g (all ! argmax_from f i bi bv vs))
    \<and> (\<forall>j < argmax_from f i bi bv vs. g (all ! j) < g (all ! argmax_from f i bi bv vs))"
  using assms(2-)
proof (induction vs arbitrary: i bi bv)
  case Nil
  then show ?case by auto
next
  case (Cons v vs)
  then have i: "i < length all" and v: "v = all ! i" and vs: "vs = drop (Suc i) all"
    by (metis drop_all linorder_le_less_linear list.distinct(1))
      (use Cons.prems in \<open>metis Cons_nth_drop_Suc drop_all linorder_le_less_linear list.distinct(1) list.inject\<close>)+
  show ?case
  proof (cases "g bv < g v")
    case True
    have "\<forall>j < Suc i. g (all ! j) \<le> g v" and "\<forall>j < i. g (all ! j) < g v"
      using True Cons.prems(5) v by (auto simp: less_Suc_eq intro: le_less_trans less_imp_le)
    with Cons.IH [of i "Suc i" v] i v vs True show ?thesis
      by (simp add: lt)
  next
    case False
    have "\<forall>j < Suc i. g (all ! j) \<le> g bv"
      using False Cons.prems(5) v by (auto simp: less_Suc_eq)
    with Cons.IH [of bi "Suc i" bv] i vs Cons.prems
    have "argmax_from f (Suc i) bi bv vs < length all
      \<and> (\<forall>j < length all. g (all ! j) \<le> g (all ! argmax_from f (Suc i) bi bv vs))
      \<and> (\<forall>j < argmax_from f (Suc i) bi bv vs. g (all ! j) < g (all ! argmax_from f (Suc i) bi bv vs))"
      by simp
    moreover have "argmax_from f i bi bv (v # vs) = argmax_from f (Suc i) bi bv vs"
      using False by (simp add: lt)
    ultimately show ?thesis by metis
  qed
qed

end
