(* ===== verification/Engine.thy ===== *)
theory Engine
  imports Transformer Sample
begin

text \<open>
  The continuous-batching scheduler (\<open>candle/src/paged/engine.rs\<close>): admission and prefill of
  a request, eviction, the batched decode step, and the loop of the engine's thread as a step
  relation together with the clients that submit requests.  A reply channel is a number
  \<open>gr_tx\<close>, what was sent on all channels is one list.  The theorems: blocks are conserved,
  the thread never panics, and what a client receives is what the model would generate for its
  request alone, whatever else is in the batch.
\<close>

record 'f gen_request =
  gr_prompt :: "u32 list"
  gr_max_tokens :: nat
  gr_temperature :: 'f
  gr_tx :: nat

record 'f sequence =
  sq_table :: block_table
  sq_next :: u32
  sq_pos :: nat
  sq_produced :: nat
  sq_max :: nat
  sq_temperature :: 'f
  sq_tx :: nat

record engine_config =
  ec_max_num_seqs :: nat
  ec_block_size :: nat
  ec_kv_cache_blocks :: nat
  ec_max_seq :: nat
  ec_eos :: u32

datatype failure =
    PromptTooLong nat nat
  | NoCacheAtAdmission
  | PrefillFailed
  | PrefillLogits
  | ContextExceeded nat nat
  | CacheExhausted
  | ForwardFailed
  | LogitExtract

datatype reply = Token u32 | Failed failure

text \<open>The model that is served: its weights, the tensor library, floats, and \<open>to_vec1\<close>.\<close>

record ('v, 'f) backend =
  be_model :: "'v transformer"
  be_ops :: "'v tensor_ops"
  be_floats :: "'f float_ops"
  be_to_vec :: "'v \<Rightarrow> 'f list option"

record 'v engine_state =
  es_kv :: "'v kv_pool list"
  es_alloc :: allocator
  es_sent :: "(nat \<times> reply) list"

definition sample_cfg :: "'f \<Rightarrow> 'f sampling_config" where
  "sample_cfg temperature =
     \<lparr>sc_temperature = temperature, sc_top_p = None, sc_top_k = None, sc_seed = 42\<rparr>"

definition send :: "nat \<Rightarrow> reply \<Rightarrow> 'v engine_state \<Rightarrow> 'v engine_state" where
  "send tx r e = e\<lparr>es_sent := es_sent e @ [(tx, r)]\<rparr>"

definition release_table :: "block_table \<Rightarrow> 'v engine_state \<Rightarrow> 'v engine_state" where
  "release_table t e = e\<lparr>es_alloc := fst (release (es_alloc e) t)\<rparr>"

section \<open>Admission\<close>

definition prefill ::
    "('v, 'f) backend \<Rightarrow> engine_config \<Rightarrow> 'f gen_request
      \<Rightarrow> ('v engine_state, unit, 'f sequence option) stateful" where
  "prefill be cfg req = (\<lambda>e.
     if gr_max_tokens req = 0 then (Ok None, e)
     else if length (gr_prompt req) > ec_max_seq cfg then
       (Ok None, send (gr_tx req) (Failed (PromptTooLong (length (gr_prompt req)) (ec_max_seq cfg))) e)
     else
       case ensure_capacity (es_alloc e) [] (length (gr_prompt req)) of
         Ok (granted, alloc, table) \<Rightarrow>
           let e = e\<lparr>es_alloc := alloc\<rparr> in
           if \<not> granted then (Ok None, send (gr_tx req) (Failed NoCacheAtAdmission) e)
           else
             (case prefill_seq (be_ops be) (be_model be) (gr_prompt req) table alloc (es_kv e) of
                (Panic, kv) \<Rightarrow> (Panic, e\<lparr>es_kv := kv\<rparr>)
              | (Err _, kv) \<Rightarrow>
                  (Ok None, release_table table (send (gr_tx req) (Failed PrefillFailed) (e\<lparr>es_kv := kv\<rparr>)))
              | (Ok logits, kv) \<Rightarrow>
                  let e = e\<lparr>es_kv := kv\<rparr> in
                  (case be_to_vec be logits of
                     None \<Rightarrow> (Ok None, release_table table (send (gr_tx req) (Failed PrefillLogits) e))
                   | Some row \<Rightarrow>
                       (case sample (be_floats be) row (sample_cfg (gr_temperature req)) of
                          Ok tok \<Rightarrow>
                            (Ok (Some \<lparr>sq_table = table, sq_next = tok, sq_pos = length (gr_prompt req),
                                       sq_produced = 1, sq_max = gr_max_tokens req,
                                       sq_temperature = gr_temperature req, sq_tx = gr_tx req\<rparr>),
                             send (gr_tx req) (Token tok) e)
                        | _ \<Rightarrow> (Panic, e))))
       | _ \<Rightarrow> (Panic, e))"

section \<open>One round of decoding\<close>

text \<open>Every running sequence gets room for one more token, or is evicted.\<close>

fun evict ::
    "engine_config \<Rightarrow> 'f sequence list \<Rightarrow> ('v engine_state, unit, 'f sequence list) stateful" where
  "evict cfg [] = ret []"
| "evict cfg (s # ss) = (\<lambda>e.
     if sq_pos s + 1 > ec_max_seq cfg then
       evict cfg ss (release_table (sq_table s)
         (send (sq_tx s) (Failed (ContextExceeded (sq_pos s + 1) (ec_max_seq cfg))) e))
     else
       case ensure_capacity (es_alloc e) (sq_table s) (sq_pos s + 1) of
         Ok (granted, alloc, table) \<Rightarrow>
           let e = e\<lparr>es_alloc := alloc\<rparr> in
           if granted then
             and_run (evict cfg ss) (\<lambda>survivors. ret (s\<lparr>sq_table := table\<rparr> # survivors)) e
           else evict cfg ss (release_table table (send (sq_tx s) (Failed CacheExhausted) e))
       | _ \<Rightarrow> (Panic, e))"

text \<open>An error of the whole batch: every client is told, every table released.\<close>

definition fail_all :: "failure \<Rightarrow> 'f sequence list \<Rightarrow> 'v engine_state \<Rightarrow> 'v engine_state" where
  "fail_all reason running e =
     fold (\<lambda>s. release_table (sq_table s)) running
       (fold (\<lambda>s. send (sq_tx s) (Failed reason)) running e)"

fun extract_rows :: "('v, 'f) backend \<Rightarrow> 'f sequence list \<Rightarrow> 'v list \<Rightarrow> 'f list list option" where
  "extract_rows be [] logits = Some []"
| "extract_rows be (s # ss) [] = None"
| "extract_rows be (s # ss) (l # ls) =
     (case be_to_vec be l of
        None \<Rightarrow> None
      | Some row \<Rightarrow> map_option (\<lambda>rows. row # rows) (extract_rows be ss ls))"

fun advance ::
    "('v, 'f) backend \<Rightarrow> engine_config \<Rightarrow> ('f sequence \<times> 'f list) list
      \<Rightarrow> ('v engine_state, unit, 'f sequence list) stateful" where
  "advance be cfg [] = ret []"
| "advance be cfg ((s, row) # rest) = (\<lambda>e.
     case sample (be_floats be) row (sample_cfg (sq_temperature s)) of
       Ok tok \<Rightarrow>
         let s = s\<lparr>sq_pos := sq_pos s + 1, sq_produced := sq_produced s + 1\<rparr>;
             eos = (tok = ec_eos cfg);
             at_limit = (sq_produced s \<ge> sq_max s);
             e = (if eos then e else send (sq_tx s) (Token tok) e)
         in if eos \<or> at_limit then advance be cfg rest (release_table (sq_table s) e)
            else and_run (advance be cfg rest) (\<lambda>keep. ret (s\<lparr>sq_next := tok\<rparr> # keep)) e
     | _ \<Rightarrow> (Panic, e))"

definition decode_round ::
    "('v, 'f) backend \<Rightarrow> engine_config \<Rightarrow> 'f sequence list
      \<Rightarrow> ('v engine_state, unit, 'f sequence list) stateful" where
  "decode_round be cfg running =
     and_run (evict cfg running) (\<lambda>survivors.
       if length survivors < length running \<and> survivors = [] then ret []
       else (\<lambda>e.
         case decode_step (be_ops be) (be_model be) (map sq_next survivors) (map sq_pos survivors)
             (map sq_pos survivors) (es_alloc e) (map sq_table survivors) (es_kv e) of
           (Panic, kv) \<Rightarrow> (Panic, e\<lparr>es_kv := kv\<rparr>)
         | (Err _, kv) \<Rightarrow> (Ok [], fail_all ForwardFailed survivors (e\<lparr>es_kv := kv\<rparr>))
         | (Ok logits, kv) \<Rightarrow>
             let e = e\<lparr>es_kv := kv\<rparr> in
             (case extract_rows be survivors logits of
                None \<Rightarrow> (Ok [], fail_all LogitExtract survivors e)
              | Some rows \<Rightarrow> advance be cfg (zip survivors rows) e)))"

section \<open>The engine's thread and its clients\<close>

datatype phase = Filling | Deciding | Stopped | Crashed

record ('v, 'f) system =
  sy_engine :: "'v engine_state"
  sy_running :: "'f sequence list"
  sy_queue :: "'f gen_request list"
  sy_open :: bool
  sy_phase :: phase

definition admit ::
    "('v, 'f) backend \<Rightarrow> engine_config \<Rightarrow> 'f gen_request \<Rightarrow> 'f gen_request list \<Rightarrow> ('v, 'f) system \<Rightarrow> ('v, 'f) system" where
  "admit be cfg req queue s =
     (case prefill be cfg req (sy_engine s) of
        (Ok None, e) \<Rightarrow> s\<lparr>sy_engine := e, sy_queue := queue, sy_phase := Filling\<rparr>
      | (Ok (Some sq), e) \<Rightarrow>
          s\<lparr>sy_engine := e, sy_queue := queue, sy_phase := Filling, sy_running := sy_running s @ [sq]\<rparr>
      | (_, e) \<Rightarrow> s\<lparr>sy_engine := e, sy_queue := queue, sy_phase := Crashed\<rparr>)"

definition round_step :: "('v, 'f) backend \<Rightarrow> engine_config \<Rightarrow> ('v, 'f) system \<Rightarrow> ('v, 'f) system" where
  "round_step be cfg s =
     (case decode_round be cfg (sy_running s) (sy_engine s) of
        (Ok running, e) \<Rightarrow> s\<lparr>sy_engine := e, sy_running := running, sy_phase := Filling\<rparr>
      | (_, e) \<Rightarrow> s\<lparr>sy_engine := e, sy_phase := Crashed\<rparr>)"

text \<open>
  \<open>Filling\<close> is the inner loop over \<open>try_recv\<close>; \<open>Deciding\<close> is what follows it, the blocking
  receive when nothing runs, else a round of decoding.  \<open>None\<close> is a thread that waits.
\<close>

definition thread_step :: "('v, 'f) backend \<Rightarrow> engine_config \<Rightarrow> ('v, 'f) system \<Rightarrow> ('v, 'f) system option" where
  "thread_step be cfg s =
     (case sy_phase s of
        Filling \<Rightarrow>
          if length (sy_running s) < ec_max_num_seqs cfg then
            (case sy_queue s of
               req # queue \<Rightarrow> Some (admit be cfg req queue s)
             | [] \<Rightarrow>
                 if \<not> sy_open s \<and> sy_running s = [] then Some (s\<lparr>sy_phase := Stopped\<rparr>)
                 else Some (s\<lparr>sy_phase := Deciding\<rparr>))
          else Some (s\<lparr>sy_phase := Deciding\<rparr>)
      | Deciding \<Rightarrow>
          if sy_running s = [] then
            (case sy_queue s of
               req # queue \<Rightarrow> Some (admit be cfg req queue s)
             | [] \<Rightarrow> if sy_open s then None else Some (s\<lparr>sy_phase := Stopped\<rparr>))
          else Some (round_step be cfg s)
      | _ \<Rightarrow> None)"

datatype 'f event = Submit "'f gen_request" | Close | Work

inductive engine_step ::
    "('v, 'f) backend \<Rightarrow> engine_config \<Rightarrow> ('v, 'f) system \<Rightarrow> 'f event \<Rightarrow> ('v, 'f) system \<Rightarrow> bool"
  for be cfg where
  submit: "sy_open s \<Longrightarrow> engine_step be cfg s (Submit req) (s\<lparr>sy_queue := sy_queue s @ [req]\<rparr>)"
| close: "engine_step be cfg s Close (s\<lparr>sy_open := False\<rparr>)"
| thread: "thread_step be cfg s = Some s' \<Longrightarrow> engine_step be cfg s Work s'"

text \<open>\<open>Engine::spawn\<close>: the context length of the model overrides the configured one.\<close>

definition spawn_config :: "('v, 'f) backend \<Rightarrow> engine_config \<Rightarrow> engine_config" where
  "spawn_config be cfg = cfg\<lparr>ec_max_seq := tr_context (be_model be)\<rparr>"

definition spawn :: "('v, 'f) backend \<Rightarrow> engine_config \<Rightarrow> ('v, 'f) system" where
  "spawn be cfg =
     \<lparr>sy_engine =
        \<lparr>es_kv = replicate (length (tr_layers (be_model be)))
           (new_kv_pool (ec_kv_cache_blocks cfg) (ec_block_size cfg) (op_zero (be_ops be))),
         es_alloc = new_allocator (ec_kv_cache_blocks cfg) (ec_block_size cfg),
         es_sent = []\<rparr>,
      sy_running = [], sy_queue = [], sy_open = True, sy_phase = Filling\<rparr>"

text \<open>
  The reachable states, with the requests submitted so far.  Every request comes with a reply
  channel of its own.
\<close>

inductive reachable ::
    "('v, 'f) backend \<Rightarrow> engine_config \<Rightarrow> 'f gen_request list \<Rightarrow> ('v, 'f) system \<Rightarrow> bool" for be cfg where
  start: "reachable be cfg [] (spawn be cfg)"
| submitted: "reachable be cfg reqs s \<Longrightarrow> engine_step be (spawn_config be cfg) s (Submit req) s'
    \<Longrightarrow> gr_tx req \<notin> gr_tx ` set reqs \<Longrightarrow> reachable be cfg (reqs @ [req]) s'"
| closed: "reachable be cfg reqs s \<Longrightarrow> engine_step be (spawn_config be cfg) s Close s' \<Longrightarrow> reachable be cfg reqs s'"
| worked: "reachable be cfg reqs s \<Longrightarrow> engine_step be (spawn_config be cfg) s Work s' \<Longrightarrow> reachable be cfg reqs s'"

inductive_cases engine_step_SubmitE: "engine_step be cfg s (Submit req) s'"
inductive_cases engine_step_CloseE: "engine_step be cfg s Close s'"
inductive_cases engine_step_WorkE: "engine_step be cfg s Work s'"

section \<open>The reference: a request served alone\<close>

definition next_token :: "('v, 'f) backend \<Rightarrow> 'f \<Rightarrow> 'v \<Rightarrow> u32" where
  "next_token be temperature logits =
     unwrap (sample (be_floats be) (the (be_to_vec be logits)) (sample_cfg temperature))"

text \<open>The tokens after the first; \<open>n\<close> is what is left of \<open>max_tokens\<close>.\<close>

fun solo_rest ::
    "('v, 'f) backend \<Rightarrow> u32 \<Rightarrow> 'f \<Rightarrow> nat \<Rightarrow> u32 \<Rightarrow> nat \<Rightarrow> 'v history list \<Rightarrow> u32 list" where
  "solo_rest be eos temperature n tok pos hs =
     (let (logits, hs') = dense_step (be_ops be) (be_model be) tok pos hs;
          tok' = next_token be temperature logits
      in if tok' = eos then []
         else tok' # (if n \<le> 1 then [] else solo_rest be eos temperature (n - 1) tok' (Suc pos) hs'))"

declare solo_rest.simps [simp del]

definition solo :: "('v, 'f) backend \<Rightarrow> u32 \<Rightarrow> 'f gen_request \<Rightarrow> u32 list" where
  "solo be eos req =
     (if gr_max_tokens req = 0 \<or> gr_prompt req = [] then []
      else
        let (logits, hs) = dense_prompt (be_ops be) (be_model be) 0 (gr_prompt req)
              (replicate (length (tr_layers (be_model be))) []);
            tok = next_token be (gr_temperature req) (the logits)
        in tok # solo_rest be eos (gr_temperature req) (gr_max_tokens req - 1) tok (length (gr_prompt req)) hs)"

section \<open>What holds in every reachable state\<close>

text \<open>What the model relies on of the weights: sizes, and the shape of the logits.\<close>

definition backend_ok :: "('v, 'f) backend \<Rightarrow> bool" where
  "backend_ok be \<longleftrightarrow> mask_neutral (be_ops be) \<and> tr_context (be_model be) \<le> 2 ^ 32
     \<and> length (tr_embed (be_model be)) \<le> 2 ^ 32
     \<and> (\<forall>logits row. be_to_vec be logits = Some row \<longrightarrow>
          row \<noteq> [] \<and> length row \<le> length (tr_embed (be_model be)))"

definition config_ok :: "engine_config \<Rightarrow> bool" where
  "config_ok cfg \<longleftrightarrow> 0 < ec_block_size cfg \<and> ec_kv_cache_blocks cfg < 2 ^ 32
     \<and> ec_kv_cache_blocks cfg * ec_block_size cfg \<le> 2 ^ 32"

definition received :: "nat \<Rightarrow> 'v engine_state \<Rightarrow> reply list" where
  "received tx e = map snd (filter (\<lambda>p. fst p = tx) (es_sent e))"

definition all_blocks :: "engine_config \<Rightarrow> u32 multiset" where
  "all_blocks cfg = mset (map of_nat [0..<ec_kv_cache_blocks cfg])"

definition alloc_ok :: "engine_config \<Rightarrow> 'v engine_state \<Rightarrow> block_table list \<Rightarrow> bool" where
  "alloc_ok cfg e ts \<longleftrightarrow> al_block_size (es_alloc e) = ec_block_size cfg
     \<and> mset (al_free (es_alloc e)) + (\<Sum>\<^sub># (mset (map mset ts))) = all_blocks cfg"

definition kv_ok :: "('v, 'f) backend \<Rightarrow> engine_config \<Rightarrow> 'v kv_pool list \<Rightarrow> bool" where
  "kv_ok be cfg kv \<longleftrightarrow> length kv = length (tr_layers (be_model be))
     \<and> (\<forall>pool \<in> set kv. pool_ok pool \<and> kp_block_size pool = ec_block_size cfg
          \<and> kp_num_blocks pool = ec_kv_cache_blocks cfg)"

text \<open>
  A running sequence belongs to a request: its table holds the keys and values of the
  reference, and what is still to come completes what was sent.
\<close>

definition seq_ok ::
    "('v, 'f) backend \<Rightarrow> engine_config \<Rightarrow> 'f gen_request list \<Rightarrow> 'v engine_state \<Rightarrow> 'f sequence \<Rightarrow> bool" where
  "seq_ok be cfg reqs e s \<longleftrightarrow>
     sq_pos s \<le> length (sq_table s) * ec_block_size cfg
     \<and> unat (sq_next s) < length (tr_embed (be_model be))
     \<and> 1 \<le> sq_produced s \<and> (sq_produced s < sq_max s \<or> sq_produced s = 1)
     \<and> (\<exists>req hs done. req \<in> set reqs \<and> sq_tx s = gr_tx req \<and> sq_max s = gr_max_tokens req
          \<and> sq_temperature s = gr_temperature req
          \<and> seq_holds (es_kv e) (sq_table s) hs \<and> (\<forall>h \<in> set hs. length h = sq_pos s)
          \<and> received (sq_tx s) e = map Token done
          \<and> solo be (ec_eos cfg) req = done @ solo_rest be (ec_eos cfg) (sq_temperature s)
               (sq_max s - sq_produced s) (sq_next s) (sq_pos s) hs)"

definition finished :: "('v, 'f) backend \<Rightarrow> engine_config \<Rightarrow> 'v engine_state \<Rightarrow> 'f gen_request \<Rightarrow> bool" where
  "finished be cfg e req \<longleftrightarrow>
     received (gr_tx req) e = map Token (solo be (ec_eos cfg) req)
     \<or> (\<exists>done rest why. solo be (ec_eos cfg) req = done @ rest
          \<and> received (gr_tx req) e = map Token done @ [Failed why])"

section \<open>Replies\<close>

lemma received_send [simp]:
  "received tx (send tx' r e) = received tx e @ (if tx' = tx then [r] else [])"
  by (simp add: received_def send_def)

lemma send_sel [simp]: "es_kv (send tx r e) = es_kv e" "es_alloc (send tx r e) = es_alloc e"
  by (simp_all add: send_def)

lemma release_table_sel [simp]:
  "es_kv (release_table t e) = es_kv e"
  "es_alloc (release_table t e) = fst (release (es_alloc e) t)"
  "es_sent (release_table t e) = es_sent e"
  by (simp_all add: release_table_def)

lemma received_same [simp]:
  "received tx (release_table t e) = received tx e"
  "received tx (e\<lparr>es_kv := kv\<rparr>) = received tx e"
  "received tx (e\<lparr>es_alloc := a\<rparr>) = received tx e"
  by (simp_all add: received_def)

section \<open>Blocks\<close>

lemma all_blocks_bound:
  assumes "config_ok cfg"
  shows "count (all_blocks cfg) b \<le> 1" and "b \<in># all_blocks cfg \<Longrightarrow> unat b < ec_kv_cache_blocks cfg"
proof -
  have small: "unat (of_nat i :: u32) = i" if "i < ec_kv_cache_blocks cfg" for i
    using that assms by (simp add: config_ok_def unat_of_nat)
  then have "distinct (map (of_nat :: nat \<Rightarrow> u32) [0..<ec_kv_cache_blocks cfg])"
    by (auto simp: distinct_map intro!: inj_onI) (metis small)
  then show "count (all_blocks cfg) b \<le> 1"
    unfolding all_blocks_def by (simp add: distinct_count_atmost_1)
  assume "b \<in># all_blocks cfg"
  then show "unat b < ec_kv_cache_blocks cfg"
    using small by (auto simp: all_blocks_def)
qed

lemma alloc_ok_table:
  assumes "config_ok cfg" and "alloc_ok cfg e ts" and "t \<in> set ts"
  shows "distinct t" and "\<forall>b \<in> set t. unat b < ec_kv_cache_blocks cfg"
proof -
  obtain us vs where "ts = us @ t # vs"
    using assms(3) by (meson split_list)
  with assms(2) have blocks: "all_blocks cfg
      = mset t + (mset (al_free (es_alloc e)) + (\<Sum>\<^sub># (mset (map mset us))) + (\<Sum>\<^sub># (mset (map mset vs))))"
    by (simp add: alloc_ok_def ac_simps)
  have "count (mset t) b \<le> 1" for b
    using all_blocks_bound(1) [OF assms(1), of b] unfolding blocks by simp
  then show "distinct t"
    unfolding distinct_count_atmost_1 by (metis One_nat_def count_greater_eq_one_iff le_antisym not_in_iff set_mset_mset)
  show "\<forall>b \<in> set t. unat b < ec_kv_cache_blocks cfg"
    using all_blocks_bound(2) [OF assms(1)] unfolding blocks by simp
qed

lemma alloc_ok_disjoint:
  assumes "config_ok cfg" and "alloc_ok cfg e ts"
  shows "disjoint_tables ts"
  unfolding disjoint_tables_def sorted_wrt_iff_nth_less
proof (intro allI impI)
  fix i j assume "i < j" "j < length ts"
  then show "set (ts ! i) \<inter> set (ts ! j) = {}"
    using pool.balanced_disjoint [of "es_alloc e" ts "all_blocks cfg" i j] assms(2)
      all_blocks_bound(1) [OF assms(1)]
    by (auto simp: alloc_ok_def)
qed

lemma alloc_ok_swap: "alloc_ok cfg e (us @ t # vs) \<Longrightarrow> alloc_ok cfg e (us @ vs @ [t])"
  by (simp add: alloc_ok_def ac_simps)

lemma alloc_ok_grow:
  assumes "config_ok cfg" and "alloc_ok cfg e (us @ t # vs)"
    and "ensure_capacity (es_alloc e) t n = Ok (g, a, t')"
  shows "alloc_ok cfg (e\<lparr>es_alloc := a\<rparr>) (us @ t' # vs)"
  using pool.grow_balanced [OF _ assms(3), of us vs "all_blocks cfg"] assms
    ensure_capacity_block_size [OF assms(3)]
  by (simp add: alloc_ok_def config_ok_def)

lemma alloc_ok_release:
  assumes "config_ok cfg" and "alloc_ok cfg e (us @ t # vs)"
  shows "alloc_ok cfg (release_table t e) (us @ vs)"
  using pool.give_balanced [of "es_alloc e" t _ _ us vs "all_blocks cfg"] assms
  by (simp add: alloc_ok_def config_ok_def release_def)

lemma alloc_ok_cong:
  "alloc_ok cfg e ts \<Longrightarrow> es_alloc e' = es_alloc e \<Longrightarrow> alloc_ok cfg e' ts"
  by (simp add: alloc_ok_def)

lemma alloc_ok_send [simp]: "alloc_ok cfg (send tx r e) ts = alloc_ok cfg e ts"
  and alloc_ok_kv [simp]: "alloc_ok cfg (e\<lparr>es_kv := kv\<rparr>) ts = alloc_ok cfg e ts"
  by (simp_all add: alloc_ok_def)

lemma kv_holds_extend:
  "pool_ok pool \<Longrightarrow> kv_holds pool t h \<Longrightarrow> kv_holds pool (t @ ext) h"
proof -
  assume ok: "pool_ok pool" and h: "kv_holds pool t h"
  then have "flat_slot pool (t @ ext) p = flat_slot pool t p" if "p < length h" for p
    using that pos_block [of p t pool] by (auto simp: flat_slot_def kv_holds_def nth_append)
  with h show ?thesis
    by (auto simp: kv_holds_def add_mult_distrib)
qed

lemma seq_holds_extend:
  "\<forall>pool \<in> set kv. pool_ok pool \<Longrightarrow> seq_holds kv t hs \<Longrightarrow> seq_holds kv (t @ ext) hs"
  unfolding seq_holds_def by (auto intro: kv_holds_extend simp: list_all2_conv_all_nth)

section \<open>Sequences that leave the batch\<close>

definition settled ::
    "('v, 'f) backend \<Rightarrow> engine_config \<Rightarrow> 'f gen_request list \<Rightarrow> 'v engine_state \<Rightarrow> nat \<Rightarrow> bool" where
  "settled be cfg reqs e tx \<longleftrightarrow> (\<exists>req \<in> set reqs. gr_tx req = tx \<and> finished be cfg e req)"

lemma settled_cong: "received tx e' = received tx e \<Longrightarrow> settled be cfg reqs e' tx = settled be cfg reqs e tx"
  unfolding settled_def finished_def by (intro bex_cong conj_cong refl) simp

lemma seq_ok_cong:
  "es_kv e' = es_kv e \<Longrightarrow> received (sq_tx s) e' = received (sq_tx s) e
    \<Longrightarrow> seq_ok be cfg reqs e' s = seq_ok be cfg reqs e s"
  by (simp add: seq_ok_def)

lemma seq_ok_failed:
  assumes "seq_ok be cfg reqs e s" and "received (sq_tx s) e' = received (sq_tx s) e @ [Failed why]"
  shows "settled be cfg reqs e' (sq_tx s)"
  using assms unfolding seq_ok_def settled_def finished_def by force

lemma seq_ok_table:
  assumes "seq_ok be cfg reqs e s" and "\<forall>pool \<in> set (es_kv e). pool_ok pool" and "t = sq_table s @ ext"
  shows "seq_ok be cfg reqs e (s\<lparr>sq_table := t\<rparr>)"
proof -
  have "sq_pos s \<le> length (sq_table s) * ec_block_size cfg \<Longrightarrow> sq_pos s \<le> length t * ec_block_size cfg"
    by (simp add: assms(3) add_mult_distrib)
  moreover have "seq_holds (es_kv e) (sq_table s) hs \<Longrightarrow> seq_holds (es_kv e) t hs" for hs
    unfolding assms(3) using assms(2) by (rule seq_holds_extend)
  ultimately show ?thesis
    using assms(1) unfolding seq_ok_def by (simp add: assms(3)) blast
qed

text \<open>
  The batch with its blocks and its clients; and what a pass over the batch does: it keeps some
  of the sequences, the clients of the others have their last reply, nobody else is written to.
\<close>

definition batch_ok ::
    "('v, 'f) backend \<Rightarrow> engine_config \<Rightarrow> 'f gen_request list \<Rightarrow> 'v engine_state \<Rightarrow> 'f sequence list \<Rightarrow> bool" where
  "batch_ok be cfg reqs e ss \<longleftrightarrow> alloc_ok cfg e (map sq_table ss)
     \<and> (\<forall>s \<in> set ss. seq_ok be cfg reqs e s) \<and> distinct (map sq_tx ss)"

definition handled ::
    "('v, 'f) backend \<Rightarrow> engine_config \<Rightarrow> 'f gen_request list \<Rightarrow> 'v engine_state \<Rightarrow> 'v engine_state
      \<Rightarrow> 'f sequence list \<Rightarrow> 'f sequence list \<Rightarrow> bool" where
  "handled be cfg reqs e e' ss ss' \<longleftrightarrow> sq_tx ` set ss' \<subseteq> sq_tx ` set ss \<and> length ss' \<le> length ss
     \<and> (\<forall>tx. tx \<notin> sq_tx ` set ss \<longrightarrow> received tx e' = received tx e)
     \<and> (\<forall>tx \<in> sq_tx ` set ss - sq_tx ` set ss'. settled be cfg reqs e' tx)"

lemma handled_Nil [simp]: "handled be cfg reqs e e [] []"
  by (simp add: handled_def)

lemma batch_ok_tx:
  "batch_ok be cfg reqs e (us @ s # ss) \<Longrightarrow> u \<in> set (us @ ss) \<Longrightarrow> sq_tx u \<noteq> sq_tx s"
  unfolding batch_ok_def by (auto simp: image_iff)

lemma batch_ok_drop:
  assumes "config_ok cfg" and "batch_ok be cfg reqs e (us @ s # ss)" and "es_kv e' = es_kv e"
    and "es_alloc e' = es_alloc (release_table (sq_table s) e)"
    and "\<And>tx. tx \<noteq> sq_tx s \<Longrightarrow> received tx e' = received tx e"
  shows "batch_ok be cfg reqs e' (us @ ss)"
proof -
  have "alloc_ok cfg (release_table (sq_table s) e) (map sq_table us @ map sq_table ss)"
    using assms(2) by (intro alloc_ok_release [OF assms(1)]) (simp add: batch_ok_def)
  then have "alloc_ok cfg e' (map sq_table (us @ ss))"
    using alloc_ok_cong [OF _ assms(4)] by simp
  moreover have "\<forall>u \<in> set (us @ ss). seq_ok be cfg reqs e' u"
  proof
    fix u assume u: "u \<in> set (us @ ss)"
    have "received (sq_tx u) e' = received (sq_tx u) e"
      using assms(5) batch_ok_tx [OF assms(2) u] by blast
    moreover have "seq_ok be cfg reqs e u"
      using assms(2) u by (auto simp: batch_ok_def)
    ultimately show "seq_ok be cfg reqs e' u"
      using seq_ok_cong [OF assms(3)] by blast
  qed
  ultimately show ?thesis
    using assms(2) by (simp add: batch_ok_def)
qed

lemma batch_ok_replace:
  assumes "batch_ok be cfg reqs e (us @ s # ss)" and "es_kv e' = es_kv e"
    and "alloc_ok cfg e' (map sq_table (us @ s' # ss))" and "seq_ok be cfg reqs e' s'" and "sq_tx s' = sq_tx s"
    and "\<And>tx. tx \<noteq> sq_tx s \<Longrightarrow> received tx e' = received tx e"
  shows "batch_ok be cfg reqs e' (us @ s' # ss)"
proof -
  have "\<forall>u \<in> set (us @ ss). seq_ok be cfg reqs e' u"
  proof
    fix u assume u: "u \<in> set (us @ ss)"
    have "received (sq_tx u) e' = received (sq_tx u) e"
      using assms(6) batch_ok_tx [OF assms(1) u] by blast
    moreover have "seq_ok be cfg reqs e u"
      using assms(1) u by (auto simp: batch_ok_def)
    ultimately show "seq_ok be cfg reqs e' u"
      using seq_ok_cong [OF assms(2)] by blast
  qed
  then show ?thesis
    using assms(1,3-5) by (simp add: batch_ok_def)
qed

lemma handled_drop:
  assumes "handled be cfg reqs e1 e' ss ss'" and "sq_tx s \<notin> sq_tx ` set ss"
    and "settled be cfg reqs e1 (sq_tx s)" and "\<And>tx. tx \<noteq> sq_tx s \<Longrightarrow> received tx e1 = received tx e"
  shows "handled be cfg reqs e e' (s # ss) ss'"
proof -
  have "received (sq_tx s) e' = received (sq_tx s) e1"
    using assms(1,2) by (simp add: handled_def)
  then have "settled be cfg reqs e' (sq_tx s)"
    using assms(3) settled_cong by blast
  moreover have "received tx e' = received tx e" if "tx \<notin> sq_tx ` set (s # ss)" for tx
    using that assms(1,4) by (simp add: handled_def)
  ultimately show ?thesis
    using assms(1) unfolding handled_def by auto
qed

lemma handled_keep:
  assumes "handled be cfg reqs e1 e' ss ss'" and "sq_tx s' = sq_tx s"
    and "\<And>tx. tx \<noteq> sq_tx s \<Longrightarrow> received tx e1 = received tx e"
  shows "handled be cfg reqs e e' (s # ss) (s' # ss')"
proof -
  have "received tx e' = received tx e" if "tx \<notin> sq_tx ` set (s # ss)" for tx
    using that assms(1,3) by (simp add: handled_def)
  then show ?thesis
    using assms(1,2) unfolding handled_def by auto
qed

lemma evict_ok:
  assumes "config_ok cfg" and "kv_ok be cfg (es_kv e)" and "batch_ok be cfg reqs e (us @ ss)"
  shows "\<exists>survivors e'. evict cfg ss e = (Ok survivors, e') \<and> es_kv e' = es_kv e
    \<and> batch_ok be cfg reqs e' (us @ survivors) \<and> handled be cfg reqs e e' ss survivors
    \<and> (\<forall>s \<in> set survivors. sq_pos s + 1 \<le> ec_max_seq cfg
          \<and> sq_pos s + 1 \<le> length (sq_table s) * ec_block_size cfg)"
  using assms(2-)
proof (induction ss arbitrary: us e)
  case Nil
  then show ?case by auto
next
  case (Cons s ss)
  note batch = Cons.prems(2)
  have s_ok: "seq_ok be cfg reqs e s" and fresh: "sq_tx s \<notin> sq_tx ` set ss"
    using batch by (auto simp: batch_ok_def)
  have leave: ?case
    if step: "evict cfg (s # ss) e = evict cfg ss (release_table (sq_table s) (send (sq_tx s) (Failed why) e))" for why
  proof -
    let ?e = "release_table (sq_table s) (send (sq_tx s) (Failed why) e)"
    have same: "received tx ?e = received tx e" if "tx \<noteq> sq_tx s" for tx
      using that by auto
    have "batch_ok be cfg reqs ?e (us @ ss)"
      by (rule batch_ok_drop [OF assms(1) batch _ _ same]) simp_all
    moreover have "kv_ok be cfg (es_kv ?e)"
      using Cons.prems(1) by simp
    ultimately obtain survivors e' where ih: "evict cfg ss ?e = (Ok survivors, e')" "es_kv e' = es_kv ?e"
      "batch_ok be cfg reqs e' (us @ survivors)" "handled be cfg reqs ?e e' ss survivors"
      "\<forall>s \<in> set survivors. sq_pos s + 1 \<le> ec_max_seq cfg \<and> sq_pos s + 1 \<le> length (sq_table s) * ec_block_size cfg"
      using Cons.IH [of ?e us] by blast
    have "settled be cfg reqs ?e (sq_tx s)"
      using seq_ok_failed [OF s_ok, of ?e why] by simp
    from handled_drop [OF ih(4) fresh this same] show ?thesis
      using ih(1-3,5) unfolding step by auto
  qed
  have bs: "0 < al_block_size (es_alloc e)" "al_block_size (es_alloc e) = ec_block_size cfg"
    using assms(1) batch by (auto simp: config_ok_def alloc_ok_def batch_ok_def)
  obtain g a t where grow: "ensure_capacity (es_alloc e) (sq_table s) (sq_pos s + 1) = Ok (g, a, t)"
    using pool.grow_total [OF bs(1)] by metis
  show ?case
  proof (cases "sq_pos s + 1 > ec_max_seq cfg")
    case True
    then show ?thesis by (intro leave) simp
  next
    case fits: False
    show ?thesis
    proof (cases g)
      case False
      with grow have "ensure_capacity (es_alloc e) (sq_table s) (sq_pos s + 1) = Ok (False, a, t)"
        by simp
      then have "a = es_alloc e \<and> t = sq_table s"
        by (rule pool.grow_refused [OF bs(1)])
      moreover have "e\<lparr>es_alloc := es_alloc e\<rparr> = e" by simp
      ultimately show ?thesis
        using grow False fits by (intro leave) simp
    next
      case True
      let ?e = "e\<lparr>es_alloc := a\<rparr>" and ?s = "s\<lparr>sq_table := t\<rparr>"
      have room: "sq_pos s + 1 \<le> length t * ec_block_size cfg" and ext: "\<exists>ext. t = sq_table s @ ext"
        using ensure_capacity_granted [OF bs(1)] grow True bs(2) by auto
      have "alloc_ok cfg ?e (map sq_table (us @ ?s # ss))"
        using alloc_ok_grow [OF assms(1) _ grow, of "map sq_table us"] batch by (simp add: batch_ok_def)
      moreover have "seq_ok be cfg reqs e ?s"
        using seq_ok_table [OF s_ok] Cons.prems(1) ext by (auto simp: kv_ok_def)
      then have "seq_ok be cfg reqs ?e ?s"
        using seq_ok_cong [of ?e e ?s] by simp
      ultimately have "batch_ok be cfg reqs ?e (us @ ?s # ss)"
        by (intro batch_ok_replace [OF batch]) simp_all
      moreover have "kv_ok be cfg (es_kv ?e)"
        using Cons.prems(1) by simp
      ultimately obtain survivors e' where ih: "evict cfg ss ?e = (Ok survivors, e')" "es_kv e' = es_kv ?e"
        "batch_ok be cfg reqs e' ((us @ [?s]) @ survivors)" "handled be cfg reqs ?e e' ss survivors"
        "\<forall>s \<in> set survivors. sq_pos s + 1 \<le> ec_max_seq cfg \<and> sq_pos s + 1 \<le> length (sq_table s) * ec_block_size cfg"
        using Cons.IH [of ?e "us @ [?s]"] by auto
      have "evict cfg (s # ss) e = (Ok (?s # survivors), e')"
        using grow True fits ih(1) by (simp add: Let_def and_run_apply)
      moreover have "handled be cfg reqs e e' (s # ss) (?s # survivors)"
        by (rule handled_keep [OF ih(4)]) simp_all
      moreover have "\<forall>u \<in> set (?s # survivors). sq_pos u + 1 \<le> ec_max_seq cfg
          \<and> sq_pos u + 1 \<le> length (sq_table u) * ec_block_size cfg"
        using ih(5) room fits by simp
      moreover have "batch_ok be cfg reqs e' (us @ ?s # survivors)"
        using ih(3) by simp
      ultimately show ?thesis
        using ih(2) by auto
    qed
  qed
qed

section \<open>A round of decoding\<close>

lemma next_token_sample:
  assumes "backend_ok be" and "be_to_vec be logits = Some row"
  shows "sample (be_floats be) row (sample_cfg temperature) = Ok (next_token be temperature logits)"
    and "unat (next_token be temperature logits) < length (tr_embed (be_model be))"
proof -
  have row: "row \<noteq> []" "length row \<le> length (tr_embed (be_model be))"
    and vocab: "length (tr_embed (be_model be)) \<le> 2 ^ 32"
    using assms by (auto simp: backend_ok_def)
  obtain i where i: "i < length row"
    "sample (be_floats be) row (sample_cfg temperature) = Ok (of_nat i)"
    using sample_in_range [OF row(1), of "sample_cfg temperature"] by (auto simp: sample_cfg_def)
  then have "next_token be temperature logits = of_nat i"
    by (simp add: next_token_def assms(2))
  then show "sample (be_floats be) row (sample_cfg temperature) = Ok (next_token be temperature logits)"
    using i(2) by simp
  have "i < 2 ^ 32"
    using i(1) row(2) vocab by linarith
  then show "unat (next_token be temperature logits) < length (tr_embed (be_model be))"
    using \<open>next_token be temperature logits = of_nat i\<close> i(1) row(2)
    by (simp add: unat_of_nat del: power_numeral)
qed

text \<open>A sequence between the forward pass and the sampling of its next token.\<close>

definition seq_mid ::
    "('v, 'f) backend \<Rightarrow> engine_config \<Rightarrow> 'f gen_request list \<Rightarrow> 'v engine_state \<Rightarrow> 'f sequence \<Rightarrow> 'f list \<Rightarrow> bool" where
  "seq_mid be cfg reqs e s row \<longleftrightarrow>
     sq_pos s + 1 \<le> length (sq_table s) * ec_block_size cfg
     \<and> 1 \<le> sq_produced s \<and> (sq_produced s < sq_max s \<or> sq_produced s = 1)
     \<and> (\<exists>req logits hs done. req \<in> set reqs \<and> sq_tx s = gr_tx req \<and> sq_max s = gr_max_tokens req
          \<and> sq_temperature s = gr_temperature req \<and> be_to_vec be logits = Some row
          \<and> seq_holds (es_kv e) (sq_table s) hs \<and> (\<forall>h \<in> set hs. length h = sq_pos s + 1)
          \<and> received (sq_tx s) e = map Token done
          \<and> solo be (ec_eos cfg) req = done @
              (let tok = next_token be (sq_temperature s) logits
               in if tok = ec_eos cfg then []
                  else tok # (if sq_max s - sq_produced s \<le> 1 then []
                              else solo_rest be (ec_eos cfg) (sq_temperature s)
                                     (sq_max s - sq_produced s - 1) tok (sq_pos s + 1) hs)))"

lemma seq_mid_cong:
  "es_kv e' = es_kv e \<Longrightarrow> received (sq_tx s) e' = received (sq_tx s) e
    \<Longrightarrow> seq_mid be cfg reqs e' s row = seq_mid be cfg reqs e s row"
  by (simp add: seq_mid_def)

lemma seq_mid_failed:
  assumes "seq_mid be cfg reqs e s row" and "received (sq_tx s) e' = received (sq_tx s) e @ [Failed why]"
  shows "settled be cfg reqs e' (sq_tx s)"
  using assms unfolding seq_mid_def settled_def finished_def by force

text \<open>What one sampled token does to its sequence.\<close>

lemma seq_okI:
  assumes "sq_pos s \<le> length (sq_table s) * ec_block_size cfg"
    and "unat (sq_next s) < length (tr_embed (be_model be))"
    and "1 \<le> sq_produced s" and "sq_produced s < sq_max s \<or> sq_produced s = 1"
    and "req \<in> set reqs" and "sq_tx s = gr_tx req" and "sq_max s = gr_max_tokens req"
    and "sq_temperature s = gr_temperature req"
    and "seq_holds (es_kv e) (sq_table s) hs" and "\<forall>h \<in> set hs. length h = sq_pos s"
    and "received (sq_tx s) e = map Token sent"
    and "solo be (ec_eos cfg) req = sent @ solo_rest be (ec_eos cfg) (sq_temperature s)
          (sq_max s - sq_produced s) (sq_next s) (sq_pos s) hs"
  shows "seq_ok be cfg reqs e s"
  unfolding seq_ok_def using assms by blast

lemma seq_mid_next:
  fixes e :: "'v engine_state"
  assumes "backend_ok be" and "seq_mid be cfg reqs e s row"
  obtains tok where "sample (be_floats be) row (sample_cfg (sq_temperature s)) = Ok tok"
    and "\<And>e' :: 'v engine_state. tok = ec_eos cfg \<Longrightarrow> received (sq_tx s) e' = received (sq_tx s) e \<Longrightarrow>
          settled be cfg reqs e' (sq_tx s)"
    and "\<And>e' :: 'v engine_state. tok \<noteq> ec_eos cfg \<Longrightarrow> sq_max s \<le> sq_produced s + 1 \<Longrightarrow>
          received (sq_tx s) e' = received (sq_tx s) e @ [Token tok] \<Longrightarrow> settled be cfg reqs e' (sq_tx s)"
    and "\<And>e' :: 'v engine_state. tok \<noteq> ec_eos cfg \<Longrightarrow> \<not> sq_max s \<le> sq_produced s + 1 \<Longrightarrow> es_kv e' = es_kv e \<Longrightarrow>
          received (sq_tx s) e' = received (sq_tx s) e @ [Token tok] \<Longrightarrow>
          seq_ok be cfg reqs e' (s\<lparr>sq_pos := sq_pos s + 1, sq_produced := sq_produced s + 1, sq_next := tok\<rparr>)"
proof -
  from assms(2) obtain req logits hs sent where m: "req \<in> set reqs" "sq_tx s = gr_tx req"
    "sq_max s = gr_max_tokens req" "sq_temperature s = gr_temperature req" "be_to_vec be logits = Some row"
    "seq_holds (es_kv e) (sq_table s) hs" "\<forall>h \<in> set hs. length h = sq_pos s + 1"
    "received (sq_tx s) e = map Token sent"
    and solo: "solo be (ec_eos cfg) req = sent @
              (let tok = next_token be (sq_temperature s) logits
               in if tok = ec_eos cfg then []
                  else tok # (if sq_max s - sq_produced s \<le> 1 then []
                              else solo_rest be (ec_eos cfg) (sq_temperature s)
                                     (sq_max s - sq_produced s - 1) tok (sq_pos s + 1) hs))"
    unfolding seq_mid_def by blast
  define tok where "tok = next_token be (sq_temperature s) logits"
  note tok = next_token_sample [OF assms(1) m(5), of "sq_temperature s", folded tok_def]
  note solo = solo [folded tok_def, unfolded Let_def]
  show thesis
  proof (rule that [OF tok(1)])
    fix e' :: "'v engine_state" assume "tok = ec_eos cfg" and "received (sq_tx s) e' = received (sq_tx s) e"
    then show "settled be cfg reqs e' (sq_tx s)"
      using m(1,2,8) solo by (auto simp: settled_def finished_def)
  next
    fix e' :: "'v engine_state" assume "tok \<noteq> ec_eos cfg" and "sq_max s \<le> sq_produced s + 1"
      and "received (sq_tx s) e' = received (sq_tx s) e @ [Token tok]"
    moreover have "sq_max s - sq_produced s \<le> 1"
      using calculation(2) by simp
    then have "solo be (ec_eos cfg) req = sent @ [tok]"
      using solo calculation(1) by (simp only: if_True if_False)
    ultimately show "settled be cfg reqs e' (sq_tx s)"
      using m(1,2,8) by (auto simp: settled_def finished_def)
  next
    fix e' :: "'v engine_state" assume a: "tok \<noteq> ec_eos cfg" "\<not> sq_max s \<le> sq_produced s + 1" "es_kv e' = es_kv e"
      "received (sq_tx s) e' = received (sq_tx s) e @ [Token tok]"
    let ?s = "s\<lparr>sq_pos := sq_pos s + 1, sq_produced := sq_produced s + 1, sq_next := tok\<rparr>"
    have "\<not> sq_max s - sq_produced s \<le> 1"
      using a(2) by simp
    with solo a(1) have "solo be (ec_eos cfg) req = sent @ tok # solo_rest be (ec_eos cfg) (sq_temperature s)
        (sq_max s - sq_produced s - 1) tok (sq_pos s + 1) hs"
      by (simp only: if_False)
    then have "solo be (ec_eos cfg) req = (sent @ [tok]) @ solo_rest be (ec_eos cfg) (sq_temperature ?s)
        (sq_max ?s - sq_produced ?s) (sq_next ?s) (sq_pos ?s) hs"
      by simp
    moreover have "received (sq_tx ?s) e' = map Token (sent @ [tok])"
      using a(4) m(8) by simp
    moreover have "sq_pos ?s \<le> length (sq_table ?s) * ec_block_size cfg" "1 \<le> sq_produced ?s"
      "sq_produced ?s < sq_max ?s"
      using assms(2) a(2) by (auto simp: seq_mid_def)
    ultimately show "seq_ok be cfg reqs e' ?s"
      using m(1-4,6,7) tok(2) a(3)
      by (intro seq_okI [of ?s cfg be req reqs e' hs "sent @ [tok]"]) simp_all
  qed
qed

text \<open>The batch in the middle of a round: \<open>us\<close> has its tokens, \<open>rest\<close> waits for them.\<close>

definition batch_mid ::
    "('v, 'f) backend \<Rightarrow> engine_config \<Rightarrow> 'f gen_request list \<Rightarrow> 'v engine_state
      \<Rightarrow> 'f sequence list \<Rightarrow> ('f sequence \<times> 'f list) list \<Rightarrow> bool" where
  "batch_mid be cfg reqs e us rest \<longleftrightarrow> alloc_ok cfg e (map sq_table (us @ map fst rest))
     \<and> (\<forall>s \<in> set us. seq_ok be cfg reqs e s) \<and> (\<forall>(s, row) \<in> set rest. seq_mid be cfg reqs e s row)
     \<and> distinct (map sq_tx (us @ map fst rest))"

lemma batch_mid_step:
  assumes "batch_mid be cfg reqs e us ((s, row) # rest)" and "es_kv e' = es_kv e"
    and "\<And>tx. tx \<noteq> sq_tx s \<Longrightarrow> received tx e' = received tx e"
  shows "alloc_ok cfg e' (map sq_table (us @ map fst rest)) \<Longrightarrow> batch_mid be cfg reqs e' us rest"
    and "alloc_ok cfg e' (map sq_table ((us @ [s']) @ map fst rest)) \<Longrightarrow> sq_tx s' = sq_tx s \<Longrightarrow>
      seq_ok be cfg reqs e' s' \<Longrightarrow> batch_mid be cfg reqs e' (us @ [s']) rest"
proof -
  have fresh: "sq_tx s \<notin> sq_tx ` set us" "sq_tx s \<notin> sq_tx ` fst ` set rest"
    and dist: "distinct (map sq_tx (us @ map fst rest))"
    using assms(1) by (auto simp: batch_mid_def image_image)
  have "\<forall>u \<in> set us. seq_ok be cfg reqs e' u"
  proof
    fix u assume u: "u \<in> set us"
    have "received (sq_tx u) e' = received (sq_tx u) e"
      using assms(3) fresh(1) u by (metis imageI)
    moreover have "seq_ok be cfg reqs e u"
      using assms(1) u by (simp add: batch_mid_def)
    ultimately show "seq_ok be cfg reqs e' u"
      using seq_ok_cong [OF assms(2)] by blast
  qed
  moreover have "\<forall>(u, row) \<in> set rest. seq_mid be cfg reqs e' u row"
  proof (clarify)
    fix u r assume u: "(u, r) \<in> set rest"
    have "received (sq_tx u) e' = received (sq_tx u) e"
      using assms(3) fresh(2) u by (metis fst_conv imageI)
    moreover have "seq_mid be cfg reqs e u r"
      using assms(1) u by (auto simp: batch_mid_def)
    ultimately show "seq_mid be cfg reqs e' u r"
      using seq_mid_cong [OF assms(2)] by blast
  qed
  ultimately show "alloc_ok cfg e' (map sq_table (us @ map fst rest)) \<Longrightarrow> batch_mid be cfg reqs e' us rest"
    and "alloc_ok cfg e' (map sq_table ((us @ [s']) @ map fst rest)) \<Longrightarrow> sq_tx s' = sq_tx s \<Longrightarrow>
      seq_ok be cfg reqs e' s' \<Longrightarrow> batch_mid be cfg reqs e' (us @ [s']) rest"
    using dist fresh by (auto simp: batch_mid_def image_image)
qed

lemma advance_ok:
  assumes "config_ok cfg" and "backend_ok be" and "batch_mid be cfg reqs e us rest"
  shows "\<exists>keep e'. advance be cfg rest e = (Ok keep, e') \<and> es_kv e' = es_kv e
    \<and> batch_ok be cfg reqs e' (us @ keep) \<and> handled be cfg reqs e e' (map fst rest) keep"
  using assms(3)
proof (induction rest arbitrary: us e)
  case Nil
  then show ?case
    by (simp add: batch_mid_def batch_ok_def)
next
  case (Cons sr rest)
  obtain s row where sr: "sr = (s, row)" by (cases sr)
  note mid = Cons.prems [unfolded sr]
  have s_mid: "seq_mid be cfg reqs e s row" and fresh: "sq_tx s \<notin> sq_tx ` set (map fst rest)"
    using mid by (auto simp: batch_mid_def)
  obtain tok where tok: "sample (be_floats be) row (sample_cfg (sq_temperature s)) = Ok tok"
    and eos: "\<And>e'. tok = ec_eos cfg \<Longrightarrow> received (sq_tx s) e' = received (sq_tx s) e \<Longrightarrow>
          settled be cfg reqs e' (sq_tx s)"
    and limit: "\<And>e'. tok \<noteq> ec_eos cfg \<Longrightarrow> sq_max s \<le> sq_produced s + 1 \<Longrightarrow>
          received (sq_tx s) e' = received (sq_tx s) e @ [Token tok] \<Longrightarrow> settled be cfg reqs e' (sq_tx s)"
    and go_on: "\<And>e'. tok \<noteq> ec_eos cfg \<Longrightarrow> \<not> sq_max s \<le> sq_produced s + 1 \<Longrightarrow> es_kv e' = es_kv e \<Longrightarrow>
          received (sq_tx s) e' = received (sq_tx s) e @ [Token tok] \<Longrightarrow>
          seq_ok be cfg reqs e' (s\<lparr>sq_pos := sq_pos s + 1, sq_produced := sq_produced s + 1, sq_next := tok\<rparr>)"
    using seq_mid_next [OF assms(2) s_mid] by metis
  let ?e1 = "if tok = ec_eos cfg then e else send (sq_tx s) (Token tok) e"
  have alloc1: "alloc_ok cfg ?e1 (map sq_table us @ sq_table s # map sq_table (map fst rest))"
    using mid by (simp add: batch_mid_def)
  show ?case
  proof (cases "tok = ec_eos cfg \<or> sq_max s \<le> sq_produced s + 1")
    case True
    let ?e = "release_table (sq_table s) ?e1"
    have same: "received tx ?e = received tx e" if "tx \<noteq> sq_tx s" for tx
      using that by auto
    have al: "alloc_ok cfg ?e (map sq_table (us @ map fst rest))"
      using alloc_ok_release [OF assms(1) alloc1] by simp
    have "batch_mid be cfg reqs ?e us rest"
      by (rule batch_mid_step(1) [OF mid _ same al]) simp_all
    from Cons.IH [OF this] obtain keep e' where ih: "advance be cfg rest ?e = (Ok keep, e')" "es_kv e' = es_kv ?e"
      "batch_ok be cfg reqs e' (us @ keep)" "handled be cfg reqs ?e e' (map fst rest) keep"
      by blast
    have "settled be cfg reqs ?e (sq_tx s)"
      using True eos [of ?e] limit [of ?e] by (cases "tok = ec_eos cfg") simp_all
    from handled_drop [OF ih(4) fresh this same]
    have "handled be cfg reqs e e' (map fst (sr # rest)) keep"
      by (simp add: sr)
    moreover have "advance be cfg (sr # rest) e = (Ok keep, e')"
      using tok True ih(1) by (cases "tok = ec_eos cfg") (simp_all add: sr Let_def)
    ultimately show ?thesis
      using ih(2,3) by auto
  next
    case False
    let ?e = "send (sq_tx s) (Token tok) e"
    let ?s = "s\<lparr>sq_pos := sq_pos s + 1, sq_produced := sq_produced s + 1, sq_next := tok\<rparr>"
    have same: "received tx ?e = received tx e" if "tx \<noteq> sq_tx s" for tx
      using that by auto
    have "alloc_ok cfg ?e (map sq_table ((us @ [?s]) @ map fst rest))"
      using alloc1 False by simp
    moreover have "seq_ok be cfg reqs ?e ?s"
      using False by (intro go_on) simp_all
    ultimately have "batch_mid be cfg reqs ?e (us @ [?s]) rest"
      by (intro batch_mid_step(2) [OF mid _ same]) simp_all
    from Cons.IH [OF this] obtain keep e' where ih: "advance be cfg rest ?e = (Ok keep, e')" "es_kv e' = es_kv ?e"
      "batch_ok be cfg reqs e' ((us @ [?s]) @ keep)" "handled be cfg reqs ?e e' (map fst rest) keep"
      by blast
    have "handled be cfg reqs e e' (s # map fst rest) (?s # keep)"
      by (rule handled_keep [OF ih(4) _ same]) simp_all
    moreover have "advance be cfg (sr # rest) e = (Ok (?s # keep), e')"
      using tok False ih(1) by (simp add: sr Let_def and_run_apply)
    ultimately show ?thesis
      using ih(2,3) by (auto simp: sr)
  qed
qed

lemma handled_trans:
  assumes "handled be cfg reqs e e1 ss s1" and "handled be cfg reqs e1 e2 s1 s2"
  shows "handled be cfg reqs e e2 ss s2"
proof -
  have "settled be cfg reqs e2 tx" if "tx \<in> sq_tx ` set ss - sq_tx ` set s2" for tx
  proof (cases "tx \<in> sq_tx ` set s1")
    case True
    then show ?thesis using assms(2) that by (simp add: handled_def)
  next
    case False
    then have "settled be cfg reqs e1 tx" and "received tx e2 = received tx e1"
      using assms that by (simp_all add: handled_def)
    then show ?thesis using settled_cong by blast
  qed
  moreover have "received tx e2 = received tx e" if "tx \<notin> sq_tx ` set ss" for tx
  proof -
    have "tx \<notin> sq_tx ` set s1" using assms(1) that by (auto simp: handled_def)
    then show ?thesis using assms that by (simp add: handled_def)
  qed
  ultimately show ?thesis
    using assms unfolding handled_def by (meson le_trans subset_trans)
qed

lemma fold_send:
  assumes "distinct (map sq_tx ss)"
  shows "received tx (fold (\<lambda>s. send (sq_tx s) r) ss e)
      = received tx e @ (if tx \<in> sq_tx ` set ss then [r] else [])"
    and "es_kv (fold (\<lambda>s. send (sq_tx s) r) ss e) = es_kv e"
    and "es_alloc (fold (\<lambda>s. send (sq_tx s) r) ss e) = es_alloc e"
  using assms by (induction ss arbitrary: e) auto

lemma fold_release:
  assumes "config_ok cfg" and "alloc_ok cfg e (map sq_table ss)"
  shows "alloc_ok cfg (fold (\<lambda>s. release_table (sq_table s)) ss e) []
    \<and> es_kv (fold (\<lambda>s. release_table (sq_table s)) ss e) = es_kv e
    \<and> (\<forall>tx. received tx (fold (\<lambda>s. release_table (sq_table s)) ss e) = received tx e)"
  using assms(2)
proof (induction ss arbitrary: e)
  case (Cons s ss)
  have "alloc_ok cfg (release_table (sq_table s) e) (map sq_table ss)"
    using alloc_ok_release [OF assms(1), of e "[]" "sq_table s"] Cons.prems by simp
  from Cons.IH [OF this] show ?case by simp
qed simp

lemma settled_kv [simp]: "settled be cfg reqs (e\<lparr>es_kv := kv\<rparr>) tx = settled be cfg reqs e tx"
  by (rule settled_cong) simp

lemma fail_all_ok:
  assumes "config_ok cfg" and "alloc_ok cfg e (map sq_table ss)" and "distinct (map sq_tx ss)"
    and "\<And>s e'. s \<in> set ss \<Longrightarrow> received (sq_tx s) e' = received (sq_tx s) e @ [Failed why] \<Longrightarrow>
          settled be cfg reqs e' (sq_tx s)"
  shows "es_kv (fail_all why ss e) = es_kv e \<and> batch_ok be cfg reqs (fail_all why ss e) []
    \<and> handled be cfg reqs e (fail_all why ss e) ss []"
proof -
  let ?e1 = "fold (\<lambda>s. send (sq_tx s) (Failed why)) ss e"
  have "alloc_ok cfg ?e1 (map sq_table ss)"
    using alloc_ok_cong [OF assms(2) fold_send(3) [OF assms(3)]] .
  note rel = fold_release [OF assms(1) this]
  have recv: "received tx (fail_all why ss e) = received tx e @ (if tx \<in> sq_tx ` set ss then [Failed why] else [])" for tx
    using rel by (simp add: fail_all_def fold_send(1) [OF assms(3)])
  have "settled be cfg reqs (fail_all why ss e) (sq_tx s)" if "s \<in> set ss" for s
    using assms(4) [OF that] recv [of "sq_tx s"] that by simp
  then show ?thesis
    using rel recv fold_send(2) [OF assms(3)] by (simp add: batch_ok_def handled_def fail_all_def)
qed

lemma extract_rows_Some:
  "extract_rows be ss (map f ss) = Some rows \<Longrightarrow> list_all2 (\<lambda>s row. be_to_vec be (f s) = Some row) ss rows"
  by (induction ss arbitrary: rows) (auto split: option.splits)

lemma kv_ok_shape:
  assumes "kv_ok be cfg kv" and "list_all2 same_shape kv kv'"
  shows "kv_ok be cfg kv'"
proof -
  have "pool_ok q \<and> kp_block_size q = ec_block_size cfg \<and> kp_num_blocks q = ec_kv_cache_blocks cfg"
    if "same_shape p q" "p \<in> set kv" for p q
  proof -
    have "pool_ok p \<and> kp_block_size p = ec_block_size cfg \<and> kp_num_blocks p = ec_kv_cache_blocks cfg"
      using assms(1) that(2) by (simp add: kv_ok_def)
    then show ?thesis
      using same_shape_ok(1) [OF that(1)] that(1) by (simp add: same_shape_def)
  qed
  moreover have "\<exists>p \<in> set kv. same_shape p q" if "q \<in> set kv'" for q
    using assms(2) that by (metis in_set_conv_nth list_all2_conv_all_nth)
  ultimately show ?thesis
    using assms unfolding kv_ok_def by (metis list_all2_lengthD)
qed

lemma table_ok_all:
  assumes "config_ok cfg" and "alloc_ok cfg e ts" and "t \<in> set ts" and "kv_ok be cfg kv" and "pool \<in> set kv"
  shows "table_ok pool t"
  using alloc_ok_table [OF assms(1-3)] assms(4,5) by (auto simp: table_ok_def kv_ok_def)

lemma seq_ready_intro:
  assumes "config_ok cfg" and "alloc_ok cfg e ts" and "t \<in> set ts" and "kv_ok be cfg kv"
    and "seq_holds kv t hs" and "\<forall>h \<in> set hs. length h = n" and "n < length t * ec_block_size cfg"
  shows "seq_ready kv t n hs"
proof -
  have "row_ready pool t h \<and> length h = n" if "pool \<in> set kv" "h \<in> set hs" "kv_holds pool t h" for pool h
    using that table_ok_all [OF assms(1-4)] assms(4,6,7) by (auto simp: row_ready_def kv_ok_def)
  then show ?thesis
    using assms(5) unfolding seq_ready_def seq_holds_def
    by (auto simp: list_all2_conv_all_nth) (metis nth_mem)+
qed

lemma forward_ok:
  fixes ss :: "'f sequence list"
  assumes "config_ok cfg" and "backend_ok be" and "kv_ok be cfg (es_kv e)" and "batch_ok be cfg reqs e ss"
    and "ss \<noteq> []" and "ec_max_seq cfg = tr_context (be_model be)"
    and "\<forall>s \<in> set ss. sq_pos s + 1 \<le> ec_max_seq cfg \<and> sq_pos s + 1 \<le> length (sq_table s) * ec_block_size cfg"
  shows "\<exists>f kv. decode_step (be_ops be) (be_model be) (map sq_next ss) (map sq_pos ss) (map sq_pos ss)
        (es_alloc e) (map sq_table ss) (es_kv e) = (Ok (map f ss), kv)
    \<and> kv_ok be cfg kv
    \<and> (\<forall>s row. s \<in> set ss \<longrightarrow> be_to_vec be (f s) = Some row \<longrightarrow> seq_mid be cfg reqs (e\<lparr>es_kv := kv\<rparr>) s row)"
proof -
  let ?tr = "be_model be" and ?ops = "be_ops be"
  have alloc: "alloc_ok cfg e (map sq_table ss)" and seqs: "\<forall>s \<in> set ss. seq_ok be cfg reqs e s"
    using assms(4) by (auto simp: batch_ok_def)
  define P where "P (s :: 'f sequence) hs req sent \<longleftrightarrow> req \<in> set reqs \<and> sq_tx s = gr_tx req \<and> sq_max s = gr_max_tokens req
      \<and> sq_temperature s = gr_temperature req
      \<and> seq_holds (es_kv e) (sq_table s) hs \<and> (\<forall>h \<in> set hs. length h = sq_pos s)
      \<and> received (sq_tx s) e = map Token sent
      \<and> solo be (ec_eos cfg) req = sent @ solo_rest be (ec_eos cfg) (sq_temperature s)
           (sq_max s - sq_produced s) (sq_next s) (sq_pos s) hs" for s hs req sent
  have "\<forall>s \<in> set ss. \<exists>hs. \<exists>req sent. P s hs req sent"
    using seqs unfolding seq_ok_def P_def by blast
  then obtain H where H: "\<And>s. s \<in> set ss \<Longrightarrow> \<exists>req sent. P s (H s) req sent"
    by metis
  define batch where "batch = map (\<lambda>s. (sq_next s, sq_table s, sq_pos s, H s)) ss"
  have proj: "map (\<lambda>(tok, t, n, hs). tok) batch = map sq_next ss" "map (\<lambda>(tok, t, n, hs). t) batch = map sq_table ss"
    "map (\<lambda>(tok, t, n, hs). n) batch = map sq_pos ss"
    by (simp_all add: batch_def comp_def)
  have "\<forall>(tok, t, n, hs) \<in> set batch. unat tok < length (tr_embed ?tr) \<and> n < tr_context ?tr
      \<and> seq_ready (es_kv e) t n hs"
  proof (clarify)
    fix tok t n hs assume "(tok, t, n, hs) \<in> set batch"
    then obtain s where s: "s \<in> set ss" "tok = sq_next s" "t = sq_table s" "n = sq_pos s" "hs = H s"
      by (auto simp: batch_def)
    then obtain req sent where "P s (H s) req sent" using H by blast
    then have "seq_ready (es_kv e) (sq_table s) (sq_pos s) (H s)"
      using s(1) assms(7) by (intro seq_ready_intro [OF assms(1) alloc _ assms(3)]) (auto simp: P_def)
    with s assms(6,7) seqs show "unat tok < length (tr_embed ?tr) \<and> n < tr_context ?tr \<and> seq_ready (es_kv e) t n hs"
      by (auto simp: seq_ok_def)
  qed
  moreover have "pools_ok (es_alloc e) (es_kv e)" "length (es_kv e) = length (tr_layers ?tr)"
    using assms(3) alloc by (auto simp: pools_ok_def kv_ok_def alloc_ok_def)
  moreover have "disjoint_tables (map (\<lambda>(tok, t, n, hs). t) batch)"
    unfolding proj by (rule alloc_ok_disjoint [OF assms(1) alloc])
  moreover have "batch \<noteq> []" using assms(5) by (simp add: batch_def)
  moreover have "mask_neutral ?ops" "tr_context ?tr \<le> 2 ^ 32"
    using assms(2) by (auto simp: backend_ok_def)
  ultimately obtain kv where kv: "decode_step ?ops ?tr (map sq_next ss) (map sq_pos ss) (map sq_pos ss)
        (es_alloc e) (map sq_table ss) (es_kv e)
      = (Ok (map (\<lambda>(tok, t, n, hs). fst (dense_step ?ops ?tr tok n hs)) batch), kv)"
    "list_all2 same_shape (es_kv e) kv"
    "\<forall>(tok, t, n, hs) \<in> set batch. seq_holds kv t (snd (dense_step ?ops ?tr tok n hs))"
    using decode_step_refines [of ?ops "es_alloc e" "es_kv e" batch ?tr] unfolding proj by blast
  define f where "f s = fst (dense_step ?ops ?tr (sq_next s) (sq_pos s) (H s))" for s
  have out: "map (\<lambda>(tok, t, n, hs). fst (dense_step ?ops ?tr tok n hs)) batch = map f ss"
    by (simp add: batch_def f_def)
  have mid: "seq_mid be cfg reqs (e\<lparr>es_kv := kv\<rparr>) s row" if s: "s \<in> set ss" and row: "be_to_vec be (f s) = Some row" for s row
  proof -
    obtain req sent where "P s (H s) req sent" using H [OF s] by blast
    note p = this [unfolded P_def]
    let ?hs = "snd (dense_step ?ops ?tr (sq_next s) (sq_pos s) (H s))"
    have "seq_holds kv (sq_table s) ?hs"
      using kv(3) s by (force simp: batch_def)
    moreover have "\<forall>h \<in> set ?hs. length h = sq_pos s + 1"
      using dense_step_lengths [of "H s" "sq_pos s"] p by simp
    moreover have "solo be (ec_eos cfg) req = sent @
        (let tok = next_token be (sq_temperature s) (f s)
         in if tok = ec_eos cfg then []
            else tok # (if sq_max s - sq_produced s \<le> 1 then []
                        else solo_rest be (ec_eos cfg) (sq_temperature s)
                               (sq_max s - sq_produced s - 1) tok (sq_pos s + 1) ?hs))"
      using p unfolding solo_rest.simps [of _ _ _ "sq_max s - sq_produced s"]
      by (simp add: split_beta Let_def f_def)
    moreover have "received (sq_tx s) (e\<lparr>es_kv := kv\<rparr>) = map Token sent"
      unfolding received_same using p by blast
    moreover have "es_kv (e\<lparr>es_kv := kv\<rparr>) = kv" by simp
    moreover have "sq_pos s + 1 \<le> length (sq_table s) * ec_block_size cfg"
      using assms(7) s by blast
    ultimately show ?thesis
      unfolding seq_mid_def using seqs [unfolded seq_ok_def] s row p by metis
  qed
  show ?thesis
    using kv(1) out mid kv_ok_shape [OF assms(3) kv(2)] by (intro exI [of _ f] exI [of _ kv]) auto
qed

lemma decode_round_ok:
  assumes "config_ok cfg" and "backend_ok be" and "kv_ok be cfg (es_kv e)" and "batch_ok be cfg reqs e running"
    and "running \<noteq> []" and "ec_max_seq cfg = tr_context (be_model be)"
  shows "\<exists>running' e'. decode_round be cfg running e = (Ok running', e') \<and> kv_ok be cfg (es_kv e')
    \<and> batch_ok be cfg reqs e' running' \<and> handled be cfg reqs e e' running running'"
proof -
  obtain ss e1 where ev: "evict cfg running e = (Ok ss, e1)" "es_kv e1 = es_kv e"
    "batch_ok be cfg reqs e1 ss" "handled be cfg reqs e e1 running ss"
    "\<forall>s \<in> set ss. sq_pos s + 1 \<le> ec_max_seq cfg \<and> sq_pos s + 1 \<le> length (sq_table s) * ec_block_size cfg"
    using evict_ok [OF assms(1,3), of reqs "[]" running] assms(4) by auto
  show ?thesis
  proof (cases "ss = []")
    case True
    then have "decode_round be cfg running e = (Ok [], e1)"
      using ev(1) assms(5) by (simp add: decode_round_def and_run_apply)
    then show ?thesis
      using True ev(2-4) assms(3) by auto
  next
    case False
    have kv1: "kv_ok be cfg (es_kv e1)" using assms(3) ev(2) by simp
    obtain f kv where fw: "decode_step (be_ops be) (be_model be) (map sq_next ss) (map sq_pos ss) (map sq_pos ss)
        (es_alloc e1) (map sq_table ss) (es_kv e1) = (Ok (map f ss), kv)" "kv_ok be cfg kv"
      "\<And>s row. s \<in> set ss \<Longrightarrow> be_to_vec be (f s) = Some row \<Longrightarrow> seq_mid be cfg reqs (e1\<lparr>es_kv := kv\<rparr>) s row"
      using forward_ok [OF assms(1,2) kv1 ev(3) False assms(6) ev(5)] by blast
    let ?e = "e1\<lparr>es_kv := kv\<rparr>"
    have alloc: "alloc_ok cfg ?e (map sq_table ss)" and dist: "distinct (map sq_tx ss)"
      using ev(3) by (auto simp: batch_ok_def)
    have handled1: "handled be cfg reqs e ?e running ss"
      using ev(4) by (simp add: handled_def)
    show ?thesis
    proof (cases "extract_rows be ss (map f ss)")
      case None
      have "settled be cfg reqs e' (sq_tx s)"
        if s: "s \<in> set ss" and "received (sq_tx s) e' = received (sq_tx s) ?e @ [Failed LogitExtract]"
        for s and e' :: "'a engine_state"
        using that ev(3) by (intro seq_ok_failed [of be cfg reqs e1 s]) (auto simp: batch_ok_def)
      from fail_all_ok [OF assms(1) alloc dist this]
      have fail: "es_kv (fail_all LogitExtract ss ?e) = kv" "batch_ok be cfg reqs (fail_all LogitExtract ss ?e) []"
        "handled be cfg reqs ?e (fail_all LogitExtract ss ?e) ss []"
        by auto
      have "decode_round be cfg running e = (Ok [], fail_all LogitExtract ss ?e)"
        using ev(1) False fw(1) None by (simp add: decode_round_def and_run_apply)
      then show ?thesis
        using fail fw(2) handled_trans [OF handled1 fail(3)] by auto
    next
      case (Some rows)
      from extract_rows_Some [OF this] have rows: "length rows = length ss"
        "\<And>s row. (s, row) \<in> set (zip ss rows) \<Longrightarrow> s \<in> set ss \<and> be_to_vec be (f s) = Some row"
        by (auto simp: list_all2_iff dest: set_zip_leftD)
      have "batch_mid be cfg reqs ?e [] (zip ss rows)"
        using alloc dist rows fw(3) by (auto simp: batch_mid_def)
      from advance_ok [OF assms(1,2) this] obtain keep e' where adv:
        "advance be cfg (zip ss rows) ?e = (Ok keep, e')" "es_kv e' = kv" "batch_ok be cfg reqs e' keep"
        "handled be cfg reqs ?e e' ss keep"
        using rows(1) by auto
      have "decode_round be cfg running e = (Ok keep, e')"
        using ev(1) False fw(1) Some adv(1) by (simp add: decode_round_def and_run_apply)
      then show ?thesis
        using adv fw(2) handled_trans [OF handled1 adv(4)] by auto
    qed
  qed
qed

section \<open>Admission\<close>

lemma dense_prompt_lengths:
  "\<forall>h \<in> set hs. length h = n \<Longrightarrow>
    \<forall>h \<in> set (snd (dense_prompt ops tr pos toks hs)). length h = n + length toks"
proof (induction toks arbitrary: pos hs n)
  case (Cons tok toks)
  from dense_step_lengths [OF Cons.prems, of ops tr tok pos] Cons.IH show ?case
    by (cases "toks = []") (fastforce simp: split_beta Let_def)+
qed simp

lemma prefill_seq_total:
  assumes "config_ok cfg" and "backend_ok be" and "kv_ok be cfg kv" and "alloc_ok cfg e ts" and "t \<in> set ts"
    and "length ids \<le> length t * ec_block_size cfg" and "length ids \<le> tr_context (be_model be)"
  defines "ref \<equiv> dense_prompt (be_ops be) (be_model be) 0 ids (replicate (length (tr_layers (be_model be))) [])"
  shows "\<exists>r kv'. prefill_seq (be_ops be) (be_model be) ids t (es_alloc e) kv = (r, kv') \<and> r \<noteq> Panic
    \<and> list_all2 same_shape kv kv'
    \<and> (\<forall>u gs. set t \<inter> set u = {} \<longrightarrow> seq_holds kv u gs \<longrightarrow> seq_holds kv' u gs)
    \<and> (\<forall>logits. r = Ok logits \<longrightarrow> ids \<noteq> [] \<and> fst ref = Some logits \<and> seq_holds kv' t (snd ref))"
proof -
  let ?tr = "be_model be" and ?ops = "be_ops be"
  have neutral: "mask_neutral ?ops" "tr_context ?tr \<le> 2 ^ 32"
    using assms(2) by (auto simp: backend_ok_def)
  have pools: "pools_ok (es_alloc e) kv" "length kv = length (tr_layers ?tr)" "\<forall>pool \<in> set kv. table_ok pool t"
    using assms(3) assms(4) table_ok_all [OF assms(1,4,5,3)] by (auto simp: pools_ok_def kv_ok_def alloc_ok_def)
  have room: "length ids \<le> length t * al_block_size (es_alloc e)"
    using assms(4,6) by (simp add: alloc_ok_def)
  have refl: "list_all2 same_shape kv kv"
    by (simp add: list_all2_refl)
  show ?thesis
  proof (cases "\<forall>i \<in> set ids. unat i < length (tr_embed ?tr)")
    case False
    then have "index_select (tr_embed ?tr) ids = Err TensorError"
      by (auto simp: index_select_def list_all_iff)
    then have "prefill_seq ?ops ?tr ids t (es_alloc e) kv = (Err TensorError, kv)"
      by (simp add: prefill_seq_def and_run_apply)
    then show ?thesis using refl by auto
  next
    case vocab: True
    show ?thesis
    proof (cases "ids = []")
      case True
      have "\<exists>kv'. on_layers (prefill_layer ?ops (es_alloc e) t [0..<0]) (tr_layers ?tr) [] kv
          = (Ok (fst (dense_tokens ?ops (tr_layers ?tr) 0 [] (replicate (length (tr_layers ?tr)) []))), kv')
        \<and> list_all2 same_shape kv kv'
        \<and> seq_holds kv' t (snd (dense_tokens ?ops (tr_layers ?tr) 0 [] (replicate (length (tr_layers ?tr)) [])))
        \<and> (\<forall>u gs. set t \<inter> set u = {} \<longrightarrow> seq_holds kv u gs \<longrightarrow> seq_holds kv' u gs)"
        by (rule prefill_layers_refine [OF neutral(1) pools]) simp_all
      then obtain kv' where kv': "on_layers (prefill_layer ?ops (es_alloc e) t []) (tr_layers ?tr) [] kv = (Ok [], kv')"
        "list_all2 same_shape kv kv'"
        "\<forall>u gs. set t \<inter> set u = {} \<longrightarrow> seq_holds kv u gs \<longrightarrow> seq_holds kv' u gs"
        by auto
      have "prefill_seq ?ops ?tr ids t (es_alloc e) kv = (Err TensorError, kv')"
        using True kv'(1) by (simp add: prefill_seq_def and_run_apply index_select_def)
      then show ?thesis using kv'(2,3) by auto
    next
      case False
      from prefill_seq_refines [OF neutral(1) pools room False vocab assms(7) neutral(2)]
      show ?thesis unfolding ref_def [symmetric] using False by fastforce
    qed
  qed
qed

lemma seq_ok_kv:
  assumes "seq_ok be cfg reqs e s" and "received (sq_tx s) e' = received (sq_tx s) e"
    and "\<And>hs. seq_holds (es_kv e) (sq_table s) hs \<Longrightarrow> seq_holds (es_kv e') (sq_table s) hs"
  shows "seq_ok be cfg reqs e' s"
  using assms unfolding seq_ok_def by metis

lemma prefill_ok:
  assumes "config_ok cfg" and "backend_ok be" and "kv_ok be cfg (es_kv e)" and "batch_ok be cfg reqs e running"
    and "ec_max_seq cfg = tr_context (be_model be)" and "req \<in> set reqs"
    and "gr_tx req \<notin> sq_tx ` set running" and "received (gr_tx req) e = []"
  shows "\<exists>r e'. prefill be cfg req e = (Ok r, e') \<and> kv_ok be cfg (es_kv e')
    \<and> (\<forall>tx. tx \<noteq> gr_tx req \<longrightarrow> received tx e' = received tx e)
    \<and> (case r of None \<Rightarrow> batch_ok be cfg reqs e' running \<and> settled be cfg reqs e' (gr_tx req)
        | Some sq \<Rightarrow> batch_ok be cfg reqs e' (running @ [sq]) \<and> sq_tx sq = gr_tx req)"
proof -
  let ?n = "length (gr_prompt req)"
  have failed: "settled be cfg reqs e' (gr_tx req)"
    if "received (gr_tx req) e' = [Failed why]" for why and e' :: "'a engine_state"
    using that assms(6) by (force simp: settled_def finished_def)
  have bs: "0 < al_block_size (es_alloc e)" "al_block_size (es_alloc e) = ec_block_size cfg"
    using assms(1,4) by (auto simp: config_ok_def alloc_ok_def batch_ok_def)
  have same: "batch_ok be cfg reqs e' running"
    if "es_kv e' = es_kv e" "alloc_ok cfg e' (map sq_table running)"
      "\<And>tx. tx \<noteq> gr_tx req \<Longrightarrow> received tx e' = received tx e" for e'
  proof -
    have "seq_ok be cfg reqs e' s" if "s \<in> set running" for s
    proof -
      have "received (sq_tx s) e' = received (sq_tx s) e"
        using assms(7) that \<open>\<And>tx. tx \<noteq> gr_tx req \<Longrightarrow> received tx e' = received tx e\<close> by (metis imageI)
      moreover have "seq_ok be cfg reqs e s" using assms(4) that by (simp add: batch_ok_def)
      ultimately show ?thesis using seq_ok_cong [OF \<open>es_kv e' = es_kv e\<close>] by blast
    qed
    then show ?thesis using assms(4) that(2) by (simp add: batch_ok_def)
  qed
  have alloc: "alloc_ok cfg e (map sq_table running)"
    using assms(4) by (simp add: batch_ok_def)
  consider (zero) "gr_max_tokens req = 0" | (long) "gr_max_tokens req \<noteq> 0" "?n > ec_max_seq cfg"
    | (go) "gr_max_tokens req \<noteq> 0" "?n \<le> ec_max_seq cfg" by linarith
  then show ?thesis
  proof cases
    case zero
    have "settled be cfg reqs e (gr_tx req)"
      using assms(6,8) zero by (auto simp: settled_def finished_def solo_def)
    with zero assms(3,4) show ?thesis by (simp add: prefill_def)
  next
    case long
    let ?e = "send (gr_tx req) (Failed (PromptTooLong ?n (ec_max_seq cfg))) e"
    have "prefill be cfg req e = (Ok None, ?e)"
      using long by (simp add: prefill_def)
    moreover have "settled be cfg reqs ?e (gr_tx req)"
      using assms(8) by (intro failed) simp
    moreover have "batch_ok be cfg reqs ?e running"
      using alloc by (intro same) auto
    ultimately show ?thesis using assms(3) by auto
  next
    case go
    obtain g a t where grow: "ensure_capacity (es_alloc e) [] ?n = Ok (g, a, t)"
      using pool.grow_total [OF bs(1)] by metis
    let ?e1 = "e\<lparr>es_alloc := a\<rparr>"
    show ?thesis
    proof (cases g)
      case False
      with grow have "ensure_capacity (es_alloc e) [] ?n = Ok (False, a, t)" by simp
      then have "a = es_alloc e \<and> t = []" by (rule pool.grow_refused [OF bs(1)])
      then have e1: "?e1 = e" by simp
      let ?e = "send (gr_tx req) (Failed NoCacheAtAdmission) e"
      have "prefill be cfg req e = (Ok None, ?e)"
        using go grow False e1 by (simp add: prefill_def Let_def)
      moreover have "settled be cfg reqs ?e (gr_tx req)"
        using assms(8) by (intro failed) simp
      moreover have "batch_ok be cfg reqs ?e running"
        using alloc by (intro same) auto
      ultimately show ?thesis using assms(3) by auto
    next
      case granted: True
      have room: "?n \<le> length t * ec_block_size cfg"
        using ensure_capacity_granted(1) [OF bs(1)] grow granted bs(2) by auto
      have "alloc_ok cfg e (map sq_table running @ [] # [])"
        using alloc by (simp add: alloc_ok_def)
      from alloc_ok_grow [OF assms(1) this grow]
      have alloc1: "alloc_ok cfg ?e1 (map sq_table running @ [t])" by simp
      then have disjoint: "set t \<inter> set (sq_table s) = {}" if "s \<in> set running" for s
        using alloc_ok_disjoint [OF assms(1) alloc1] that
        by (auto simp: disjoint_tables_def sorted_wrt_append)
      define ref where "ref = dense_prompt (be_ops be) (be_model be) 0 (gr_prompt req)
        (replicate (length (tr_layers (be_model be))) [])"
      obtain r kv where pre: "prefill_seq (be_ops be) (be_model be) (gr_prompt req) t a (es_kv e) = (r, kv)"
        "r \<noteq> Panic" "list_all2 same_shape (es_kv e) kv"
        "\<And>u gs. set t \<inter> set u = {} \<Longrightarrow> seq_holds (es_kv e) u gs \<Longrightarrow> seq_holds kv u gs"
        "\<And>logits. r = Ok logits \<Longrightarrow> gr_prompt req \<noteq> [] \<and> fst ref = Some logits \<and> seq_holds kv t (snd ref)"
        using prefill_seq_total [OF assms(1,2,3) alloc1, of t "gr_prompt req"] room go(2) assms(5)
        unfolding ref_def by auto
      have kv: "kv_ok be cfg kv"
        by (rule kv_ok_shape [OF assms(3) pre(3)])
      have others: "seq_ok be cfg reqs e' s"
        if "s \<in> set running" "es_kv e' = kv" "\<And>tx. tx \<noteq> gr_tx req \<Longrightarrow> received tx e' = received tx e" for s e'
      proof (rule seq_ok_kv)
        show "seq_ok be cfg reqs e s" using assms(4) that(1) by (simp add: batch_ok_def)
        show "received (sq_tx s) e' = received (sq_tx s) e" using assms(7) that(1,3) by (metis imageI)
        show "seq_holds (es_kv e') (sq_table s) hs" if "seq_holds (es_kv e) (sq_table s) hs" for hs
          using pre(4) disjoint [OF \<open>s \<in> set running\<close>] that \<open>es_kv e' = kv\<close> by simp
      qed
      have give_up: ?thesis
        if run: "prefill be cfg req e = (Ok None, release_table t (send (gr_tx req) (Failed why) (?e1\<lparr>es_kv := kv\<rparr>)))" for why
      proof -
        let ?e = "release_table t (send (gr_tx req) (Failed why) (?e1\<lparr>es_kv := kv\<rparr>))"
        have "alloc_ok cfg ?e (map sq_table running @ [])"
          using alloc1 by (intro alloc_ok_release [OF assms(1)]) simp
        then have "batch_ok be cfg reqs ?e running"
          using others assms(4) by (simp add: batch_ok_def)
        moreover have "settled be cfg reqs ?e (gr_tx req)"
          using assms(8) by (intro failed) simp
        ultimately show ?thesis
          unfolding run using kv by auto
      qed
      show ?thesis
      proof (cases r)
        case (Err x)
        then show ?thesis
          using go grow granted pre(1) by (intro give_up) (simp add: prefill_def Let_def)
      next
        case (Ok logits)
        show ?thesis
        proof (cases "be_to_vec be logits")
          case None
          then show ?thesis
            using Ok go grow granted pre(1) by (intro give_up) (simp add: prefill_def Let_def)
        next
          case (Some row)
          define tok where "tok = next_token be (gr_temperature req) logits"
          note tok = next_token_sample [OF assms(2) Some, of "gr_temperature req", folded tok_def]
          let ?sq = "\<lparr>sq_table = t, sq_next = tok, sq_pos = ?n, sq_produced = 1, sq_max = gr_max_tokens req,
            sq_temperature = gr_temperature req, sq_tx = gr_tx req\<rparr>"
          let ?e = "send (gr_tx req) (Token tok) (?e1\<lparr>es_kv := kv\<rparr>)"
          have run: "prefill be cfg req e = (Ok (Some ?sq), ?e)"
            using Ok Some go grow granted pre(1) tok(1) by (simp add: prefill_def Let_def)
          note ref = pre(5) [OF Ok]
          have "seq_ok be cfg reqs ?e ?sq"
          proof (rule seq_okI [of ?sq cfg be req reqs ?e "snd ref" "[tok]"])
            show "\<forall>h \<in> set (snd ref). length h = sq_pos ?sq"
              using dense_prompt_lengths [of "replicate (length (tr_layers (be_model be))) []" 0 "be_ops be" "be_model be" 0 "gr_prompt req"]
              by (simp add: ref_def)
            show "solo be (ec_eos cfg) req = [tok] @ solo_rest be (ec_eos cfg) (sq_temperature ?sq)
                (sq_max ?sq - sq_produced ?sq) (sq_next ?sq) (sq_pos ?sq) (snd ref)"
              using go(1) ref by (simp add: solo_def Let_def split_beta ref_def [symmetric] tok_def)
          qed (use room tok(2) assms(6,8) ref in simp_all)
          moreover have "alloc_ok cfg ?e (map sq_table (running @ [?sq]))"
            using alloc1 by simp
          moreover have "seq_ok be cfg reqs ?e s" if "s \<in> set running" for s
            by (rule others [OF that]) auto
          moreover have "distinct (map sq_tx (running @ [?sq]))"
            using assms(4,7) by (auto simp: batch_ok_def)
          ultimately have "batch_ok be cfg reqs ?e (running @ [?sq])"
            unfolding batch_ok_def by auto
          then show ?thesis
            unfolding run using kv by auto
        qed
      qed (use pre(2) in simp)
    qed
  qed
qed

section \<open>The invariant of the system\<close>

definition sys_inv :: "('v, 'f) backend \<Rightarrow> engine_config \<Rightarrow> 'f gen_request list \<Rightarrow> ('v, 'f) system \<Rightarrow> bool" where
  "sys_inv be cfg reqs s \<longleftrightarrow> kv_ok be cfg (es_kv (sy_engine s))
     \<and> batch_ok be cfg reqs (sy_engine s) (sy_running s)
     \<and> sy_phase s \<noteq> Crashed
     \<and> (sy_phase s = Stopped \<longrightarrow> sy_queue s = [] \<and> sy_running s = [] \<and> \<not> sy_open s)
     \<and> distinct (map gr_tx reqs) \<and> set (sy_queue s) \<subseteq> set reqs \<and> distinct (map gr_tx (sy_queue s))
     \<and> gr_tx ` set (sy_queue s) \<inter> sq_tx ` set (sy_running s) = {}
     \<and> (\<forall>req \<in> set (sy_queue s). received (gr_tx req) (sy_engine s) = [])
     \<and> (\<forall>tx. tx \<notin> gr_tx ` set reqs \<longrightarrow> received tx (sy_engine s) = [])
     \<and> (\<forall>req \<in> set reqs. req \<in> set (sy_queue s) \<or> gr_tx req \<in> sq_tx ` set (sy_running s)
          \<or> settled be cfg reqs (sy_engine s) (gr_tx req))"

lemma seq_ok_mono: "set reqs \<subseteq> set reqs' \<Longrightarrow> seq_ok be cfg reqs e s \<Longrightarrow> seq_ok be cfg reqs' e s"
  unfolding seq_ok_def by blast

lemma settled_mono: "set reqs \<subseteq> set reqs' \<Longrightarrow> settled be cfg reqs e tx \<Longrightarrow> settled be cfg reqs' e tx"
  unfolding settled_def by blast

lemma sys_inv_spawn:
  assumes "config_ok cfg"
  shows "sys_inv be (spawn_config be cfg) [] (spawn be cfg)"
proof -
  have "ec_kv_cache_blocks cfg mod 2 ^ 32 = ec_kv_cache_blocks cfg"
    using assms by (simp add: config_ok_def)
  then have "alloc_ok (spawn_config be cfg) (sy_engine (spawn be cfg)) []"
    by (simp add: alloc_ok_def spawn_def spawn_config_def new_allocator_def all_blocks_def)
  moreover have "kv_ok be (spawn_config be cfg) (es_kv (sy_engine (spawn be cfg)))"
    using assms by (auto simp: kv_ok_def spawn_def spawn_config_def pool_ok_def new_kv_pool_def config_ok_def)
  ultimately show ?thesis
    by (simp add: sys_inv_def batch_ok_def) (simp add: spawn_def received_def)
qed

lemma sys_inv_submit:
  assumes "sys_inv be cfg reqs s" and "sy_open s" and "gr_tx req \<notin> gr_tx ` set reqs"
  shows "sys_inv be cfg (reqs @ [req]) (s\<lparr>sy_queue := sy_queue s @ [req]\<rparr>)"
proof -
  have sub: "set reqs \<subseteq> set (reqs @ [req])" by auto
  have b: "batch_ok be cfg reqs (sy_engine s) (sy_running s)"
    and old: "\<forall>q \<in> set reqs. q \<in> set (sy_queue s) \<or> gr_tx q \<in> sq_tx ` set (sy_running s)
      \<or> settled be cfg reqs (sy_engine s) (gr_tx q)"
    and queue: "set (sy_queue s) \<subseteq> set reqs" "received (gr_tx req) (sy_engine s) = []"
    using assms(1,3) by (simp_all add: sys_inv_def)
  have batch: "batch_ok be cfg (reqs @ [req]) (sy_engine s) (sy_running s)"
    using b seq_ok_mono [OF sub] unfolding batch_ok_def by blast
  have "sq_tx ` set (sy_running s) \<subseteq> gr_tx ` set reqs"
    using b by (auto simp: batch_ok_def seq_ok_def)
  then have fresh: "gr_tx req \<notin> sq_tx ` set (sy_running s)"
    using assms(3) by blast
  have fresh': "gr_tx req \<notin> gr_tx ` set (sy_queue s)"
    using assms(3) queue(1) by blast
  have rest: "\<forall>q \<in> set (reqs @ [req]). q \<in> set (sy_queue s @ [req]) \<or> gr_tx q \<in> sq_tx ` set (sy_running s)
      \<or> settled be cfg (reqs @ [req]) (sy_engine s) (gr_tx q)"
  proof
    fix q assume q: "q \<in> set (reqs @ [req])"
    show "q \<in> set (sy_queue s @ [req]) \<or> gr_tx q \<in> sq_tx ` set (sy_running s)
      \<or> settled be cfg (reqs @ [req]) (sy_engine s) (gr_tx q)"
    proof (cases "q = req")
      case False
      with q have "q \<in> set reqs" by simp
      with old settled_mono [OF sub, of be cfg "sy_engine s" "gr_tx q"] show ?thesis by auto
    qed simp
  qed
  have "set (sy_queue s @ [req]) \<subseteq> set (reqs @ [req])"
    using queue(1) by auto
  then show ?thesis
    using assms batch fresh fresh' rest queue(2) by (simp add: sys_inv_def)
qed

lemma sys_inv_admit:
  assumes "config_ok cfg" and "backend_ok be" and "ec_max_seq cfg = tr_context (be_model be)"
    and "sys_inv be cfg reqs s" and "sy_queue s = req # queue" and "sy_phase s \<noteq> Stopped"
  shows "sys_inv be cfg reqs (admit be cfg req queue s)"
proof -
  let ?e = "sy_engine s"
  have inv: "kv_ok be cfg (es_kv ?e)" "batch_ok be cfg reqs ?e (sy_running s)" "req \<in> set reqs"
    "gr_tx req \<notin> sq_tx ` set (sy_running s)" "received (gr_tx req) ?e = []"
    "distinct (map gr_tx reqs)" "set queue \<subseteq> set reqs" "gr_tx req \<notin> gr_tx ` set queue"
    "distinct (map gr_tx queue)" "gr_tx ` set queue \<inter> sq_tx ` set (sy_running s) = {}"
    "\<forall>q \<in> set queue. received (gr_tx q) ?e = []"
    "\<forall>tx. tx \<notin> gr_tx ` set reqs \<longrightarrow> received tx ?e = []"
    "\<forall>q \<in> set reqs. q = req \<or> q \<in> set queue \<or> gr_tx q \<in> sq_tx ` set (sy_running s) \<or> settled be cfg reqs ?e (gr_tx q)"
    using assms(4,5) by (auto simp: sys_inv_def)
  from prefill_ok [OF assms(1,2) inv(1,2) assms(3) inv(3-5)] obtain r e' where p:
    "prefill be cfg req ?e = (Ok r, e')" "kv_ok be cfg (es_kv e')"
    "\<And>tx. tx \<noteq> gr_tx req \<Longrightarrow> received tx e' = received tx ?e"
    "case r of None \<Rightarrow> batch_ok be cfg reqs e' (sy_running s) \<and> settled be cfg reqs e' (gr_tx req)
      | Some sq \<Rightarrow> batch_ok be cfg reqs e' (sy_running s @ [sq]) \<and> sq_tx sq = gr_tx req"
    by blast
  have queue: "\<forall>q \<in> set queue. received (gr_tx q) e' = []"
    using inv(8,11) p(3) by (metis imageI)
  have nobody: "\<forall>tx. tx \<notin> gr_tx ` set reqs \<longrightarrow> received tx e' = []"
    using inv(3,12) p(3) by (metis imageI)
  have rest: "q = req \<or> q \<in> set queue \<or> gr_tx q \<in> sq_tx ` set (sy_running s) \<or> settled be cfg reqs e' (gr_tx q)"
    if q: "q \<in> set reqs" for q
  proof (cases "gr_tx q = gr_tx req")
    case True
    with inv(6) q inv(3) have "q = req" by (auto simp: distinct_map dest: inj_onD)
    then show ?thesis by simp
  next
    case False
    from p(3) [OF False] show ?thesis using inv(13) q settled_cong by blast
  qed
  show ?thesis
  proof (cases r)
    case None
    then have "admit be cfg req queue s = s\<lparr>sy_engine := e', sy_queue := queue, sy_phase := Filling\<rparr>"
      by (simp add: admit_def p(1))
    moreover have "batch_ok be cfg reqs e' (sy_running s)" "settled be cfg reqs e' (gr_tx req)"
      using p(4) None by simp_all
    moreover have "\<forall>q \<in> set reqs. q \<in> set queue \<or> gr_tx q \<in> sq_tx ` set (sy_running s)
        \<or> settled be cfg reqs e' (gr_tx q)"
      using rest calculation(3) by blast
    ultimately show ?thesis
      using inv(6,7,9,10) p(2) queue nobody by (simp add: sys_inv_def)
  next
    case (Some sq)
    then have adm: "admit be cfg req queue s
        = s\<lparr>sy_engine := e', sy_queue := queue, sy_phase := Filling, sy_running := sy_running s @ [sq]\<rparr>"
      by (simp add: admit_def p(1))
    have b: "batch_ok be cfg reqs e' (sy_running s @ [sq])" and tx: "sq_tx sq = gr_tx req"
      using p(4) Some by simp_all
    have "gr_tx ` set queue \<inter> sq_tx ` set (sy_running s @ [sq]) = {}"
      using inv(8,10) tx by auto
    moreover have "\<forall>q \<in> set reqs. q \<in> set queue \<or> gr_tx q \<in> sq_tx ` set (sy_running s @ [sq])
        \<or> settled be cfg reqs e' (gr_tx q)"
      using rest tx by auto
    ultimately show ?thesis
      using inv(6,7,9) p(2) b queue nobody by (simp add: sys_inv_def adm)
  qed
qed

lemma sys_inv_round:
  assumes "config_ok cfg" and "backend_ok be" and "ec_max_seq cfg = tr_context (be_model be)"
    and "sys_inv be cfg reqs s" and "sy_running s \<noteq> []"
  shows "sys_inv be cfg reqs (round_step be cfg s)"
proof -
  let ?e = "sy_engine s"
  have inv: "kv_ok be cfg (es_kv ?e)" "batch_ok be cfg reqs ?e (sy_running s)"
    "gr_tx ` set (sy_queue s) \<inter> sq_tx ` set (sy_running s) = {}"
    using assms(4) by (auto simp: sys_inv_def)
  from decode_round_ok [OF assms(1,2) inv(1,2) assms(5,3)] obtain running' e' where d:
    "decode_round be cfg (sy_running s) ?e = (Ok running', e')" "kv_ok be cfg (es_kv e')"
    "batch_ok be cfg reqs e' running'" "handled be cfg reqs ?e e' (sy_running s) running'"
    by blast
  have same: "received tx e' = received tx ?e" if "tx \<notin> sq_tx ` set (sy_running s)" for tx
    using d(4) that by (simp add: handled_def)
  have queue: "\<forall>q \<in> set (sy_queue s). received (gr_tx q) e' = []"
    using same inv(3) assms(4) by (auto simp: sys_inv_def disjoint_iff)
  have running: "sq_tx ` set (sy_running s) \<subseteq> gr_tx ` set reqs"
    using inv(2) by (auto simp: batch_ok_def seq_ok_def)
  have nobody: "\<forall>tx. tx \<notin> gr_tx ` set reqs \<longrightarrow> received tx e' = []"
  proof (intro allI impI)
    fix tx assume tx: "tx \<notin> gr_tx ` set reqs"
    then have "received tx e' = received tx ?e"
      using same running by blast
    then show "received tx e' = []"
      using assms(4) tx by (simp add: sys_inv_def)
  qed
  have rest: "q \<in> set (sy_queue s) \<or> gr_tx q \<in> sq_tx ` set running' \<or> settled be cfg reqs e' (gr_tx q)"
    if "q \<in> set reqs" for q
  proof (cases "gr_tx q \<in> sq_tx ` set (sy_running s)")
    case True
    then show ?thesis using d(4) by (auto simp: handled_def)
  next
    case False
    from same [OF this] have "settled be cfg reqs e' (gr_tx q) = settled be cfg reqs ?e (gr_tx q)"
      by (rule settled_cong)
    then show ?thesis using assms(4) that False by (auto simp: sys_inv_def)
  qed
  have "sq_tx ` set running' \<subseteq> sq_tx ` set (sy_running s)"
    using d(4) by (simp add: handled_def)
  then have "gr_tx ` set (sy_queue s) \<inter> sq_tx ` set running' = {}"
    using inv(3) by blast
  moreover have "round_step be cfg s = s\<lparr>sy_engine := e', sy_running := running', sy_phase := Filling\<rparr>"
    by (simp add: round_step_def d(1))
  ultimately show ?thesis
    using assms(4) d(2,3) queue nobody rest by (auto simp: sys_inv_def)
qed

lemma sys_inv_thread:
  assumes "config_ok cfg" and "backend_ok be" and "ec_max_seq cfg = tr_context (be_model be)"
    and "sys_inv be cfg reqs s" and "thread_step be cfg s = Some s'"
  shows "sys_inv be cfg reqs s'"
proof -
  have phase: "sys_inv be cfg reqs (s\<lparr>sy_phase := Deciding\<rparr>)"
    "sy_queue s = [] \<Longrightarrow> sy_running s = [] \<Longrightarrow> \<not> sy_open s \<Longrightarrow> sys_inv be cfg reqs (s\<lparr>sy_phase := Stopped\<rparr>)"
    using assms(4) by (simp_all add: sys_inv_def)
  have admit: "sys_inv be cfg reqs (admit be cfg req queue s)"
    if "sy_queue s = req # queue" "sy_phase s \<noteq> Stopped" for req queue
    by (rule sys_inv_admit [OF assms(1-4) that])
  have round: "sys_inv be cfg reqs (round_step be cfg s)" if "sy_running s \<noteq> []"
    by (rule sys_inv_round [OF assms(1-4) that])
  show ?thesis
    using assms(5) phase admit round
    by (auto simp: thread_step_def split: phase.splits if_splits list.splits)
qed

lemma config_ok_spawn: "config_ok cfg \<Longrightarrow> config_ok (spawn_config be cfg)"
  by (simp add: config_ok_def spawn_config_def)

lemma spawn_max_seq: "ec_max_seq (spawn_config be cfg) = tr_context (be_model be)"
  by (simp add: spawn_config_def)

lemma reachable_inv:
  assumes "reachable be cfg reqs s" and "config_ok cfg" and "backend_ok be"
  shows "sys_inv be (spawn_config be cfg) reqs s"
  using assms(1)
proof (induction rule: reachable.induct)
  case start
  show ?case by (rule sys_inv_spawn [OF assms(2)])
next
  case (submitted reqs s req s')
  then show ?case
    by (elim engine_step_SubmitE) (auto intro: sys_inv_submit)
next
  case (closed reqs s s')
  then show ?case
    by (elim engine_step_CloseE) (simp add: sys_inv_def)
next
  case (worked reqs s s')
  then show ?case
    by (elim engine_step_WorkE)
      (metis sys_inv_thread config_ok_spawn spawn_max_seq assms(2,3))
qed

section \<open>The thread gets to the end of its work\<close>

definition left_over :: "'f sequence \<Rightarrow> nat" where
  "left_over s = Suc (sq_max s - sq_produced s)"

definition phase_weight :: "phase \<Rightarrow> nat" where
  "phase_weight p = (case p of Filling \<Rightarrow> 2 | Deciding \<Rightarrow> 1 | _ \<Rightarrow> 0)"

definition work :: "('v, 'f) system \<Rightarrow> nat" where
  "work s = 2 * (sum_list (map (\<lambda>q. Suc (gr_max_tokens q)) (sy_queue s)) + sum_list (map left_over (sy_running s)))
     + phase_weight (sy_phase s)"

lemma evict_left_over:
  "evict cfg ss e = (Ok survivors, e') \<Longrightarrow>
    sum_list (map left_over survivors) \<le> sum_list (map left_over ss)"
proof (induction ss arbitrary: e survivors e')
  case Nil
  then show ?case by simp
next
  case (Cons s ss)
  show ?case
  proof (cases "sq_pos s + 1 > ec_max_seq cfg")
    case True
    then show ?thesis
      using Cons.prems Cons.IH by (auto intro: trans_le_add2)
  next
    case fits: False
    with Cons.prems obtain g a t where grow: "ensure_capacity (es_alloc e) (sq_table s) (sq_pos s + 1) = Ok (g, a, t)"
      by (auto split: outcome.splits)
    show ?thesis
    proof (cases g)
      case True
      with Cons.prems fits grow obtain rest where "evict cfg ss (e\<lparr>es_alloc := a\<rparr>) = (Ok rest, e')"
        "survivors = s\<lparr>sq_table := t\<rparr> # rest"
        by (auto simp: Let_def outcome_simps)
      then show ?thesis
        using Cons.IH by (auto simp: left_over_def)
    next
      case False
      then show ?thesis
        using Cons.prems fits grow Cons.IH by (auto simp: Let_def intro: trans_le_add2)
    qed
  qed
qed

lemma advance_left_over:
  "advance be cfg rest e = (Ok keep, e') \<Longrightarrow>
    sum_list (map left_over keep) + length rest \<le> sum_list (map (left_over \<circ> fst) rest)"
proof (induction rest arbitrary: e keep e')
  case Nil
  then show ?case by simp
next
  case (Cons sr rest)
  obtain s row where sr: "sr = (s, row)" by (cases sr)
  from Cons.prems obtain tok where tok: "sample (be_floats be) row (sample_cfg (sq_temperature s)) = Ok tok"
    by (auto simp: sr split: outcome.splits)
  show ?case
  proof (cases "tok = ec_eos cfg \<or> sq_max s \<le> sq_produced s + 1")
    case True
    with Cons.prems tok obtain e1 where "advance be cfg rest e1 = (Ok keep, e')"
      by (auto simp: sr Let_def split: if_splits)
    from Cons.IH [OF this] show ?thesis
      by (simp add: sr left_over_def)
  next
    case False
    with Cons.prems tok obtain e1 keep' where keep: "advance be cfg rest e1 = (Ok keep', e')"
      "keep = s\<lparr>sq_pos := sq_pos s + 1, sq_produced := sq_produced s + 1, sq_next := tok\<rparr> # keep'"
      by (auto simp: sr Let_def outcome_simps)
    have "Suc (left_over (s\<lparr>sq_pos := sq_pos s + 1, sq_produced := sq_produced s + 1, sq_next := tok\<rparr>)) = left_over s"
      using False by (simp add: left_over_def Suc_diff_Suc)
    with Cons.IH [OF keep(1)] show ?thesis
      by (simp add: sr keep(2))
  qed
qed

lemma decode_round_left_over:
  assumes "decode_round be cfg running e = (Ok running', e')" and "running \<noteq> []"
  shows "sum_list (map left_over running') < sum_list (map left_over running)"
proof -
  from assms(1) obtain ss e1 where ev: "evict cfg running e = (Ok ss, e1)"
    by (auto simp: decode_round_def outcome_simps)
  have pos: "0 < sum_list (map left_over running)"
    using assms(2) by (cases running) (auto simp: left_over_def)
  show ?thesis
  proof (cases "ss = []")
    case True
    have "length running > 0" using assms(2) by simp
    then have "running' = []"
      using assms(1) ev True by (simp add: decode_round_def and_run_apply)
    then show ?thesis using pos by simp
  next
    case False
    have "running' = [] \<or> (\<exists>rows e2. advance be cfg (zip ss rows) e2 = (Ok running', e') \<and> length rows = length ss)"
    proof -
      have len: "extract_rows be ss ls = Some rows \<Longrightarrow> length rows = length ss" for ls rows
        by (induction be ss ls arbitrary: rows rule: extract_rows.induct) (auto split: option.splits)
      show ?thesis
        using assms(1) ev False len
        by (auto simp: decode_round_def and_run_apply Let_def split: prod.splits outcome.splits option.splits)
    qed
    then show ?thesis
    proof
      assume "running' = []"
      then show ?thesis using pos by simp
    next
      assume "\<exists>rows e2. advance be cfg (zip ss rows) e2 = (Ok running', e') \<and> length rows = length ss"
      then obtain rows e2 where adv: "advance be cfg (zip ss rows) e2 = (Ok running', e')" "length rows = length ss"
        by blast
      have "map (left_over \<circ> fst) (zip ss rows) = map left_over ss"
        using adv(2) by (metis list.map_comp map_fst_zip)
      then have "sum_list (map left_over running') + length ss \<le> sum_list (map left_over ss)"
        using advance_left_over [OF adv(1)] adv(2) by simp
      then show ?thesis
        using evict_left_over [OF ev] False by (cases ss) auto
    qed
  qed
qed

lemma prefill_left_over:
  "prefill be cfg req e = (Ok (Some sq), e') \<Longrightarrow> left_over sq \<le> gr_max_tokens req"
  by (auto simp: prefill_def Let_def left_over_def split: if_splits outcome.splits prod.splits option.splits)

lemma thread_step_work:
  assumes "config_ok cfg" and "backend_ok be" and "ec_max_seq cfg = tr_context (be_model be)"
    and "sys_inv be cfg reqs s" and "thread_step be cfg s = Some s'"
  shows "work s' < work s"
proof -
  have inv': "sy_phase s' \<noteq> Crashed"
    using sys_inv_thread [OF assms] by (simp add: sys_inv_def)
  have admit: "work (admit be cfg req queue s) + 2 \<le> work s + (2 - phase_weight (sy_phase s))"
    if q: "sy_queue s = req # queue" and ok: "sy_phase (admit be cfg req queue s) \<noteq> Crashed"
      and weight: "phase_weight (sy_phase s) \<le> 2" for req queue
  proof -
    obtain r e' where p: "prefill be cfg req (sy_engine s) = (Ok r, e')"
      using ok by (auto simp: admit_def split: prod.splits outcome.splits)
    show ?thesis
    proof (cases r)
      case None
      then show ?thesis
        using q weight by (simp add: admit_def p work_def phase_weight_def)
    next
      case (Some sq)
      then have "left_over sq \<le> gr_max_tokens req"
        using p prefill_left_over by blast
      with Some show ?thesis
        using q weight by (simp add: admit_def p work_def phase_weight_def)
    qed
  qed
  have round: "work (round_step be cfg s) < work s"
    if ne: "sy_running s \<noteq> []" and decide: "sy_phase s = Deciding"
      and ok: "sy_phase (round_step be cfg s) \<noteq> Crashed"
  proof -
    obtain running' e' where d: "decode_round be cfg (sy_running s) (sy_engine s) = (Ok running', e')"
      using ok by (auto simp: round_step_def split: prod.splits outcome.splits)
    from decode_round_left_over [OF this ne] show ?thesis
      using decide by (simp add: round_step_def d work_def phase_weight_def)
  qed
  show ?thesis
  proof (cases "sy_phase s")
    case Filling
    show ?thesis
      using assms(5) inv' Filling admit
      by (fastforce simp: thread_step_def work_def phase_weight_def split: if_splits list.splits)
  next
    case Deciding
    show ?thesis
      using assms(5) inv' Deciding admit round
      by (fastforce simp: thread_step_def work_def phase_weight_def split: if_splits list.splits)
  qed (use assms(5) in \<open>simp_all add: thread_step_def\<close>)
qed

section \<open>Properties\<close>

text \<open>
  C4: batching is transparent.  In every reachable state, what the client of a request has
  received is a prefix of what the model generates for that request alone, possibly followed by
  one error.
\<close>

theorem engine_batching_transparent:
  assumes "reachable be cfg reqs s" and "config_ok cfg" and "backend_ok be" and "req \<in> set reqs"
  shows "\<exists>sent rest. solo be (ec_eos cfg) req = sent @ rest
    \<and> (received (gr_tx req) (sy_engine s) = map Token sent
       \<or> (\<exists>why. received (gr_tx req) (sy_engine s) = map Token sent @ [Failed why]))"
proof -
  let ?c = "spawn_config be cfg"
  have inv: "sys_inv be ?c reqs s" by (rule reachable_inv [OF assms(1-3)])
  have eos: "ec_eos ?c = ec_eos cfg" by (simp add: spawn_config_def)
  have dist: "distinct (map gr_tx reqs)" and seqs: "\<forall>sq \<in> set (sy_running s). seq_ok be ?c reqs (sy_engine s) sq"
    using inv by (auto simp: sys_inv_def batch_ok_def)
  have same: "r = req" if "r \<in> set reqs" "gr_tx r = gr_tx req" for r
    using dist that assms(4) by (auto simp: distinct_map dest: inj_onD)
  consider (queued) "req \<in> set (sy_queue s)" | (running) "gr_tx req \<in> sq_tx ` set (sy_running s)"
    | (settled) "settled be ?c reqs (sy_engine s) (gr_tx req)"
    using inv assms(4) by (auto simp: sys_inv_def)
  then show ?thesis
  proof cases
    case queued
    then have "received (gr_tx req) (sy_engine s) = map Token []"
      using inv by (simp add: sys_inv_def)
    then show ?thesis by blast
  next
    case running
    then obtain sq where "sq \<in> set (sy_running s)" "sq_tx sq = gr_tx req" by auto
    with seqs same show ?thesis unfolding seq_ok_def eos by metis
  next
    case settled
    then have "finished be ?c (sy_engine s) req"
      using same by (auto simp: settled_def)
    then show ?thesis unfolding finished_def eos by auto
  qed
qed

text \<open>A thread that works for \<open>n\<close> steps, unless it waits.\<close>

fun run_thread :: "nat \<Rightarrow> ('v, 'f) backend \<Rightarrow> engine_config \<Rightarrow> ('v, 'f) system \<Rightarrow> ('v, 'f) system" where
  "run_thread 0 be cfg s = s"
| "run_thread (Suc n) be cfg s =
     (case thread_step be cfg s of None \<Rightarrow> s | Some s' \<Rightarrow> run_thread n be cfg s')"

lemma reachable_run_thread:
  "reachable be cfg reqs s \<Longrightarrow> reachable be cfg reqs (run_thread n be (spawn_config be cfg) s)"
  by (induction n arbitrary: s) (auto split: option.splits intro: worked thread)

definition ex_floats :: "nat float_ops" where
  "ex_floats = \<lparr>fl_zero = 0, fl_neg_inf = 0, fl_add = (\<lambda>x y. x + y), fl_sub = (\<lambda>x y. x - y), fl_div = (\<lambda>x y. x div y),
     fl_exp = (\<lambda>x. x), fl_eq = (\<lambda>x y. x = y), fl_lt = (\<lambda>x y. x < y), fl_le = (\<lambda>x y. x \<le> y), fl_rand = (\<lambda>_. 0)\<rparr>"

definition ex_backend :: "(nat, nat) backend" where
  "ex_backend = \<lparr>be_model = ex_model, be_ops = ex_ops, be_floats = ex_floats,
     be_to_vec = (\<lambda>x. Some [x mod 5, x mod 3, (x + 1) mod 3])\<rparr>"

definition ex_config :: engine_config where
  "ex_config = \<lparr>ec_max_num_seqs = 2, ec_block_size = 2, ec_kv_cache_blocks = 4, ec_max_seq = 4096, ec_eos = 7\<rparr>"

definition ex_req1 :: "nat gen_request" where
  "ex_req1 = \<lparr>gr_prompt = [0, 2, 1], gr_max_tokens = 3, gr_temperature = 0, gr_tx = 10\<rparr>"

definition ex_req2 :: "nat gen_request" where
  "ex_req2 = \<lparr>gr_prompt = [1], gr_max_tokens = 1, gr_temperature = 0, gr_tx = 11\<rparr>"

lemma ex_backend_ok: "backend_ok ex_backend"
  using ex_mask_neutral by (auto simp: backend_ok_def ex_backend_def ex_model_def)

lemma ex_config_ok: "config_ok ex_config"
  by (simp add: config_ok_def ex_config_def)

definition ex_start :: "(nat, nat) system" where
  "ex_start = (spawn ex_backend ex_config)\<lparr>sy_queue := [ex_req1, ex_req2]\<rparr>"

lemma ex_reachable: "reachable ex_backend ex_config [ex_req1, ex_req2] ex_start"
proof -
  let ?c = "spawn_config ex_backend ex_config" and ?s = "spawn ex_backend ex_config"
  have open1: "sy_open ?s" "sy_queue ?s = []" by (simp_all add: spawn_def)
  have "reachable ex_backend ex_config ([] @ [ex_req1]) (?s\<lparr>sy_queue := sy_queue ?s @ [ex_req1]\<rparr>)"
    by (rule submitted [OF start submit]) (simp_all add: open1)
  then have "reachable ex_backend ex_config ([ex_req1] @ [ex_req2])
      ((?s\<lparr>sy_queue := [ex_req1]\<rparr>)\<lparr>sy_queue := sy_queue (?s\<lparr>sy_queue := [ex_req1]\<rparr>) @ [ex_req2]\<rparr>)"
    by (intro submitted [OF _ submit]) (simp_all add: open1 ex_req1_def ex_req2_def)
  then show ?thesis by (simp add: ex_start_def)
qed

definition ex_sent :: "(nat \<times> reply) list" where
  "ex_sent = es_sent (sy_engine (run_thread 5 ex_backend (spawn_config ex_backend ex_config) ex_start))"

lemma engine_batching_transparent_witness:
  "\<exists>sent rest. solo ex_backend 7 ex_req1 = sent @ rest \<and> length sent = 2
    \<and> map snd (filter (\<lambda>p. fst p = 10) ex_sent) = map Token sent"
proof -
  let ?s = "run_thread 5 ex_backend (spawn_config ex_backend ex_config) ex_start"
  have "reachable ex_backend ex_config [ex_req1, ex_req2] ?s"
    by (rule reachable_run_thread [OF ex_reachable])
  from engine_batching_transparent [OF this ex_config_ok ex_backend_ok, of ex_req1]
  obtain sent rest where a: "solo ex_backend (ec_eos ex_config) ex_req1 = sent @ rest"
    "received (gr_tx ex_req1) (sy_engine ?s) = map Token sent
       \<or> (\<exists>why. received (gr_tx ex_req1) (sy_engine ?s) = map Token sent @ [Failed why])"
    by auto
  have "map snd (filter (\<lambda>p. fst p = 10) ex_sent) = map Token [2, 0]"
    by code_simp
  then have "received (gr_tx ex_req1) (sy_engine ?s) = map Token [2, 0]"
    by (simp add: received_def ex_sent_def ex_req1_def)
  with a(2) have "map Token sent = map Token [2, 0] \<or> (\<exists>why. map Token sent @ [Failed why] = map Token [2, 0])"
    by metis
  moreover have "map Token sent @ [Failed why] \<noteq> map Token [2, 0]" for why
  proof
    assume "map Token sent @ [Failed why] = map Token [2, 0]"
    then have "Failed why \<in> set (map Token [2, 0])"
      by (metis in_set_conv_decomp)
    then show False by auto
  qed
  ultimately have "sent = [2, 0]"
    by (auto simp: inj_map_eq_map inj_def)
  with a(1) show ?thesis
    using \<open>map snd (filter (\<lambda>p. fst p = 10) ex_sent) = map Token [2, 0]\<close>
    by (intro exI [of _ sent] exI [of _ rest]) (simp add: ex_config_def)
qed





text \<open>
  How many tokens a request gets.  Nothing for \<open>max_tokens = 0\<close> and never more than
  \<open>max_tokens\<close> from two tokens on; but a request for one token gets a second one, unless that is
  the end-of-sequence token, because the limit is only tested after a round of decoding.
\<close>

theorem solo_token_count:
  "length (solo be eos req) \<le> (if gr_max_tokens req = 1 then 2 else gr_max_tokens req)
    \<and> (solo ex_backend (ec_eos ex_config) ex_req2 = [0, 0] \<and> gr_max_tokens ex_req2 = 1)"
proof -
  have rest: "length (solo_rest be eos t n tok pos hs) \<le> max n 1" for t n tok pos hs
  proof (induction n arbitrary: tok pos hs)
    case 0
    show ?case by (subst solo_rest.simps) (simp add: Let_def split_beta)
  next
    case (Suc n)
    show ?case
      using Suc.IH by (subst solo_rest.simps) (cases n, auto simp: Let_def split_beta)
  qed
  have bound: "length (solo be eos req) \<le> Suc (max (gr_max_tokens req - 1) 1)"
    using rest by (simp add: solo_def Let_def split_beta)
  have zero: "length (solo be eos req) = 0" if "gr_max_tokens req = 0"
    using that by (simp add: solo_def)
  have "length (solo be eos req) \<le> (if gr_max_tokens req = 1 then 2 else gr_max_tokens req)"
    using bound zero by (cases "gr_max_tokens req = 0") (auto split: if_splits)
  moreover have "solo ex_backend (ec_eos ex_config) ex_req2 = [0, 0]" by code_simp
  ultimately show ?thesis by (simp add: ex_req2_def)
qed

end
