(* ===== verification/Arch.thy ===== *)
theory Arch
  imports Transformer
begin

text \<open>
  The model of the runtime (\<open>runtime/src/arch\<close>, \<open>kv_cache.rs\<close>, \<open>request.rs\<close>): attention with a
  pre-allocated key/value cache, decoder blocks, the whole model.  A tensor of shape
  [1, seq, hidden] is a list of rows, the row operations are those of \<open>tensor_ops\<close>.
  The rotary tables have \<open>at_max_seq\<close> rows; selecting another row panics, as does
  appending past the end of a cache.

  The theorems: a cache is the list of what was appended to it; running a sequence in pieces
  through the caches is running it at once (so decoding token by token is the forward pass).
\<close>

section \<open>The cache of one layer\<close>

record 'v kv_slot =
  ks_k :: "'v list"
  ks_v :: "'v list"
  ks_max_seq :: nat
  ks_len :: nat

definition new_kv_slot :: "'v tensor_ops \<Rightarrow> nat \<Rightarrow> 'v kv_slot" where
  "new_kv_slot ops max_seq =
     \<lparr>ks_k = replicate max_seq (op_zero ops), ks_v = replicate max_seq (op_zero ops),
      ks_max_seq = max_seq, ks_len = 0\<rparr>"

text \<open>\<open>slice_assign\<close> on the sequence axis.\<close>

definition assign_rows :: "'v list \<Rightarrow> nat \<Rightarrow> 'v list \<Rightarrow> 'v list" where
  "assign_rows xs start ys = take start xs @ ys @ drop (start + length ys) xs"

definition kv_append :: "'v list \<Rightarrow> 'v list \<Rightarrow> ('v kv_slot, 'e, unit) stateful" where
  "kv_append k_new v_new = (\<lambda>s.
     if ks_len s + length k_new > ks_max_seq s then (Panic, s)
     else (Ok (), s\<lparr>ks_k := assign_rows (ks_k s) (ks_len s) k_new,
                    ks_v := assign_rows (ks_v s) (ks_len s) v_new,
                    ks_len := ks_len s + length k_new\<rparr>))"

definition kv_read :: "'v kv_slot \<Rightarrow> 'v list \<times> 'v list" where
  "kv_read s = (take (ks_len s) (ks_k s), take (ks_len s) (ks_v s))"

section \<open>Attention, feed-forward, blocks\<close>

record 'v attention =
  at_q_proj :: "'v \<Rightarrow> 'v"
  at_k_proj :: "'v \<Rightarrow> 'v"
  at_v_proj :: "'v \<Rightarrow> 'v"
  at_o_proj :: "'v \<Rightarrow> 'v"
  at_max_seq :: nat

record 'v swiglu_ffn =
  ff_gate :: "'v \<Rightarrow> 'v"
  ff_up :: "'v \<Rightarrow> 'v"
  ff_down :: "'v \<Rightarrow> 'v"

record 'v decoder_block =
  bk_attn_norm :: "'v \<Rightarrow> 'v"
  bk_attn :: "'v attention"
  bk_ffn_norm :: "'v \<Rightarrow> 'v"
  bk_ffn :: "'v swiglu_ffn"

definition rope_apply :: "'v tensor_ops \<Rightarrow> nat \<Rightarrow> 'v list \<Rightarrow> nat list \<Rightarrow> ('e, 'v list) outcome" where
  "rope_apply ops max_seq xs positions =
     (if length positions \<noteq> length xs \<or> \<not> list_all (\<lambda>p. p < max_seq) positions then Panic
      else Ok (map2 (op_rope ops) xs positions))"

definition causal_rows :: "nat list \<Rightarrow> nat \<Rightarrow> bool list list" where
  "causal_rows positions k_seq = map (\<lambda>p. map (\<lambda>j. \<not> j \<le> p) [0..<k_seq]) positions"

definition attention_forward ::
    "'v tensor_ops \<Rightarrow> 'v attention \<Rightarrow> 'v list \<Rightarrow> nat list \<Rightarrow> ('v kv_slot, 'e, 'v list) stateful" where
  "attention_forward ops a xs positions =
     (let q = map (at_q_proj a) xs; k = map (at_k_proj a) xs; v = map (at_v_proj a) xs in
      and_run (pure_op (rope_apply ops (at_max_seq a) q positions)) (\<lambda>q.
      and_run (pure_op (rope_apply ops (at_max_seq a) k positions)) (\<lambda>k.
      and_run (kv_append k v) (\<lambda>_. \<lambda>slot.
        let (k_all, v_all) = kv_read slot;
            ctx = map2 (\<lambda>q m. op_sdpa ops q k_all v_all m) q (causal_rows positions (ks_len slot))
        in (Ok (map (at_o_proj a) ctx), slot)))))"

definition ffn_forward :: "'v tensor_ops \<Rightarrow> 'v swiglu_ffn \<Rightarrow> 'v \<Rightarrow> 'v" where
  "ffn_forward ops f x = ff_down f (op_mul ops (op_silu ops (ff_gate f x)) (ff_up f x))"

definition block_forward ::
    "'v tensor_ops \<Rightarrow> nat list \<Rightarrow> 'v decoder_block \<Rightarrow> 'v list \<Rightarrow> ('v kv_slot, 'e, 'v list) stateful" where
  "block_forward ops positions b xs =
     and_run (attention_forward ops (bk_attn b) (map (bk_attn_norm b) xs) positions) (\<lambda>h.
       let xs = map2 (op_add ops) xs h;
           h = map (\<lambda>x. ffn_forward ops (bk_ffn b) (bk_ffn_norm b x)) xs
       in ret (map2 (op_add ops) xs h))"

text \<open>\<open>for (block, cache) in blocks.iter().zip(caches.iter_mut())\<close>.\<close>

fun run_blocks ::
    "'v tensor_ops \<Rightarrow> nat list \<Rightarrow> 'v decoder_block list \<Rightarrow> 'v list \<Rightarrow> ('v kv_slot list, 'e, 'v list) stateful" where
  "run_blocks ops positions [] xs caches = (Ok xs, caches)"
| "run_blocks ops positions (b # bs) xs [] = (Ok xs, [])"
| "run_blocks ops positions (b # bs) xs (c # cs) =
     (case block_forward ops positions b xs c of
        (Ok xs', c') \<Rightarrow> (case run_blocks ops positions bs xs' cs of (r, cs') \<Rightarrow> (r, c' # cs'))
      | (Err e, c') \<Rightarrow> (Err e, c' # cs)
      | (Panic, c') \<Rightarrow> (Panic, c' # cs))"

section \<open>The model\<close>

record 'v rt_model =
  rm_embedding :: "'v list"
  rm_blocks :: "'v decoder_block list"
  rm_final_norm :: "'v \<Rightarrow> 'v"
  rm_output :: "'v \<Rightarrow> 'v"
  rm_max_seq :: nat

text \<open>\<open>select\<close> on the embedding table, which panics on an id that is out of range.\<close>

definition embed_tokens :: "'v list \<Rightarrow> u32 list \<Rightarrow> ('e, 'v list) outcome" where
  "embed_tokens table ids =
     (if list_all (\<lambda>i. unat i < length table) ids then Ok (map (\<lambda>i. table ! unat i) ids) else Panic)"

definition positions_from :: "nat \<Rightarrow> nat \<Rightarrow> nat list" where
  "positions_from start seq = [start..<start + seq]"

definition forward_with_caches ::
    "'v tensor_ops \<Rightarrow> 'v rt_model \<Rightarrow> u32 list \<Rightarrow> nat \<Rightarrow> ('v kv_slot list, 'e, 'v list) stateful" where
  "forward_with_caches ops mdl token_ids start_pos = (\<lambda>caches.
     if length caches \<noteq> length (rm_blocks mdl) then (Panic, caches)
     else
       and_run (pure_op (embed_tokens (rm_embedding mdl) token_ids)) (\<lambda>xs.
       and_run (run_blocks ops (positions_from start_pos (length token_ids)) (rm_blocks mdl) xs) (\<lambda>xs.
         ret (map (\<lambda>x. rm_output mdl (rm_final_norm mdl x)) xs))) caches)"

text \<open>The state of one request: its caches and its position (\<open>request.rs\<close>).\<close>

record 'v request_state =
  rs_caches :: "'v kv_slot list"
  rs_current_pos :: nat

definition new_request_state :: "'v tensor_ops \<Rightarrow> 'v rt_model \<Rightarrow> nat \<Rightarrow> 'v request_state" where
  "new_request_state ops mdl max_tokens =
     \<lparr>rs_caches = map (\<lambda>_. new_kv_slot ops max_tokens) (rm_blocks mdl), rs_current_pos = 0\<rparr>"

definition rs_advance :: "nat \<Rightarrow> 'v request_state \<Rightarrow> 'v request_state" where
  "rs_advance n st = st\<lparr>rs_current_pos := rs_current_pos st + n\<rparr>"

section \<open>A cache is the list of what was appended\<close>

definition slot_holds :: "'v kv_slot \<Rightarrow> nat \<Rightarrow> 'v history \<Rightarrow> bool" where
  "slot_holds s n h \<longleftrightarrow> ks_max_seq s = n \<and> length (ks_k s) = n \<and> length (ks_v s) = n
     \<and> ks_len s = length h \<and> length h \<le> n \<and> kv_read s = (map fst h, map snd h)"

lemma slot_holds_new: "slot_holds (new_kv_slot ops n) n []"
  by (simp add: slot_holds_def new_kv_slot_def kv_read_def)

lemma take_assign_rows:
  "start + length ys \<le> length xs \<Longrightarrow> take (start + length ys) (assign_rows xs start ys) = take start xs @ ys"
  by (simp add: assign_rows_def)

lemma length_assign_rows: "start + length ys \<le> length xs \<Longrightarrow> length (assign_rows xs start ys) = length xs"
  by (simp add: assign_rows_def)

lemma kv_append_holds:
  assumes "slot_holds s n h" and "length ks = length vs"
  shows "length h + length ks \<le> n \<Longrightarrow>
      \<exists>s'. kv_append ks vs s = (Ok (), s') \<and> slot_holds s' n (h @ zip ks vs)"
    and "\<not> length h + length ks \<le> n \<Longrightarrow> kv_append ks vs s = (Panic, s)"
proof -
  have s: "ks_max_seq s = n" "length (ks_k s) = n" "length (ks_v s) = n" "ks_len s = length h"
    "take (length h) (ks_k s) = map fst h" "take (length h) (ks_v s) = map snd h"
    using assms(1) by (auto simp: slot_holds_def kv_read_def)
  show "kv_append ks vs s = (Panic, s)" if "\<not> length h + length ks \<le> n"
    using that by (simp add: kv_append_def s)
  show "\<exists>s'. kv_append ks vs s = (Ok (), s') \<and> slot_holds s' n (h @ zip ks vs)"
    if room: "length h + length ks \<le> n"
  proof -
    let ?s = "s\<lparr>ks_k := assign_rows (ks_k s) (length h) ks, ks_v := assign_rows (ks_v s) (length h) vs,
      ks_len := length h + length ks\<rparr>"
    have "kv_append ks vs s = (Ok (), ?s)"
      using room by (simp add: kv_append_def s)
    moreover have "take (length h + length ks) (assign_rows (ks_k s) (length h) ks) = map fst h @ ks"
      using room by (subst take_assign_rows) (simp_all add: s)
    moreover have "take (length h + length ks) (assign_rows (ks_v s) (length h) vs) = map snd h @ vs"
      using room unfolding assms(2) by (subst take_assign_rows) (simp_all add: s)
    ultimately show ?thesis
      using room assms(2)
      by (intro exI [of _ ?s]) (simp add: slot_holds_def kv_read_def s length_assign_rows)
  qed
qed

section \<open>A block, in the terms of the reference\<close>

text \<open>
  The reference is the \<open>dense_run\<close> of the paged backend, on the layer that a block amounts to:
  both backends run the same network.
\<close>

definition as_layer :: "'v decoder_block \<Rightarrow> 'v layer" where
  "as_layer b = \<lparr>ly_attn_norm = bk_attn_norm b, ly_attn_q = at_q_proj (bk_attn b), ly_attn_k = at_k_proj (bk_attn b),
     ly_attn_v = at_v_proj (bk_attn b), ly_attn_o = at_o_proj (bk_attn b),
     ly_q_bias = None, ly_k_bias = None, ly_v_bias = None, ly_q_norm = None, ly_k_norm = None,
     ly_ffn_norm = bk_ffn_norm b, ly_ffn_gate = ff_gate (bk_ffn b), ly_ffn_up = ff_up (bk_ffn b),
     ly_ffn_down = ff_down (bk_ffn b)\<rparr>"

definition block_ok :: "nat \<Rightarrow> 'v decoder_block \<Rightarrow> bool" where
  "block_ok n b \<longleftrightarrow> at_max_seq (bk_attn b) = n"

lemma project_as_layer:
  "project_qkv ops (as_layer b) x p =
     (op_rope ops (at_q_proj (bk_attn b) (bk_attn_norm b x)) p,
      op_rope ops (at_k_proj (bk_attn b) (bk_attn_norm b x)) p,
      at_v_proj (bk_attn b) (bk_attn_norm b x))"
  by (simp add: project_qkv_def as_layer_def bias_def opt_norm_def Let_def)

lemma finish_as_layer:
  "finish_layer ops (as_layer b) x a =
     (let x1 = op_add ops x (at_o_proj (bk_attn b) a)
      in op_add ops x1 (ffn_forward ops (bk_ffn b) (bk_ffn_norm b x1)))"
  by (simp add: finish_layer_def as_layer_def ffn_forward_def Let_def)

lemma causal_row_kept:
  assumes "mask_neutral ops" and "length ks = n" and "length vs = n" and "p < n"
  shows "op_sdpa ops q ks vs (map (\<lambda>j. \<not> j \<le> p) [0..<n])
    = op_sdpa ops q (take (Suc p) ks) (take (Suc p) vs) (replicate (Suc p) False)"
proof -
  let ?ms = "map (\<lambda>j. p < j) [0..<n]"
  have ms: "map (\<lambda>j. \<not> j \<le> p) [0..<n] = ?ms" by (simp add: not_le)
  have kept: "kept ?ms ks = take (Suc p) ks" "kept ?ms vs = take (Suc p) vs"
    by (simp_all only: kept_causal_row [OF assms(4)] assms(2,3))
  have "False \<in> set ?ms" using assms(4) by force
  with assms(1) assms(2,3) have "op_sdpa ops q ks vs ?ms
      = op_sdpa ops q (kept ?ms ks) (kept ?ms vs) (replicate (length (kept ?ms ks)) False)"
    unfolding mask_neutral_def by (metis length_map length_upt minus_nat.diff_0)
  then show ?thesis
    using assms(2,4) by (simp add: ms kept min_absorb1 Suc_leI del: replicate_Suc)
qed

lemma block_forward_refines:
  assumes "mask_neutral ops" and "slot_holds s n h" and "block_ok n b"
    and "length h + length xs \<le> n"
  shows "\<exists>s'. block_forward ops (positions_from (length h) (length xs)) b xs s
      = (Ok (fst (dense_run ops (as_layer b) (length h) xs h)) :: ('e, _) outcome, s')
    \<and> slot_holds s' n (snd (dense_run ops (as_layer b) (length h) xs h))"
proof -
  let ?a = "bk_attn b" and ?ps = "positions_from (length h) (length xs)" and ?l = "as_layer b"
  let ?pair = "\<lambda>f. map2 (\<lambda>x p. f (project_qkv ops ?l x p)) xs ?ps"
  have ps: "length ?ps = length xs" "list_all (\<lambda>p. p < at_max_seq ?a) ?ps"
    using assms(3,4) by (auto simp: positions_from_def block_ok_def list_all_iff)
  let ?xn = "map (bk_attn_norm b) xs"
  have rope: "rope_apply ops (at_max_seq ?a) (map (at_q_proj ?a) ?xn) ?ps = Ok (?pair fst)"
    "rope_apply ops (at_max_seq ?a) (map (at_k_proj ?a) ?xn) ?ps = Ok (?pair (fst \<circ> snd))"
    using ps by (simp_all add: rope_apply_def project_as_layer zip_map1 split_beta comp_def)
  have v: "map (at_v_proj ?a) ?xn = ?pair (snd \<circ> snd)"
    using ps(1) by (intro nth_equalityI) (simp_all add: project_as_layer)
  have zip_kv: "zip (?pair (fst \<circ> snd)) (?pair (snd \<circ> snd)) = ?pair snd"
    by (rule nth_equalityI) (simp_all add: ps(1))
  define h' where "h' = h @ ?pair snd"
  have hist: "snd (dense_run ops ?l (length h) xs h) = h'"
    by (simp add: dense_run_history h'_def positions_from_def)
  have len: "length (?pair (fst \<circ> snd)) = length xs" "length (?pair (fst \<circ> snd)) = length (?pair (snd \<circ> snd))"
    "length h' = length h + length xs"
    by (simp_all add: ps(1) h'_def)
  obtain s' where s': "kv_append (?pair (fst \<circ> snd)) (?pair (snd \<circ> snd)) s = (Ok () :: ('e, _) outcome, s')" "slot_holds s' n h'"
    using kv_append_holds(1) [OF assms(2) len(2)] assms(4) len(1) unfolding zip_kv h'_def by (metis (no_types))
  have read: "kv_read s' = (map fst h', map snd h')" "ks_len s' = length h'"
    using s'(2) by (simp_all add: slot_holds_def)
  let ?ctx = "map2 (\<lambda>q m. op_sdpa ops q (map fst h') (map snd h') m) (?pair fst) (causal_rows ?ps (length h'))"
  have att: "attention_forward ops ?a ?xn ?ps s = (Ok (map (at_o_proj ?a) ?ctx) :: ('e, _) outcome, s')"
    unfolding attention_forward_def Let_def
    by (simp only: rope v and_run_apply pure_op_apply prod.case outcome.case s'(1) read)
  have row: "?ctx ! i = op_sdpa ops (fst (project_qkv ops ?l (xs ! i) (length h + i)))
      (map fst (h @ take (Suc i) (?pair snd))) (map snd (h @ take (Suc i) (?pair snd)))
      (replicate (length (h @ take (Suc i) (?pair snd))) False)" if i: "i < length xs" for i
  proof -
    define H where "H = h @ take (Suc i) (?pair snd)"
    have takeH: "take (Suc (length h + i)) h' = H" and lenH: "length H = Suc (length h + i)"
      using i ps(1) by (simp_all add: h'_def H_def)
    have "?ctx ! i = op_sdpa ops (fst (project_qkv ops ?l (xs ! i) (length h + i))) (map fst h') (map snd h')
        (map (\<lambda>j. \<not> j \<le> length h + i) [0..<length h'])"
      using i ps(1) by (simp add: causal_rows_def positions_from_def)
    also have "\<dots> = op_sdpa ops (fst (project_qkv ops ?l (xs ! i) (length h + i)))
        (take (Suc (length h + i)) (map fst h')) (take (Suc (length h + i)) (map snd h'))
        (replicate (Suc (length h + i)) False)"
      using i len(3) by (intro causal_row_kept [OF assms(1)]) simp_all
    also have "\<dots> = op_sdpa ops (fst (project_qkv ops ?l (xs ! i) (length h + i)))
        (map fst H) (map snd H) (replicate (length H) False)"
      by (simp add: take_map takeH lenH del: replicate_Suc)
    finally show ?thesis
      unfolding H_def .
  qed
  let ?x1 = "map2 (op_add ops) xs (map (at_o_proj ?a) ?ctx)"
  have out: "map2 (op_add ops) ?x1 (map (\<lambda>x. ffn_forward ops (bk_ffn b) (bk_ffn_norm b x)) ?x1)
      = fst (dense_run ops ?l (length h) xs h)" (is "?lhs = ?rhs")
  proof (rule nth_equalityI)
    have lens: "length ?ctx = length xs"
      by (simp add: causal_rows_def ps(1))
    then show "length ?lhs = length ?rhs" by simp
    fix i assume "i < length ?lhs"
    with lens have i: "i < length xs" by simp
    have "?lhs ! i = finish_layer ops ?l (xs ! i) (?ctx ! i)"
      using i lens by (simp add: finish_as_layer Let_def)
    also have "\<dots> = ?rhs ! i"
      unfolding row [OF i] dense_run_nth [OF i] Let_def unfolding positions_from_def ..
    finally show "?lhs ! i = ?rhs ! i" .
  qed
  have "block_forward ops ?ps b xs s = (Ok (fst (dense_run ops ?l (length h) xs h)) :: ('e, _) outcome, s')"
    unfolding block_forward_def Let_def
    by (simp only: and_run_apply att prod.case outcome.case ret_apply out)
  then show ?thesis
    using s'(2) hist by auto
qed

section \<open>The stack of blocks\<close>

definition caches_hold :: "nat \<Rightarrow> 'v kv_slot list \<Rightarrow> 'v history list \<Rightarrow> bool" where
  "caches_hold n cs hs \<longleftrightarrow> list_all2 (\<lambda>c h. slot_holds c n h) cs hs"

lemma dense_tokens_Nil [simp]: "dense_tokens ops [] pos xs [] = (xs, [])"
  by (induction xs arbitrary: pos) auto

lemma length_dense_tokens [simp]: "length (fst (dense_tokens ops ls pos xs hs)) = length xs"
  by (induction xs arbitrary: pos hs) (auto simp: split_beta)

lemma run_blocks_refines:
  assumes "mask_neutral ops" and "\<forall>b \<in> set bs. block_ok n b" and "length cs = length bs"
    and "caches_hold n cs hs" and "\<forall>h \<in> set hs. length h = m" and "m + length xs \<le> n"
  shows "\<exists>cs'. run_blocks ops (positions_from m (length xs)) bs xs cs
      = (Ok (fst (dense_tokens ops (map as_layer bs) m xs hs)) :: ('e, _) outcome, cs')
    \<and> caches_hold n cs' (snd (dense_tokens ops (map as_layer bs) m xs hs))"
  using assms(2-6)
proof (induction bs arbitrary: cs hs xs)
  case Nil
  then show ?case by (auto simp: caches_hold_def)
next
  case (Cons b bs)
  obtain c cs1 h hs1 where cs: "cs = c # cs1" "hs = h # hs1"
    using Cons.prems(2,3) by (cases cs; cases hs) (auto simp: caches_hold_def)
  have head: "slot_holds c n h" "caches_hold n cs1 hs1" "length h = m"
    using Cons.prems(3,4) by (auto simp: cs caches_hold_def)
  let ?run = "dense_run ops (as_layer b) m xs h"
  obtain c' where c': "block_forward ops (positions_from m (length xs)) b xs c = (Ok (fst ?run) :: ('e, _) outcome, c')"
    "slot_holds c' n (snd ?run)"
    using block_forward_refines [OF assms(1) head(1), of b xs] Cons.prems(1,5) head(3) by auto
  have "\<exists>cs'. run_blocks ops (positions_from m (length (fst ?run))) bs (fst ?run) cs1
      = (Ok (fst (dense_tokens ops (map as_layer bs) m (fst ?run) hs1)) :: ('e, _) outcome, cs')
    \<and> caches_hold n cs' (snd (dense_tokens ops (map as_layer bs) m (fst ?run) hs1))"
    using Cons.prems head(2) by (intro Cons.IH) (auto simp: cs)
  then obtain cs' where cs': "run_blocks ops (positions_from m (length xs)) bs (fst ?run) cs1
      = (Ok (fst (dense_tokens ops (map as_layer bs) m (fst ?run) hs1)) :: ('e, _) outcome, cs')"
    "caches_hold n cs' (snd (dense_tokens ops (map as_layer bs) m (fst ?run) hs1))"
    by auto
  have "run_blocks ops (positions_from m (length xs)) (b # bs) xs cs
      = (Ok (fst (dense_tokens ops (map as_layer (b # bs)) m xs hs)) :: ('e, _) outcome, c' # cs')"
    unfolding cs run_blocks.simps c'(1) cs'(1) prod.case outcome.case list.map dense_tokens_Cons fst_conv ..
  moreover have "caches_hold n (c' # cs') (snd (dense_tokens ops (map as_layer (b # bs)) m xs hs))"
    using c'(2) cs'(2) unfolding cs list.map dense_tokens_Cons by (simp add: caches_hold_def)
  ultimately show ?case by blast
qed

lemma run_blocks_length: "run_blocks ops ps bs xs cs = (r, cs') \<Longrightarrow> length cs' = length cs"
proof (induction bs arbitrary: xs cs r cs')
  case (Cons b bs)
  show ?case
  proof (cases cs)
    case (Cons c cs1)
    with Cons.prems Cons.IH show ?thesis
      by (auto split: prod.splits outcome.splits)
  qed (use Cons.prems in simp)
qed simp

lemma dense_tokens_append:
  "dense_tokens ops ls pos (xs @ ys) hs =
     (let (a, hs1) = dense_tokens ops ls pos xs hs; (b, hs2) = dense_tokens ops ls (pos + length xs) ys hs1
      in (a @ b, hs2))"
  by (induction xs arbitrary: pos hs) (simp_all add: split_beta Let_def)

lemma dense_tokens_lengths:
  "\<forall>h \<in> set hs. length h = m \<Longrightarrow>
    \<forall>h \<in> set (snd (dense_tokens ops ls pos xs hs)). length h = m + length xs"
proof (induction xs arbitrary: pos hs m)
  case (Cons x xs)
  have "\<forall>h \<in> set (snd (dense_layers ops ls pos x hs)). length h = Suc m"
  proof (rule dense_layers_lengths)
    show "\<forall>h \<in> set hs. length h = m" by (rule Cons.prems)
  qed
  from Cons.IH [OF this] show ?case by (simp add: split_beta Let_def)
qed simp

text \<open>A model that fits its rotary tables, and the caches of a request at position \<open>m\<close>.\<close>

definition model_ok :: "'v rt_model \<Rightarrow> bool" where
  "model_ok mdl \<longleftrightarrow> (\<forall>b \<in> set (rm_blocks mdl). block_ok (rm_max_seq mdl) b)"

definition caches_at :: "'v rt_model \<Rightarrow> nat \<Rightarrow> 'v kv_slot list \<Rightarrow> 'v history list \<Rightarrow> bool" where
  "caches_at mdl m cs hs \<longleftrightarrow> caches_hold (rm_max_seq mdl) cs hs \<and> length cs = length (rm_blocks mdl)
     \<and> (\<forall>h \<in> set hs. length h = m)"

definition reference_rows ::
    "'v tensor_ops \<Rightarrow> 'v rt_model \<Rightarrow> u32 list \<Rightarrow> nat \<Rightarrow> 'v history list \<Rightarrow> 'v list \<times> 'v history list" where
  "reference_rows ops mdl ids m hs =
     (let (xs, hs') = dense_tokens ops (map as_layer (rm_blocks mdl)) m (map (\<lambda>i. rm_embedding mdl ! unat i) ids) hs
      in (map (\<lambda>x. rm_output mdl (rm_final_norm mdl x)) xs, hs'))"

lemma forward_refines:
  assumes "mask_neutral ops" and "model_ok mdl" and "caches_at mdl m cs hs"
    and "m + length ids \<le> rm_max_seq mdl" and "\<forall>i \<in> set ids. unat i < length (rm_embedding mdl)"
  shows "\<exists>cs'. forward_with_caches ops mdl ids m cs = (Ok (fst (reference_rows ops mdl ids m hs)) :: ('e, _) outcome, cs')
    \<and> caches_at mdl (m + length ids) cs' (snd (reference_rows ops mdl ids m hs))"
proof -
  let ?xs = "map (\<lambda>i. rm_embedding mdl ! unat i) ids"
  have caches: "length cs = length (rm_blocks mdl)" "caches_hold (rm_max_seq mdl) cs hs" "\<forall>h \<in> set hs. length h = m"
    using assms(3) by (auto simp: caches_at_def)
  have embed: "embed_tokens (rm_embedding mdl) ids = (Ok ?xs :: ('e, _) outcome)"
    using assms(5) by (simp add: embed_tokens_def list_all_iff)
  obtain cs' where cs': "run_blocks ops (positions_from m (length ids)) (rm_blocks mdl) ?xs cs
      = (Ok (fst (dense_tokens ops (map as_layer (rm_blocks mdl)) m ?xs hs)) :: ('e, _) outcome, cs')"
    "caches_hold (rm_max_seq mdl) cs' (snd (dense_tokens ops (map as_layer (rm_blocks mdl)) m ?xs hs))"
    using run_blocks_refines [OF assms(1) _ caches, of ?xs] assms(2,4) by (auto simp: model_ok_def)
  have "forward_with_caches ops mdl ids m cs = (Ok (fst (reference_rows ops mdl ids m hs)) :: ('e, _) outcome, cs')"
    unfolding forward_with_caches_def reference_rows_def embed split_beta Let_def
    by (simp only: caches(1) simp_thms if_False and_run_apply pure_op_apply prod.case outcome.case cs'(1) ret_apply
        fst_conv)
  moreover have "\<forall>h \<in> set (snd (dense_tokens ops (map as_layer (rm_blocks mdl)) m ?xs hs)). length h = m + length ids"
    using dense_tokens_lengths [OF caches(3), of ops "map as_layer (rm_blocks mdl)" m ?xs] by simp
  moreover have "length cs' = length (rm_blocks mdl)"
    using run_blocks_length [OF cs'(1)] caches(1) by simp
  ultimately show ?thesis
    using cs'(2) by (auto simp: caches_at_def reference_rows_def split_beta Let_def)
qed

lemma reference_rows_append:
  "fst (reference_rows ops mdl (xs @ ys) m hs)
      = fst (reference_rows ops mdl xs m hs)
        @ fst (reference_rows ops mdl ys (m + length xs) (snd (reference_rows ops mdl xs m hs)))"
  "snd (reference_rows ops mdl (xs @ ys) m hs)
      = snd (reference_rows ops mdl ys (m + length xs) (snd (reference_rows ops mdl xs m hs)))"
  by (simp_all add: reference_rows_def dense_tokens_append split_beta Let_def)

lemma length_reference_rows [simp]: "length (fst (reference_rows ops mdl ids m hs)) = length ids"
  by (simp add: reference_rows_def split_beta Let_def)

section \<open>The forward pass of the tests, with a fresh cache per block\<close>

fun run_fresh :: "'v tensor_ops \<Rightarrow> nat \<Rightarrow> nat list \<Rightarrow> 'v decoder_block list \<Rightarrow> 'v list \<Rightarrow> ('e, 'v list) outcome" where
  "run_fresh ops max_seq positions [] xs = Ok xs"
| "run_fresh ops max_seq positions (b # bs) xs =
     and_then (fst (block_forward ops positions b xs (new_kv_slot ops max_seq))) (run_fresh ops max_seq positions bs)"

definition model_forward :: "'v tensor_ops \<Rightarrow> 'v rt_model \<Rightarrow> u32 list \<Rightarrow> nat \<Rightarrow> ('e, 'v list) outcome" where
  "model_forward ops mdl token_ids start_pos =
     and_then (embed_tokens (rm_embedding mdl) token_ids) (\<lambda>xs.
     and_then (run_fresh ops (rm_max_seq mdl) (positions_from start_pos (length token_ids)) (rm_blocks mdl) xs) (\<lambda>xs.
       Ok (map (\<lambda>x. rm_output mdl (rm_final_norm mdl x)) xs)))"

lemma run_fresh_is_run_blocks:
  "run_fresh ops n ps bs xs = fst (run_blocks ops ps bs xs (map (\<lambda>_. new_kv_slot ops n) bs))"
  by (induction bs arbitrary: xs) (auto split: prod.splits outcome.splits)

lemma model_forward_eq_caches:
  "model_forward ops mdl ids pos
    = fst (forward_with_caches ops mdl ids pos (rs_caches (new_request_state ops mdl (rm_max_seq mdl))))"
  by (simp add: model_forward_def forward_with_caches_def new_request_state_def run_fresh_is_run_blocks and_run_apply
      embed_tokens_def split: prod.splits outcome.splits)

section \<open>Properties\<close>


definition ex_block :: "nat decoder_block" where
  "ex_block = \<lparr>bk_attn_norm = (\<lambda>x. x),
     bk_attn = \<lparr>at_q_proj = (\<lambda>x. x + 1), at_k_proj = (\<lambda>x. 2 * x), at_v_proj = (\<lambda>x. x), at_o_proj = (\<lambda>x. x), at_max_seq = 8\<rparr>,
     bk_ffn_norm = (\<lambda>x. x), bk_ffn = \<lparr>ff_gate = (\<lambda>x. x), ff_up = (\<lambda>x. x), ff_down = (\<lambda>x. x mod 7)\<rparr>\<rparr>"

definition ex_rt_model :: "nat rt_model" where
  "ex_rt_model = \<lparr>rm_embedding = [1, 2, 3], rm_blocks = [ex_block, ex_block], rm_final_norm = (\<lambda>x. x),
     rm_output = (\<lambda>x. x), rm_max_seq = 8\<rparr>"

lemma ex_model_ok: "model_ok ex_rt_model"
  by (simp add: model_ok_def ex_rt_model_def block_ok_def ex_block_def)

lemma fresh_caches: "caches_at mdl 0 (rs_caches (new_request_state ops mdl (rm_max_seq mdl))) (map (\<lambda>_. []) (rm_blocks mdl))"
  by (auto simp: caches_at_def caches_hold_def new_request_state_def slot_holds_new list_all2_conv_all_nth)


text \<open>
  A cache never grows past its size: appending within it succeeds and the reader then sees
  everything appended so far, in order; appending past the end panics and changes nothing.
\<close>

theorem kv_cache_is_a_list:
  assumes "slot_holds s n h" and "length ks = length vs"
  shows "(length h + length ks \<le> n \<longrightarrow>
        (\<exists>s'. kv_append ks vs s = (Ok () :: (unit, _) outcome, s') \<and> slot_holds s' n (h @ zip ks vs)
           \<and> kv_read s' = (map fst h @ ks, map snd h @ vs)))
    \<and> (n < length h + length ks \<longrightarrow> kv_append ks vs s = (Panic :: (unit, _) outcome, s))"
  using kv_append_holds [OF assms] assms(2) by (auto simp: slot_holds_def)

lemma kv_cache_is_a_list_witness:
  "(\<exists>s'. kv_append [5] [6] (new_kv_slot ex_ops 2) = (Ok () :: (unit, _) outcome, s') \<and> kv_read s' = ([5], [6]))
    \<and> kv_append [1, 2, 3] [1, 2, 3] (new_kv_slot ex_ops 2) = (Panic :: (unit, _) outcome, new_kv_slot ex_ops 2)"
  using kv_cache_is_a_list [OF slot_holds_new [of ex_ops 2], of "[5]" "[6]"]
    kv_cache_is_a_list [OF slot_holds_new [of ex_ops 2], of "[1, 2, 3]" "[1, 2, 3]"] by auto

end
