(* ===== verification/Frame.thy ===== *)
theory Frame
  imports Prelude
begin

text \<open>
  Length-prefixed frames on a byte stream (\<open>cluster/src/transport/frame.rs\<close>).  A send stream
  is the bytes written to it, a receive stream the bytes still to be read.
\<close>

datatype frame_error =
    FrameTooLarge nat
  | ReadFrameLen
  | OversizedFrame nat
  | ReadFramePayload

definition max_frame :: nat where
  "max_frame = 64 * 1024 * 1024"

definition write_frame :: "bytes \<Rightarrow> (bytes, frame_error, unit) stateful" where
  "write_frame payload = (\<lambda>stream.
     if length payload > max_frame then (Err (FrameTooLarge (length payload)), stream)
     else (Ok (), (stream @ to_le 4 (length payload mod 2 ^ 32)) @ payload))"

text \<open>\<open>read_exact\<close>: a stream that ends early is an error.\<close>

definition read_exact :: "nat \<Rightarrow> 'e \<Rightarrow> (bytes, 'e, bytes) stateful" where
  "read_exact n err = (\<lambda>stream.
     if length stream < n then (Err err, []) else (Ok (take n stream), drop n stream))"

definition read_frame :: "(bytes, frame_error, bytes) stateful" where
  "read_frame =
     and_run (read_exact 4 ReadFrameLen) (\<lambda>len_buf.
       let len = from_le len_buf in
       if len > max_frame then pure_op (Err (OversizedFrame len))
       else read_exact len ReadFramePayload)"

definition frame_bytes :: "bytes \<Rightarrow> bytes" where
  "frame_bytes payload = to_le 4 (length payload) @ payload"

lemma write_frame_Ok:
  "length payload \<le> max_frame \<Longrightarrow> write_frame payload s = (Ok (), s @ frame_bytes payload)"
  by (simp add: write_frame_def frame_bytes_def max_frame_def)

lemma write_frame_total: "write_frame payload s = (Err (FrameTooLarge (length payload)), s) \<or>
    write_frame payload s = (Ok (), s @ frame_bytes payload)"
  using write_frame_Ok by (auto simp: write_frame_def)

lemma read_frame_bytes:
  assumes "length payload \<le> max_frame"
  shows "read_frame (frame_bytes payload @ rest) = (Ok payload, rest)"
proof -
  have "length payload < 256 ^ 4"
    using assms by (simp add: max_frame_def)
  then show ?thesis
    using assms by (simp add: read_frame_def and_run_apply read_exact_def frame_bytes_def Let_def not_le)
qed

lemma read_frame_canonical:
  assumes "read_frame s = (Ok payload, rest)"
  shows "s = frame_bytes payload @ rest" and "length payload \<le> max_frame"
proof -
  let ?n = "from_le (take 4 s)"
  have parts: "4 \<le> length s" "?n \<le> max_frame" "?n \<le> length (drop 4 s)"
    "payload = take ?n (drop 4 s)" "rest = drop ?n (drop 4 s)"
    using assms by (auto simp: read_frame_def and_run_def read_exact_def Let_def split: if_splits)
  then have len: "length payload = ?n" by simp
  then show "length payload \<le> max_frame" using parts(2) by simp
  have "length (take 4 s) = 4" using parts(1) by simp
  then have "to_le 4 ?n = take 4 s"
    by (metis to_from_le)
  then have "frame_bytes payload = take 4 s @ payload"
    by (simp add: frame_bytes_def len)
  moreover have "payload @ rest = drop 4 s"
    by (simp only: parts(4,5) append_take_drop_id)
  ultimately show "s = frame_bytes payload @ rest"
    by (metis append_assoc append_take_drop_id)
qed

section \<open>Properties\<close>

text \<open>
  C22: frames round-trip and are self-delimiting.  A payload within the cap is read back whatever
  follows it on the stream, one above the cap is refused and nothing is written; and whatever
  the reader accepts is exactly the encoding of what it returns.
\<close>

theorem frame_roundtrip:
  "(length payload \<le> max_frame \<longrightarrow>
      write_frame payload [] = (Ok (), frame_bytes payload)
      \<and> read_frame (frame_bytes payload @ rest) = (Ok payload, rest))
    \<and> (max_frame < length payload \<longrightarrow> write_frame payload s = (Err (FrameTooLarge (length payload)), s))
    \<and> (\<forall>input left. read_frame input = (Ok payload, left) \<longrightarrow>
        length payload \<le> max_frame \<and> input = frame_bytes payload @ left)"
  using write_frame_Ok [of payload "[]"] read_frame_bytes read_frame_canonical
  by (simp add: write_frame_def)

lemma frame_roundtrip_witness:
  "read_frame (frame_bytes [1, 2, 3] @ [9]) = (Ok [1, 2, 3], [9])
    \<and> write_frame [1, 2, 3] [] = (Ok (), [3, 0, 0, 0, 1, 2, 3])"
proof -
  have len: "length [1, 2, 3 :: u8] \<le> max_frame" by (simp add: max_frame_def)
  have "frame_bytes [1, 2, 3] = [3, 0, 0, 0, 1, 2, 3]" by code_simp
  with len frame_roundtrip [of "[1, 2, 3]" "[9]" "[]"] show ?thesis by metis
qed

end
