(* ===== verification/Wire.thy ===== *)
theory Wire
  imports Frame
begin

text \<open>
  What travels between the nodes of a cluster (\<open>cluster/src/protocol\<close>, \<open>tensor_io.rs\<close>): the
  messages, the serialiser, and activations as bytes.  A float is its 32 bits.  The serialiser
  (postcard) is the record \<open>codec\<close>, a parameter; \<open>codec_ok\<close> states what the cluster relies on:
  decoding inverts encoding, and an encoding is not much longer than its integers.
\<close>

section \<open>Messages\<close>

type_synonym uuid = "128 word"
type_synonym row = "u32 list"

datatype dtype = F32 | F16 | Bf16

record activation_header =
  ah_request_id :: uuid
  ah_seq_pos :: u32
  ah_shape :: "u32 \<times> u32 \<times> u32"
  ah_dtype :: dtype
  ah_is_terminal :: bool

datatype coordinator_msg = Embed uuid u32 "u32 list" | End uuid

datatype peer_frame = Coord coordinator_msg | Relay activation_header

datatype peer_msg = Logits uuid u32 "u32 list" | Fault uuid string

record codec =
  cd_enc_header :: "activation_header \<Rightarrow> bytes option"
  cd_dec_header :: "bytes \<Rightarrow> activation_header option"
  cd_enc_frame :: "peer_frame \<Rightarrow> bytes option"
  cd_dec_frame :: "bytes \<Rightarrow> peer_frame option"
  cd_enc_msg :: "peer_msg \<Rightarrow> bytes option"
  cd_dec_msg :: "bytes \<Rightarrow> peer_msg option"

section \<open>Activations\<close>

datatype bytes_error = NotAligned nat | ShapeMismatch nat nat

text \<open>\<open>hidden\<close> is the last dimension, which a tensor without rows has as well.\<close>

definition f32_bytes :: "u32 list \<Rightarrow> bytes" where
  "f32_bytes v = concat (map (\<lambda>x. to_le 4 (unat x)) v)"

definition tensor_to_bytes :: "nat \<Rightarrow> row list \<Rightarrow> bytes \<times> nat \<times> nat \<times> nat" where
  "tensor_to_bytes hidden rows = (f32_bytes (concat rows), 1, length rows, hidden)"

text \<open>The cast of a byte slice to a slice of floats.\<close>

fun cast_f32 :: "bytes \<Rightarrow> u32 list" where
  "cast_f32 (a # b # c # d # rest) = word_of_nat (from_le [a, b, c, d]) # cast_f32 rest"
| "cast_f32 _ = []"

text \<open>The rows of a row-major buffer.\<close>

definition rows_of :: "nat \<Rightarrow> nat \<Rightarrow> u32 list \<Rightarrow> row list" where
  "rows_of n width xs = map (\<lambda>i. take width (drop (i * width) xs)) [0..<n]"

definition tensor_from_bytes :: "bytes \<Rightarrow> nat \<times> nat \<times> nat \<Rightarrow> (bytes_error, row list) outcome" where
  "tensor_from_bytes bs shape =
     (case shape of (batch, seq, hidden) \<Rightarrow>
       if length bs mod 4 \<noteq> 0 then Err (NotAligned (length bs))
       else
         let expected = (batch * seq * hidden) mod usize_bound; actual = length bs div 4 in
         if expected \<noteq> actual then Err (ShapeMismatch expected actual)
         else Ok (rows_of (batch * seq) hidden (cast_f32 bs)))"

definition shape_u32 :: "nat \<times> nat \<times> nat \<Rightarrow> u32 \<times> u32 \<times> u32" where
  "shape_u32 s = (case s of (a, b, c) \<Rightarrow> (word_of_nat a, word_of_nat b, word_of_nat c))"

definition shape_usize :: "u32 \<times> u32 \<times> u32 \<Rightarrow> nat \<times> nat \<times> nat" where
  "shape_usize s = (case s of (a, b, c) \<Rightarrow> (unat a, unat b, unat c))"

definition rows_fit :: "nat \<Rightarrow> row list \<Rightarrow> bool" where
  "rows_fit width rows \<longleftrightarrow> (\<forall>r \<in> set rows. length r = width)"

lemma length_f32_bytes [simp]: "length (f32_bytes v) = 4 * length v"
  by (induction v) (simp_all add: f32_bytes_def)

lemma f32_bytes_Cons: "f32_bytes (x # v) = to_le 4 (unat x) @ f32_bytes v"
  by (simp add: f32_bytes_def)

lemma cast_f32_append: "length xs = 4 \<Longrightarrow> cast_f32 (xs @ ys) = word_of_nat (from_le xs) # cast_f32 ys"
  by (auto simp: length_Suc_conv numeral_eq_Suc simp del: from_le.simps)

lemma cast_f32_bytes [simp]: "cast_f32 (f32_bytes v) = v"
proof (induction v)
  case (Cons x v)
  have "unat x < 256 ^ 4"
    using unsigned_less [of x, where ?'a = nat] by simp
  then show ?case
    using Cons.IH by (simp add: f32_bytes_Cons cast_f32_append del: to_le.simps)
qed (simp add: f32_bytes_def)

lemma rows_of_Suc: "rows_of (Suc n) width xs = take width xs # rows_of n width (drop width xs)"
  by (simp add: rows_of_def upt_rec [of 0] map_Suc_upt [symmetric] comp_def add.commute del: upt_Suc)

lemma rows_of_concat: "rows_fit width rows \<Longrightarrow> rows_of (length rows) width (concat rows) = rows"
proof (induction rows)
  case Nil
  then show ?case by (simp add: rows_of_def)
next
  case (Cons r rows)
  then show ?case by (simp add: rows_of_Suc rows_fit_def)
qed

lemma length_concat_rows: "rows_fit width rows \<Longrightarrow> length (concat rows) = length rows * width"
  by (induction rows) (simp_all add: rows_fit_def)

lemma tensor_bytes_roundtrip:
  assumes "rows_fit width rows" and "length rows * width < usize_bound"
  shows "tensor_from_bytes (fst (tensor_to_bytes width rows)) (snd (tensor_to_bytes width rows)) = Ok rows"
  using assms rows_of_concat [OF assms(1)]
  by (simp add: tensor_from_bytes_def tensor_to_bytes_def length_concat_rows Let_def)

lemma shape_roundtrip:
  "a < 2 ^ 32 \<Longrightarrow> b < 2 ^ 32 \<Longrightarrow> c < 2 ^ 32 \<Longrightarrow> shape_usize (shape_u32 (a, b, c)) = (a, b, c)"
  by (simp add: shape_usize_def shape_u32_def unat_of_nat)

section \<open>What is assumed of the serialiser\<close>

definition codec_ok :: "codec \<Rightarrow> bool" where
  "codec_ok cd \<longleftrightarrow>
     (\<forall>h. \<exists>b. cd_enc_header cd h = Some b \<and> cd_dec_header cd b = Some h \<and> length b \<le> 128)
   \<and> (\<forall>h. \<exists>b. cd_enc_frame cd (Relay h) = Some b \<and> cd_dec_frame cd b = Some (Relay h) \<and> length b \<le> 128)
   \<and> (\<forall>r p ids. \<exists>b. cd_enc_frame cd (Coord (Embed r p ids)) = Some b
        \<and> cd_dec_frame cd b = Some (Coord (Embed r p ids)) \<and> length b \<le> 128 + 8 * length ids)
   \<and> (\<forall>r p v. \<exists>b. cd_enc_msg cd (Logits r p v) = Some b
        \<and> cd_dec_msg cd b = Some (Logits r p v) \<and> length b \<le> 128 + 8 * length v)"

section \<open>A serialiser that meets the assumptions\<close>

definition get_u32 :: "nat \<Rightarrow> bytes \<Rightarrow> u32" where
  "get_u32 i b = word_of_nat (from_le (take 4 (drop i b)))"

definition put_u32 :: "u32 \<Rightarrow> bytes" where
  "put_u32 x = to_le 4 (unat x)"

definition put_uuid :: "uuid \<Rightarrow> bytes" where
  "put_uuid x = to_le 16 (unat x)"

definition get_uuid :: "bytes \<Rightarrow> uuid" where
  "get_uuid b = word_of_nat (from_le (take 16 b))"

definition ex_put_header :: "activation_header \<Rightarrow> bytes" where
  "ex_put_header h = put_uuid (ah_request_id h) @ put_u32 (ah_seq_pos h) @ put_u32 (fst (ah_shape h))
     @ put_u32 (fst (snd (ah_shape h))) @ put_u32 (snd (snd (ah_shape h)))
     @ [case ah_dtype h of F32 \<Rightarrow> 0 | F16 \<Rightarrow> 1 | Bf16 \<Rightarrow> 2] @ [if ah_is_terminal h then 1 else 0]"

definition ex_get_header :: "bytes \<Rightarrow> activation_header" where
  "ex_get_header b = \<lparr>ah_request_id = get_uuid b, ah_seq_pos = get_u32 16 b,
     ah_shape = (get_u32 20 b, get_u32 24 b, get_u32 28 b),
     ah_dtype = (if b ! 32 = 0 then F32 else if b ! 32 = 1 then F16 else Bf16), ah_is_terminal = (b ! 33 = 1)\<rparr>"

definition ex_codec :: codec where
  "ex_codec = \<lparr>cd_enc_header = (\<lambda>h. Some (ex_put_header h)), cd_dec_header = (\<lambda>b. Some (ex_get_header b)),
     cd_enc_frame = (\<lambda>f. case f of
         Coord (Embed r p ids) \<Rightarrow> Some (0 # put_uuid r @ put_u32 p @ f32_bytes ids)
       | Coord (End r) \<Rightarrow> Some (1 # put_uuid r)
       | Relay h \<Rightarrow> Some (2 # ex_put_header h)),
     cd_dec_frame = (\<lambda>b. case b of [] \<Rightarrow> None
       | t # b \<Rightarrow> if t = 0 then Some (Coord (Embed (get_uuid b) (get_u32 16 b) (cast_f32 (drop 20 b))))
                 else if t = 1 then Some (Coord (End (get_uuid b))) else Some (Relay (ex_get_header b))),
     cd_enc_msg = (\<lambda>m. case m of Logits r p v \<Rightarrow> Some (put_uuid r @ put_u32 p @ f32_bytes v) | Fault r d \<Rightarrow> None),
     cd_dec_msg = (\<lambda>b. Some (Logits (get_uuid b) (get_u32 16 b) (cast_f32 (drop 20 b))))\<rparr>"

lemma length_put [simp]: "length (put_u32 x) = 4" "length (put_uuid r) = 16"
  by (simp_all add: put_u32_def put_uuid_def)

lemma get_put_u32 [simp]: "length a = i \<Longrightarrow> get_u32 i (a @ put_u32 x @ b) = x"
  using unsigned_less [of x, where ?'a = nat] by (simp add: get_u32_def put_u32_def from_to_le)

lemma get_put_uuid [simp]: "get_uuid (put_uuid r @ b) = r"
  using unsigned_less [of r, where ?'a = nat] by (simp add: get_uuid_def put_uuid_def from_to_le)

lemma ex_header_roundtrip [simp]: "ex_get_header (ex_put_header h) = h"
proof -
  let ?a = "put_uuid (ah_request_id h)" and ?b = "put_u32 (ah_seq_pos h)" and ?c = "put_u32 (fst (ah_shape h))"
  let ?d = "put_u32 (fst (snd (ah_shape h)))" and ?e = "put_u32 (snd (snd (ah_shape h)))"
  define rest where "rest = [case ah_dtype h of F32 \<Rightarrow> 0 :: u8 | F16 \<Rightarrow> 1 | Bf16 \<Rightarrow> 2] @ [if ah_is_terminal h then 1 else 0]"
  have b: "ex_put_header h = ?a @ ?b @ ?c @ ?d @ ?e @ rest" by (simp add: ex_put_header_def rest_def)
  have "get_u32 16 (?a @ ?b @ ?c @ ?d @ ?e @ rest) = ah_seq_pos h"
    "get_u32 20 ((?a @ ?b) @ ?c @ ?d @ ?e @ rest) = fst (ah_shape h)"
    "get_u32 24 ((?a @ ?b @ ?c) @ ?d @ ?e @ rest) = fst (snd (ah_shape h))"
    "get_u32 28 ((?a @ ?b @ ?c @ ?d) @ ?e @ rest) = snd (snd (ah_shape h))"
    by (intro get_put_u32; simp)+
  moreover have "(?a @ ?b @ ?c @ ?d @ ?e @ rest) ! 32 = rest ! 0" "(?a @ ?b @ ?c @ ?d @ ?e @ rest) ! 33 = rest ! 1"
    by (simp_all add: nth_append)
  ultimately show ?thesis
    unfolding b ex_get_header_def by (cases h; cases "ah_dtype h") (simp_all add: rest_def)
qed

lemma length_ex_put_header [simp]: "length (ex_put_header h) = 34"
  by (simp add: ex_put_header_def)

lemma ex_codec_ok: "codec_ok ex_codec"
  by (simp add: codec_ok_def ex_codec_def)

end
