(* ===== verification/Peer.thy ===== *)
theory Peer
  imports Wire Arch
begin

text \<open>
  A peer node (\<open>cluster/src/peer.rs\<close>) and a worker (\<open>cluster/src/worker.rs\<close>): each holds a range
  of decoder blocks and, per connection, the caches of every request it has seen.  A connection
  carries one bidirectional stream per message; a stream is served completely before the next
  is accepted.  A stream is modelled by the bytes its opener sent, the answer is the bytes sent
  back; an error or a panic of the serving loop closes the connection.

  Every header the program builds has batch size 1; a header with another batch size is
  answered with \<open>BatchNotModelled\<close>, which no theorem below allows to occur.
\<close>

section \<open>The serving loop of a peer\<close>

record peer_stages =
  ps_blocks :: "row decoder_block list"
  ps_embedding :: "row list option"
  ps_final_norm :: "(row \<Rightarrow> row) option"
  ps_output :: "(row \<Rightarrow> row) option"
  ps_max_seq :: nat
  ps_hidden :: nat
  ps_vocab :: nat

datatype peer_error =
    PeerFrameError frame_error
  | EncodeFailed
  | DecodeFailed
  | BadTensor bytes_error
  | NotEmbeddingHost
  | NotOutputHost
  | OutputMissing
  | BatchNotModelled

type_synonym request_caches = "uuid \<rightharpoonup> row kv_slot list"

record stream_io =
  io_recv :: bytes
  io_send :: bytes
  io_caches :: request_caches

primrec map_err :: "('e \<Rightarrow> 'f) \<Rightarrow> ('e, 'a) outcome \<Rightarrow> ('f, 'a) outcome" where
  "map_err f (Ok a) = Ok a"
| "map_err f (Err e) = Err (f e)"
| "map_err f Panic = Panic"

definition recv_frame :: "(stream_io, peer_error, bytes) stateful" where
  "recv_frame = (\<lambda>s. case read_frame (io_recv s) of
     (r, rest) \<Rightarrow> (map_err PeerFrameError r, s\<lparr>io_recv := rest\<rparr>))"

definition send_frame :: "bytes \<Rightarrow> (stream_io, peer_error, unit) stateful" where
  "send_frame b = (\<lambda>s. case write_frame b (io_send s) of
     (r, out) \<Rightarrow> (map_err PeerFrameError r, s\<lparr>io_send := out\<rparr>))"

definition make_caches :: "row tensor_ops \<Rightarrow> nat \<Rightarrow> nat \<Rightarrow> row kv_slot list" where
  "make_caches ops n_blocks max_seq = map (\<lambda>_. new_kv_slot ops max_seq) [0..<n_blocks]"

definition entry_caches :: "row tensor_ops \<Rightarrow> nat \<Rightarrow> nat \<Rightarrow> uuid \<Rightarrow> request_caches \<Rightarrow> row kv_slot list" where
  "entry_caches ops n_blocks max_seq r caches =
     (case caches r of Some c \<Rightarrow> c | None \<Rightarrow> make_caches ops n_blocks max_seq)"

text \<open>The blocks of a node on the activations of one request, with the request's caches.\<close>

definition run_stage ::
    "row tensor_ops \<Rightarrow> row decoder_block list \<Rightarrow> nat \<Rightarrow> uuid \<Rightarrow> nat \<Rightarrow> row list
      \<Rightarrow> (request_caches, 'e, row list) stateful" where
  "run_stage ops blocks max_seq r start xs = (\<lambda>caches.
     case run_blocks ops (positions_from start (length xs)) blocks xs
            (entry_caches ops (length blocks) max_seq r caches) of
       (res, c) \<Rightarrow> (res, caches(r \<mapsto> c)))"

definition with_caches :: "(request_caches, 'e, 'a) stateful \<Rightarrow> (stream_io, 'e, 'a) stateful" where
  "with_caches m = (\<lambda>s. case m (io_caches s) of (res, c) \<Rightarrow> (res, s\<lparr>io_caches := c\<rparr>))"

text \<open>\<open>slice\<close> of the last row to the vocabulary; it panics where the row is shorter or missing.\<close>

definition last_logits :: "nat \<Rightarrow> row list \<Rightarrow> ('e, row) outcome" where
  "last_logits vocab rows =
     (if rows = [] \<or> length (last rows) < vocab then Panic else Ok (take vocab (last rows)))"

definition handle_embed ::
    "codec \<Rightarrow> row tensor_ops \<Rightarrow> peer_stages \<Rightarrow> uuid \<Rightarrow> u32 \<Rightarrow> u32 list \<Rightarrow> (stream_io, peer_error, unit) stateful" where
  "handle_embed cd ops st r seq_pos token_ids =
     and_run (pure_op (ok_or NotEmbeddingHost (ps_embedding st))) (\<lambda>emb.
     and_run (pure_op (embed_tokens emb token_ids)) (\<lambda>xs.
     and_run (with_caches (run_stage ops (ps_blocks st) (ps_max_seq st) r (unat seq_pos) xs)) (\<lambda>xs.
       let (bytes, shape) = tensor_to_bytes (ps_hidden st) xs;
           hdr = \<lparr>ah_request_id = r, ah_seq_pos = seq_pos, ah_shape = shape_u32 shape, ah_dtype = F32,
                  ah_is_terminal = False\<rparr>
       in and_run (pure_op (ok_or EncodeFailed (cd_enc_header cd hdr))) (\<lambda>h.
          and_run (send_frame h) (\<lambda>_. send_frame bytes)))))"

definition handle_relay ::
    "codec \<Rightarrow> row tensor_ops \<Rightarrow> peer_stages \<Rightarrow> activation_header \<Rightarrow> (stream_io, peer_error, unit) stateful" where
  "handle_relay cd ops st hdr =
     and_run recv_frame (\<lambda>payload.
       let shape = shape_usize (ah_shape hdr) in
       and_run (pure_op (map_err BadTensor (tensor_from_bytes payload shape))) (\<lambda>xs.
       if fst shape \<noteq> 1 then pure_op (Err BatchNotModelled)
       else
       and_run (with_caches (run_stage ops (ps_blocks st) (ps_max_seq st) (ah_request_id hdr)
           (unat (ah_seq_pos hdr)) xs)) (\<lambda>xs.
       if ah_is_terminal hdr then
         and_run (pure_op (ok_or NotOutputHost (ps_final_norm st))) (\<lambda>fnorm.
         and_run (pure_op (ok_or OutputMissing (ps_output st))) (\<lambda>out_proj.
         and_run (pure_op (last_logits (ps_vocab st) (map (\<lambda>x. out_proj (fnorm x)) xs))) (\<lambda>v.
         and_run (pure_op (ok_or EncodeFailed (cd_enc_msg cd (Logits (ah_request_id hdr) (ah_seq_pos hdr) v)))) (\<lambda>m.
           send_frame m))))
       else
         let (bytes, sh) = tensor_to_bytes (snd (snd shape)) xs; out_hdr = hdr\<lparr>ah_shape := shape_u32 sh\<rparr> in
         and_run (pure_op (ok_or EncodeFailed (cd_enc_header cd out_hdr))) (\<lambda>h.
         and_run (send_frame h) (\<lambda>_. send_frame bytes)))))"

definition handle_end :: "uuid \<Rightarrow> (stream_io, peer_error, unit) stateful" where
  "handle_end r = with_caches (\<lambda>caches. (Ok (), caches(r := None)))"

definition handle_stream :: "codec \<Rightarrow> row tensor_ops \<Rightarrow> peer_stages \<Rightarrow> (stream_io, peer_error, unit) stateful" where
  "handle_stream cd ops st =
     and_run recv_frame (\<lambda>b.
     and_run (pure_op (ok_or DecodeFailed (cd_dec_frame cd b))) (\<lambda>frame.
       case frame of
         Coord (Embed r p ids) \<Rightarrow> handle_embed cd ops st r p ids
       | Relay hdr \<Rightarrow> handle_relay cd ops st hdr
       | Coord (End r) \<Rightarrow> handle_end r))"

section \<open>The serving loop of a worker\<close>

record worker_stages =
  wk_blocks :: "row decoder_block list"
  wk_max_seq :: nat

definition worker_stream ::
    "codec \<Rightarrow> row tensor_ops \<Rightarrow> worker_stages \<Rightarrow> (stream_io, peer_error, unit) stateful" where
  "worker_stream cd ops wk =
     and_run recv_frame (\<lambda>b.
     and_run (pure_op (ok_or DecodeFailed (cd_dec_header cd b))) (\<lambda>hdr.
     and_run recv_frame (\<lambda>payload.
       let shape = shape_usize (ah_shape hdr) in
       and_run (pure_op (map_err BadTensor (tensor_from_bytes payload shape))) (\<lambda>xs.
       if fst shape \<noteq> 1 then pure_op (Err BatchNotModelled)
       else
       and_run (with_caches (run_stage ops (wk_blocks wk) (wk_max_seq wk) (ah_request_id hdr)
           (unat (ah_seq_pos hdr)) xs)) (\<lambda>xs.
         let (out_bytes, out_shape) = tensor_to_bytes (snd (snd shape)) xs;
             out_hdr = \<lparr>ah_request_id = ah_request_id hdr, ah_seq_pos = ah_seq_pos hdr,
                        ah_shape = shape_u32 out_shape, ah_dtype = F32, ah_is_terminal = ah_is_terminal hdr\<rparr>
         in and_run (pure_op (ok_or EncodeFailed (cd_enc_header cd out_hdr))) (\<lambda>h.
            and_run (send_frame h) (\<lambda>_.
            and_run (send_frame out_bytes) (\<lambda>_.
              if ah_is_terminal hdr then handle_end (ah_request_id hdr) else ret ()))))))))"

section \<open>Connections\<close>

text \<open>
  One end of a connection: the loop that serves it and the caches it keeps, \<open>None\<close> once the loop
  has ended.  \<open>exchange\<close> sends the bytes of one stream and returns the answer.
\<close>

record link =
  lk_serve :: "(stream_io, peer_error, unit) stateful"
  lk_caches :: "request_caches option"

definition exchange :: "bytes \<Rightarrow> link \<Rightarrow> bytes option \<times> link" where
  "exchange input l =
     (case lk_caches l of
        None \<Rightarrow> (None, l)
      | Some caches \<Rightarrow>
          (case lk_serve l \<lparr>io_recv = input, io_send = [], io_caches = caches\<rparr> of
             (Ok _, s) \<Rightarrow> (Some (io_send s), l\<lparr>lk_caches := Some (io_caches s)\<rparr>)
           | (_, s) \<Rightarrow> (None, l\<lparr>lk_caches := None\<rparr>)))"

text \<open>A peer serves the streams of a connection one after the other.\<close>

fun serve_all :: "bytes list \<Rightarrow> link \<Rightarrow> bytes option list \<times> link" where
  "serve_all [] l = ([], l)"
| "serve_all (b # bs) l =
     (case exchange b l of (a, l') \<Rightarrow> case serve_all bs l' of (as, l'') \<Rightarrow> (a # as, l''))"

end
