(* ===== verification/Hop.thy ===== *)
theory Hop
  imports Peer
begin

text \<open>
  One hop of the activation pipeline as its caller sees it.  A request opens a stream, writes
  frames, and reads the answer's frames (the pattern of \<open>forward_pass\<close> in \<open>coordinator.rs\<close> and
  of \<open>step_through_cluster_session\<close> in \<open>leader.rs\<close>).

  The locale \<open>relay_server\<close> is the contract of a node that runs a range of blocks on activations
  sent to it: the answer carries the rows the blocks give on top of what the request had stored,
  the node then stores the new keys and values, and other requests are not touched.  The serving
  loops of the peers and of the workers both meet it.
\<close>

section \<open>A request over a connection\<close>

datatype call_error =
    CallFrameError frame_error
  | CallEncode
  | CallDecode
  | ConnectionLost
  | CallTensor bytes_error
  | PeerFault string
  | MissingPeers "string list"
  | MalformedManifest
  | SingleNode
  | LocalHop string
  | NoConnection string

fun write_all :: "bytes option list \<Rightarrow> (bytes, call_error, unit) stateful" where
  "write_all [] = ret ()"
| "write_all (None # bs) = pure_op (Err CallEncode)"
| "write_all (Some b # bs) =
     and_run (\<lambda>out. case write_frame b out of (r, out') \<Rightarrow> (map_err CallFrameError r, out'))
       (\<lambda>_. write_all bs)"

definition rpc :: "bytes option list \<Rightarrow> (link, call_error, bytes) stateful" where
  "rpc frames l =
     (if lk_caches l = None then (Err ConnectionLost, l)
      else case write_all frames [] of (r, out) \<Rightarrow>
        (case exchange out l of (answer, l') \<Rightarrow>
           (and_then r (\<lambda>_. ok_or ConnectionLost answer), l')))"

definition call_frame :: "(bytes, call_error, bytes) stateful" where
  "call_frame = (\<lambda>s. case read_frame s of (r, rest) \<Rightarrow> (map_err CallFrameError r, rest))"

text \<open>\<open>decode(&read_frame(r))\<close> and then \<open>read_frame(r)\<close>.\<close>

definition read_activation :: "codec \<Rightarrow> bytes \<Rightarrow> (call_error, activation_header \<times> bytes) outcome" where
  "read_activation cd answer =
     fst (and_run call_frame (\<lambda>b.
          and_run (pure_op (ok_or CallDecode (cd_dec_header cd b))) (\<lambda>hdr.
          and_run call_frame (\<lambda>payload. ret (hdr, payload)))) answer)"

lemma write_all_Ok:
  "\<forall>b \<in> set bs. length b \<le> max_frame \<Longrightarrow>
    write_all (map Some bs) out = (Ok (), out @ concat (map frame_bytes bs))"
  by (induction bs arbitrary: out) (simp_all add: and_run_apply write_frame_Ok)

lemma rpc_Ok:
  assumes "lk_caches l = Some caches" and "\<forall>b \<in> set bs. length b \<le> max_frame"
    and "lk_serve l \<lparr>io_recv = concat (map frame_bytes bs), io_send = [], io_caches = caches\<rparr> = (Ok (), s)"
  shows "rpc (map Some bs) l = (Ok (io_send s), l\<lparr>lk_caches := Some (io_caches s)\<rparr>)"
  using assms(1,3) write_all_Ok [OF assms(2), of "[]"]
  by (simp add: rpc_def exchange_def ok_or_def)

lemma read_activation_Ok:
  assumes "length b \<le> max_frame" and "length payload \<le> max_frame" and "cd_dec_header cd b = Some hdr"
  shows "read_activation cd (frame_bytes b @ frame_bytes payload) = Ok (hdr, payload)"
  using assms read_frame_bytes [OF assms(1), of "frame_bytes payload"] read_frame_bytes [OF assms(2), of "[]"]
  by (simp add: read_activation_def call_frame_def and_run_apply ok_or_def)

section \<open>Rows keep their width\<close>

definition width_ok :: "row tensor_ops \<Rightarrow> bool" where
  "width_ok ops \<longleftrightarrow> (\<forall>x y. length (op_add ops x y) = length x)"

lemma dense_layers_width:
  "width_ok ops \<Longrightarrow> length (fst (dense_layers ops ls pos x hs)) = length x"
  by (induction ops ls pos x hs rule: dense_layers.induct)
     (auto simp: split_beta Let_def dense_layer_def finish_layer_def width_ok_def)

lemma dense_tokens_width:
  "width_ok ops \<Longrightarrow> rows_fit w xs \<Longrightarrow> rows_fit w (fst (dense_tokens ops ls pos xs hs))"
  by (induction xs arbitrary: pos hs) (auto simp: rows_fit_def split_beta Let_def dense_layers_width)

lemma dense_tokens_append_layers:
  assumes "length hs1 = length ls1"
  shows "dense_tokens ops (ls1 @ ls2) pos xs (hs1 @ hs2) =
     (let (ys, hs1') = dense_tokens ops ls1 pos xs hs1; (zs, hs2') = dense_tokens ops ls2 pos ys hs2
      in (zs, hs1' @ hs2'))"
  using assms
proof (induction ls1 arbitrary: xs hs1)
  case Nil
  then show ?case by (simp add: split_beta Let_def)
next
  case (Cons l ls1)
  then obtain h hs where "hs1 = h # hs" by (cases hs1) auto
  with Cons show ?case
    by (simp add: dense_tokens_Cons split_beta Let_def)
qed

section \<open>The caches of a request at a node\<close>

definition entry_holds ::
    "row tensor_ops \<Rightarrow> nat \<Rightarrow> row decoder_block list \<Rightarrow> request_caches \<Rightarrow> uuid \<Rightarrow> nat \<Rightarrow> row history list \<Rightarrow> bool" where
  "entry_holds ops n bs caches r m hs \<longleftrightarrow>
     (\<forall>b \<in> set bs. block_ok n b) \<and> length (entry_caches ops (length bs) n r caches) = length bs
     \<and> caches_hold n (entry_caches ops (length bs) n r caches) hs \<and> (\<forall>h \<in> set hs. length h = m)"

lemma entry_holds_length: "entry_holds ops n bs caches r m hs \<Longrightarrow> length hs = length bs"
  by (auto simp: entry_holds_def caches_hold_def dest: list_all2_lengthD)

lemma entry_holds_fresh:
  "\<forall>b \<in> set bs. block_ok n b \<Longrightarrow> caches r = None \<Longrightarrow> entry_holds ops n bs caches r 0 (replicate (length bs) [])"
  by (auto simp: entry_holds_def entry_caches_def make_caches_def caches_hold_def list_all2_conv_all_nth slot_holds_new)

lemma entry_holds_other:
  "caches' r = caches r \<Longrightarrow> entry_holds ops n bs caches' r m hs = entry_holds ops n bs caches r m hs"
  by (simp add: entry_holds_def entry_caches_def)

lemma run_stage_Ok:
  assumes "mask_neutral ops" and "entry_holds ops n bs caches r m hs" and "m + length xs \<le> n"
  shows "\<exists>caches'. run_stage ops bs n r m xs caches
      = (Ok (fst (dense_tokens ops (map as_layer bs) m xs hs)) :: ('e, _) outcome, caches')
    \<and> entry_holds ops n bs caches' r (m + length xs) (snd (dense_tokens ops (map as_layer bs) m xs hs))
    \<and> (\<forall>r'. r' \<noteq> r \<longrightarrow> caches' r' = caches r')"
proof -
  let ?c = "entry_caches ops (length bs) n r caches"
  have e: "\<forall>b \<in> set bs. block_ok n b" "length ?c = length bs" "caches_hold n ?c hs" "\<forall>h \<in> set hs. length h = m"
    using assms(2) by (auto simp: entry_holds_def)
  obtain c' where c': "run_blocks ops (positions_from m (length xs)) bs xs ?c
      = (Ok (fst (dense_tokens ops (map as_layer bs) m xs hs)) :: ('e, _) outcome, c')"
    "caches_hold n c' (snd (dense_tokens ops (map as_layer bs) m xs hs))"
    using run_blocks_refines [OF assms(1) e assms(3)] by blast
  have "length c' = length bs"
    using run_blocks_length [OF c'(1)] e(2) by simp
  then have "entry_holds ops n bs (caches(r \<mapsto> c')) r (m + length xs) (snd (dense_tokens ops (map as_layer bs) m xs hs))"
    using e(1) c'(2) dense_tokens_lengths [OF e(4)] by (simp add: entry_holds_def entry_caches_def)
  moreover have "run_stage ops bs n r m xs caches
      = (Ok (fst (dense_tokens ops (map as_layer bs) m xs hs)) :: ('e, _) outcome, caches(r \<mapsto> c'))"
    unfolding run_stage_def c'(1) prod.case ..
  ultimately show ?thesis by fastforce
qed

section \<open>The answers of the serving loops\<close>

definition relay_header :: "uuid \<Rightarrow> nat \<Rightarrow> nat \<Rightarrow> nat \<Rightarrow> activation_header" where
  "relay_header r m seq w =
     \<lparr>ah_request_id = r, ah_seq_pos = word_of_nat m, ah_shape = shape_u32 (1, seq, w), ah_dtype = F32,
      ah_is_terminal = False\<rparr>"

definition sendable :: "nat \<Rightarrow> row list \<Rightarrow> bool" where
  "sendable w xs \<longleftrightarrow> rows_fit w xs \<and> 4 * (length xs * w) \<le> max_frame \<and> w < 2 ^ 32 \<and> length xs < 2 ^ 32"

definition payload_of :: "row list \<Rightarrow> bytes" where
  "payload_of xs = f32_bytes (concat xs)"

lemma sendable_payload:
  assumes "sendable w xs"
  shows "length (payload_of xs) \<le> max_frame" and "tensor_from_bytes (payload_of xs) (1, length xs, w) = Ok xs"
    and "shape_usize (shape_u32 (1, length xs, w)) = (1, length xs, w)"
    and "tensor_to_bytes w xs = (payload_of xs, 1, length xs, w)"
proof -
  have s: "rows_fit w xs" "4 * (length xs * w) \<le> max_frame" "w < 2 ^ 32" "length xs < 2 ^ 32"
    using assms by (auto simp: sendable_def)
  show "length (payload_of xs) \<le> max_frame"
    using s(2) length_concat_rows [OF s(1)] by (simp add: payload_of_def)
  have "length xs * w < usize_bound"
    using s(2) by (simp add: max_frame_def usize_bound_def mult.commute)
  from tensor_bytes_roundtrip [OF s(1) this] show "tensor_from_bytes (payload_of xs) (1, length xs, w) = Ok xs"
    by (simp add: tensor_to_bytes_def payload_of_def)
  show "shape_usize (shape_u32 (1, length xs, w)) = (1, length xs, w)"
    using s(3,4) by (intro shape_roundtrip) simp_all
  show "tensor_to_bytes w xs = (payload_of xs, 1, length xs, w)"
    by (simp add: tensor_to_bytes_def payload_of_def)
qed

lemma sendable_dense:
  "width_ok ops \<Longrightarrow> sendable w xs \<Longrightarrow> sendable w (fst (dense_tokens ops ls m xs hs))"
  by (simp add: sendable_def dense_tokens_width)

lemma recv_frame_Ok:
  "length p \<le> max_frame \<Longrightarrow>
    recv_frame \<lparr>io_recv = frame_bytes p @ rest, io_send = out, io_caches = c\<rparr>
      = (Ok p, \<lparr>io_recv = rest, io_send = out, io_caches = c\<rparr>)"
  by (simp add: recv_frame_def read_frame_bytes)

lemma send_frame_Ok:
  "length p \<le> max_frame \<Longrightarrow>
    send_frame p \<lparr>io_recv = inp, io_send = out, io_caches = c\<rparr>
      = (Ok (), \<lparr>io_recv = inp, io_send = out @ frame_bytes p, io_caches = c\<rparr>)"
  by (simp add: send_frame_def write_frame_Ok)

lemma with_caches_Ok:
  "m c = (x, c') \<Longrightarrow> with_caches m \<lparr>io_recv = inp, io_send = out, io_caches = c\<rparr>
      = (x, \<lparr>io_recv = inp, io_send = out, io_caches = c'\<rparr>)"
  by (simp add: with_caches_def)

lemmas served = recv_frame_Ok send_frame_Ok with_caches_Ok

lemma enc_header_small:
  assumes "codec_ok cd"
  obtains b where "cd_enc_header cd h = Some b" and "cd_dec_header cd b = Some h" and "length b \<le> max_frame"
proof -
  obtain b where "cd_enc_header cd h = Some b" "cd_dec_header cd b = Some h" "length b \<le> 128"
    using assms unfolding codec_ok_def by blast
  then show thesis by (intro that [of b]) (auto simp: max_frame_def)
qed

lemma enc_relay_small:
  assumes "codec_ok cd"
  obtains b where "cd_enc_frame cd (Relay h) = Some b" and "cd_dec_frame cd b = Some (Relay h)" and "length b \<le> max_frame"
proof -
  obtain b where "cd_enc_frame cd (Relay h) = Some b" "cd_dec_frame cd b = Some (Relay h)" "length b \<le> 128"
    using assms unfolding codec_ok_def by blast
  then show thesis by (intro that [of b]) (auto simp: max_frame_def)
qed

text \<open>The part of the two loops after the payload has been decoded.\<close>

lemma peer_relay_answer:
  assumes "codec_ok cd" "mask_neutral ops" "width_ok ops"
    and "entry_holds ops (ps_max_seq st) (ps_blocks st) caches r m hs"
    and "sendable w xs" "m + length xs \<le> ps_max_seq st" "ps_max_seq st < 2 ^ 32"
  shows "\<exists>b caches'. cd_dec_header cd b = Some (relay_header r m (length xs) w) \<and> length b \<le> max_frame
    \<and> handle_relay cd ops st (relay_header r m (length xs) w)
        \<lparr>io_recv = frame_bytes (payload_of xs), io_send = [], io_caches = caches\<rparr>
      = (Ok (), \<lparr>io_recv = [], io_send = frame_bytes b
            @ frame_bytes (payload_of (fst (dense_tokens ops (map as_layer (ps_blocks st)) m xs hs))),
          io_caches = caches'\<rparr>)
    \<and> entry_holds ops (ps_max_seq st) (ps_blocks st) caches' r (m + length xs)
        (snd (dense_tokens ops (map as_layer (ps_blocks st)) m xs hs))
    \<and> (\<forall>r'. r' \<noteq> r \<longrightarrow> caches' r' = caches r')"
proof -
  let ?hdr = "relay_header r m (length xs) w" and ?d = "dense_tokens ops (map as_layer (ps_blocks st)) m xs hs"
  have pos: "unat (word_of_nat m :: u32) = m" using assms(6,7) by (simp add: unat_of_nat)
  obtain b where b: "cd_enc_header cd ?hdr = Some b" "cd_dec_header cd b = Some ?hdr" "length b \<le> max_frame"
    by (rule enc_header_small [OF assms(1)])
  obtain caches' where c': "run_stage ops (ps_blocks st) (ps_max_seq st) r m xs caches
      = (Ok (fst ?d) :: (peer_error, _) outcome, caches')"
    "entry_holds ops (ps_max_seq st) (ps_blocks st) caches' r (m + length xs) (snd ?d)" "\<forall>r'. r' \<noteq> r \<longrightarrow> caches' r' = caches r'"
    using run_stage_Ok [OF assms(2,4,6)] by blast
  note out = sendable_payload [OF sendable_dense [OF assms(3,5), of "map as_layer (ps_blocks st)" m hs], unfolded length_dense_tokens]
  note inp = sendable_payload [OF assms(5)]
  have hdr: "?hdr\<lparr>ah_shape := shape_u32 (1, length xs, w)\<rparr> = ?hdr" by (simp add: relay_header_def)
  have recv: "recv_frame \<lparr>io_recv = frame_bytes (payload_of xs), io_send = [], io_caches = caches\<rparr>
      = (Ok (payload_of xs), \<lparr>io_recv = [], io_send = [], io_caches = caches\<rparr>)"
    using recv_frame_Ok [OF inp(1), of "[]"] by simp
  have fields: "ah_shape ?hdr = shape_u32 (1, length xs, w)" "ah_request_id ?hdr = r" "unat (ah_seq_pos ?hdr) = m"
    "ah_is_terminal ?hdr = False"
    by (simp_all add: relay_header_def pos)
  have "handle_relay cd ops st ?hdr \<lparr>io_recv = frame_bytes (payload_of xs), io_send = [], io_caches = caches\<rparr>
      = (Ok (), \<lparr>io_recv = [], io_send = frame_bytes b @ frame_bytes (payload_of (fst ?d)), io_caches = caches'\<rparr>)"
    unfolding handle_relay_def Let_def and_run_apply recv prod.case outcome.case pure_op_apply fields inp(2,3) map_err.simps
      fst_conv snd_conv simp_thms if_False with_caches_Ok [of "run_stage ops (ps_blocks st) (ps_max_seq st) r m xs", OF c'(1)] out(4) hdr b(1)
    by (simp add: ok_or_def and_run_apply send_frame_Ok b(3) out(1))
  with b c' show ?thesis by blast
qed

lemma worker_answer:
  assumes "codec_ok cd" "mask_neutral ops" "width_ok ops"
    and "entry_holds ops (wk_max_seq wk) (wk_blocks wk) caches r m hs"
    and "sendable w xs" "m + length xs \<le> wk_max_seq wk" "wk_max_seq wk < 2 ^ 32"
  shows "\<exists>fb b caches'. cd_enc_header cd (relay_header r m (length xs) w) = Some fb \<and> length fb \<le> max_frame
    \<and> cd_dec_header cd b = Some (relay_header r m (length xs) w) \<and> length b \<le> max_frame
    \<and> worker_stream cd ops wk
        \<lparr>io_recv = frame_bytes fb @ frame_bytes (payload_of xs), io_send = [], io_caches = caches\<rparr>
      = (Ok (), \<lparr>io_recv = [], io_send = frame_bytes b
            @ frame_bytes (payload_of (fst (dense_tokens ops (map as_layer (wk_blocks wk)) m xs hs))),
          io_caches = caches'\<rparr>)
    \<and> entry_holds ops (wk_max_seq wk) (wk_blocks wk) caches' r (m + length xs)
        (snd (dense_tokens ops (map as_layer (wk_blocks wk)) m xs hs))
    \<and> (\<forall>r'. r' \<noteq> r \<longrightarrow> caches' r' = caches r')"
proof -
  let ?hdr = "relay_header r m (length xs) w" and ?d = "dense_tokens ops (map as_layer (wk_blocks wk)) m xs hs"
  have pos: "unat (word_of_nat m :: u32) = m" using assms(6,7) by (simp add: unat_of_nat)
  obtain b where b: "cd_enc_header cd ?hdr = Some b" "cd_dec_header cd b = Some ?hdr" "length b \<le> max_frame"
    by (rule enc_header_small [OF assms(1)])
  obtain caches' where c': "run_stage ops (wk_blocks wk) (wk_max_seq wk) r m xs caches
      = (Ok (fst ?d) :: (peer_error, _) outcome, caches')"
    "entry_holds ops (wk_max_seq wk) (wk_blocks wk) caches' r (m + length xs) (snd ?d)" "\<forall>r'. r' \<noteq> r \<longrightarrow> caches' r' = caches r'"
    using run_stage_Ok [OF assms(2,4,6)] by blast
  note out = sendable_payload [OF sendable_dense [OF assms(3,5), of "map as_layer (wk_blocks wk)" m hs], unfolded length_dense_tokens]
  note inp = sendable_payload [OF assms(5)]
  have recv: "recv_frame \<lparr>io_recv = frame_bytes (payload_of xs), io_send = [], io_caches = caches\<rparr>
      = (Ok (payload_of xs), \<lparr>io_recv = [], io_send = [], io_caches = caches\<rparr>)"
    using recv_frame_Ok [OF inp(1), of "[]"] by simp
  have fields: "ah_shape ?hdr = shape_u32 (1, length xs, w)" "ah_request_id ?hdr = r" "unat (ah_seq_pos ?hdr) = m"
    "ah_is_terminal ?hdr = False"
    and hdr: "\<lparr>ah_request_id = r, ah_seq_pos = ah_seq_pos ?hdr, ah_shape = shape_u32 (1, length xs, w), ah_dtype = F32,
      ah_is_terminal = False\<rparr> = ?hdr"
    by (simp_all add: relay_header_def pos)
  have "worker_stream cd ops wk \<lparr>io_recv = frame_bytes b @ frame_bytes (payload_of xs), io_send = [], io_caches = caches\<rparr>
      = (Ok (), \<lparr>io_recv = [], io_send = frame_bytes b @ frame_bytes (payload_of (fst ?d)), io_caches = caches'\<rparr>)"
    unfolding worker_stream_def Let_def and_run_apply recv_frame_Ok [OF b(3)] b(2) recv prod.case outcome.case pure_op_apply
      ok_or_def option.case fields inp(2,3) map_err.simps fst_conv snd_conv simp_thms if_False
      with_caches_Ok [of "run_stage ops (wk_blocks wk) (wk_max_seq wk) r m xs", OF c'(1)] out(4) hdr b(1)
    by (simp add: send_frame_Ok b(3) out(1))
  with b c' show ?thesis by blast
qed

section \<open>The contract of a hop\<close>

locale relay_server =
  fixes first_frame :: "codec \<Rightarrow> activation_header \<Rightarrow> bytes option"
    and serve :: "codec \<Rightarrow> row tensor_ops \<Rightarrow> 's \<Rightarrow> (stream_io, peer_error, unit) stateful"
    and stage_blocks :: "'s \<Rightarrow> row decoder_block list"
    and stage_max :: "'s \<Rightarrow> nat"
  assumes answers: "codec_ok cd \<Longrightarrow> mask_neutral ops \<Longrightarrow> width_ok ops
    \<Longrightarrow> entry_holds ops (stage_max st) (stage_blocks st) caches r m hs
    \<Longrightarrow> sendable w xs \<Longrightarrow> m + length xs \<le> stage_max st \<Longrightarrow> stage_max st < 2 ^ 32
    \<Longrightarrow> \<exists>fb b caches'. first_frame cd (relay_header r m (length xs) w) = Some fb \<and> length fb \<le> max_frame
      \<and> cd_dec_header cd b = Some (relay_header r m (length xs) w) \<and> length b \<le> max_frame
      \<and> serve cd ops st \<lparr>io_recv = frame_bytes fb @ frame_bytes (payload_of xs), io_send = [], io_caches = caches\<rparr>
        = (Ok (), \<lparr>io_recv = [], io_send = frame_bytes b
              @ frame_bytes (payload_of (fst (dense_tokens ops (map as_layer (stage_blocks st)) m xs hs))),
            io_caches = caches'\<rparr>)
      \<and> entry_holds ops (stage_max st) (stage_blocks st) caches' r (m + length xs)
          (snd (dense_tokens ops (map as_layer (stage_blocks st)) m xs hs))
      \<and> (\<forall>r'. r' \<noteq> r \<longrightarrow> caches' r' = caches r')"
begin

definition serves :: "codec \<Rightarrow> row tensor_ops \<Rightarrow> link \<Rightarrow> 's \<Rightarrow> uuid \<Rightarrow> nat \<Rightarrow> row history list \<Rightarrow> bool" where
  "serves cd ops l st r m hs \<longleftrightarrow> lk_serve l = serve cd ops st
     \<and> (\<exists>caches. lk_caches l = Some caches \<and> entry_holds ops (stage_max st) (stage_blocks st) caches r m hs)"

lemma serves_length: "serves cd ops l st r m hs \<Longrightarrow> length hs = length (stage_blocks st)"
  by (auto simp: serves_def dest: entry_holds_length)

lemma hop:
  assumes "codec_ok cd" "mask_neutral ops" "width_ok ops" and "serves cd ops l st r m hs"
    and "sendable w xs" "m + length xs \<le> stage_max st" "stage_max st < 2 ^ 32"
  obtains answer l' where "rpc [first_frame cd (relay_header r m (length xs) w), Some (payload_of xs)] l = (Ok answer, l')"
    and "read_activation cd answer = Ok (relay_header r m (length xs) w,
        payload_of (fst (dense_tokens ops (map as_layer (stage_blocks st)) m xs hs)))"
    and "serves cd ops l' st r (m + length xs) (snd (dense_tokens ops (map as_layer (stage_blocks st)) m xs hs))"
    and "\<And>r' m' gs. r' \<noteq> r \<Longrightarrow> serves cd ops l st r' m' gs \<Longrightarrow> serves cd ops l' st r' m' gs"
proof -
  let ?d = "dense_tokens ops (map as_layer (stage_blocks st)) m xs hs"
  obtain caches where l: "lk_serve l = serve cd ops st" "lk_caches l = Some caches"
    "entry_holds ops (stage_max st) (stage_blocks st) caches r m hs"
    using assms(4) by (auto simp: serves_def)
  obtain fb b caches' where a: "first_frame cd (relay_header r m (length xs) w) = Some fb" "length fb \<le> max_frame"
    "cd_dec_header cd b = Some (relay_header r m (length xs) w)" "length b \<le> max_frame"
    "serve cd ops st \<lparr>io_recv = frame_bytes fb @ frame_bytes (payload_of xs), io_send = [], io_caches = caches\<rparr>
        = (Ok (), \<lparr>io_recv = [], io_send = frame_bytes b @ frame_bytes (payload_of (fst ?d)), io_caches = caches'\<rparr>)"
    "entry_holds ops (stage_max st) (stage_blocks st) caches' r (m + length xs) (snd ?d)"
    "\<forall>r'. r' \<noteq> r \<longrightarrow> caches' r' = caches r'"
    using answers [OF assms(1-3) l(3) assms(5-7)] by blast
  let ?l = "l\<lparr>lk_caches := Some caches'\<rparr>"
  have small: "\<forall>b \<in> set [fb, payload_of xs]. length b \<le> max_frame"
    using a(2) sendable_payload(1) [OF assms(5)] by simp
  have "rpc (map Some [fb, payload_of xs]) l = (Ok (frame_bytes b @ frame_bytes (payload_of (fst ?d))), ?l)"
    using rpc_Ok [OF l(2) small, of "\<lparr>io_recv = [], io_send = frame_bytes b @ frame_bytes (payload_of (fst ?d)), io_caches = caches'\<rparr>"]
    by (simp add: l(1) a(5))
  then have "rpc [first_frame cd (relay_header r m (length xs) w), Some (payload_of xs)] l
      = (Ok (frame_bytes b @ frame_bytes (payload_of (fst ?d))), ?l)"
    by (simp add: a(1))
  moreover have "read_activation cd (frame_bytes b @ frame_bytes (payload_of (fst ?d)))
      = Ok (relay_header r m (length xs) w, payload_of (fst ?d))"
    by (rule read_activation_Ok [where b = b, OF a(4) sendable_payload(1) [OF sendable_dense [OF assms(3,5)]] a(3)])
  moreover have "serves cd ops ?l st r (m + length xs) (snd ?d)"
    using l(1) a(6) by (simp add: serves_def)
  moreover have "serves cd ops ?l st r' m' gs" if "r' \<noteq> r" "serves cd ops l st r' m' gs" for r' m' gs
    using that l a(7) entry_holds_other [of caches' r' caches] by (simp add: serves_def)
  ultimately show thesis
    by (rule that)
qed

end

interpretation peer: relay_server "\<lambda>cd h. cd_enc_frame cd (Relay h)" handle_stream ps_blocks ps_max_seq
proof (unfold_locales, goal_cases)
  case (1 cd ops st caches r m hs w xs)
  let ?hdr = "relay_header r m (length xs) w"
  obtain fb where fb: "cd_enc_frame cd (Relay ?hdr) = Some fb" "cd_dec_frame cd fb = Some (Relay ?hdr)" "length fb \<le> max_frame"
    by (rule enc_relay_small [OF 1(1)])
  have "handle_stream cd ops st \<lparr>io_recv = frame_bytes fb @ frame_bytes (payload_of xs), io_send = [], io_caches = caches\<rparr>
      = handle_relay cd ops st ?hdr \<lparr>io_recv = frame_bytes (payload_of xs), io_send = [], io_caches = caches\<rparr>"
    by (simp add: handle_stream_def and_run_apply recv_frame_Ok [OF fb(3)] fb(2) ok_or_def)
  with fb peer_relay_answer [OF 1] show ?case by simp
qed

interpretation worker: relay_server cd_enc_header worker_stream wk_blocks wk_max_seq
  by unfold_locales (rule worker_answer)

end
