(* ===== verification/Coordinator.thy ===== *)
theory Coordinator
  imports Hop Partition Sample
begin

text \<open>
  The coordinator of a request (\<open>cluster/src/coordinator.rs\<close>): the node that took the request
  drives the forward pass over its connections, in the order of the agreed manifest, and samples
  the tokens.  The state is the map from node ids to connections; \<open>drive\<close> also keeps the tokens
  delivered so far, and its callback is a function of these.

  The main theorem: over a mesh whose nodes hold the ranges of a model, the coordinator
  generates exactly what the whole model generates on one machine.
\<close>

section \<open>Routing\<close>

type_synonym mesh = "string \<rightharpoonup> link"

record coordinator =
  co_local_id :: string
  co_manifest :: manifest

datatype route = Local | Remote link

definition route :: "coordinator \<Rightarrow> mesh \<Rightarrow> string \<Rightarrow> route option" where
  "route co peers node_id =
     (case peers node_id of
        Some conn \<Rightarrow> Some (Remote conn)
      | None \<Rightarrow> if node_id = co_local_id co then Some Local else None)"

definition missing_peers :: "coordinator \<Rightarrow> mesh \<Rightarrow> string list" where
  "missing_peers co peers =
     filter (\<lambda>i. i \<noteq> co_local_id co \<and> peers i = None) (map na_node_id (mf_assignments (co_manifest co)))"

definition conn_for :: "coordinator \<Rightarrow> mesh \<Rightarrow> string \<Rightarrow> (call_error, link) outcome" where
  "conn_for co peers node_id =
     (case route co peers node_id of
        Some (Remote c) \<Rightarrow> Ok c
      | Some Local \<Rightarrow> Err (LocalHop node_id)
      | None \<Rightarrow> Err (NoConnection node_id))"

definition plan :: "coordinator \<Rightarrow> hop list option" where
  "plan co = forward_plan (co_manifest co) (co_local_id co)"

section \<open>The forward pass\<close>

definition call_peer :: "coordinator \<Rightarrow> string \<Rightarrow> bytes option list \<Rightarrow> (mesh, call_error, bytes) stateful" where
  "call_peer co node_id frames = (\<lambda>peers.
     case conn_for co peers node_id of
       Ok c \<Rightarrow> (case rpc frames c of (r, c') \<Rightarrow> (r, peers(node_id \<mapsto> c')))
     | Err e \<Rightarrow> (Err e, peers)
     | Panic \<Rightarrow> (Panic, peers))"

definition read_logits :: "codec \<Rightarrow> bytes \<Rightarrow> (call_error, row) outcome" where
  "read_logits cd answer =
     fst (and_run call_frame (\<lambda>b.
          and_run (pure_op (ok_or CallDecode (cd_dec_msg cd b))) (\<lambda>msg.
            case msg of
              Logits _ _ logits \<Rightarrow> ret logits
            | Fault _ detail \<Rightarrow> pure_op (Err (PeerFault detail)))) answer)"

fun middle_hops ::
    "codec \<Rightarrow> coordinator \<Rightarrow> string list \<Rightarrow> activation_header \<times> bytes \<Rightarrow> (mesh, call_error, activation_header \<times> bytes) stateful" where
  "middle_hops cd co [] act = ret act"
| "middle_hops cd co (mid # mids) (hdr, payload) =
     and_run (call_peer co mid [cd_enc_frame cd (Relay hdr), Some payload]) (\<lambda>answer.
     and_run (pure_op (read_activation cd answer)) (\<lambda>act. middle_hops cd co mids act))"

definition forward_pass ::
    "codec \<Rightarrow> coordinator \<Rightarrow> uuid \<Rightarrow> string list \<Rightarrow> u32 list \<Rightarrow> nat \<Rightarrow> (mesh, call_error, row) stateful" where
  "forward_pass cd co r ids tokens pos =
     (if ids = [] then pure_op Panic
      else
        and_run (call_peer co (hd ids) [cd_enc_frame cd (Coord (Embed r (word_of_nat pos) tokens))]) (\<lambda>answer.
        and_run (pure_op (read_activation cd answer)) (\<lambda>act.
        if length ids < 2 then pure_op Panic
        else
        and_run (middle_hops cd co (butlast (tl ids)) act) (\<lambda>(hdr, payload).
        and_run (call_peer co (last ids) [cd_enc_frame cd (Relay (hdr\<lparr>ah_is_terminal := True\<rparr>)), Some payload])
          (\<lambda>answer. pure_op (read_logits cd answer))))))"

section \<open>The token loop\<close>

record drive_state =
  dr_peers :: mesh
  dr_emitted :: "u32 list"

definition on_peers :: "(mesh, 'e, 'a) stateful \<Rightarrow> (drive_state, 'e, 'a) stateful" where
  "on_peers m = (\<lambda>s. case m (dr_peers s) of (r, p) \<Rightarrow> (r, s\<lparr>dr_peers := p\<rparr>))"

text \<open>\<open>on_token\<close>: the answer says whether the consumer is still there.\<close>

definition on_token :: "(u32 list \<Rightarrow> bool) \<Rightarrow> u32 \<Rightarrow> (drive_state, call_error, bool) stateful" where
  "on_token keep tok = (\<lambda>s. (Ok (keep (dr_emitted s @ [tok])), s\<lparr>dr_emitted := dr_emitted s @ [tok]\<rparr>))"

definition sample_token :: "u32 float_ops \<Rightarrow> row \<Rightarrow> u32 sampling_config \<Rightarrow> ('e, u32) outcome" where
  "sample_token fl logits cfg = (case sample fl logits cfg of Ok t \<Rightarrow> Ok t | _ \<Rightarrow> Panic)"

fun token_loop ::
    "codec \<Rightarrow> coordinator \<Rightarrow> u32 float_ops \<Rightarrow> u32 sampling_config \<Rightarrow> (u32 list \<Rightarrow> bool) \<Rightarrow> uuid \<Rightarrow> string list
      \<Rightarrow> nat \<Rightarrow> nat \<Rightarrow> nat \<Rightarrow> u32 \<Rightarrow> (drive_state, call_error, unit) stateful" where
  "token_loop cd co fl sampling keep r ids prompt_len 0 produced lst = ret ()"
| "token_loop cd co fl sampling keep r ids prompt_len (Suc n) produced lst =
     and_run (on_peers (forward_pass cd co r ids [lst] (prompt_len + produced - 1))) (\<lambda>logits.
     and_run (pure_op (sample_token fl logits sampling)) (\<lambda>lst.
     and_run (on_token keep lst) (\<lambda>go.
       if go then token_loop cd co fl sampling keep r ids prompt_len n (produced + 1) lst else ret ())))"

definition drive ::
    "codec \<Rightarrow> coordinator \<Rightarrow> u32 float_ops \<Rightarrow> u32 sampling_config \<Rightarrow> (u32 list \<Rightarrow> bool) \<Rightarrow> uuid \<Rightarrow> u32 list \<Rightarrow> nat
      \<Rightarrow> (drive_state, call_error, unit) stateful" where
  "drive cd co fl sampling keep r prompt_ids max_tokens = (\<lambda>s.
     let missing = missing_peers co (dr_peers s) in
     if missing \<noteq> [] then (Err (MissingPeers missing), s)
     else
       and_run (pure_op (ok_or MalformedManifest (plan co))) (\<lambda>hops.
       let ids = map hop_node_id hops in
       if length ids < 2 then pure_op (Err SingleNode)
       else
       and_run (on_peers (forward_pass cd co r ids prompt_ids 0)) (\<lambda>first.
       and_run (pure_op (sample_token fl first sampling)) (\<lambda>lst.
       and_run (on_token keep lst) (\<lambda>go.
         if go then token_loop cd co fl sampling keep r ids (length prompt_ids) (max_tokens - 1) 1 lst
         else ret ())))) s)"

definition generate ::
    "codec \<Rightarrow> coordinator \<Rightarrow> u32 float_ops \<Rightarrow> u32 sampling_config \<Rightarrow> uuid \<Rightarrow> u32 list \<Rightarrow> nat
      \<Rightarrow> (mesh, call_error, u32 list) stateful" where
  "generate cd co fl sampling r prompt_ids max_tokens = (\<lambda>peers.
     case drive cd co fl sampling (\<lambda>_. True) r prompt_ids max_tokens \<lparr>dr_peers = peers, dr_emitted = []\<rparr> of
       (Ok _, s) \<Rightarrow> (Ok (dr_emitted s), dr_peers s)
     | (Err e, s) \<Rightarrow> (Err e, dr_peers s)
     | (Panic, s) \<Rightarrow> (Panic, dr_peers s))"

text \<open>
  The stream: what its receiver gets, tokens and at most one error, while \<open>keep\<close> says when it is
  dropped.  A panic of the task ends the stream without an error.
\<close>

definition generate_stream ::
    "codec \<Rightarrow> coordinator \<Rightarrow> u32 float_ops \<Rightarrow> u32 sampling_config \<Rightarrow> (u32 list \<Rightarrow> bool) \<Rightarrow> uuid \<Rightarrow> u32 list \<Rightarrow> nat
      \<Rightarrow> mesh \<Rightarrow> (call_error + u32) list \<times> mesh" where
  "generate_stream cd co fl sampling keep r prompt_ids max_tokens peers =
     (case drive cd co fl sampling keep r prompt_ids max_tokens \<lparr>dr_peers = peers, dr_emitted = []\<rparr> of
        (Err e, s) \<Rightarrow> (map Inr (dr_emitted s) @ [Inl e], dr_peers s)
      | (_, s) \<Rightarrow> (map Inr (dr_emitted s), dr_peers s))"

section \<open>The same generation on one machine\<close>

definition local_logits ::
    "row tensor_ops \<Rightarrow> row rt_model \<Rightarrow> nat \<Rightarrow> u32 list \<Rightarrow> nat \<Rightarrow> (row kv_slot list, 'e, row) stateful" where
  "local_logits ops mdl vocab ids pos =
     and_run (forward_with_caches ops mdl ids pos) (\<lambda>rows. pure_op (last_logits vocab rows))"

fun local_tokens ::
    "row tensor_ops \<Rightarrow> row rt_model \<Rightarrow> nat \<Rightarrow> u32 float_ops \<Rightarrow> u32 sampling_config \<Rightarrow> nat \<Rightarrow> nat \<Rightarrow> u32 list
      \<Rightarrow> (row kv_slot list, 'e, u32 list) stateful" where
  "local_tokens ops mdl vocab fl sampling 0 pos ids = ret []"
| "local_tokens ops mdl vocab fl sampling (Suc n) pos ids =
     and_run (local_logits ops mdl vocab ids pos) (\<lambda>logits.
     and_run (pure_op (sample_token fl logits sampling)) (\<lambda>tok.
     and_run (local_tokens ops mdl vocab fl sampling n (pos + length ids) [tok]) (\<lambda>toks. ret (tok # toks))))"

definition local_generate ::
    "row tensor_ops \<Rightarrow> row rt_model \<Rightarrow> nat \<Rightarrow> u32 float_ops \<Rightarrow> u32 sampling_config \<Rightarrow> u32 list \<Rightarrow> nat
      \<Rightarrow> ('e, u32 list) outcome" where
  "local_generate ops mdl vocab fl sampling prompt n =
     fst (local_tokens ops mdl vocab fl sampling n 0 prompt
       (rs_caches (new_request_state ops mdl (rm_max_seq mdl))))"

section \<open>What the head and the tail of the pipeline answer\<close>

lemma enc_embed_small:
  assumes "codec_ok cd" and "128 + 8 * length ids \<le> max_frame"
  obtains b where "cd_enc_frame cd (Coord (Embed r p ids)) = Some b"
    and "cd_dec_frame cd b = Some (Coord (Embed r p ids))" and "length b \<le> max_frame"
proof -
  obtain b where "cd_enc_frame cd (Coord (Embed r p ids)) = Some b"
    "cd_dec_frame cd b = Some (Coord (Embed r p ids))" "length b \<le> 128 + 8 * length ids"
    using assms(1) unfolding codec_ok_def by blast
  then show thesis using assms(2) by (intro that [of b]) auto
qed

lemma enc_logits_small:
  assumes "codec_ok cd" and "128 + 8 * length v \<le> max_frame"
  obtains b where "cd_enc_msg cd (Logits r p v) = Some b"
    and "cd_dec_msg cd b = Some (Logits r p v)" and "length b \<le> max_frame"
proof -
  obtain b where "cd_enc_msg cd (Logits r p v) = Some b"
    "cd_dec_msg cd b = Some (Logits r p v)" "length b \<le> 128 + 8 * length v"
    using assms(1) unfolding codec_ok_def by blast
  then show thesis using assms(2) by (intro that [of b]) auto
qed

definition embedded :: "row list \<Rightarrow> u32 list \<Rightarrow> row list" where
  "embedded emb ids = map (\<lambda>i. emb ! unat i) ids"

lemma length_embedded [simp]: "length (embedded emb ids) = length ids"
  by (simp add: embedded_def)

lemma head_answer:
  assumes "codec_ok cd" "mask_neutral ops" "width_ok ops"
    and "entry_holds ops (ps_max_seq st) (ps_blocks st) caches r m hs"
    and "ps_embedding st = Some emb" and "\<forall>i \<in> set ids. unat i < length emb"
    and "sendable (ps_hidden st) (embedded emb ids)" "m + length ids \<le> ps_max_seq st" "ps_max_seq st < 2 ^ 32"
    and "128 + 8 * length ids \<le> max_frame"
  shows "\<exists>fb b caches'. cd_enc_frame cd (Coord (Embed r (word_of_nat m) ids)) = Some fb \<and> length fb \<le> max_frame
    \<and> cd_dec_header cd b = Some (relay_header r m (length ids) (ps_hidden st)) \<and> length b \<le> max_frame
    \<and> handle_stream cd ops st \<lparr>io_recv = frame_bytes fb, io_send = [], io_caches = caches\<rparr>
      = (Ok (), \<lparr>io_recv = [], io_send = frame_bytes b
            @ frame_bytes (payload_of (fst (dense_tokens ops (map as_layer (ps_blocks st)) m (embedded emb ids) hs))),
          io_caches = caches'\<rparr>)
    \<and> entry_holds ops (ps_max_seq st) (ps_blocks st) caches' r (m + length ids)
        (snd (dense_tokens ops (map as_layer (ps_blocks st)) m (embedded emb ids) hs))
    \<and> (\<forall>r'. r' \<noteq> r \<longrightarrow> caches' r' = caches r')"
proof -
  let ?d = "dense_tokens ops (map as_layer (ps_blocks st)) m (embedded emb ids) hs"
  let ?hdr = "relay_header r m (length ids) (ps_hidden st)"
  have pos: "unat (word_of_nat m :: u32) = m" using assms(8,9) by (simp add: unat_of_nat)
  obtain fb where fb: "cd_enc_frame cd (Coord (Embed r (word_of_nat m) ids)) = Some fb"
    "cd_dec_frame cd fb = Some (Coord (Embed r (word_of_nat m) ids))" "length fb \<le> max_frame"
    by (rule enc_embed_small [OF assms(1,10)])
  obtain b where b: "cd_enc_header cd ?hdr = Some b" "cd_dec_header cd b = Some ?hdr" "length b \<le> max_frame"
    by (rule enc_header_small [OF assms(1)])
  have room: "m + length (embedded emb ids) \<le> ps_max_seq st" using assms(8) by simp
  obtain caches' where c': "run_stage ops (ps_blocks st) (ps_max_seq st) r m (embedded emb ids) caches
      = (Ok (fst ?d) :: (peer_error, _) outcome, caches')"
    "entry_holds ops (ps_max_seq st) (ps_blocks st) caches' r (m + length ids) (snd ?d)" "\<forall>r'. r' \<noteq> r \<longrightarrow> caches' r' = caches r'"
    using run_stage_Ok [OF assms(2,4) room] unfolding length_embedded by blast
  note out = sendable_payload [OF sendable_dense [OF assms(3,7), of "map as_layer (ps_blocks st)" m hs],
      unfolded length_dense_tokens length_embedded]
  have emb: "embed_tokens emb ids = (Ok (embedded emb ids) :: (peer_error, _) outcome)"
    using assms(6) by (simp add: embed_tokens_def embedded_def list_all_iff)
  have hdr: "\<lparr>ah_request_id = r, ah_seq_pos = word_of_nat m, ah_shape = shape_u32 (1, length ids, ps_hidden st), ah_dtype = F32,
      ah_is_terminal = False\<rparr> = ?hdr"
    by (simp add: relay_header_def)
  have recv: "recv_frame \<lparr>io_recv = frame_bytes fb, io_send = [], io_caches = caches\<rparr>
      = (Ok fb, \<lparr>io_recv = [], io_send = [], io_caches = caches\<rparr>)"
    using recv_frame_Ok [OF fb(3), of "[]"] by simp
  have "handle_stream cd ops st \<lparr>io_recv = frame_bytes fb, io_send = [], io_caches = caches\<rparr>
      = (Ok (), \<lparr>io_recv = [], io_send = frame_bytes b @ frame_bytes (payload_of (fst ?d)), io_caches = caches'\<rparr>)"
    unfolding handle_stream_def handle_embed_def Let_def and_run_apply recv prod.case outcome.case pure_op_apply fb(2)
      ok_or_def option.case peer_frame.case coordinator_msg.case assms(5) emb pos
      with_caches_Ok [of "run_stage ops (ps_blocks st) (ps_max_seq st) r m (embedded emb ids)", OF c'(1)] out(4) hdr b(1)
    by (simp add: send_frame_Ok b(3) out(1))
  with fb b c' show ?thesis by blast
qed

lemma tail_answer:
  assumes "codec_ok cd" "mask_neutral ops" "width_ok ops"
    and "entry_holds ops (ps_max_seq st) (ps_blocks st) caches r m hs"
    and "ps_final_norm st = Some fnorm" and "ps_output st = Some outp"
    and "sendable w xs" "m + length xs \<le> ps_max_seq st" "ps_max_seq st < 2 ^ 32"
    and "xs \<noteq> []" and "\<forall>x. ps_vocab st \<le> length (outp x)" and "128 + 8 * ps_vocab st \<le> max_frame"
  shows "\<exists>fb b caches'. cd_enc_frame cd (Relay (relay_header r m (length xs) w\<lparr>ah_is_terminal := True\<rparr>)) = Some fb
    \<and> length fb \<le> max_frame \<and> length b \<le> max_frame
    \<and> (\<exists>p. cd_dec_msg cd b = Some (Logits r p (take (ps_vocab st)
        (outp (fnorm (last (fst (dense_tokens ops (map as_layer (ps_blocks st)) m xs hs))))))))
    \<and> handle_stream cd ops st \<lparr>io_recv = frame_bytes fb @ frame_bytes (payload_of xs), io_send = [], io_caches = caches\<rparr>
      = (Ok (), \<lparr>io_recv = [], io_send = frame_bytes b, io_caches = caches'\<rparr>)
    \<and> entry_holds ops (ps_max_seq st) (ps_blocks st) caches' r (m + length xs)
        (snd (dense_tokens ops (map as_layer (ps_blocks st)) m xs hs))
    \<and> (\<forall>r'. r' \<noteq> r \<longrightarrow> caches' r' = caches r')"
proof -
  let ?d = "dense_tokens ops (map as_layer (ps_blocks st)) m xs hs"
  let ?hdr = "relay_header r m (length xs) w\<lparr>ah_is_terminal := True\<rparr>"
  define v where "v = take (ps_vocab st) (outp (fnorm (last (fst ?d))))"
  have pos: "unat (word_of_nat m :: u32) = m" using assms(8,9) by (simp add: unat_of_nat)
  obtain fb where fb: "cd_enc_frame cd (Relay ?hdr) = Some fb" "cd_dec_frame cd fb = Some (Relay ?hdr)" "length fb \<le> max_frame"
    by (rule enc_relay_small [OF assms(1)])
  have vlen: "length v = ps_vocab st" using assms(11) by (simp add: v_def min_absorb2)
  obtain b where b: "cd_enc_msg cd (Logits r (word_of_nat m) v) = Some b"
    "cd_dec_msg cd b = Some (Logits r (word_of_nat m) v)" "length b \<le> max_frame"
    using enc_logits_small [OF assms(1), of v] assms(12) vlen by metis
  obtain caches' where c': "run_stage ops (ps_blocks st) (ps_max_seq st) r m xs caches
      = (Ok (fst ?d) :: (peer_error, _) outcome, caches')"
    "entry_holds ops (ps_max_seq st) (ps_blocks st) caches' r (m + length xs) (snd ?d)" "\<forall>r'. r' \<noteq> r \<longrightarrow> caches' r' = caches r'"
    using run_stage_Ok [OF assms(2,4,8)] by blast
  note inp = sendable_payload [OF assms(7)]
  have ne: "fst ?d \<noteq> []"
    using assms(10) length_dense_tokens [of ops "map as_layer (ps_blocks st)" m xs hs] by (metis length_0_conv)
  then have "last_logits (ps_vocab st) (map (\<lambda>x. outp (fnorm x)) (fst ?d)) = (Ok v :: (peer_error, _) outcome)"
    using assms(11) by (simp add: last_logits_def last_map v_def not_less)
  moreover have recv: "recv_frame \<lparr>io_recv = frame_bytes (payload_of xs), io_send = [], io_caches = caches\<rparr>
      = (Ok (payload_of xs), \<lparr>io_recv = [], io_send = [], io_caches = caches\<rparr>)"
    using recv_frame_Ok [OF inp(1), of "[]"] by simp
  moreover have fields: "ah_shape ?hdr = shape_u32 (1, length xs, w)" "ah_request_id ?hdr = r" "ah_seq_pos ?hdr = word_of_nat m"
    "ah_is_terminal ?hdr = True"
    by (simp_all add: relay_header_def)
  ultimately have "handle_stream cd ops st \<lparr>io_recv = frame_bytes fb @ frame_bytes (payload_of xs), io_send = [], io_caches = caches\<rparr>
      = (Ok (), \<lparr>io_recv = [], io_send = frame_bytes b, io_caches = caches'\<rparr>)"
    unfolding handle_stream_def handle_relay_def Let_def and_run_apply recv_frame_Ok [OF fb(3)] prod.case outcome.case pure_op_apply fb(2)
      ok_or_def option.case peer_frame.case recv inp(2,3) map_err.simps fields pos fst_conv snd_conv simp_thms if_False if_True
      with_caches_Ok [of "run_stage ops (ps_blocks st) (ps_max_seq st) r m xs", OF c'(1)] assms(5,6)
    by (simp add: b(1) send_frame_Ok b(3))
  with fb b c' show ?thesis unfolding v_def by blast
qed

section \<open>A mesh that holds the ranges of a model\<close>

type_synonym stage_list = "(string \<times> peer_stages) list"

definition mesh_serves ::
    "codec \<Rightarrow> row tensor_ops \<Rightarrow> mesh \<Rightarrow> stage_list \<Rightarrow> uuid \<Rightarrow> nat \<Rightarrow> row history list list \<Rightarrow> bool" where
  "mesh_serves cd ops peers sts r m hss \<longleftrightarrow>
     list_all2 (\<lambda>(i, st) hs. \<exists>l. peers i = Some l \<and> peer.serves cd ops l st r m hs) sts hss"

definition stage_layers :: "stage_list \<Rightarrow> row layer list" where
  "stage_layers sts = map as_layer (concat (map (\<lambda>(i, st). ps_blocks st) sts))"

lemma stage_layers_simps [simp]:
  "stage_layers [] = []" "stage_layers ((i, st) # sts) = map as_layer (ps_blocks st) @ stage_layers sts"
  "stage_layers (sts @ ts) = stage_layers sts @ stage_layers ts"
  by (simp_all add: stage_layers_def)

lemma mesh_serves_lengths:
  "mesh_serves cd ops peers sts r m hss \<Longrightarrow> length (concat hss) = length (stage_layers sts)"
  unfolding mesh_serves_def
  by (induction rule: list_all2_induct) (auto dest: peer.serves_length)

lemma mesh_serves_cong:
  assumes "\<And>i. i \<in> fst ` set sts \<Longrightarrow> p i = q i"
  shows "mesh_serves cd ops p sts r m hss = mesh_serves cd ops q sts r m hss"
  using assms unfolding mesh_serves_def by (intro list.rel_cong refl) force

text \<open>What a piece of the pipeline does to the mesh when it processes \<open>k\<close> rows of request \<open>r\<close>.\<close>

definition hops_done ::
    "codec \<Rightarrow> row tensor_ops \<Rightarrow> stage_list \<Rightarrow> uuid \<Rightarrow> nat \<Rightarrow> row history list list \<Rightarrow> mesh \<Rightarrow> mesh \<Rightarrow> bool" where
  "hops_done cd ops sts r m hss p q \<longleftrightarrow> mesh_serves cd ops q sts r m hss
     \<and> (\<forall>j. j \<notin> fst ` set sts \<longrightarrow> q j = p j)
     \<and> (\<forall>r' m' gss. r' \<noteq> r \<longrightarrow> mesh_serves cd ops p sts r' m' gss \<longrightarrow> mesh_serves cd ops q sts r' m' gss)"

lemma hops_done_Nil: "hops_done cd ops [] r m [] p p"
  by (simp add: hops_done_def mesh_serves_def)

lemma hops_done_one:
  assumes "p i = Some l" and "peer.serves cd ops l' st r m hs"
    and "\<And>r' m' gs. r' \<noteq> r \<Longrightarrow> peer.serves cd ops l st r' m' gs \<Longrightarrow> peer.serves cd ops l' st r' m' gs"
  shows "hops_done cd ops [(i, st)] r m [hs] p (p(i \<mapsto> l'))"
  using assms by (auto simp: hops_done_def mesh_serves_def list_all2_Cons1)

lemma hops_done_append:
  assumes "hops_done cd ops sts r m hss p q" and "hops_done cd ops ts r m gss q s"
    and "distinct (map fst (sts @ ts))"
  shows "hops_done cd ops (sts @ ts) r m (hss @ gss) p s"
proof -
  have disj: "fst ` set sts \<inter> fst ` set ts = {}" using assms(3) by auto
  have qs: "mesh_serves cd ops s sts r' m' xss = mesh_serves cd ops q sts r' m' xss" for r' m' xss
  proof (rule mesh_serves_cong)
    fix i assume "i \<in> fst ` set sts"
    with disj have "i \<notin> fst ` set ts" by blast
    with assms(2) show "s i = q i" by (simp add: hops_done_def)
  qed
  have pq: "mesh_serves cd ops q ts r' m' xss = mesh_serves cd ops p ts r' m' xss" for r' m' xss
  proof (rule mesh_serves_cong)
    fix i assume "i \<in> fst ` set ts"
    with disj have "i \<notin> fst ` set sts" by blast
    with assms(1) show "q i = p i" by (simp add: hops_done_def)
  qed
  have joinI: "mesh_serves cd ops f (sts @ ts) r' m' (us @ vs)"
    if "mesh_serves cd ops f sts r' m' us" "mesh_serves cd ops f ts r' m' vs" for f r' m' us vs
    using that unfolding mesh_serves_def by (rule list_all2_appendI)
  have "mesh_serves cd ops s (sts @ ts) r m (hss @ gss)"
    using assms(1,2) by (intro joinI) (simp_all add: hops_done_def qs)
  moreover have "s j = p j" if "j \<notin> fst ` set (sts @ ts)" for j
    using that assms(1,2) by (simp add: hops_done_def image_Un)
  moreover have "mesh_serves cd ops s (sts @ ts) r' m' xss"
    if other: "r' \<noteq> r" "mesh_serves cd ops p (sts @ ts) r' m' xss" for r' m' xss
  proof -
    obtain us vs where xss: "xss = us @ vs" "mesh_serves cd ops p sts r' m' us" "mesh_serves cd ops p ts r' m' vs"
      using other(2) unfolding mesh_serves_def list_all2_append1 by blast
    have "mesh_serves cd ops q sts r' m' us"
      using assms(1) other(1) xss(2) by (simp add: hops_done_def)
    moreover have "mesh_serves cd ops s ts r' m' vs"
      using assms(2) other(1) xss(3) pq by (simp add: hops_done_def)
    ultimately show ?thesis
      unfolding xss(1) by (intro joinI) (simp_all add: qs)
  qed
  ultimately show ?thesis
    unfolding hops_done_def by blast
qed

lemma call_peer_Ok:
  "peers i = Some l \<Longrightarrow> rpc frames l = (Ok a, l') \<Longrightarrow> call_peer co i frames peers = (Ok a, peers(i \<mapsto> l'))"
  by (simp add: call_peer_def conn_for_def route_def)

lemma middle_hops_Ok:
  assumes "codec_ok cd" "mask_neutral ops" "width_ok ops" and "distinct (map fst sts)"
    and "mesh_serves cd ops p sts r m hss" and "sendable w xs"
    and "\<forall>(i, st) \<in> set sts. m + length xs \<le> ps_max_seq st \<and> ps_max_seq st < 2 ^ 32"
  shows "\<exists>q hss'. middle_hops cd co (map fst sts) (relay_header r m (length xs) w, payload_of xs) p
      = (Ok (relay_header r m (length xs) w,
            payload_of (fst (dense_tokens ops (stage_layers sts) m xs (concat hss)))), q)
    \<and> concat hss' = snd (dense_tokens ops (stage_layers sts) m xs (concat hss))
    \<and> hops_done cd ops sts r (m + length xs) hss' p q"
  using assms(4-7)
proof (induction sts arbitrary: p hss xs)
  case Nil
  then have "hss = []" by (simp add: mesh_serves_def)
  then show ?case using hops_done_Nil by (auto intro!: exI [of _ p] exI [of _ "[]"])
next
  case (Cons ist sts)
  obtain i st where ist: "ist = (i, st)" by (cases ist)
  obtain hs hss1 l where hss: "hss = hs # hss1" "p i = Some l" "peer.serves cd ops l st r m hs"
    "mesh_serves cd ops p sts r m hss1"
    using Cons.prems(2) by (auto simp: ist mesh_serves_def list_all2_Cons1)
  have max: "m + length xs \<le> ps_max_seq st" "ps_max_seq st < 2 ^ 32"
    using Cons.prems(4) by (auto simp: ist)
  let ?d = "dense_tokens ops (map as_layer (ps_blocks st)) m xs hs"
  obtain answer l' where hop: "rpc [cd_enc_frame cd (Relay (relay_header r m (length xs) w)), Some (payload_of xs)] l = (Ok answer, l')"
    "read_activation cd answer = Ok (relay_header r m (length xs) w, payload_of (fst ?d))"
    "peer.serves cd ops l' st r (m + length xs) (snd ?d)"
    "\<And>r' m' gs. r' \<noteq> r \<Longrightarrow> peer.serves cd ops l st r' m' gs \<Longrightarrow> peer.serves cd ops l' st r' m' gs"
    by (rule peer.hop [OF assms(1-3) hss(3) Cons.prems(3) max]) blast
  let ?p = "p(i \<mapsto> l')"
  have one: "hops_done cd ops [(i, st)] r (m + length xs) [snd ?d] p ?p"
    using hops_done_one [where p = p, OF hss(2) hop(3)] hop(4) by blast
  have "mesh_serves cd ops ?p sts r m hss1"
  proof (subst mesh_serves_cong)
    show "mesh_serves cd ops p sts r m hss1" by (rule hss(4))
  qed (use Cons.prems(1) in \<open>auto simp: ist\<close>)
  moreover have "sendable w (fst ?d)"
    by (rule sendable_dense [OF assms(3) Cons.prems(3)])
  ultimately have "\<exists>q hss'. middle_hops cd co (map fst sts) (relay_header r m (length xs) w, payload_of (fst ?d)) ?p
      = (Ok (relay_header r m (length xs) w,
            payload_of (fst (dense_tokens ops (stage_layers sts) m (fst ?d) (concat hss1)))), q)
    \<and> concat hss' = snd (dense_tokens ops (stage_layers sts) m (fst ?d) (concat hss1))
    \<and> hops_done cd ops sts r (m + length xs) hss' ?p q"
  proof (rule Cons.IH [of ?p hss1 "fst ?d", unfolded length_dense_tokens, rotated])
    show "distinct (map fst sts)" using Cons.prems(1) by simp
    show "\<forall>(i, st) \<in> set sts. m + length xs \<le> ps_max_seq st \<and> ps_max_seq st < 2 ^ 32"
      using Cons.prems(4) by simp
  qed
  then obtain q hss' where q: "middle_hops cd co (map fst sts) (relay_header r m (length xs) w, payload_of (fst ?d)) ?p
      = (Ok (relay_header r m (length xs) w,
            payload_of (fst (dense_tokens ops (stage_layers sts) m (fst ?d) (concat hss1)))), q)"
    "concat hss' = snd (dense_tokens ops (stage_layers sts) m (fst ?d) (concat hss1))"
    "hops_done cd ops sts r (m + length xs) hss' ?p q"
    by blast
  have d: "dense_tokens ops (stage_layers (ist # sts)) m xs (concat hss)
      = (fst (dense_tokens ops (stage_layers sts) m (fst ?d) (concat hss1)),
         snd ?d @ snd (dense_tokens ops (stage_layers sts) m (fst ?d) (concat hss1)))"
    using dense_tokens_append_layers [of hs "map as_layer (ps_blocks st)" ops "stage_layers sts" m xs "concat hss1"]
      peer.serves_length [OF hss(3)] by (simp add: ist hss(1) split_beta Let_def)
  have "middle_hops cd co (map fst (ist # sts)) (relay_header r m (length xs) w, payload_of xs) p
      = (Ok (relay_header r m (length xs) w,
          payload_of (fst (dense_tokens ops (stage_layers (ist # sts)) m xs (concat hss)))), q)"
    by (simp only: ist list.map fst_conv middle_hops.simps and_run_apply call_peer_Ok [where peers = p, OF hss(2) hop(1)] prod.case
        outcome.case pure_op_apply hop(2) q(1) d [unfolded ist])
  moreover have "hops_done cd ops (ist # sts) r (m + length xs) (snd ?d # hss') p q"
    using hops_done_append [OF one q(3)] Cons.prems(1) by (simp add: ist)
  moreover have "concat (snd ?d # hss') = snd (dense_tokens ops (stage_layers (ist # sts)) m xs (concat hss))"
    by (simp add: d q(2))
  ultimately show ?case by blast
qed

section \<open>The distributed forward pass is the forward pass\<close>

definition holds_model :: "row rt_model \<Rightarrow> nat \<Rightarrow> nat \<Rightarrow> stage_list \<Rightarrow> bool" where
  "holds_model mdl w vocab sts \<longleftrightarrow>
     2 \<le> length sts \<and> distinct (map fst sts) \<and> concat (map (\<lambda>(i, st). ps_blocks st) sts) = rm_blocks mdl
   \<and> list_all (\<lambda>(i, st). ps_max_seq st = rm_max_seq mdl) sts
   \<and> ps_embedding (snd (hd sts)) = Some (rm_embedding mdl) \<and> ps_hidden (snd (hd sts)) = w
   \<and> ps_final_norm (snd (last sts)) = Some (rm_final_norm mdl)
   \<and> ps_output (snd (last sts)) = Some (rm_output mdl) \<and> ps_vocab (snd (last sts)) = vocab"

definition model_sends :: "row rt_model \<Rightarrow> nat \<Rightarrow> nat \<Rightarrow> bool" where
  "model_sends mdl w vocab \<longleftrightarrow> model_ok mdl \<and> rows_fit w (rm_embedding mdl) \<and> w < 2 ^ 32 \<and> rm_max_seq mdl < 2 ^ 32
   \<and> (\<forall>x. vocab \<le> length (rm_output mdl x)) \<and> 0 < vocab \<and> vocab \<le> length (rm_embedding mdl) \<and> vocab \<le> 2 ^ 32
   \<and> 128 + 8 * vocab \<le> max_frame"

definition ids_fit :: "row rt_model \<Rightarrow> nat \<Rightarrow> nat \<Rightarrow> u32 list \<Rightarrow> bool" where
  "ids_fit mdl w m ids \<longleftrightarrow> ids \<noteq> [] \<and> (\<forall>i \<in> set ids. unat i < length (rm_embedding mdl))
   \<and> m + length ids \<le> rm_max_seq mdl \<and> 4 * (length ids * w) \<le> max_frame \<and> 128 + 8 * length ids \<le> max_frame"

lemma embedded_sendable:
  assumes "model_sends mdl w vocab" and "ids_fit mdl w m ids"
  shows "sendable w (embedded (rm_embedding mdl) ids)"
  using assms by (auto simp: sendable_def model_sends_def ids_fit_def rows_fit_def embedded_def)

lemma head_hop:
  assumes "codec_ok cd" "mask_neutral ops" "width_ok ops" and "p i = Some l"
    and "peer.serves cd ops l st r m hs" and "model_sends mdl w vocab" and "ids_fit mdl w m ids"
    and "ps_max_seq st = rm_max_seq mdl" "ps_embedding st = Some (rm_embedding mdl)" "ps_hidden st = w"
  shows "\<exists>answer q. call_peer co i [cd_enc_frame cd (Coord (Embed r (word_of_nat m) ids))] p = (Ok answer, q)
    \<and> read_activation cd answer = Ok (relay_header r m (length ids) w,
        payload_of (fst (dense_tokens ops (map as_layer (ps_blocks st)) m (embedded (rm_embedding mdl) ids) hs)))
    \<and> hops_done cd ops [(i, st)] r (m + length ids)
        [snd (dense_tokens ops (map as_layer (ps_blocks st)) m (embedded (rm_embedding mdl) ids) hs)] p q"
proof -
  let ?xs = "embedded (rm_embedding mdl) ids"
  let ?d = "dense_tokens ops (map as_layer (ps_blocks st)) m ?xs hs"
  obtain caches where l: "lk_serve l = handle_stream cd ops st" "lk_caches l = Some caches"
    "entry_holds ops (ps_max_seq st) (ps_blocks st) caches r m hs"
    using assms(5) by (auto simp: peer.serves_def)
  have side: "\<forall>i \<in> set ids. unat i < length (rm_embedding mdl)" "sendable (ps_hidden st) ?xs"
    "m + length ids \<le> ps_max_seq st" "ps_max_seq st < 2 ^ 32" "128 + 8 * length ids \<le> max_frame"
    using assms(6-10) embedded_sendable by (auto simp: ids_fit_def model_sends_def)
  obtain fb b caches' where a: "cd_enc_frame cd (Coord (Embed r (word_of_nat m) ids)) = Some fb" "length fb \<le> max_frame"
    "cd_dec_header cd b = Some (relay_header r m (length ids) (ps_hidden st))" "length b \<le> max_frame"
    "handle_stream cd ops st \<lparr>io_recv = frame_bytes fb, io_send = [], io_caches = caches\<rparr>
      = (Ok (), \<lparr>io_recv = [], io_send = frame_bytes b @ frame_bytes (payload_of (fst ?d)), io_caches = caches'\<rparr>)"
    "entry_holds ops (ps_max_seq st) (ps_blocks st) caches' r (m + length ids) (snd ?d)"
    "\<forall>r'. r' \<noteq> r \<longrightarrow> caches' r' = caches r'"
    using head_answer [OF assms(1-3) l(3) assms(9) side] by blast
  let ?l = "l\<lparr>lk_caches := Some caches'\<rparr>"
  have "rpc [cd_enc_frame cd (Coord (Embed r (word_of_nat m) ids))] l
      = (Ok (frame_bytes b @ frame_bytes (payload_of (fst ?d))), ?l)"
    using rpc_Ok [OF l(2), of "[fb]" "\<lparr>io_recv = [], io_send = frame_bytes b @ frame_bytes (payload_of (fst ?d)), io_caches = caches'\<rparr>"]
    by (simp add: l(1) a(1,2,5))
  then have "call_peer co i [cd_enc_frame cd (Coord (Embed r (word_of_nat m) ids))] p
      = (Ok (frame_bytes b @ frame_bytes (payload_of (fst ?d))), p(i \<mapsto> ?l))"
    by (rule call_peer_Ok [where peers = p, OF assms(4)])
  moreover have "read_activation cd (frame_bytes b @ frame_bytes (payload_of (fst ?d)))
      = Ok (relay_header r m (length ids) w, payload_of (fst ?d))"
    by (rule read_activation_Ok [where b = b, OF a(4) sendable_payload(1) [OF sendable_dense [OF assms(3) side(2)]]
          a(3) [unfolded assms(10)]])
  moreover have "hops_done cd ops [(i, st)] r (m + length ids) [snd ?d] p (p(i \<mapsto> ?l))"
  proof (rule hops_done_one [where p = p, OF assms(4)])
    show "peer.serves cd ops ?l st r (m + length ids) (snd ?d)"
      using l(1) a(6) by (simp add: peer.serves_def)
    show "peer.serves cd ops ?l st r' m' gs" if "r' \<noteq> r" "peer.serves cd ops l st r' m' gs" for r' m' gs
      using that l a(7) entry_holds_other [of caches' r' caches] by (simp add: peer.serves_def)
  qed
  ultimately show ?thesis by blast
qed

lemma tail_hop:
  assumes "codec_ok cd" "mask_neutral ops" "width_ok ops" and "p i = Some l"
    and "peer.serves cd ops l st r m hs" and "model_sends mdl w vocab" and "xs \<noteq> []" "sendable w xs"
    and "m + length xs \<le> rm_max_seq mdl"
    and "ps_max_seq st = rm_max_seq mdl" "ps_final_norm st = Some (rm_final_norm mdl)"
      "ps_output st = Some (rm_output mdl)" "ps_vocab st = vocab"
  shows "\<exists>answer q. call_peer co i
        [cd_enc_frame cd (Relay (relay_header r m (length xs) w\<lparr>ah_is_terminal := True\<rparr>)), Some (payload_of xs)] p = (Ok answer, q)
    \<and> read_logits cd answer = Ok (take vocab (rm_output mdl (rm_final_norm mdl
        (last (fst (dense_tokens ops (map as_layer (ps_blocks st)) m xs hs))))))
    \<and> hops_done cd ops [(i, st)] r (m + length xs) [snd (dense_tokens ops (map as_layer (ps_blocks st)) m xs hs)] p q"
proof -
  let ?d = "dense_tokens ops (map as_layer (ps_blocks st)) m xs hs"
  let ?hdr = "relay_header r m (length xs) w\<lparr>ah_is_terminal := True\<rparr>"
  let ?v = "take vocab (rm_output mdl (rm_final_norm mdl (last (fst ?d))))"
  obtain caches where l: "lk_serve l = handle_stream cd ops st" "lk_caches l = Some caches"
    "entry_holds ops (ps_max_seq st) (ps_blocks st) caches r m hs"
    using assms(5) by (auto simp: peer.serves_def)
  have side: "m + length xs \<le> ps_max_seq st" "ps_max_seq st < 2 ^ 32" "xs \<noteq> []"
    "\<forall>x. ps_vocab st \<le> length (rm_output mdl x)" "128 + 8 * ps_vocab st \<le> max_frame"
    using assms(6-13) by (auto simp: model_sends_def)
  obtain fb b caches' pos where a: "cd_enc_frame cd (Relay ?hdr) = Some fb" "length fb \<le> max_frame" "length b \<le> max_frame"
    "cd_dec_msg cd b = Some (Logits r pos ?v)"
    "handle_stream cd ops st \<lparr>io_recv = frame_bytes fb @ frame_bytes (payload_of xs), io_send = [], io_caches = caches\<rparr>
      = (Ok (), \<lparr>io_recv = [], io_send = frame_bytes b, io_caches = caches'\<rparr>)"
    "entry_holds ops (ps_max_seq st) (ps_blocks st) caches' r (m + length xs) (snd ?d)"
    "\<forall>r'. r' \<noteq> r \<longrightarrow> caches' r' = caches r'"
    using tail_answer [OF assms(1-3) l(3) assms(11,12,8) side] unfolding assms(13) by blast
  let ?l = "l\<lparr>lk_caches := Some caches'\<rparr>"
  have small: "\<forall>b \<in> set [fb, payload_of xs]. length b \<le> max_frame"
    using a(2) sendable_payload(1) [OF assms(8)] by simp
  have "rpc [cd_enc_frame cd (Relay ?hdr), Some (payload_of xs)] l = (Ok (frame_bytes b), ?l)"
    using rpc_Ok [OF l(2) small, of "\<lparr>io_recv = [], io_send = frame_bytes b, io_caches = caches'\<rparr>"]
    by (simp add: l(1) a(1,5))
  then have "call_peer co i [cd_enc_frame cd (Relay ?hdr), Some (payload_of xs)] p = (Ok (frame_bytes b), p(i \<mapsto> ?l))"
    by (rule call_peer_Ok [where peers = p, OF assms(4)])
  moreover have "read_logits cd (frame_bytes b) = Ok ?v"
    using read_frame_bytes [OF a(3), of "[]"] a(4) by (simp add: read_logits_def call_frame_def and_run_apply ok_or_def)
  moreover have "hops_done cd ops [(i, st)] r (m + length xs) [snd ?d] p (p(i \<mapsto> ?l))"
  proof (rule hops_done_one [where p = p, OF assms(4)])
    show "peer.serves cd ops ?l st r (m + length xs) (snd ?d)"
      using l(1) a(6) by (simp add: peer.serves_def)
    show "peer.serves cd ops ?l st r' m' gs" if "r' \<noteq> r" "peer.serves cd ops l st r' m' gs" for r' m' gs
      using that l a(7) entry_holds_other [of caches' r' caches] by (simp add: peer.serves_def)
  qed
  ultimately show ?thesis by blast
qed

definition coupled ::
    "codec \<Rightarrow> row tensor_ops \<Rightarrow> row rt_model \<Rightarrow> stage_list \<Rightarrow> uuid \<Rightarrow> nat \<Rightarrow> mesh \<Rightarrow> row kv_slot list \<Rightarrow> bool" where
  "coupled cd ops mdl sts r m p cs \<longleftrightarrow>
     (\<exists>hss. mesh_serves cd ops p sts r m hss \<and> caches_at mdl m cs (concat hss))"

text \<open>What the passes of one request leave alone.\<close>

definition isolated :: "codec \<Rightarrow> row tensor_ops \<Rightarrow> stage_list \<Rightarrow> uuid \<Rightarrow> mesh \<Rightarrow> mesh \<Rightarrow> bool" where
  "isolated cd ops sts r p q \<longleftrightarrow> (\<forall>j. j \<notin> fst ` set sts \<longrightarrow> q j = p j)
     \<and> (\<forall>r' m' gss. r' \<noteq> r \<longrightarrow> mesh_serves cd ops p sts r' m' gss \<longrightarrow> mesh_serves cd ops q sts r' m' gss)"

lemma isolated_trans: "isolated cd ops sts r p q \<Longrightarrow> isolated cd ops sts r q s \<Longrightarrow> isolated cd ops sts r p s"
  by (simp add: isolated_def)

lemma hops_done_isolated: "hops_done cd ops sts r m hss p q \<Longrightarrow> isolated cd ops sts r p q"
  by (simp add: hops_done_def isolated_def)

lemma holds_model_parts:
  assumes "holds_model mdl w vocab sts"
  obtains a s mids b t where "sts = (a, s) # mids @ [(b, t)]" and "ps_max_seq s = rm_max_seq mdl"
    and "ps_embedding s = Some (rm_embedding mdl)" and "ps_hidden s = w" and "ps_max_seq t = rm_max_seq mdl"
    and "ps_final_norm t = Some (rm_final_norm mdl)" and "ps_output t = Some (rm_output mdl)" and "ps_vocab t = vocab"
    and "list_all (\<lambda>(i, st). ps_max_seq st = rm_max_seq mdl) mids"
    and "distinct (map fst ((a, s) # mids @ [(b, t)]))"
proof -
  obtain a s rest where sts: "sts = (a, s) # rest" "rest \<noteq> []"
    using assms by (cases sts; cases "tl sts") (auto simp: holds_model_def)
  obtain mids b t where rest: "rest = mids @ [(b, t)]"
    using sts(2) by (metis append_butlast_last_id surj_pair)
  show thesis
    by (rule that [of a s mids b t]) (use assms in \<open>simp_all add: sts(1) rest holds_model_def\<close>)
qed

lemma forward_pass_refines:
  assumes ok: "codec_ok cd" "mask_neutral ops" "width_ok ops"
    and hm: "holds_model mdl w vocab sts" and ms: "model_sends mdl w vocab" and fit: "ids_fit mdl w m ids"
    and serves: "mesh_serves cd ops p sts r m hss"
  shows "\<exists>q hss'. forward_pass cd co r (map fst sts) ids m p
      = (Ok (take vocab (last (fst (reference_rows ops mdl ids m (concat hss))))), q)
    \<and> concat hss' = snd (reference_rows ops mdl ids m (concat hss))
    \<and> hops_done cd ops sts r (m + length ids) hss' p q"
proof -
  obtain a s mids b t where sts: "sts = (a, s) # mids @ [(b, t)]" and s: "ps_max_seq s = rm_max_seq mdl"
    "ps_embedding s = Some (rm_embedding mdl)" "ps_hidden s = w" and t: "ps_max_seq t = rm_max_seq mdl"
    "ps_final_norm t = Some (rm_final_norm mdl)" "ps_output t = Some (rm_output mdl)" "ps_vocab t = vocab"
    and mids: "list_all (\<lambda>(i, st). ps_max_seq st = rm_max_seq mdl) mids"
    and dist: "distinct (map fst ((a, s) # mids @ [(b, t)]))"
    by (rule holds_model_parts [OF hm]) blast
  obtain ha hm' hb la lb where hss: "hss = ha # hm' @ [hb]" "p a = Some la" "peer.serves cd ops la s r m ha"
    "mesh_serves cd ops p mids r m hm'" "p b = Some lb" "peer.serves cd ops lb t r m hb"
    using serves by (auto simp: sts mesh_serves_def list_all2_Cons1 list_all2_append1 list_all2_Cons1 list_all2_Nil)
  let ?xs = "embedded (rm_embedding mdl) ids"
  have fits: "ids \<noteq> []" "m + length ids \<le> rm_max_seq mdl" "rm_max_seq mdl < 2 ^ 32"
    using fit ms by (auto simp: ids_fit_def model_sends_def)
  note sx = embedded_sendable [OF ms fit]
  let ?d1 = "dense_tokens ops (map as_layer (ps_blocks s)) m ?xs ha"
  obtain ans1 p1 where h1: "call_peer co a [cd_enc_frame cd (Coord (Embed r (word_of_nat m) ids))] p = (Ok ans1, p1)"
    "read_activation cd ans1 = Ok (relay_header r m (length ids) w, payload_of (fst ?d1))"
    "hops_done cd ops [(a, s)] r (m + length ids) [snd ?d1] p p1"
    using head_hop [where p = p and co = co, OF ok hss(2,3) ms fit s] by blast
  have same1: "p1 j = p j" if "j \<noteq> a" for j
    using that h1(3) by (simp add: hops_done_def)
  have mid: "mesh_serves cd ops p1 mids r m hm'"
  proof (subst mesh_serves_cong)
    show "mesh_serves cd ops p mids r m hm'" by (rule hss(4))
  qed (use dist in \<open>auto intro!: same1\<close>)
  have dm: "distinct (map fst mids)" using dist by simp
  have fm: "\<forall>(i, st) \<in> set mids. m + length (fst ?d1) \<le> ps_max_seq st \<and> ps_max_seq st < 2 ^ 32"
    using mids fits by (auto simp: list_all_iff)
  obtain p2 hm2 where h2: "middle_hops cd co (map fst mids) (relay_header r m (length (fst ?d1)) w, payload_of (fst ?d1)) p1
      = (Ok (relay_header r m (length (fst ?d1)) w,
            payload_of (fst (dense_tokens ops (stage_layers mids) m (fst ?d1) (concat hm')))), p2)"
    "concat hm2 = snd (dense_tokens ops (stage_layers mids) m (fst ?d1) (concat hm'))"
    "hops_done cd ops mids r (m + length (fst ?d1)) hm2 p1 p2"
    using middle_hops_Ok [where co = co, OF ok dm mid sendable_dense [OF ok(3) sx] fm] by blast
  let ?d2 = "dense_tokens ops (stage_layers mids) m (fst ?d1) (concat hm')"
  have len: "length (fst ?d2) = length ids" by simp
  have "p2 b = p b"
    using dist same1 [of b] h2(3) by (auto simp: hops_done_def)
  then have lb: "p2 b = Some lb" using hss(5) by simp
  have ne: "fst ?d2 \<noteq> []" using len fits(1) by (metis length_0_conv)
  have room: "m + length (fst ?d2) \<le> rm_max_seq mdl" using len fits(2) by simp
  let ?d3 = "dense_tokens ops (map as_layer (ps_blocks t)) m (fst ?d2) hb"
  obtain ans3 p3 where h3: "call_peer co b [cd_enc_frame cd (Relay (relay_header r m (length (fst ?d2)) w\<lparr>ah_is_terminal := True\<rparr>)),
        Some (payload_of (fst ?d2))] p2 = (Ok ans3, p3)"
    "read_logits cd ans3 = Ok (take vocab (rm_output mdl (rm_final_norm mdl (last (fst ?d3)))))"
    "hops_done cd ops [(b, t)] r (m + length (fst ?d2)) [snd ?d3] p2 p3"
    using tail_hop [where p = p2 and co = co, OF ok lb hss(6) ms ne sendable_dense [OF ok(3) sendable_dense [OF ok(3) sx]] room t] by blast
  have layers: "map as_layer (rm_blocks mdl) = map as_layer (ps_blocks s) @ stage_layers mids @ map as_layer (ps_blocks t)"
  proof -
    have "map as_layer (rm_blocks mdl) = stage_layers sts"
      using hm by (simp add: holds_model_def stage_layers_def)
    then show ?thesis by (simp add: sts)
  qed
  have lens: "length ha = length (map as_layer (ps_blocks s))" "length (concat hm') = length (stage_layers mids)"
    using peer.serves_length [OF hss(3)] mesh_serves_lengths [OF hss(4)] by simp_all
  have total: "dense_tokens ops (map as_layer (rm_blocks mdl)) m ?xs (concat hss) = (fst ?d3, snd ?d1 @ snd ?d2 @ snd ?d3)"
    unfolding layers hss(1) concat.simps concat_append append_Nil2
      dense_tokens_append_layers [OF lens(1)] dense_tokens_append_layers [OF lens(2)] split_beta Let_def fst_conv snd_conv ..
  have ref: "fst (reference_rows ops mdl ids m (concat hss)) = map (\<lambda>x. rm_output mdl (rm_final_norm mdl x)) (fst ?d3)"
    "snd (reference_rows ops mdl ids m (concat hss)) = snd ?d1 @ snd ?d2 @ snd ?d3"
    using total by (simp_all add: reference_rows_def embedded_def)
  have "fst ?d3 \<noteq> []"
    using ne length_dense_tokens [of ops "map as_layer (ps_blocks t)" m "fst ?d2" hb] by (metis length_0_conv)
  then have lst: "last (fst (reference_rows ops mdl ids m (concat hss))) = rm_output mdl (rm_final_norm mdl (last (fst ?d3)))"
    by (simp add: ref(1) last_map)
  have ids': "map fst sts \<noteq> []" "\<not> length (map fst sts) < 2" "hd (map fst sts) = a" "last (map fst sts) = b"
    "butlast (tl (map fst sts)) = map fst mids"
    by (simp_all add: sts butlast_append)
  have len1: "length (fst ?d1) = length ids" by simp
  have "forward_pass cd co r (map fst sts) ids m p
      = (Ok (take vocab (last (fst (reference_rows ops mdl ids m (concat hss))))), p3)"
    unfolding forward_pass_def ids' if_not_P [OF ids'(1)] if_not_P [OF ids'(2)] and_run_apply h1(1,2) prod.case outcome.case pure_op_apply
      h2(1) [unfolded len1] h3(1) [unfolded len] h3(2) lst ..
  moreover have "hops_done cd ops sts r (m + length ids) (snd ?d1 # hm2 @ [snd ?d3]) p p3"
  proof -
    have "hops_done cd ops (mids @ [(b, t)]) r (m + length ids) (hm2 @ [snd ?d3]) p1 p3"
      by (rule hops_done_append [OF h2(3) [unfolded len1] h3(3) [unfolded len]]) (use dist in simp)
    from hops_done_append [OF h1(3) this] dist show ?thesis by (simp add: sts)
  qed
  moreover have "concat (snd ?d1 # hm2 @ [snd ?d3]) = snd (reference_rows ops mdl ids m (concat hss))"
    by (simp add: ref(2) h2(2))
  ultimately show ?thesis by blast
qed

end
