(* ===== verification/Distributed.thy ===== *)
theory Distributed
  imports Coordinator
begin

text \<open>
  The tokens a coordinator generates over a mesh are the tokens the whole model generates on one
  machine, and the request leaves every other request of the same peers as it was.
\<close>

lemma last_logits_rows:
  assumes "\<forall>x. vocab \<le> length (f x)" and "xs \<noteq> []"
  shows "last_logits vocab (map f xs) = Ok (take vocab (last (map f xs)))"
    and "length (take vocab (last (map f xs))) = vocab"
  using assms by (simp_all add: last_logits_def last_map not_less min_absorb2)

lemma forward_pass_local:
  assumes ok: "codec_ok cd" "mask_neutral ops" "width_ok ops"
    and hm: "holds_model mdl w vocab sts" and ms: "model_sends mdl w vocab" and fit: "ids_fit mdl w m ids"
    and "coupled cd ops mdl sts r m p cs"
  shows "\<exists>logits q cs'. forward_pass cd co r (map fst sts) ids m p = (Ok logits, q)
    \<and> local_logits ops mdl vocab ids m cs = (Ok logits :: ('e, _) outcome, cs') \<and> length logits = vocab
    \<and> coupled cd ops mdl sts r (m + length ids) q cs' \<and> isolated cd ops sts r p q"
proof -
  obtain hss where hss: "mesh_serves cd ops p sts r m hss" "caches_at mdl m cs (concat hss)"
    using assms(7) by (auto simp: coupled_def)
  let ?ref = "reference_rows ops mdl ids m (concat hss)"
  let ?f = "\<lambda>x. rm_output mdl (rm_final_norm mdl x)"
  let ?xs = "fst (dense_tokens ops (map as_layer (rm_blocks mdl)) m (map (\<lambda>i. rm_embedding mdl ! unat i) ids) (concat hss))"
  have rows: "fst ?ref = map ?f ?xs" by (simp add: reference_rows_def split_beta Let_def)
  have ne: "?xs \<noteq> []"
  proof -
    have "length ?xs = length ids" by simp
    with fit show ?thesis unfolding ids_fit_def by (metis length_0_conv)
  qed
  have wide: "\<forall>x. vocab \<le> length (?f x)" using ms by (simp add: model_sends_def)
  note lastl = last_logits_rows [OF wide ne]
  obtain q hss' where q: "forward_pass cd co r (map fst sts) ids m p = (Ok (take vocab (last (fst ?ref))), q)"
    "concat hss' = snd ?ref" "hops_done cd ops sts r (m + length ids) hss' p q"
    using forward_pass_refines [OF ok hm ms fit hss(1)] by blast
  have side: "model_ok mdl" "m + length ids \<le> rm_max_seq mdl" "\<forall>i \<in> set ids. unat i < length (rm_embedding mdl)"
    using ms fit by (simp_all add: model_sends_def ids_fit_def)
  obtain cs' where cs': "forward_with_caches ops mdl ids m cs = (Ok (fst ?ref) :: ('e, _) outcome, cs')"
    "caches_at mdl (m + length ids) cs' (snd ?ref)"
    using forward_refines [OF ok(2) side(1) hss(2) side(2,3)] by blast
  have "local_logits ops mdl vocab ids m cs = (Ok (take vocab (last (fst ?ref))) :: ('e, _) outcome, cs')"
    by (simp only: local_logits_def and_run_apply cs'(1) prod.case outcome.case pure_op_apply rows lastl(1))
  moreover have "length (take vocab (last (fst ?ref))) = vocab"
    unfolding rows by (rule lastl(2))
  moreover have "coupled cd ops mdl sts r (m + length ids) q cs'"
    using q(2,3) cs'(2) unfolding coupled_def hops_done_def by metis
  ultimately show ?thesis
    using q(1) hops_done_isolated [OF q(3)] by blast
qed

lemma sample_token_Ok:
  assumes "length logits = vocab" and "0 < vocab" and "vocab \<le> 2 ^ 32" and "sc_top_k cfg \<noteq> Some 0"
  obtains t where "sample_token fl logits cfg = (Ok t :: ('e, _) outcome)"
    and "sample_token fl logits cfg = (Ok t :: ('f, _) outcome)" and "unat t < vocab"
proof -
  obtain i where i: "i < length logits" "sample fl logits cfg = Ok (of_nat i)"
    using sample_in_range [of logits cfg fl] assms by auto
  have "i < 2 ^ 32" using i(1) assms(1,3) by linarith
  then have "unat (of_nat i :: u32) = i" by (simp add: unat_of_nat)
  with i assms(1) show thesis
    by (intro that [of "of_nat i"]) (simp_all add: sample_token_def)
qed

definition generation_ok :: "row rt_model \<Rightarrow> nat \<Rightarrow> u32 list \<Rightarrow> nat \<Rightarrow> bool" where
  "generation_ok mdl w prompt n \<longleftrightarrow> prompt \<noteq> [] \<and> (\<forall>i \<in> set prompt. unat i < length (rm_embedding mdl))
   \<and> length prompt + n \<le> rm_max_seq mdl + 1 \<and> length prompt \<le> rm_max_seq mdl
   \<and> 4 * (length prompt * w) \<le> max_frame \<and> 128 + 8 * length prompt \<le> max_frame"

lemma generation_ok_prompt: "generation_ok mdl w prompt n \<Longrightarrow> ids_fit mdl w 0 prompt"
  by (simp add: generation_ok_def ids_fit_def)

lemma generation_ok_width: "generation_ok mdl w prompt n \<Longrightarrow> 4 * w \<le> max_frame"
  by (cases prompt) (auto simp: generation_ok_def)

lemma token_loop_local:
  assumes ok: "codec_ok cd" "mask_neutral ops" "width_ok ops"
    and hm: "holds_model mdl w vocab sts" and ms: "model_sends mdl w vocab"
    and small: "4 * w \<le> max_frame" "sc_top_k cfg \<noteq> Some 0"
  shows "coupled cd ops mdl sts r (plen + produced - 1) p cs \<Longrightarrow> unat lst < length (rm_embedding mdl)
    \<Longrightarrow> 1 \<le> produced \<Longrightarrow> plen + produced + n \<le> rm_max_seq mdl + 1 \<Longrightarrow>
    \<exists>toks q cs'. token_loop cd co fl cfg (\<lambda>_. True) r (map fst sts) plen n produced lst \<lparr>dr_peers = p, dr_emitted = em\<rparr>
      = (Ok (), \<lparr>dr_peers = q, dr_emitted = em @ toks\<rparr>)
    \<and> local_tokens ops mdl vocab fl cfg n (plen + produced - 1) [lst] cs = (Ok toks :: ('e, _) outcome, cs')
    \<and> length toks = n \<and> isolated cd ops sts r p q"
proof (induction n arbitrary: produced p cs lst em)
  case 0
  show ?case
    by (intro exI [of _ "[]"] exI [of _ p] exI [of _ cs]) (simp add: isolated_def)
next
  case (Suc n)
  let ?m = "plen + produced - 1"
  have fit: "ids_fit mdl w ?m [lst]"
    using Suc.prems(2-4) small(1) by (simp add: ids_fit_def max_frame_def)
  obtain logits q1 cs1 where f: "forward_pass cd co r (map fst sts) [lst] ?m p = (Ok logits, q1)"
    "local_logits ops mdl vocab [lst] ?m cs = (Ok logits :: ('e, _) outcome, cs1)" "length logits = vocab"
    "coupled cd ops mdl sts r (?m + length [lst]) q1 cs1" "isolated cd ops sts r p q1"
    using forward_pass_local [OF ok hm ms fit Suc.prems(1)] by blast
  have v: "0 < vocab" "vocab \<le> 2 ^ 32" "vocab \<le> length (rm_embedding mdl)"
    using ms by (auto simp: model_sends_def)
  obtain t where t: "sample_token fl logits cfg = (Ok t :: (call_error, _) outcome)"
    "sample_token fl logits cfg = (Ok t :: ('e, _) outcome)" "unat t < vocab"
    by (rule sample_token_Ok [where fl = fl, OF f(3) v(1,2) small(2)])
  have pos: "?m + length [lst] = plen + (produced + 1) - 1" using Suc.prems(3) by simp
  obtain toks q cs' where ih: "token_loop cd co fl cfg (\<lambda>_. True) r (map fst sts) plen n (produced + 1) t
        \<lparr>dr_peers = q1, dr_emitted = em @ [t]\<rparr> = (Ok (), \<lparr>dr_peers = q, dr_emitted = (em @ [t]) @ toks\<rparr>)"
    "local_tokens ops mdl vocab fl cfg n (plen + (produced + 1) - 1) [t] cs1 = (Ok toks :: ('e, _) outcome, cs')"
    "length toks = n" "isolated cd ops sts r q1 q"
    using Suc.IH [of "produced + 1" q1 cs1 t "em @ [t]"] f(4) t(3) v(3) Suc.prems(4) unfolding pos by auto
  have "token_loop cd co fl cfg (\<lambda>_. True) r (map fst sts) plen (Suc n) produced lst \<lparr>dr_peers = p, dr_emitted = em\<rparr>
      = (Ok (), \<lparr>dr_peers = q, dr_emitted = em @ t # toks\<rparr>)"
  proof -
    have f': "on_peers (forward_pass cd co r (map fst sts) [lst] ?m) \<lparr>dr_peers = p, dr_emitted = em\<rparr>
        = (Ok logits, \<lparr>dr_peers = q1, dr_emitted = em\<rparr>)"
      by (simp only: on_peers_def drive_state.simps f(1) prod.case)
    show ?thesis
      using ih(1) unfolding token_loop.simps and_run_apply f' prod.case outcome.case pure_op_apply t(1) on_token_def if_True
      by simp
  qed
  moreover have "local_tokens ops mdl vocab fl cfg (Suc n) ?m [lst] cs = (Ok (t # toks) :: ('e, _) outcome, cs')"
    unfolding local_tokens.simps and_run_apply f(2) prod.case outcome.case pure_op_apply t(2) pos ih(2) ret_apply ..
  ultimately show ?case
    using ih(3) isolated_trans [OF f(5) ih(4)] by (intro exI [of _ "t # toks"] exI [of _ q] exI [of _ cs']) simp
qed

lemma fresh_coupled:
  assumes "holds_model mdl w vocab sts" and "model_ok mdl"
    and "\<forall>(i, st) \<in> set sts. \<exists>l caches. p i = Some l \<and> lk_serve l = handle_stream cd ops st \<and> lk_caches l = Some caches \<and> caches r = None"
  shows "coupled cd ops mdl sts r 0 p (rs_caches (new_request_state ops mdl (rm_max_seq mdl)))"
proof -
  let ?hss = "map (\<lambda>(i, st). replicate (length (ps_blocks st)) []) sts"
  have blocks: "\<forall>(i, st) \<in> set sts. (\<forall>b \<in> set (ps_blocks st). block_ok (ps_max_seq st) b)"
  proof (clarify)
    fix i st b assume "(i, st) \<in> set sts" "b \<in> set (ps_blocks st)"
    moreover have "rm_blocks mdl = concat (map (\<lambda>(i, st). ps_blocks st) sts)"
      using assms(1) by (simp add: holds_model_def)
    ultimately have "b \<in> set (rm_blocks mdl)" by auto
    moreover have "ps_max_seq st = rm_max_seq mdl"
      using assms(1) \<open>(i, st) \<in> set sts\<close> by (auto simp: holds_model_def list_all_iff)
    moreover note assms(2)
    ultimately show "block_ok (ps_max_seq st) b" by (simp add: model_ok_def)
  qed
  have one: "peer.serves cd ops l st r 0 (replicate (length (ps_blocks st)) [])"
    if "\<forall>b \<in> set (ps_blocks st). block_ok (ps_max_seq st) b" "lk_serve l = handle_stream cd ops st"
      "lk_caches l = Some caches" "caches r = None" for l st caches
    using that entry_holds_fresh [of "ps_blocks st" "ps_max_seq st" caches r ops] by (simp add: peer.serves_def)
  have "mesh_serves cd ops p sts r 0 ?hss"
    unfolding mesh_serves_def list_all2_map2 list_all2_same
  proof (clarify)
    fix i st assume i: "(i, st) \<in> set sts"
    with assms(3) obtain l caches where "p i = Some l" "lk_serve l = handle_stream cd ops st"
      "lk_caches l = Some caches" "caches r = None"
      by blast
    with one [of st l caches] blocks i
    show "\<exists>l. p i = Some l \<and> peer.serves cd ops l st r 0 (replicate (length (ps_blocks st)) [])"
      by blast
  qed
  moreover have "concat ?hss = map (\<lambda>_. []) (rm_blocks mdl)"
  proof -
    have "concat (map (\<lambda>(i, st). replicate (length (ps_blocks st)) []) sts)
        = map (\<lambda>_. []) (concat (map (\<lambda>(i, st). ps_blocks st) sts))"
      by (induction sts) (auto simp: map_replicate_const replicate_add)
    then show ?thesis using assms(1) by (simp add: holds_model_def)
  qed
  ultimately show ?thesis
    using fresh_caches [of mdl ops] unfolding coupled_def by metis
qed

section \<open>Properties\<close>

text \<open>
  C2: over a mesh whose peers hold the ranges of a model, a coordinator generates exactly the
  tokens that the whole model generates on one machine, one per position (and one where none
  was asked for); the stream delivers the same tokens and no error.
\<close>

definition ready :: "codec \<Rightarrow> row tensor_ops \<Rightarrow> stage_list \<Rightarrow> uuid \<Rightarrow> mesh \<Rightarrow> bool" where
  "ready cd ops sts r p \<longleftrightarrow> (\<forall>(i, st) \<in> set sts. \<exists>l caches. p i = Some l \<and> lk_serve l = handle_stream cd ops st
     \<and> lk_caches l = Some caches \<and> caches r = None)"

lemma drive_local:
  assumes ok: "codec_ok cd" "mask_neutral ops" "width_ok ops"
    and hm: "holds_model mdl w vocab sts" and ms: "model_sends mdl w vocab"
    and gen: "generation_ok mdl w prompt (max 1 n)" and top_k: "sc_top_k cfg \<noteq> Some 0"
    and plan: "pipeline_order (co_manifest co) = Some (map fst sts)" and ready: "ready cd ops sts r p"
  shows "\<exists>toks q. drive cd co fl cfg (\<lambda>_. True) r prompt n \<lparr>dr_peers = p, dr_emitted = []\<rparr>
      = (Ok (), \<lparr>dr_peers = q, dr_emitted = toks\<rparr>)
    \<and> local_generate ops mdl vocab fl cfg prompt (max 1 n) = (Ok toks :: ('e, _) outcome)
    \<and> length toks = max 1 n \<and> isolated cd ops sts r p q"
proof -
  let ?cs = "rs_caches (new_request_state ops mdl (rm_max_seq mdl))"
  have "model_ok mdl" using ms by (simp add: model_sends_def)
  then have c0: "coupled cd ops mdl sts r 0 p ?cs"
    using fresh_coupled [OF hm] ready unfolding ready_def by blast
  obtain logits q1 cs1 where f: "forward_pass cd co r (map fst sts) prompt 0 p = (Ok logits, q1)"
    "local_logits ops mdl vocab prompt 0 ?cs = (Ok logits :: ('e, _) outcome, cs1)" "length logits = vocab"
    "coupled cd ops mdl sts r (0 + length prompt) q1 cs1" "isolated cd ops sts r p q1"
    using forward_pass_local [OF ok hm ms generation_ok_prompt [OF gen] c0] by blast
  have v: "0 < vocab" "vocab \<le> 2 ^ 32" "vocab \<le> length (rm_embedding mdl)"
    using ms by (auto simp: model_sends_def)
  obtain t where t: "sample_token fl logits cfg = (Ok t :: (call_error, _) outcome)"
    "sample_token fl logits cfg = (Ok t :: ('e, _) outcome)" "unat t < vocab"
    by (rule sample_token_Ok [where fl = fl, OF f(3) v(1,2) top_k])
  have room: "length prompt + 1 + (n - 1) \<le> rm_max_seq mdl + 1"
    using gen by (auto simp: generation_ok_def max_def split: if_splits)
  have c1: "coupled cd ops mdl sts r (length prompt + 1 - 1) q1 cs1" using f(4) by simp
  have tv: "unat t < length (rm_embedding mdl)" using t(3) v(3) by simp
  obtain toks q cs' where l: "token_loop cd co fl cfg (\<lambda>_. True) r (map fst sts) (length prompt) (n - 1) 1 t
        \<lparr>dr_peers = q1, dr_emitted = [t]\<rparr> = (Ok (), \<lparr>dr_peers = q, dr_emitted = [t] @ toks\<rparr>)"
    "local_tokens ops mdl vocab fl cfg (n - 1) (length prompt + 1 - 1) [t] cs1 = (Ok toks :: ('e, _) outcome, cs')"
    "length toks = n - 1" "isolated cd ops sts r q1 q"
    using token_loop_local [where plen = "length prompt" and produced = 1 and n = "n - 1",
        OF ok hm ms generation_ok_width [OF gen] top_k c1 tv order_refl room] by blast
  have "set (map fst sts) = set (mf_ids (co_manifest co))"
    using pipeline_order_facts [OF plan] by blast
  then have miss: "missing_peers co p = []"
    using ready by (fastforce simp: missing_peers_def filter_empty_conv ready_def)
  obtain hops where hops: "plan co = Some hops" "map hop_node_id hops = map fst sts"
    using plan by (simp add: plan_def forward_plan_def comp_def)
  have two: "\<not> length (map fst sts) < 2" using hm by (simp add: holds_model_def)
  have f': "on_peers (forward_pass cd co r (map fst sts) prompt 0) \<lparr>dr_peers = p, dr_emitted = []\<rparr>
      = (Ok logits, \<lparr>dr_peers = q1, dr_emitted = []\<rparr>)"
    by (simp only: on_peers_def drive_state.simps f(1) prod.case)
  have "drive cd co fl cfg (\<lambda>_. True) r prompt n \<lparr>dr_peers = p, dr_emitted = []\<rparr>
      = (Ok (), \<lparr>dr_peers = q, dr_emitted = t # toks\<rparr>)"
    unfolding drive_def Let_def and_run_apply hops pure_op_apply ok_or_def option.case if_not_P [OF two] f' prod.case
      outcome.case t(1) on_token_def if_True
    using l(1) by (simp add: miss)
  moreover have "local_generate ops mdl vocab fl cfg prompt (max 1 n) = (Ok (t # toks) :: ('e, _) outcome)"
  proof -
    have n: "max 1 n = Suc (n - 1)" by simp
    have pos: "0 + length prompt = length prompt + 1 - 1" by simp
    have "local_tokens ops mdl vocab fl cfg (Suc (n - 1)) 0 prompt ?cs = (Ok (t # toks) :: ('e, _) outcome, cs')"
      unfolding local_tokens.simps and_run_apply f(2) prod.case outcome.case pure_op_apply t(2) pos l(2) ret_apply ..
    then show ?thesis
      unfolding local_generate_def n by simp
  qed
  moreover have "length (t # toks) = max 1 n" using l(3) by simp
  ultimately show ?thesis
    using isolated_trans [OF f(5) l(4)] by blast
qed

theorem coordinator_is_local:
  assumes "codec_ok cd" "mask_neutral ops" "width_ok ops"
    and "holds_model mdl w vocab sts" and "model_sends mdl w vocab"
    and "generation_ok mdl w prompt (max 1 n)" and "sc_top_k cfg \<noteq> Some 0"
    and "pipeline_order (co_manifest co) = Some (map fst sts)" and "ready cd ops sts r p"
  shows "\<exists>toks q. generate cd co fl cfg r prompt n p = (Ok toks, q)
    \<and> generate_stream cd co fl cfg (\<lambda>_. True) r prompt n p = (map Inr toks, q)
    \<and> local_generate ops mdl vocab fl cfg prompt (max 1 n) = (Ok toks :: (unit, _) outcome)
    \<and> length toks = max 1 n"
  using drive_local [where 'e = unit and fl = fl, OF assms] by (auto simp: generate_def generate_stream_def)

text \<open>
  C18: a request leaves the other requests alone: whatever the peers had stored for another
  request they still have, as the same keys and values at the same position, and connections
  that are not part of the pipeline are not used.
\<close>

theorem coordinator_isolates_requests:
  assumes "codec_ok cd" "mask_neutral ops" "width_ok ops"
    and "holds_model mdl w vocab sts" and "model_sends mdl w vocab"
    and "generation_ok mdl w prompt (max 1 n)" and "sc_top_k cfg \<noteq> Some 0"
    and "pipeline_order (co_manifest co) = Some (map fst sts)" and "ready cd ops sts r p"
    and "r' \<noteq> r" and "coupled cd ops mdl sts r' m p cs"
  shows "coupled cd ops mdl sts r' m (snd (generate cd co fl cfg r prompt n p)) cs
    \<and> (\<forall>j. j \<notin> fst ` set sts \<longrightarrow> snd (generate cd co fl cfg r prompt n p) j = p j)"
proof -
  obtain toks q where q: "drive cd co fl cfg (\<lambda>_. True) r prompt n \<lparr>dr_peers = p, dr_emitted = []\<rparr>
      = (Ok (), \<lparr>dr_peers = q, dr_emitted = toks\<rparr>)" "isolated cd ops sts r p q"
    using drive_local [where 'e = unit and fl = fl, OF assms(1-9)] by auto
  have gen: "snd (generate cd co fl cfg r prompt n p) = q"
    by (simp add: generate_def q(1))
  show ?thesis
    using q(2) assms(10,11) unfolding gen isolated_def coupled_def by blast
qed

section \<open>A mesh of two nodes\<close>

definition row_add :: "row \<Rightarrow> row \<Rightarrow> row" where
  "row_add x y = map2 (+) x (y @ replicate (length x) 0)"

definition ex_row_ops :: "row tensor_ops" where
  "ex_row_ops = \<lparr>op_add = row_add, op_mul = row_add, op_silu = (\<lambda>x. x), op_rope = (\<lambda>x p. map (\<lambda>v. v + of_nat p) x),
     op_sdpa = (\<lambda>q ks vs ms. fold row_add (kept ms vs) (fold row_add (kept ms ks) q)), op_zero = [0]\<rparr>"

lemma ex_row_mask_neutral: "mask_neutral ex_row_ops"
proof -
  have "kept (replicate (length (kept ms ks)) False) (kept ms vs) = kept ms vs"
    if "length ks = length ms" "length vs = length ms" for ms and ks vs :: "row list"
    using that length_kept [of ks ms] length_kept [of vs ms] kept_all [of "kept ms vs"] by simp
  moreover have "kept (replicate (length (kept ms ks)) False) (kept ms ks) = kept ms ks" for ms and ks :: "row list"
    using kept_all [of "kept ms ks"] by simp
  ultimately show ?thesis
    by (auto simp: mask_neutral_def ex_row_ops_def)
qed

lemma ex_row_width_ok: "width_ok ex_row_ops"
  by (simp add: width_ok_def ex_row_ops_def row_add_def)

definition ex_row_block :: "row decoder_block" where
  "ex_row_block = \<lparr>bk_attn_norm = (\<lambda>x. x),
     bk_attn = \<lparr>at_q_proj = (\<lambda>x. x), at_k_proj = (\<lambda>x. x), at_v_proj = (\<lambda>x. x), at_o_proj = (\<lambda>x. x), at_max_seq = 8\<rparr>,
     bk_ffn_norm = (\<lambda>x. x), bk_ffn = \<lparr>ff_gate = (\<lambda>x. x), ff_up = (\<lambda>x. x), ff_down = (\<lambda>x. x)\<rparr>\<rparr>"

definition ex_row_model :: "row rt_model" where
  "ex_row_model = \<lparr>rm_embedding = [[1], [2], [3]], rm_blocks = [ex_row_block, ex_row_block, ex_row_block],
     rm_final_norm = (\<lambda>x. x), rm_output = (\<lambda>x. [sum_list x, 5]), rm_max_seq = 8\<rparr>"

definition ex_stages :: stage_list where
  "ex_stages =
     [(''a'', \<lparr>ps_blocks = [ex_row_block], ps_embedding = Some [[1], [2], [3]], ps_final_norm = None, ps_output = None,
              ps_max_seq = 8, ps_hidden = 1, ps_vocab = 2\<rparr>),
      (''b'', \<lparr>ps_blocks = [ex_row_block, ex_row_block], ps_embedding = None, ps_final_norm = Some (\<lambda>x. x),
              ps_output = Some (\<lambda>x. [sum_list x, 5]), ps_max_seq = 8, ps_hidden = 1, ps_vocab = 2\<rparr>)]"

definition ex_mesh :: mesh where
  "ex_mesh = map_of (map (\<lambda>(i, st). (i, \<lparr>lk_serve = handle_stream ex_codec ex_row_ops st, lk_caches = Some Map.empty\<rparr>)) ex_stages)"

definition ex_coordinator :: coordinator where
  "ex_coordinator = \<lparr>co_local_id = ''c'', co_manifest = ex_manual\<rparr>"

definition ex_word_floats :: "u32 float_ops" where
  "ex_word_floats = \<lparr>fl_zero = 0, fl_neg_inf = 0, fl_add = (+), fl_sub = (-), fl_div = (\<lambda>x y. x), fl_exp = (\<lambda>x. x),
     fl_eq = (=), fl_lt = (<), fl_le = (\<le>), fl_rand = (\<lambda>_. 0)\<rparr>"

definition ex_greedy :: "u32 sampling_config" where
  "ex_greedy = \<lparr>sc_temperature = 0, sc_top_p = None, sc_top_k = None, sc_seed = 0\<rparr>"

lemma ex_holds_model: "holds_model ex_row_model 1 2 ex_stages"
  by (simp add: holds_model_def ex_row_model_def ex_stages_def)

lemma ex_model_sends: "model_sends ex_row_model 1 2"
  by (simp add: model_sends_def model_ok_def block_ok_def ex_row_model_def ex_row_block_def rows_fit_def max_frame_def)

lemma ex_generation_ok: "generation_ok ex_row_model 1 [0, 2] (max 1 3)"
  by (simp add: generation_ok_def ex_row_model_def max_frame_def)

lemma ex_ready: "ready ex_codec ex_row_ops ex_stages 7 ex_mesh"
  by (simp add: ready_def ex_stages_def ex_mesh_def)

lemma ex_pipeline: "pipeline_order (co_manifest ex_coordinator) = Some (map fst ex_stages)"
  by code_simp

lemma ex_greedy_top_k: "sc_top_k ex_greedy \<noteq> Some 0"
  by (simp add: ex_greedy_def)

lemmas ex_generation = ex_codec_ok ex_row_mask_neutral ex_row_width_ok ex_holds_model ex_model_sends ex_generation_ok
  ex_greedy_top_k ex_pipeline ex_ready

lemma coordinator_is_local_witness:
  "\<exists>toks q. generate ex_codec ex_coordinator ex_word_floats ex_greedy 7 [0, 2] 3 ex_mesh = (Ok toks, q) \<and> length toks = 3
    \<and> local_generate ex_row_ops ex_row_model 2 ex_word_floats ex_greedy [0, 2] 3 = (Ok toks :: (unit, _) outcome)"
  using coordinator_is_local [where fl = ex_word_floats, OF ex_generation] by auto

lemma coordinator_isolates_requests_witness:
  "coupled ex_codec ex_row_ops ex_row_model ex_stages 9 0
      (snd (generate ex_codec ex_coordinator ex_word_floats ex_greedy 7 [0, 2] 3 ex_mesh))
      (rs_caches (new_request_state ex_row_ops ex_row_model (rm_max_seq ex_row_model)))"
proof -
  have "model_ok ex_row_model" using ex_model_sends by (simp add: model_sends_def)
  moreover have "ready ex_codec ex_row_ops ex_stages 9 ex_mesh"
    by (simp add: ready_def ex_stages_def ex_mesh_def)
  ultimately have "coupled ex_codec ex_row_ops ex_row_model ex_stages 9 0 ex_mesh
      (rs_caches (new_request_state ex_row_ops ex_row_model (rm_max_seq ex_row_model)))"
    using fresh_coupled [OF ex_holds_model, of ex_mesh ex_codec ex_row_ops 9] unfolding ready_def by blast
  from coordinator_isolates_requests [where fl = ex_word_floats and r' = 9, OF ex_generation _ this]
  show ?thesis by simp
qed

end
