(* ===== verification/Leader.thy ===== *)
theory Leader
  imports Distributed
begin

text \<open>
  The star topology: a leader (\<open>cluster/src/leader.rs\<close>, \<open>session.rs\<close>) joins workers
  (\<open>worker.rs\<close>), computes the manifest from their capabilities, tells each worker its layers,
  and drives requests through its own blocks and then through every worker, in the order of its
  connections.

  A connection of the leader is a \<open>link\<close> whose loop is \<open>worker_stream\<close>.  The handshake is
  modelled from both sides over the bytes of the control stream.
\<close>

section \<open>A session\<close>

record leader_model =
  lm_embedding :: "row list"
  lm_blocks :: "row decoder_block list"
  lm_final_norm :: "row \<Rightarrow> row"
  lm_output :: "row \<Rightarrow> row"
  lm_max_seq :: nat
  lm_hidden :: nat
  lm_vocab :: nat

record request_session =
  se_caches :: "row kv_slot list"
  se_current_pos :: nat
  se_conns :: "link list"

definition new_session :: "row tensor_ops \<Rightarrow> leader_model \<Rightarrow> link list \<Rightarrow> request_session" where
  "new_session ops lm conns =
     \<lparr>se_caches = map (\<lambda>_. new_kv_slot ops (lm_max_seq lm)) [0..<length (lm_blocks lm)], se_current_pos = 0,
      se_conns = conns\<rparr>"

text \<open>The loop over the workers: each gets the rows, and its answer is read with the shape that was sent.\<close>

fun through_workers ::
    "codec \<Rightarrow> uuid \<Rightarrow> nat \<Rightarrow> nat \<Rightarrow> bool \<Rightarrow> row list \<Rightarrow> (link list, call_error, row list) stateful" where
  "through_workers cd r start hidden terminal xs [] = (Ok xs, [])"
| "through_workers cd r start hidden terminal xs (conn # conns) =
     (let (bytes, shape) = tensor_to_bytes hidden xs;
          header = \<lparr>ah_request_id = r, ah_seq_pos = word_of_nat start, ah_shape = shape_u32 shape, ah_dtype = F32,
                    ah_is_terminal = terminal\<rparr>
      in case rpc [cd_enc_header cd header, Some bytes] conn of
           (Ok answer, conn') \<Rightarrow>
             (case and_then (read_activation cd answer) (\<lambda>(_, payload). map_err CallTensor (tensor_from_bytes payload shape)) of
                Ok xs' \<Rightarrow> (case through_workers cd r start hidden terminal xs' conns of (res, conns') \<Rightarrow> (res, conn' # conns'))
              | Err e \<Rightarrow> (Err e, conn' # conns)
              | Panic \<Rightarrow> (Panic, conn' # conns))
         | (Err e, conn') \<Rightarrow> (Err e, conn' # conns)
         | (Panic, conn') \<Rightarrow> (Panic, conn' # conns))"

definition step_session ::
    "codec \<Rightarrow> row tensor_ops \<Rightarrow> leader_model \<Rightarrow> uuid \<Rightarrow> u32 list \<Rightarrow> bool \<Rightarrow> (request_session, call_error, row) stateful" where
  "step_session cd ops lm r token_ids terminal = (\<lambda>s.
     case embed_tokens (lm_embedding lm) token_ids of
       Ok xs \<Rightarrow>
         (case run_blocks ops (positions_from (se_current_pos s) (length token_ids)) (lm_blocks lm) xs (se_caches s) of
            (Ok xs, caches) \<Rightarrow>
              (case through_workers cd r (se_current_pos s) (lm_hidden lm) terminal xs (se_conns s) of
                 (res, conns) \<Rightarrow>
                   (and_then res (\<lambda>xs. last_logits (lm_vocab lm) (map (\<lambda>x. lm_output lm (lm_final_norm lm x)) xs)),
                    s\<lparr>se_caches := caches, se_conns := conns\<rparr>))
          | (Err e, caches) \<Rightarrow> (Err e, s\<lparr>se_caches := caches\<rparr>)
          | (Panic, caches) \<Rightarrow> (Panic, s\<lparr>se_caches := caches\<rparr>))
     | Err e \<Rightarrow> (Err e, s)
     | Panic \<Rightarrow> (Panic, s))"

definition set_pos :: "nat \<Rightarrow> (request_session, 'e, unit) stateful" where
  "set_pos n = (\<lambda>s. (Ok (), s\<lparr>se_current_pos := n\<rparr>))"

fun leader_loop ::
    "codec \<Rightarrow> row tensor_ops \<Rightarrow> leader_model \<Rightarrow> u32 float_ops \<Rightarrow> u32 sampling_config \<Rightarrow> uuid \<Rightarrow> nat \<Rightarrow> u32 list
      \<Rightarrow> (request_session, call_error, u32 list) stateful" where
  "leader_loop cd ops lm fl sampling r 0 produced = ret produced"
| "leader_loop cd ops lm fl sampling r (Suc n) produced =
     and_run (step_session cd ops lm r [last produced] False) (\<lambda>logits.
     and_run (\<lambda>s. (Ok (), s\<lparr>se_current_pos := se_current_pos s + 1\<rparr>)) (\<lambda>_.
     and_run (pure_op (sample_token fl logits sampling)) (\<lambda>tok.
       leader_loop cd ops lm fl sampling r n (produced @ [tok]))))"

definition leader_generate ::
    "codec \<Rightarrow> row tensor_ops \<Rightarrow> leader_model \<Rightarrow> u32 float_ops \<Rightarrow> u32 sampling_config \<Rightarrow> uuid \<Rightarrow> link list \<Rightarrow> u32 list \<Rightarrow> nat
      \<Rightarrow> (call_error, u32 list) outcome \<times> request_session" where
  "leader_generate cd ops lm fl sampling r conns prompt_ids max_tokens =
     and_run (step_session cd ops lm r prompt_ids False) (\<lambda>logits.
     and_run (set_pos (length prompt_ids)) (\<lambda>_.
     and_run (pure_op (sample_token fl logits sampling)) (\<lambda>tok.
       leader_loop cd ops lm fl sampling r (max_tokens - 1) [tok])))
     (new_session ops lm conns)"

section \<open>The workers in sequence\<close>

definition workers_serve ::
    "codec \<Rightarrow> row tensor_ops \<Rightarrow> link list \<Rightarrow> worker_stages list \<Rightarrow> uuid \<Rightarrow> nat \<Rightarrow> row history list list \<Rightarrow> bool" where
  "workers_serve cd ops conns wks r m hss \<longleftrightarrow> length conns = length wks
     \<and> list_all2 (\<lambda>(l, wk) hs. worker.serves cd ops l wk r m hs) (zip conns wks) hss"

definition worker_layers :: "worker_stages list \<Rightarrow> row layer list" where
  "worker_layers wks = map as_layer (concat (map wk_blocks wks))"

lemma worker_layers_simps [simp]:
  "worker_layers [] = []" "worker_layers (wk # wks) = map as_layer (wk_blocks wk) @ worker_layers wks"
  by (simp_all add: worker_layers_def)

lemma workers_serve_Cons:
  "workers_serve cd ops conns (wk # wks) r m hss \<longleftrightarrow>
     (\<exists>l ls hs gss. conns = l # ls \<and> hss = hs # gss \<and> worker.serves cd ops l wk r m hs \<and> workers_serve cd ops ls wks r m gss)"
  unfolding workers_serve_def by (cases conns; cases hss) auto

lemma workers_serve_lengths:
  "workers_serve cd ops conns wks r m hss \<Longrightarrow> length (concat hss) = length (worker_layers wks)"
proof (induction wks arbitrary: conns hss)
  case Nil
  then show ?case by (simp add: workers_serve_def)
next
  case (Cons wk wks)
  then show ?case by (auto simp: workers_serve_Cons dest!: worker.serves_length)
qed

lemma through_workers_Ok:
  assumes "codec_ok cd" "mask_neutral ops" "width_ok ops"
    and "workers_serve cd ops conns wks r m hss" and "sendable w xs"
    and "\<forall>wk \<in> set wks. m + length xs \<le> wk_max_seq wk \<and> wk_max_seq wk < 2 ^ 32"
  shows "\<exists>conns' hss'. through_workers cd r m w False xs conns
      = (Ok (fst (dense_tokens ops (worker_layers wks) m xs (concat hss))), conns')
    \<and> concat hss' = snd (dense_tokens ops (worker_layers wks) m xs (concat hss))
    \<and> workers_serve cd ops conns' wks r (m + length xs) hss'"
  using assms(4-6)
proof (induction wks arbitrary: conns hss xs)
  case Nil
  then have "conns = []" "hss = []" by (auto simp: workers_serve_def)
  then show ?case by (auto simp: workers_serve_def intro!: exI [of _ "[]"])
next
  case (Cons wk wks)
  obtain l ls hs gss where c: "conns = l # ls" "hss = hs # gss" "worker.serves cd ops l wk r m hs"
    "workers_serve cd ops ls wks r m gss"
    using Cons.prems(1) by (auto simp: workers_serve_Cons)
  have max: "m + length xs \<le> wk_max_seq wk" "wk_max_seq wk < 2 ^ 32"
    using Cons.prems(3) by auto
  let ?d = "dense_tokens ops (map as_layer (wk_blocks wk)) m xs hs"
  obtain answer l' where hop:
    "rpc [cd_enc_header cd (relay_header r m (length xs) w), Some (payload_of xs)] l = (Ok answer, l')"
    "read_activation cd answer = Ok (relay_header r m (length xs) w, payload_of (fst ?d))"
    "worker.serves cd ops l' wk r (m + length xs) (snd ?d)"
    by (rule worker.hop [OF assms(1-3) c(3) Cons.prems(2) max]) blast
  note sd = sendable_dense [OF assms(3) Cons.prems(2), of "map as_layer (wk_blocks wk)" m hs]
  have back_eq: "tensor_from_bytes (payload_of (fst ?d)) (1, length xs, w) = Ok (fst ?d)"
    using sendable_payload(2) [OF sd] by simp
  have "\<exists>conns' hss'. through_workers cd r m w False (fst ?d) ls
      = (Ok (fst (dense_tokens ops (worker_layers wks) m (fst ?d) (concat gss))), conns')
    \<and> concat hss' = snd (dense_tokens ops (worker_layers wks) m (fst ?d) (concat gss))
    \<and> workers_serve cd ops conns' wks r (m + length xs) hss'"
  proof (rule Cons.IH [of ls gss "fst ?d", unfolded length_dense_tokens])
    show "\<forall>wk \<in> set wks. m + length xs \<le> wk_max_seq wk \<and> wk_max_seq wk < 2 ^ 32"
      using Cons.prems(3) by simp
  qed (rule c(4), rule sd)
  then obtain ls' hss' where ih: "through_workers cd r m w False (fst ?d) ls
      = (Ok (fst (dense_tokens ops (worker_layers wks) m (fst ?d) (concat gss))), ls')"
    "concat hss' = snd (dense_tokens ops (worker_layers wks) m (fst ?d) (concat gss))"
    "workers_serve cd ops ls' wks r (m + length xs) hss'"
    by blast
  have d: "dense_tokens ops (worker_layers (wk # wks)) m xs (concat hss)
      = (fst (dense_tokens ops (worker_layers wks) m (fst ?d) (concat gss)),
         snd ?d @ snd (dense_tokens ops (worker_layers wks) m (fst ?d) (concat gss)))"
    using dense_tokens_append_layers [of hs "map as_layer (wk_blocks wk)" ops "worker_layers wks" m xs "concat gss"]
      worker.serves_length [OF c(3)] by (simp add: c(2) split_beta Let_def)
  have hdr: "\<lparr>ah_request_id = r, ah_seq_pos = word_of_nat m, ah_shape = shape_u32 (1, length xs, w), ah_dtype = F32,
      ah_is_terminal = False\<rparr> = relay_header r m (length xs) w"
    by (simp add: relay_header_def)
  have "through_workers cd r m w False xs conns
      = (Ok (fst (dense_tokens ops (worker_layers (wk # wks)) m xs (concat hss))), l' # ls')"
    unfolding c(1) through_workers.simps sendable_payload(4) [OF Cons.prems(2)] Let_def prod.case hdr hop(1,2) outcome.case
      and_then.simps back_eq map_err.simps ih(1) d fst_conv ..
  moreover have "workers_serve cd ops (l' # ls') (wk # wks) r (m + length xs) (snd ?d # hss')"
    using hop(3) ih(3) by (simp add: workers_serve_Cons)
  moreover have "concat (snd ?d # hss') = snd (dense_tokens ops (worker_layers (wk # wks)) m xs (concat hss))"
    by (simp only: concat.simps d ih(2) snd_conv)
  ultimately show ?case by blast
qed

section \<open>The leader runs the whole model\<close>

definition star_holds :: "row rt_model \<Rightarrow> nat \<Rightarrow> nat \<Rightarrow> leader_model \<Rightarrow> worker_stages list \<Rightarrow> bool" where
  "star_holds mdl w vocab lm wks \<longleftrightarrow> lm_blocks lm @ concat (map wk_blocks wks) = rm_blocks mdl
   \<and> lm_embedding lm = rm_embedding mdl \<and> lm_final_norm lm = rm_final_norm mdl \<and> lm_output lm = rm_output mdl
   \<and> lm_max_seq lm = rm_max_seq mdl \<and> lm_hidden lm = w \<and> lm_vocab lm = vocab
   \<and> (\<forall>wk \<in> set wks. wk_max_seq wk = rm_max_seq mdl)"

definition session_at ::
    "codec \<Rightarrow> row tensor_ops \<Rightarrow> row rt_model \<Rightarrow> leader_model \<Rightarrow> worker_stages list \<Rightarrow> uuid \<Rightarrow> nat \<Rightarrow> request_session
      \<Rightarrow> row kv_slot list \<Rightarrow> bool" where
  "session_at cd ops mdl lm wks r m s cs \<longleftrightarrow> (\<exists>hl hss. length (se_caches s) = length (lm_blocks lm)
     \<and> caches_hold (rm_max_seq mdl) (se_caches s) hl \<and> (\<forall>h \<in> set hl. length h = m)
     \<and> workers_serve cd ops (se_conns s) wks r m hss \<and> caches_at mdl m cs (hl @ concat hss))"

lemma step_session_local:
  assumes ok: "codec_ok cd" "mask_neutral ops" "width_ok ops"
    and sh: "star_holds mdl w vocab lm wks" and ms: "model_sends mdl w vocab" and fit: "ids_fit mdl w m ids"
    and at: "session_at cd ops mdl lm wks r m s cs" and pos: "se_current_pos s = m"
  shows "\<exists>logits s' cs'. step_session cd ops lm r ids False s = (Ok logits, s')
    \<and> local_logits ops mdl vocab ids m cs = (Ok logits :: ('e, _) outcome, cs') \<and> length logits = vocab
    \<and> session_at cd ops mdl lm wks r (m + length ids) s' cs' \<and> se_current_pos s' = m"
proof -
  obtain hl hss where h: "length (se_caches s) = length (lm_blocks lm)" "caches_hold (rm_max_seq mdl) (se_caches s) hl"
    "\<forall>h \<in> set hl. length h = m" "workers_serve cd ops (se_conns s) wks r m hss" "caches_at mdl m cs (hl @ concat hss)"
    using at by (auto simp: session_at_def)
  have lm: "lm_blocks lm @ concat (map wk_blocks wks) = rm_blocks mdl" "lm_embedding lm = rm_embedding mdl"
    "lm_final_norm lm = rm_final_norm mdl" "lm_output lm = rm_output mdl" "lm_hidden lm = w" "lm_vocab lm = vocab"
    using sh by (auto simp: star_holds_def)
  let ?xs = "embedded (rm_embedding mdl) ids"
  let ?f = "\<lambda>x. rm_output mdl (rm_final_norm mdl x)"
  let ?d1 = "dense_tokens ops (map as_layer (lm_blocks lm)) m ?xs hl"
  let ?d2 = "dense_tokens ops (worker_layers wks) m (fst ?d1) (concat hss)"
  let ?ref = "reference_rows ops mdl ids m (hl @ concat hss)"
  have side: "model_ok mdl" "m + length ids \<le> rm_max_seq mdl" "\<forall>i \<in> set ids. unat i < length (rm_embedding mdl)"
    "rm_max_seq mdl < 2 ^ 32"
    using ms fit by (auto simp: model_sends_def ids_fit_def)
  have bs: "\<forall>b \<in> set (lm_blocks lm). block_ok (rm_max_seq mdl) b"
    using side(1) lm(1) unfolding model_ok_def by (metis UnCI set_append)
  have room: "m + length ?xs \<le> rm_max_seq mdl" using side(2) by simp
  obtain cl where cl: "run_blocks ops (positions_from m (length ids)) (lm_blocks lm) ?xs (se_caches s)
      = (Ok (fst ?d1) :: (call_error, _) outcome, cl)" "caches_hold (rm_max_seq mdl) cl (snd ?d1)"
    using run_blocks_refines [OF ok(2) bs h(1,2,3) room] unfolding length_embedded by blast
  note sx = sendable_dense [OF ok(3) embedded_sendable [OF ms fit], of "map as_layer (lm_blocks lm)" m hl]
  have "\<forall>wk \<in> set wks. m + length (fst ?d1) \<le> wk_max_seq wk \<and> wk_max_seq wk < 2 ^ 32"
    using sh side(2,4) by (simp add: star_holds_def)
  then obtain conns' hss' where w: "through_workers cd r m w False (fst ?d1) (se_conns s) = (Ok (fst ?d2), conns')"
    "concat hss' = snd ?d2" "workers_serve cd ops conns' wks r (m + length (fst ?d1)) hss'"
    using through_workers_Ok [OF ok h(4) sx] by blast
  have lens: "length hl = length (map as_layer (lm_blocks lm))"
    using h(1,2) by (auto simp: caches_hold_def dest: list_all2_lengthD)
  have layers: "map as_layer (rm_blocks mdl) = map as_layer (lm_blocks lm) @ worker_layers wks"
    by (simp add: worker_layers_def flip: lm(1))
  have ref: "fst ?ref = map ?f (fst ?d2)" "snd ?ref = snd ?d1 @ snd ?d2"
    by (simp_all add: reference_rows_def layers embedded_def [symmetric] dense_tokens_append_layers [OF lens] split_beta Let_def)
  have ne: "fst ?d2 \<noteq> []"
  proof -
    have "length (fst ?d2) = length ids" by simp
    with fit show ?thesis unfolding ids_fit_def by (metis length_0_conv)
  qed
  have wide: "\<forall>x. vocab \<le> length (?f x)" using ms by (simp add: model_sends_def)
  note lastl = last_logits_rows [OF wide ne]
  obtain cs' where cs': "forward_with_caches ops mdl ids m cs = (Ok (fst ?ref) :: ('e, _) outcome, cs')"
    "caches_at mdl (m + length ids) cs' (snd ?ref)"
    using forward_refines [OF ok(2) side(1) h(5) side(2,3)] by blast
  let ?s = "s\<lparr>se_caches := cl, se_conns := conns'\<rparr>" and ?v = "take vocab (last (map ?f (fst ?d2)))"
  have emb: "embed_tokens (rm_embedding mdl) ids = (Ok ?xs :: (call_error, _) outcome)"
    using side(3) by (simp add: embed_tokens_def embedded_def list_all_iff)
  have "step_session cd ops lm r ids False s = (Ok ?v, ?s)"
    unfolding step_session_def lm(2-6) emb pos outcome.case cl(1) prod.case w(1) and_then.simps lastl(1) ..
  moreover have "local_logits ops mdl vocab ids m cs = (Ok ?v :: ('e, _) outcome, cs')"
    by (simp only: local_logits_def and_run_apply cs'(1) prod.case outcome.case pure_op_apply ref lastl(1))
  moreover have "session_at cd ops mdl lm wks r (m + length ids) ?s cs'"
  proof -
    have "\<forall>h \<in> set (snd ?d1). length h = m + length ids"
      using dense_tokens_lengths [OF h(3), of ops "map as_layer (lm_blocks lm)" m ?xs] by simp
    moreover have "length cl = length (lm_blocks lm)"
      using run_blocks_length [OF cl(1)] h(1) by simp
    ultimately show ?thesis
      using cl(2) w(2,3) cs'(2) unfolding session_at_def ref by (intro exI [of _ "snd ?d1"] exI [of _ hss']) simp
  qed
  ultimately show ?thesis
    using lastl(2) pos by fastforce
qed

lemma leader_loop_local:
  assumes ok: "codec_ok cd" "mask_neutral ops" "width_ok ops"
    and sh: "star_holds mdl w vocab lm wks" and ms: "model_sends mdl w vocab"
    and small: "4 * w \<le> max_frame" "sc_top_k cfg \<noteq> Some 0"
  shows "session_at cd ops mdl lm wks r m s cs \<Longrightarrow> se_current_pos s = m \<Longrightarrow> produced \<noteq> []
    \<Longrightarrow> unat (last produced) < length (rm_embedding mdl) \<Longrightarrow> m + n \<le> rm_max_seq mdl \<Longrightarrow>
    \<exists>toks s' cs'. leader_loop cd ops lm fl cfg r n produced s = (Ok (produced @ toks), s')
    \<and> local_tokens ops mdl vocab fl cfg n m [last produced] cs = (Ok toks :: ('e, _) outcome, cs')
    \<and> length toks = n"
proof (induction n arbitrary: m s cs produced)
  case 0
  then show ?case by simp
next
  case (Suc n)
  have fit: "ids_fit mdl w m [last produced]"
    using Suc.prems(4,5) small(1) by (simp add: ids_fit_def max_frame_def)
  obtain logits s1 cs1 where f: "step_session cd ops lm r [last produced] False s = (Ok logits, s1)"
    "local_logits ops mdl vocab [last produced] m cs = (Ok logits :: ('e, _) outcome, cs1)" "length logits = vocab"
    "session_at cd ops mdl lm wks r (m + length [last produced]) s1 cs1" "se_current_pos s1 = m"
    using step_session_local [OF ok sh ms fit Suc.prems(1,2)] by blast
  have v: "0 < vocab" "vocab \<le> 2 ^ 32" "vocab \<le> length (rm_embedding mdl)"
    using ms by (auto simp: model_sends_def)
  obtain t where t: "sample_token fl logits cfg = (Ok t :: (call_error, _) outcome)"
    "sample_token fl logits cfg = (Ok t :: ('e, _) outcome)" "unat t < vocab"
    by (rule sample_token_Ok [where fl = fl, OF f(3) v(1,2) small(2)])
  let ?s1 = "s1\<lparr>se_current_pos := se_current_pos s1 + 1\<rparr>"
  have at: "session_at cd ops mdl lm wks r (m + 1) ?s1 cs1"
    using f(4) by (simp add: session_at_def)
  have pos: "se_current_pos ?s1 = m + 1" using f(5) by simp
  have tv: "unat (last (produced @ [t])) < length (rm_embedding mdl)" using t(3) v(3) by simp
  have room: "m + 1 + n \<le> rm_max_seq mdl" using Suc.prems(5) by simp
  obtain toks s' cs' where ih: "leader_loop cd ops lm fl cfg r n (produced @ [t]) ?s1 = (Ok ((produced @ [t]) @ toks), s')"
    "local_tokens ops mdl vocab fl cfg n (m + 1) [last (produced @ [t])] cs1 = (Ok toks :: ('e, _) outcome, cs')" "length toks = n"
    using Suc.IH [OF at pos _ tv room] by blast
  have "leader_loop cd ops lm fl cfg r (Suc n) produced s = (Ok (produced @ (t # toks)), s')"
    unfolding leader_loop.simps and_run_apply f(1) prod.case outcome.case pure_op_apply t(1) ih(1) by simp
  moreover have "local_tokens ops mdl vocab fl cfg (Suc n) m [last produced] cs = (Ok (t # toks) :: ('e, _) outcome, cs')"
    using ih(2) by (simp add: and_run_apply f(2) t(2))
  ultimately show ?case
    using ih(3) by (intro exI [of _ "t # toks"] exI [of _ s'] exI [of _ cs']) simp
qed

lemma new_session_at:
  assumes "star_holds mdl w vocab lm wks" and "model_ok mdl" and "length conns = length wks"
    and "list_all2 (\<lambda>l wk. lk_serve l = worker_stream cd ops wk \<and> (\<exists>caches. lk_caches l = Some caches \<and> caches r = None)) conns wks"
  shows "session_at cd ops mdl lm wks r 0 (new_session ops lm conns)
      (rs_caches (new_request_state ops mdl (rm_max_seq mdl)))"
proof -
  let ?hss = "map (\<lambda>wk. replicate (length (wk_blocks wk)) []) wks"
  have lm: "rm_blocks mdl = lm_blocks lm @ concat (map wk_blocks wks)" "lm_max_seq lm = rm_max_seq mdl"
    "\<forall>wk \<in> set wks. wk_max_seq wk = rm_max_seq mdl"
    using assms(1) by (auto simp: star_holds_def)
  have bs: "\<forall>b \<in> set (wk_blocks wk). block_ok (wk_max_seq wk) b" if "wk \<in> set wks" for wk
    using assms(2) lm that by (auto simp: model_ok_def)
  have "worker.serves cd ops (conns ! i) (wks ! i) r 0 (replicate (length (wk_blocks (wks ! i))) [])" if i: "i < length wks" for i
  proof -
    obtain caches where "lk_serve (conns ! i) = worker_stream cd ops (wks ! i)" "lk_caches (conns ! i) = Some caches" "caches r = None"
      using assms(4) i by (auto simp: list_all2_conv_all_nth)
    with entry_holds_fresh [of "wk_blocks (wks ! i)" "wk_max_seq (wks ! i)" caches r ops] bs [of "wks ! i"] i
    show ?thesis by (simp add: worker.serves_def)
  qed
  then have "workers_serve cd ops conns wks r 0 ?hss"
    using assms(3) by (simp add: workers_serve_def list_all2_conv_all_nth)
  moreover have "caches_at mdl 0 (rs_caches (new_request_state ops mdl (rm_max_seq mdl)))
      (map (\<lambda>_. []) (lm_blocks lm) @ concat ?hss)"
  proof -
    have "concat (map (\<lambda>wk. replicate (length (wk_blocks wk)) []) ws) = map (\<lambda>_. []) (concat (map wk_blocks ws))" for ws
      by (induction ws) (auto simp: map_replicate_const replicate_add)
    then have "map (\<lambda>_. []) (lm_blocks lm) @ concat ?hss = map (\<lambda>_. []) (rm_blocks mdl)"
      by (simp add: lm(1))
    then show ?thesis using fresh_caches [of mdl ops] by metis
  qed
  moreover have "caches_hold (rm_max_seq mdl) (se_caches (new_session ops lm conns)) (map (\<lambda>_. []) (lm_blocks lm))"
    by (simp add: new_session_def caches_hold_def list_all2_conv_all_nth slot_holds_new lm(2))
  ultimately show ?thesis
    unfolding session_at_def
    by - (rule exI [of _ "map (\<lambda>_. []) (lm_blocks lm)"], rule exI [of _ ?hss], auto simp: new_session_def)
qed

lemma leader_run_local:
  assumes "codec_ok cd" "mask_neutral ops" "width_ok ops"
    and "star_holds mdl w vocab lm wks" and "model_sends mdl w vocab"
    and "generation_ok mdl w prompt (max 1 n)" and "sc_top_k cfg \<noteq> Some 0" and "length conns = length wks"
    and "list_all2 (\<lambda>l wk. lk_serve l = worker_stream cd ops wk \<and> (\<exists>caches. lk_caches l = Some caches \<and> caches r = None)) conns wks"
  shows "\<exists>toks. fst (leader_generate cd ops lm fl cfg r conns prompt n) = Ok toks
    \<and> local_generate ops mdl vocab fl cfg prompt (max 1 n) = (Ok toks :: (unit, _) outcome)
    \<and> length toks = max 1 n"
proof -
  note ok = assms(1-3) and sh = assms(4) and ms = assms(5) and gen = assms(6)
  let ?cs = "rs_caches (new_request_state ops mdl (rm_max_seq mdl))" and ?s0 = "new_session ops lm conns"
  have "model_ok mdl" using ms by (simp add: model_sends_def)
  from new_session_at [OF sh this assms(8,9)] have at0: "session_at cd ops mdl lm wks r 0 ?s0 ?cs" .
  have pos0: "se_current_pos ?s0 = 0" by (simp add: new_session_def)
  obtain logits s1 cs1 where f: "step_session cd ops lm r prompt False ?s0 = (Ok logits, s1)"
    "local_logits ops mdl vocab prompt 0 ?cs = (Ok logits :: (unit, _) outcome, cs1)" "length logits = vocab"
    "session_at cd ops mdl lm wks r (0 + length prompt) s1 cs1"
    using step_session_local [OF ok sh ms generation_ok_prompt [OF gen] at0 pos0] by blast
  have v: "0 < vocab" "vocab \<le> 2 ^ 32" "vocab \<le> length (rm_embedding mdl)"
    using ms by (auto simp: model_sends_def)
  obtain t where t: "sample_token fl logits cfg = (Ok t :: (call_error, _) outcome)"
    "sample_token fl logits cfg = (Ok t :: (unit, _) outcome)" "unat t < vocab"
    by (rule sample_token_Ok [where fl = fl, OF f(3) v(1,2) assms(7)])
  let ?s1 = "s1\<lparr>se_current_pos := length prompt\<rparr>"
  have at1: "session_at cd ops mdl lm wks r (length prompt) ?s1 cs1"
    using f(4) by (simp add: session_at_def)
  have pos1: "se_current_pos ?s1 = length prompt" by simp
  have tv: "unat (last [t]) < length (rm_embedding mdl)" using t(3) v(3) by simp
  have room: "length prompt + (n - 1) \<le> rm_max_seq mdl"
    using gen by (auto simp: generation_ok_def max_def split: if_splits)
  have ne: "[t] \<noteq> []" by simp
  obtain toks s' cs' where l: "leader_loop cd ops lm fl cfg r (n - 1) [t] ?s1 = (Ok ([t] @ toks), s')"
    "local_tokens ops mdl vocab fl cfg (n - 1) (length prompt) [last [t]] cs1 = (Ok toks :: (unit, _) outcome, cs')"
    "length toks = n - 1"
    using leader_loop_local [where fl = fl and 'e = unit, OF ok sh ms generation_ok_width [OF gen] assms(7) at1 pos1 ne tv room] by blast
  have "leader_generate cd ops lm fl cfg r conns prompt n = (Ok (t # toks), s')"
    unfolding leader_generate_def and_run_apply f(1) prod.case outcome.case set_pos_def pure_op_apply t(1) l(1) by simp
  moreover have "local_generate ops mdl vocab fl cfg prompt (max 1 n) = (Ok (t # toks) :: (unit, _) outcome)"
  proof -
    have n: "max 1 n = Suc (n - 1)" by simp
    have "local_tokens ops mdl vocab fl cfg (Suc (n - 1)) 0 prompt ?cs = (Ok (t # toks) :: (unit, _) outcome, cs')"
      using l(2) by (simp add: and_run_apply f(2) t(2))
    then show ?thesis unfolding local_generate_def n by simp
  qed
  ultimately show ?thesis
    using l(3) by simp
qed

text \<open>
  C10: a leader and its workers together generate what the whole model generates on one
  machine, where the model's blocks are the leader's own followed by the workers' in the order
  of the connections.
\<close>

theorem leader_is_local:
  assumes "codec_ok cd" "mask_neutral ops" "width_ok ops"
    and "star_holds mdl w vocab lm wks" and "model_sends mdl w vocab"
    and "generation_ok mdl w prompt (max 1 n)" and "sc_top_k cfg \<noteq> Some 0" and "length conns = length wks"
    and "list_all2 (\<lambda>l wk. lk_serve l = worker_stream cd ops wk \<and> (\<exists>caches. lk_caches l = Some caches \<and> caches r = None)) conns wks"
  shows "\<exists>toks. fst (leader_generate cd ops lm fl cfg r conns prompt n) = Ok toks
    \<and> local_generate ops mdl vocab fl cfg prompt (max 1 n) = (Ok toks :: (unit, _) outcome)
    \<and> length toks = max 1 n"
  using assms by (rule leader_run_local)

definition ex_leader :: leader_model where
  "ex_leader = \<lparr>lm_embedding = [[1], [2], [3]], lm_blocks = [ex_row_block], lm_final_norm = (\<lambda>x. x),
     lm_output = (\<lambda>x. [sum_list x, 5]), lm_max_seq = 8, lm_hidden = 1, lm_vocab = 2\<rparr>"

definition ex_workers :: "worker_stages list" where
  "ex_workers = [\<lparr>wk_blocks = [ex_row_block], wk_max_seq = 8\<rparr>, \<lparr>wk_blocks = [ex_row_block], wk_max_seq = 8\<rparr>]"

definition ex_conns :: "link list" where
  "ex_conns = map (\<lambda>wk. \<lparr>lk_serve = worker_stream ex_codec ex_row_ops wk, lk_caches = Some Map.empty\<rparr>) ex_workers"

lemma leader_is_local_witness:
  "\<exists>toks. fst (leader_generate ex_codec ex_row_ops ex_leader ex_word_floats ex_greedy 7 ex_conns [0, 2] 3) = Ok toks
    \<and> local_generate ex_row_ops ex_row_model 2 ex_word_floats ex_greedy [0, 2] 3 = (Ok toks :: (unit, _) outcome)"
proof -
  have star: "star_holds ex_row_model 1 2 ex_leader ex_workers"
    by (simp add: star_holds_def ex_row_model_def ex_leader_def ex_workers_def)
  have conns: "length ex_conns = length ex_workers"
    "list_all2 (\<lambda>l wk. lk_serve l = worker_stream ex_codec ex_row_ops wk
        \<and> (\<exists>caches. lk_caches l = Some caches \<and> caches 7 = None)) ex_conns ex_workers"
    by (simp_all add: ex_conns_def ex_workers_def)
  show ?thesis
    using leader_is_local [where fl = ex_word_floats, OF ex_codec_ok ex_row_mask_neutral ex_row_width_ok star ex_model_sends
        ex_generation_ok ex_greedy_top_k conns] by auto
qed

end
