(* ===== verification/Api.thy ===== *)
theory Api
  imports Prelude
begin

text \<open>
  The provider interface (crate \<open>ai-engine-provider\<close>): JSON values, the OpenAI and
  Anthropic request and response types, the errors a provider returns, and the
  \<open>Provider\<close> trait as a record of its methods.  An \<open>f32\<close> of a request is its bit
  pattern; the gateway never computes with it.  An awaited call gives other tasks the
  chance to run, so a method takes and returns the state \<open>'s\<close> the tasks share; what
  the state after the call says of the shared counters is the business of whoever states
  a theorem about the call.
\<close>

section \<open>JSON values\<close>

text \<open>\<open>serde_json::Value\<close>, with its three kinds of number; objects have one entry per key.\<close>

datatype json_number = PosInt u64 | NegInt "64 word" | Float u64

datatype json =
    JNull
  | JBool bool
  | JNumber json_number
  | JString string
  | JArray "json list"
  | JObject "(string \<times> json) list"

fun json_get :: "json \<Rightarrow> string \<Rightarrow> json option" where
  "json_get (JObject m) k = map_of m k"
| "json_get v k = None"

fun as_str :: "json \<Rightarrow> string option" where
  "as_str (JString s) = Some s"
| "as_str v = None"

fun as_u64 :: "json \<Rightarrow> u64 option" where
  "as_u64 (JNumber (PosInt n)) = Some n"
| "as_u64 v = None"

section \<open>Requests and responses\<close>

type_synonym extras = "(string \<times> json) list"

datatype chat_content = ChatText string | ChatParts "json list"

record chat_message =
  cm_role :: string
  cm_content :: chat_content
  cm_extras :: extras

record stream_options =
  so_include_usage :: "bool option"

record chat_request =
  cr_model :: string
  cr_messages :: "chat_message list"
  cr_stream :: "bool option"
  cr_temperature :: "u32 option"
  cr_max_tokens :: "u32 option"
  cr_stream_options :: "stream_options option"
  cr_extras :: extras

record token_usage =
  us_prompt_tokens :: u32
  us_completion_tokens :: u32
  us_total_tokens :: u32

record chat_choice =
  cc_index :: u32
  cc_message :: chat_message
  cc_finish_reason :: "string option"
  cc_extras :: extras

record chat_response =
  rs_id :: string
  rs_model :: string
  rs_choices :: "chat_choice list"
  rs_usage :: "token_usage option"
  rs_extras :: extras

datatype embeddings_input = Single string | Many "string list"

record embeddings_request =
  em_model :: string
  em_input :: embeddings_input
  em_extras :: extras

record embedding_item =
  ei_index :: u32
  ei_embedding :: "u32 list"
  ei_object :: "string option"
  ei_extras :: extras

record embeddings_response =
  er_data :: "embedding_item list"
  er_model :: string
  er_usage :: "token_usage option"
  er_extras :: extras

datatype system_prompt = SystemText string | SystemBlocks "json list"

datatype message_content = MessageText string | MessageBlocks "json list"

record anthropic_message =
  am_role :: string
  am_content :: message_content
  am_extras :: extras

record messages_request =
  mr_model :: string
  mr_messages :: "anthropic_message list"
  mr_max_tokens :: u32
  mr_system :: "system_prompt option"
  mr_stream :: "bool option"
  mr_extras :: extras

record anthropic_usage =
  au_input_tokens :: u32
  au_output_tokens :: u32

record messages_response =
  ms_id :: string
  ms_model :: string
  ms_role :: string
  ms_content :: "json list"
  ms_stop_reason :: "string option"
  ms_usage :: anthropic_usage
  ms_extras :: extras

section \<open>Providers\<close>

datatype provider_error =
    Connect string
  | Timeout
  | Status u16 bytes
  | InvalidResponse string
  | StreamError string
  | Unsupported

record capabilities =
  cap_chat :: bool
  cap_messages :: bool
  cap_embeddings :: bool
  cap_streaming :: bool
  cap_tools :: bool
  cap_vision :: bool

record credentials =
  cd_api_key :: "string option"
  cd_raw_bearer :: "string option"
  cd_extra_headers :: "(string \<times> string) list"

definition no_credentials :: credentials where
  "no_credentials = \<lparr>cd_api_key = None, cd_raw_bearer = None, cd_extra_headers = []\<rparr>"

record call_ctx =
  ca_request_id :: "128 word"
  ca_upstream_model :: string

text \<open>A stream of events is the list of the items it yields; each may be an error.\<close>

type_synonym event_stream = "(provider_error + json) list"

type_synonym ('s, 'req, 'resp) call =
  "'req \<Rightarrow> credentials \<Rightarrow> call_ctx \<Rightarrow> 's \<Rightarrow> (provider_error + 'resp) \<times> 's"

record 's provider =
  pv_id :: string
  pv_kind :: string
  pv_capabilities :: capabilities
  pv_chat :: "('s, chat_request, chat_response) call"
  pv_chat_stream :: "('s, chat_request, event_stream) call"
  pv_messages :: "('s, messages_request, messages_response) call"
  pv_messages_stream :: "('s, messages_request, event_stream) call"
  pv_embeddings :: "('s, embeddings_request, embeddings_response) call"

text \<open>The trait's default methods.\<close>

definition unsupported :: "('s, 'req, 'resp) call" where
  "unsupported req creds ctx s = (Inl Unsupported, s)"

definition default_provider :: "string \<Rightarrow> string \<Rightarrow> capabilities \<Rightarrow> 's provider" where
  "default_provider i k c = \<lparr>pv_id = i, pv_kind = k, pv_capabilities = c,
     pv_chat = unsupported, pv_chat_stream = unsupported,
     pv_messages = unsupported, pv_messages_stream = unsupported,
     pv_embeddings = unsupported\<rparr>"

end
