(* ===== verification/Gateway.thy ===== *)
theory Gateway
  imports Api
begin

text \<open>
  The core of the gateway (crate \<open>ai-engine-core\<close>, and the load tracker of
  \<open>ai-engine-stages/src/lib.rs\<close>): what the requests in flight share, namely the load
  tracker, the per-provider metrics, the activity log, the health store and the log sink;
  the context of one request; and the pipeline of stages that a request runs through.
  Atomic counters are 64-bit words and wrap as the hardware's do.
\<close>

section \<open>The load tracker\<close>

type_synonym load_tracker = "string \<rightharpoonup> u64"

definition tracker_new :: "string list \<Rightarrow> load_tracker" where
  "tracker_new ids = (\<lambda>i. if i \<in> set ids then Some 0 else None)"

definition load :: "load_tracker \<Rightarrow> string \<Rightarrow> u64" where
  "load t i = (case t i of None \<Rightarrow> 0 | Some c \<Rightarrow> c)"

text \<open>A guard names the counter it will decrement; it holds none for an unknown id.\<close>

type_synonym inflight_guard = "string option"

definition acquire :: "string \<Rightarrow> load_tracker \<Rightarrow> inflight_guard \<times> load_tracker" where
  "acquire i t = (case t i of
     None \<Rightarrow> (None, t)
   | Some c \<Rightarrow> (Some i, t(i \<mapsto> c + 1)))"

definition drop_guard :: "inflight_guard \<Rightarrow> load_tracker \<Rightarrow> load_tracker" where
  "drop_guard g t = (case g of
     None \<Rightarrow> t
   | Some i \<Rightarrow> (case t i of None \<Rightarrow> t | Some c \<Rightarrow> t(i \<mapsto> c - 1)))"

section \<open>Metrics\<close>

record counters =
  ct_out_tokens :: u64
  ct_requests :: u64
  ct_errors :: u64
  ct_latency_ms_sum :: u64

type_synonym gateway_metrics = "string \<rightharpoonup> counters"

definition zero_counters :: counters where
  "zero_counters = \<lparr>ct_out_tokens = 0, ct_requests = 0, ct_errors = 0, ct_latency_ms_sum = 0\<rparr>"

definition metrics_new :: "string list \<Rightarrow> gateway_metrics" where
  "metrics_new ids = (\<lambda>i. if i \<in> set ids then Some zero_counters else None)"

definition add_output :: "string \<Rightarrow> u64 \<Rightarrow> gateway_metrics \<Rightarrow> gateway_metrics" where
  "add_output i n m = (case m i of
     None \<Rightarrow> m
   | Some c \<Rightarrow> m(i \<mapsto> c\<lparr>ct_out_tokens := ct_out_tokens c + n\<rparr>))"

definition record_request :: "string \<Rightarrow> bool \<Rightarrow> u64 \<Rightarrow> gateway_metrics \<Rightarrow> gateway_metrics" where
  "record_request i is_error latency_ms m = (case m i of
     None \<Rightarrow> m
   | Some c \<Rightarrow> m(i \<mapsto> c\<lparr>ct_requests := ct_requests c + 1,
       ct_errors := (if is_error then ct_errors c + 1 else ct_errors c),
       ct_latency_ms_sum := ct_latency_ms_sum c + latency_ms\<rparr>))"

section \<open>The activity log\<close>

record chat_event =
  ce_request_id :: "128 word"
  ce_ts :: string
  ce_model :: string
  ce_provider :: string
  ce_tokens :: u32
  ce_duration_ms :: u64
  ce_status :: u16
  ce_prompt :: "string option"

record activity_log =
  al_events :: "chat_event list"
  al_cap :: nat

definition activity_new :: "nat \<Rightarrow> activity_log" where
  "activity_new cap = \<lparr>al_events = [], al_cap = cap\<rparr>"

definition default_activity :: activity_log where
  "default_activity = activity_new 100"

definition record_event :: "chat_event \<Rightarrow> activity_log \<Rightarrow> activity_log" where
  "record_event ev a = a\<lparr>al_events :=
     (if al_cap a \<le> length (al_events a) then tl (al_events a) else al_events a) @ [ev]\<rparr>"

definition recent :: "activity_log \<Rightarrow> chat_event list" where
  "recent a = al_events a"

section \<open>The health store\<close>

record health =
  he_up :: bool
  he_latency_ms :: u64
  he_checked :: bool

type_synonym health_store = "string \<rightharpoonup> health"

definition set_health :: "string \<Rightarrow> bool \<Rightarrow> u64 \<Rightarrow> health_store \<Rightarrow> health_store" where
  "set_health i up latency_ms h =
     h(i \<mapsto> \<lparr>he_up = up, he_latency_ms = latency_ms, he_checked = True\<rparr>)"

section \<open>Requests in flight\<close>

text \<open>The state every request shares, with the sink's lines and the clock in milliseconds.\<close>

record gateway =
  gw_load :: load_tracker
  gw_metrics :: gateway_metrics
  gw_activity :: activity_log
  gw_lines :: "json list"
  gw_clock :: nat

datatype request_body =
    OpenAiChat chat_request
  | AnthropicMessages messages_request
  | OpenAiEmbeddings embeddings_request
  | Empty

type_synonym headers = "(string \<times> string) list"

record gateway_response =
  gr_status :: u16
  gr_headers :: headers
  gr_body :: bytes

record recorded_usage =
  ru_prompt :: u32
  ru_completion :: u32
  ru_total :: u32

text \<open>
  A response stream is the upstream's remaining events with the state of the closure that
  taps them: the usage slot, the tokens credited so far, the provider, and the in-flight
  guard it holds.
\<close>

datatype stream_kind = OpenAiStream | AnthropicStream

record response_stream =
  sm_kind :: stream_kind
  sm_items :: event_stream
  sm_slot :: "recorded_usage option option"
  sm_credited :: u32
  sm_provider :: string
  sm_guard :: inflight_guard

datatype response_slot = Pending | Full gateway_response | Stream response_stream

datatype identity = Anonymous "string option" | Holder string

record provider_binding =
  pb_candidates :: "string list"
  pb_provider_id :: string
  pb_upstream_model :: string

datatype gateway_error =
    BadRequest string
  | Unauthorized
  | PayloadTooLarge
  | NoRouteForModel string
  | Provider provider_error
  | Internal string

fun http_status :: "gateway_error \<Rightarrow> u16" where
  "http_status (BadRequest m) = 400"
| "http_status Unauthorized = 401"
| "http_status PayloadTooLarge = 413"
| "http_status (NoRouteForModel m) = 502"
| "http_status (Provider (Connect m)) = 502"
| "http_status (Provider Timeout) = 504"
| "http_status (Provider (Status status body)) = status"
| "http_status (Provider (InvalidResponse m)) = 502"
| "http_status (Provider (StreamError m)) = 502"
| "http_status (Provider Unsupported) = 502"
| "http_status (Internal m) = 500"

record request_ctx =
  rc_request_id :: "128 word"
  rc_started_at :: nat
  rc_route :: string
  rc_headers :: headers
  rc_raw_body_len :: nat
  rc_body :: request_body
  rc_identity :: "identity option"
  rc_binding :: "provider_binding option"
  rc_response :: response_slot
  rc_error :: "gateway_error option"
  rc_usage_slot :: "recorded_usage option option"
  rc_metadata :: "string \<rightharpoonup> json"

definition new_ctx :: "128 word \<Rightarrow> nat \<Rightarrow> string \<Rightarrow> headers \<Rightarrow> nat \<Rightarrow> request_body \<Rightarrow> request_ctx" where
  "new_ctx request_id now route hs raw_len body = \<lparr>rc_request_id = request_id,
     rc_started_at = now, rc_route = route, rc_headers = hs, rc_raw_body_len = raw_len,
     rc_body = body, rc_identity = None, rc_binding = None, rc_response = Pending,
     rc_error = None, rc_usage_slot = None, rc_metadata = Map.empty\<rparr>"

section \<open>The pipeline\<close>

datatype stage_outcome = Continue | Respond gateway_response

record stage_error =
  se_stage :: string
  se_error :: gateway_error

type_synonym ('s, 'a) process = "request_ctx \<Rightarrow> 's \<Rightarrow> (stage_error + 'a) \<times> request_ctx \<times> 's"

record 's stage =
  st_name :: string
  st_terminal :: bool
  st_process :: "('s, stage_outcome) process"

text \<open>Pass 1: the stages that are not terminal, until one responds or fails.\<close>

fun run_stages :: "'s stage list \<Rightarrow> request_ctx \<Rightarrow> 's \<Rightarrow> request_ctx \<times> 's" where
  "run_stages [] ctx s = (ctx, s)"
| "run_stages (st # sts) ctx s = (case st_process st ctx s of
     (Inr Continue, ctx', s') \<Rightarrow> run_stages sts ctx' s'
   | (Inr (Respond resp), ctx', s') \<Rightarrow> (ctx'\<lparr>rc_response := Full resp\<rparr>, s')
   | (Inl e, ctx', s') \<Rightarrow> (ctx'\<lparr>rc_error := Some (se_error e)\<rparr>, s'))"

text \<open>Pass 2: the terminal stages, always, with their results ignored.\<close>

fun run_terminals :: "'s stage list \<Rightarrow> request_ctx \<Rightarrow> 's \<Rightarrow> request_ctx \<times> 's" where
  "run_terminals [] ctx s = (ctx, s)"
| "run_terminals (st # sts) ctx s = (case st_process st ctx s of
     (result, ctx', s') \<Rightarrow> run_terminals sts ctx' s')"

definition execute :: "'s stage list \<Rightarrow> request_ctx \<Rightarrow> 's \<Rightarrow> request_ctx \<times> 's" where
  "execute stages ctx s =
     (let (ctx', s') = run_stages (filter (\<lambda>st. \<not> st_terminal st) stages) ctx s
      in run_terminals (filter st_terminal stages) ctx' s')"

text \<open>\<open>StageRegistry::build_pipeline\<close>: the stages of a configuration, by id.\<close>

fun build_pipeline :: "(string \<rightharpoonup> 's stage) \<Rightarrow> string list \<Rightarrow> (string, 's stage list) outcome" where
  "build_pipeline by_id [] = Ok []"
| "build_pipeline by_id (i # is) =
     and_then (ok_or (''unknown stage id `'' @ i @ ''`'') (by_id i)) (\<lambda>st.
     and_then (build_pipeline by_id is) (\<lambda>sts. Ok (st # sts)))"

section \<open>Load counters\<close>

lemma load_acquire [simp]: "load (snd (acquire i t)) j = (if i = j \<and> i \<in> dom t then load t j + 1 else load t j)"
  by (auto simp: acquire_def load_def split: option.splits)

lemma dom_acquire [simp]: "dom (snd (acquire i t)) = dom t"
  by (auto simp: acquire_def split: option.splits)

lemma guard_acquire: "fst (acquire i t) = (if i \<in> dom t then Some i else None)"
  by (auto simp: acquire_def split: option.splits)

lemma dom_drop [simp]: "dom (drop_guard g t) = dom t"
  by (auto simp: drop_guard_def split: option.splits)

lemma load_drop [simp]: "load (drop_guard g t) j = (if g = Some j \<and> j \<in> dom t then load t j - 1 else load t j)"
  by (auto simp: drop_guard_def load_def split: option.splits)

lemma drop_acquire [simp]: "drop_guard (fst (acquire i t)) (snd (acquire i t)) = t"
  by (auto simp: acquire_def drop_guard_def fun_upd_idem split: option.splits)

lemma build_pipeline_Ok:
  "build_pipeline by_id ids = Ok sts \<longleftrightarrow> map by_id ids = map Some sts"
proof (induction ids arbitrary: sts)
  case (Cons i ids)
  then show ?case by (cases sts) (auto simp: outcome_simps)
qed auto

end
