(* ===== verification/Stages.thy ===== *)
theory Stages
  imports Gateway
begin

text \<open>
  The stages before the upstream call (\<open>ai-engine-stages/src/auth.rs\<close>,
  \<open>content_policy.rs\<close>, \<open>model_route.rs\<close>).  The regular expressions of the policy and the
  globs of the routes are compiled by third-party crates: a compiled pattern is a predicate
  on strings and its compiler a parameter.
\<close>

section \<open>Authentication\<close>

datatype auth_mode = Passthrough | SharedKey "(string \<times> string) list"

text \<open>
  What the stages and the endpoints use of the \<open>http\<close> crate: reading a header value as
  text, making one, making a header name, and making a status code, each of which may refuse.
\<close>

record http_lib =
  hl_to_str :: "string \<Rightarrow> string option"
  hl_value :: "string \<Rightarrow> string option"
  hl_name :: "string \<Rightarrow> string option"
  hl_status :: "u16 \<Rightarrow> u16 option"

definition strip_bearer :: "string \<Rightarrow> string option" where
  "strip_bearer s = or_else (strip_prefix ''Bearer '' s) (strip_prefix ''bearer '' s)"

definition extract_bearer :: "http_lib \<Rightarrow> headers \<Rightarrow> string option" where
  "extract_bearer lib hs =
     Option.bind (Option.bind (map_of hs ''authorization'') (hl_to_str lib)) strip_bearer"

definition auth_process :: "http_lib \<Rightarrow> auth_mode \<Rightarrow> ('s, stage_outcome) process" where
  "auth_process lib mode ctx s =
     (let bearer = extract_bearer lib (rc_headers ctx);
          unauthorized = Inl \<lparr>se_stage = ''auth'', se_error = Unauthorized\<rparr>
      in case mode of
           Passthrough \<Rightarrow> (Inr Continue, ctx\<lparr>rc_identity := Some (Anonymous bearer)\<rparr>, s)
         | SharedKey keys \<Rightarrow> (case bearer of
             None \<Rightarrow> (unauthorized, ctx, s)
           | Some b \<Rightarrow> (case find (\<lambda>(k, n). k = b) keys of
               Some (k, n) \<Rightarrow> (Inr Continue, ctx\<lparr>rc_identity := Some (Holder n)\<rparr>, s)
             | None \<Rightarrow> (unauthorized, ctx, s))))"

definition auth_stage :: "http_lib \<Rightarrow> auth_mode \<Rightarrow> 's stage" where
  "auth_stage lib mode = \<lparr>st_name = ''auth'', st_terminal = False, st_process = auth_process lib mode\<rparr>"

section \<open>Content policy\<close>

record content_policy =
  cp_max_request_bytes :: nat
  cp_patterns :: "string list"
  cp_matcher :: "string \<Rightarrow> bool"

definition content_policy_new ::
  "(string list \<Rightarrow> (string, string \<Rightarrow> bool) outcome) \<Rightarrow> nat \<Rightarrow> string list \<Rightarrow> (string, content_policy) outcome"
where
  "content_policy_new regex_set max_bytes patterns = and_then (regex_set patterns) (\<lambda>m.
     Ok \<lparr>cp_max_request_bytes = max_bytes, cp_patterns = patterns, cp_matcher = m\<rparr>)"

definition policy_is_match :: "content_policy \<Rightarrow> string \<Rightarrow> bool" where
  "policy_is_match p s \<longleftrightarrow> cp_patterns p \<noteq> [] \<and> cp_matcher p s"

definition scan_part :: "(string \<Rightarrow> bool) \<Rightarrow> json \<Rightarrow> bool" where
  "scan_part hit p = (case Option.bind (json_get p ''text'') as_str of None \<Rightarrow> False | Some t \<Rightarrow> hit t)"

definition scan_openai_chat :: "(string \<Rightarrow> bool) \<Rightarrow> chat_request \<Rightarrow> bool" where
  "scan_openai_chat hit c = list_ex (\<lambda>m. case cm_content m of
     ChatText s \<Rightarrow> hit s
   | ChatParts parts \<Rightarrow> list_ex (scan_part hit) parts) (cr_messages c)"

definition scan_anthropic_messages :: "(string \<Rightarrow> bool) \<Rightarrow> messages_request \<Rightarrow> bool" where
  "scan_anthropic_messages hit m \<longleftrightarrow>
     (case mr_system m of
        None \<Rightarrow> False
      | Some (SystemText t) \<Rightarrow> hit t
      | Some (SystemBlocks b) \<Rightarrow> list_ex (scan_part hit) b)
   \<or> list_ex (\<lambda>msg. case am_content msg of
        MessageText t \<Rightarrow> hit t
      | MessageBlocks b \<Rightarrow> list_ex (scan_part hit) b) (mr_messages m)"

definition scan_openai_embeddings :: "(string \<Rightarrow> bool) \<Rightarrow> embeddings_request \<Rightarrow> bool" where
  "scan_openai_embeddings hit e = (case em_input e of
     Single s \<Rightarrow> hit s
   | Many v \<Rightarrow> list_ex hit v)"

definition policy_process :: "content_policy \<Rightarrow> ('s, stage_outcome) process" where
  "policy_process p ctx s =
     (if cp_max_request_bytes p < rc_raw_body_len ctx
      then (Inl \<lparr>se_stage = ''content_policy'', se_error = PayloadTooLarge\<rparr>, ctx, s)
      else
        let blocked = (case rc_body ctx of
              OpenAiChat c \<Rightarrow> scan_openai_chat (policy_is_match p) c
            | AnthropicMessages m \<Rightarrow> scan_anthropic_messages (policy_is_match p) m
            | OpenAiEmbeddings e \<Rightarrow> scan_openai_embeddings (policy_is_match p) e
            | Empty \<Rightarrow> False)
        in if blocked
           then (Inl \<lparr>se_stage = ''content_policy'',
                      se_error = BadRequest ''prompt blocked by policy''\<rparr>, ctx, s)
           else (Inr Continue, ctx, s))"

definition policy_stage :: "content_policy \<Rightarrow> 's stage" where
  "policy_stage p = \<lparr>st_name = ''content_policy'', st_terminal = False, st_process = policy_process p\<rparr>"

section \<open>Routing by model\<close>

record route_rule =
  rr_pattern :: string
  rr_matcher :: "string \<Rightarrow> bool"
  rr_provider_id :: string
  rr_upstream_model :: "string option"

fun rules_from_strings ::
  "(string \<Rightarrow> (string, string \<Rightarrow> bool) outcome) \<Rightarrow> (string \<times> string \<times> string option) list \<Rightarrow>
   (string, route_rule list) outcome"
where
  "rules_from_strings glob [] = Ok []"
| "rules_from_strings glob ((pat, prov, up) # rules) = and_then (glob pat) (\<lambda>m.
     and_then (rules_from_strings glob rules) (\<lambda>out.
       Ok (\<lparr>rr_pattern = pat, rr_matcher = m, rr_provider_id = prov, rr_upstream_model = up\<rparr> # out)))"

text \<open>\<open>chars().take(n)\<close> on UTF-8: a character is a byte and the continuation bytes after it.\<close>

definition is_continuation :: "char \<Rightarrow> bool" where
  "is_continuation c \<longleftrightarrow> 128 \<le> (of_char c :: nat) \<and> (of_char c :: nat) < 192"

fun take_chars :: "nat \<Rightarrow> string \<Rightarrow> string" where
  "take_chars n [] = []"
| "take_chars n (c # cs) =
     (if is_continuation c then c # take_chars n cs
      else case n of 0 \<Rightarrow> [] | Suc m \<Rightarrow> c # take_chars m cs)"

definition model_of :: "request_body \<Rightarrow> string option" where
  "model_of body = (case body of
     OpenAiChat c \<Rightarrow> Some (cr_model c)
   | AnthropicMessages m \<Rightarrow> Some (mr_model m)
   | OpenAiEmbeddings e \<Rightarrow> Some (em_model e)
   | Empty \<Rightarrow> None)"

definition route_step ::
  "string \<Rightarrow> route_rule \<Rightarrow> string list \<times> string option \<Rightarrow> string list \<times> string option"
where
  "route_step model rule acc = (case acc of (candidates, upstream) \<Rightarrow>
     if rr_matcher rule model
     then (if rr_provider_id rule \<in> set candidates then candidates
           else candidates @ [rr_provider_id rule],
           case upstream of
             Some u \<Rightarrow> Some u
           | None \<Rightarrow> Some (case rr_upstream_model rule of Some u \<Rightarrow> u | None \<Rightarrow> model))
     else (candidates, upstream))"

definition route_candidates :: "route_rule list \<Rightarrow> string \<Rightarrow> string list \<times> string option" where
  "route_candidates rules model = fold (route_step model) rules ([], None)"

definition prompt_preview :: "request_body \<Rightarrow> string option" where
  "prompt_preview body = (case body of
     OpenAiChat c \<Rightarrow> (case find (\<lambda>m. cm_role m = ''user'') (rev (cr_messages c)) of
         None \<Rightarrow> None
       | Some m \<Rightarrow> (case cm_content m of ChatText t \<Rightarrow> Some t | ChatParts p \<Rightarrow> None))
   | _ \<Rightarrow> None)"

definition route_process :: "route_rule list \<Rightarrow> ('s, stage_outcome) process" where
  "route_process rules ctx s = (case model_of (rc_body ctx) of
     None \<Rightarrow> (Inr Continue, ctx, s)
   | Some model \<Rightarrow> (case route_candidates rules model of (candidates, upstream) \<Rightarrow>
       if candidates = []
       then (Inl \<lparr>se_stage = ''model_route'', se_error = NoRouteForModel model\<rparr>, ctx, s)
       else
         let ctx = ctx\<lparr>rc_binding := Some \<lparr>pb_candidates = candidates, pb_provider_id = '''',
               pb_upstream_model = (case upstream of Some u \<Rightarrow> u | None \<Rightarrow> model)\<rparr>\<rparr>
         in case prompt_preview (rc_body ctx) of
              None \<Rightarrow> (Inr Continue, ctx, s)
            | Some p \<Rightarrow> (Inr Continue, ctx\<lparr>rc_metadata :=
                (rc_metadata ctx)(''prompt_preview'' \<mapsto> JString (take_chars 200 p))\<rparr>, s)))"

definition route_stage :: "route_rule list \<Rightarrow> 's stage" where
  "route_stage rules = \<lparr>st_name = ''model_route'', st_terminal = False, st_process = route_process rules\<rparr>"

end
