(* ===== verification/Forward.thy ===== *)
theory Forward
  imports Stages
begin

text \<open>
  The upstream call (\<open>ai-engine-stages/src/forward.rs\<close>): the pool of candidates, the
  least-busy pick, failover on retryable errors, the in-flight guards, and the taps that
  read token counts off a stream.  The serialiser of responses is a parameter.  Sums of
  32-bit counts wrap, as in a release build.
\<close>

type_synonym registry = "string \<rightharpoonup> gateway provider \<times> credentials"

record response_codec =
  js_chat :: "chat_response \<Rightarrow> string + bytes"
  js_messages :: "messages_response \<Rightarrow> string + bytes"
  js_embeddings :: "embeddings_response \<Rightarrow> string + bytes"

fun retryable :: "provider_error \<Rightarrow> bool" where
  "retryable (Connect m) = True"
| "retryable Timeout = True"
| "retryable (StreamError m) = True"
| "retryable (Status status body) = (500 \<le> status)"
| "retryable (InvalidResponse m) = False"
| "retryable Unsupported = False"

definition pick_candidate :: "load_tracker \<Rightarrow> string list \<Rightarrow> nat list \<Rightarrow> nat option" where
  "pick_candidate t candidates tried =
     map_option fst (min_by_key (\<lambda>(i, pid). load t pid)
       (filter (\<lambda>(i, pid). i \<notin> set tried) (zip [0..<length candidates] candidates)))"

definition stage_err :: "provider_error \<Rightarrow> stage_error" where
  "stage_err e = \<lparr>se_stage = ''forward'', se_error = Provider e\<rparr>"

definition internal_err :: "string \<Rightarrow> stage_error" where
  "internal_err m = \<lparr>se_stage = ''forward'', se_error = Internal m\<rparr>"

definition full_json :: "string + bytes \<Rightarrow> stage_error + response_slot" where
  "full_json r = (case r of
     Inl m \<Rightarrow> Inl (internal_err m)
   | Inr body \<Rightarrow> Inr (Full \<lparr>gr_status = 200, gr_headers = [], gr_body = body\<rparr>))"

definition record_openai_usage :: "token_usage \<Rightarrow> recorded_usage option option \<Rightarrow> recorded_usage option option" where
  "record_openai_usage u slot = map_option (\<lambda>g. Some \<lparr>ru_prompt = us_prompt_tokens u,
     ru_completion = us_completion_tokens u, ru_total = us_total_tokens u\<rparr>) slot"

definition record_anthropic_usage ::
  "anthropic_usage \<Rightarrow> recorded_usage option option \<Rightarrow> recorded_usage option option"
where
  "record_anthropic_usage u slot = map_option (\<lambda>g. Some \<lparr>ru_prompt = au_input_tokens u,
     ru_completion = au_output_tokens u, ru_total = au_input_tokens u + au_output_tokens u\<rparr>) slot"

section \<open>Streams\<close>

definition json_u64 :: "json \<Rightarrow> string \<Rightarrow> u64 option" where
  "json_u64 v k = Option.bind (json_get v k) as_u64"

definition json_u32 :: "json \<Rightarrow> string \<Rightarrow> u32" where
  "json_u32 v k = (case json_u64 v k of None \<Rightarrow> 0 | Some n \<Rightarrow> ucast n)"

text \<open>The completion tokens an event brings beyond those already credited.\<close>

definition credit :: "u32 \<Rightarrow> response_stream \<Rightarrow> gateway_metrics \<Rightarrow> response_stream \<times> gateway_metrics" where
  "credit now sm m =
     (if sm_credited sm < now
      then (sm\<lparr>sm_credited := now\<rparr>, add_output (sm_provider sm) (ucast (now - sm_credited sm)) m)
      else (sm, m))"

definition tap_openai :: "json \<Rightarrow> response_stream \<Rightarrow> gateway_metrics \<Rightarrow> response_stream \<times> gateway_metrics" where
  "tap_openai raw sm m = (case json_get raw ''usage'' of
     None \<Rightarrow> (sm, m)
   | Some u \<Rightarrow>
       let prompt = json_u32 u ''prompt_tokens'';
           completion = json_u32 u ''completion_tokens'';
           total = (case json_u64 u ''total_tokens'' of
                      None \<Rightarrow> prompt + completion | Some n \<Rightarrow> ucast n);
           (sm, m) = credit completion sm m
       in (sm\<lparr>sm_slot := map_option (\<lambda>g. Some \<lparr>ru_prompt = prompt, ru_completion = completion,
             ru_total = total\<rparr>) (sm_slot sm)\<rparr>, m))"

definition tap_anthropic :: "json \<Rightarrow> response_stream \<Rightarrow> gateway_metrics \<Rightarrow> response_stream \<times> gateway_metrics" where
  "tap_anthropic raw sm m =
     (case or_else (json_get raw ''usage'')
             (Option.bind (json_get raw ''message'') (\<lambda>msg. json_get msg ''usage'')) of
        None \<Rightarrow> (sm, m)
      | Some u \<Rightarrow>
          let output_now = map_option ucast (json_u64 u ''output_tokens'');
              (sm, m) = (case output_now of None \<Rightarrow> (sm, m) | Some output \<Rightarrow> credit output sm m)
          in (sm\<lparr>sm_slot := map_option (\<lambda>g.
                let current = (case g of Some c \<Rightarrow> c
                      | None \<Rightarrow> \<lparr>ru_prompt = 0, ru_completion = 0, ru_total = 0\<rparr>);
                    input = (case json_u64 u ''input_tokens'' of
                      Some n \<Rightarrow> ucast n | None \<Rightarrow> ru_prompt current);
                    output = (case output_now of Some n \<Rightarrow> n | None \<Rightarrow> ru_completion current)
                in Some \<lparr>ru_prompt = input, ru_completion = output, ru_total = input + output\<rparr>)
              (sm_slot sm)\<rparr>, m))"

text \<open>One poll of a response stream; at its end, or when the client leaves, it is dropped.\<close>

definition stream_next ::
  "response_stream \<Rightarrow> gateway \<Rightarrow> ((provider_error + json) option \<times> response_stream) \<times> gateway"
where
  "stream_next sm gw = (case sm_items sm of
     [] \<Rightarrow> ((None, sm), gw)
   | Inl e # items \<Rightarrow> ((Some (Inl e), sm\<lparr>sm_items := items\<rparr>), gw)
   | Inr raw # items \<Rightarrow>
       let (sm', m) = (case sm_kind sm of
             OpenAiStream \<Rightarrow> tap_openai raw (sm\<lparr>sm_items := items\<rparr>) (gw_metrics gw)
           | AnthropicStream \<Rightarrow> tap_anthropic raw (sm\<lparr>sm_items := items\<rparr>) (gw_metrics gw))
       in ((Some (Inr raw), sm'), gw\<lparr>gw_metrics := m\<rparr>))"

definition release :: "inflight_guard \<Rightarrow> gateway \<Rightarrow> gateway" where
  "release g gw = gw\<lparr>gw_load := drop_guard g (gw_load gw)\<rparr>"

definition drop_stream :: "response_stream \<Rightarrow> gateway \<Rightarrow> gateway" where
  "drop_stream sm gw = release (sm_guard sm) gw"

section \<open>One attempt\<close>

datatype attempt = Return "stage_error + stage_outcome" | Retry provider_error

definition call_credentials :: "identity option \<Rightarrow> credentials \<Rightarrow> credentials" where
  "call_credentials identity defaults = (case identity of
     Some (Anonymous (Some b)) \<Rightarrow> \<lparr>cd_api_key = cd_api_key defaults, cd_raw_bearer = Some b,
       cd_extra_headers = cd_extra_headers defaults\<rparr>
   | _ \<Rightarrow> defaults)"

type_synonym step = "request_ctx \<Rightarrow> gateway \<Rightarrow> attempt \<times> request_ctx \<times> gateway"

text \<open>What becomes of a provider's answer: an error is retried or returned.\<close>

definition after_call ::
  "inflight_guard \<Rightarrow> (provider_error + 'r) \<times> gateway \<Rightarrow> ('r \<Rightarrow> step) \<Rightarrow> request_ctx \<Rightarrow>
   attempt \<times> request_ctx \<times> gateway"
where
  "after_call guard answer on_ok ctx = (case answer of
     (Inr resp, gw) \<Rightarrow> on_ok resp ctx gw
   | (Inl e, gw) \<Rightarrow>
       if retryable e then (Retry e, ctx, gw)
       else (Return (Inl (stage_err e)), ctx, release guard gw))"

definition answer_full :: "inflight_guard \<Rightarrow> string + bytes \<Rightarrow> step" where
  "answer_full guard serialised ctx gw = (case full_json serialised of
     Inl e \<Rightarrow> (Return (Inl e), ctx, release guard gw)
   | Inr slot \<Rightarrow> (Return (Inr Continue), ctx\<lparr>rc_response := slot\<rparr>, release guard gw))"

definition answer_stream :: "stream_kind \<Rightarrow> string \<Rightarrow> inflight_guard \<Rightarrow> event_stream \<Rightarrow> step" where
  "answer_stream kind pid guard events ctx gw =
     (Return (Inr Continue), ctx\<lparr>rc_response := Stream \<lparr>sm_kind = kind, sm_items = events,
        sm_slot = rc_usage_slot ctx, sm_credited = 0, sm_provider = pid, sm_guard = guard\<rparr>\<rparr>, gw)"

definition wants_stream :: "bool option \<Rightarrow> bool" where
  "wants_stream b = (case b of None \<Rightarrow> False | Some x \<Rightarrow> x)"

definition credit_full :: "string \<Rightarrow> u32 \<Rightarrow> gateway \<Rightarrow> gateway" where
  "credit_full pid n gw = gw\<lparr>gw_metrics := add_output pid (ucast n) (gw_metrics gw)\<rparr>"

definition call_provider ::
  "response_codec \<Rightarrow> request_body \<Rightarrow> gateway provider \<Rightarrow> credentials \<Rightarrow> call_ctx \<Rightarrow>
   string \<Rightarrow> inflight_guard \<Rightarrow> step"
where
  "call_provider js body provider creds cctx pid guard ctx gw = (case body of
     OpenAiChat req \<Rightarrow>
       if wants_stream (cr_stream req)
       then after_call guard (pv_chat_stream provider req creds cctx gw)
              (answer_stream OpenAiStream pid guard) ctx
       else after_call guard (pv_chat provider req creds cctx gw) (\<lambda>resp ctx gw.
              case rs_usage resp of
                None \<Rightarrow> answer_full guard (js_chat js resp) ctx gw
              | Some u \<Rightarrow> answer_full guard (js_chat js resp)
                  (ctx\<lparr>rc_usage_slot := record_openai_usage u (rc_usage_slot ctx)\<rparr>)
                  (credit_full pid (us_completion_tokens u) gw)) ctx
   | AnthropicMessages req \<Rightarrow>
       if wants_stream (mr_stream req)
       then after_call guard (pv_messages_stream provider req creds cctx gw)
              (answer_stream AnthropicStream pid guard) ctx
       else after_call guard (pv_messages provider req creds cctx gw) (\<lambda>resp ctx gw.
              answer_full guard (js_messages js resp)
                (ctx\<lparr>rc_usage_slot := record_anthropic_usage (ms_usage resp) (rc_usage_slot ctx)\<rparr>)
                (credit_full pid (au_output_tokens (ms_usage resp)) gw)) ctx
   | OpenAiEmbeddings req \<Rightarrow>
       after_call guard (pv_embeddings provider req creds cctx gw) (\<lambda>resp ctx gw.
         answer_full guard (js_embeddings js resp)
           (case er_usage resp of
              None \<Rightarrow> ctx
            | Some u \<Rightarrow> ctx\<lparr>rc_usage_slot := record_openai_usage u (rc_usage_slot ctx)\<rparr>) gw) ctx
   | Empty \<Rightarrow> (Return (Inr Continue), ctx, release guard gw))"

text \<open>
  The body of the loop for one candidate: an unknown provider counts as a connection error;
  a known one is named in the binding, counted as in flight and called, and its guard is
  dropped before the next candidate.
\<close>

definition try_candidate :: "registry \<Rightarrow> response_codec \<Rightarrow> string \<Rightarrow> request_body \<Rightarrow> string \<Rightarrow> step" where
  "try_candidate providers js upstream_model body pid ctx gw = (case providers pid of
     None \<Rightarrow> (Retry (Connect (''unknown provider '' @ pid)), ctx, gw)
   | Some (provider, defaults) \<Rightarrow>
       let creds = call_credentials (rc_identity ctx) defaults;
           cctx = \<lparr>ca_request_id = rc_request_id ctx, ca_upstream_model = upstream_model\<rparr>;
           ctx = ctx\<lparr>rc_binding := map_option (\<lambda>b. b\<lparr>pb_provider_id := pid\<rparr>) (rc_binding ctx)\<rparr>;
           (guard, loads) = acquire pid (gw_load gw)
       in case call_provider js body provider creds cctx pid guard ctx (gw\<lparr>gw_load := loads\<rparr>) of
            (Return r, ctx, gw) \<Rightarrow> (Return r, ctx, gw)
          | (Retry e, ctx, gw) \<Rightarrow> (Retry e, ctx, release guard gw))"

section \<open>The pool\<close>

lemma pick_candidate_untried:
  "pick_candidate t candidates tried = Some i \<Longrightarrow> i < length candidates \<and> i \<notin> set tried"
  by (auto simp: pick_candidate_def dest!: min_by_key_in set_zip_leftD)

definition exhausted :: "provider_error option \<Rightarrow> stage_error" where
  "exhausted last_err = (case last_err of
     Some e \<Rightarrow> stage_err e
   | None \<Rightarrow> internal_err ''forward: no providers in pool'')"

function forward_loop ::
  "registry \<Rightarrow> response_codec \<Rightarrow> string \<Rightarrow> request_body \<Rightarrow> string list \<Rightarrow> nat list \<Rightarrow>
   provider_error option \<Rightarrow> (gateway, stage_outcome) process"
where
  "forward_loop providers js upstream_model body candidates tried last_err ctx gw =
     (case pick_candidate (gw_load gw) candidates tried of
        None \<Rightarrow> (Inl (exhausted last_err), ctx, gw)
      | Some idx \<Rightarrow>
          (case try_candidate providers js upstream_model body (candidates ! idx) ctx gw of
             (Return r, ctx, gw) \<Rightarrow> (r, ctx, gw)
           | (Retry e, ctx, gw) \<Rightarrow>
               forward_loop providers js upstream_model body candidates (tried @ [idx]) (Some e) ctx gw))"
  by pat_completeness auto
termination
  by (relation "measure (\<lambda>(P, js, um, b, candidates, tried, l, c, g).
        card ({..<length candidates} - set tried))")
     (auto dest!: pick_candidate_untried intro!: psubset_card_mono)

declare forward_loop.simps [simp del]

definition pool :: "provider_binding \<Rightarrow> string list" where
  "pool b = (if pb_candidates b \<noteq> [] then pb_candidates b
     else if pb_provider_id b \<noteq> '''' then [pb_provider_id b] else [])"

definition forward_process :: "registry \<Rightarrow> response_codec \<Rightarrow> (gateway, stage_outcome) process" where
  "forward_process providers js ctx gw = (case rc_binding ctx of
     None \<Rightarrow> (Inl (internal_err ''forward: no binding (model_route must run first)''), ctx, gw)
   | Some b \<Rightarrow>
       let body = rc_body ctx; ctx = ctx\<lparr>rc_body := Empty\<rparr>
       in case body of
            Empty \<Rightarrow> (Inr Continue, ctx, gw)
          | _ \<Rightarrow> forward_loop providers js (pb_upstream_model b) body (pool b) [] None ctx gw)"

definition forward_stage :: "registry \<Rightarrow> response_codec \<Rightarrow> gateway stage" where
  "forward_stage providers js =
     \<lparr>st_name = ''forward'', st_terminal = False, st_process = forward_process providers js\<rparr>"

end
