(* ===== verification/Failover.thy ===== *)
theory Failover
  imports Forward
begin

text \<open>
  What the upstream call promises.  The reference definition \<open>failover\<close> tries a list of
  providers one after the other; the loop of the source, which picks the least busy
  untried candidate each time round, is failover over the candidates in stable order of
  their load, as long as nothing else changes the loads meanwhile.  From there: who serves a
  request, that in-flight counts balance, and what a tapped stream credits.
\<close>

section \<open>Picking the least repeatedly is a stable sort\<close>

lemma sort_key_min:
  "min_by_key f xs = Some y \<Longrightarrow> sort_key f xs = y # sort_key f (remove1 y xs)"
proof (induction xs arbitrary: y)
  case (Cons x xs)
  show ?case
  proof (cases "min_by_key f xs")
    case None
    with Cons.prems show ?thesis by simp
  next
    case (Some z)
    show ?thesis
    proof (cases "f z < f x")
      case True
      with Some Cons.prems have "y = z" by simp
      moreover have "x \<noteq> z"
        using True by auto
      ultimately show ?thesis
        using True Cons.IH [OF Some] by simp
    next
      case False
      with Some Cons.prems have y: "y = x" by simp
      have "\<forall>u \<in> set xs. f x \<le> f u"
        using min_by_key_least [OF Some] False by (meson dual_order.trans not_le_imp_less order_less_le_trans leI)
      then have "insort_key f x (sort_key f xs) = x # sort_key f xs"
      proof (cases "sort_key f xs")
        case (Cons a as)
        then have "a \<in> set xs"
          by (metis list.set_intros(1) set_sort)
        with \<open>\<forall>u \<in> set xs. f x \<le> f u\<close> Cons show ?thesis by simp
      qed simp
      with y show ?thesis by simp
    qed
  qed
qed simp

lemma remove1_filter_untried:
  assumes "distinct (map fst xs)" and "y \<in> set xs" and "fst y \<notin> tried"
  shows "remove1 y (filter (\<lambda>(i, a). i \<notin> tried) xs) = filter (\<lambda>(i, a). i \<notin> insert (fst y) tried) xs"
  using assms
proof (induction xs)
  case (Cons x xs)
  show ?case
  proof (cases "x = y")
    case True
    then have "\<forall>u \<in> set xs. fst u \<noteq> fst y"
      using Cons.prems(1) by (auto simp: image_iff)
    then have "filter (\<lambda>(i, a). i \<notin> insert (fst y) tried) xs = filter (\<lambda>(i, a). i \<notin> tried) xs"
      by (intro filter_cong) auto
    with True Cons.prems(3) show ?thesis by (auto split: prod.splits)
  next
    case False
    with Cons.prems have "y \<in> set xs" by simp
    with Cons.prems have "fst x \<noteq> fst y" by (auto simp: image_iff)
    with False Cons show ?thesis by (auto split: prod.splits)
  qed
qed simp

section \<open>The reference: one provider after the other\<close>

fun failover ::
  "registry \<Rightarrow> response_codec \<Rightarrow> string \<Rightarrow> request_body \<Rightarrow> string list \<Rightarrow> provider_error option \<Rightarrow>
   (gateway, stage_outcome) process"
where
  "failover providers js um body [] last_err ctx gw = (Inl (exhausted last_err), ctx, gw)"
| "failover providers js um body (pid # pids) last_err ctx gw =
     (case try_candidate providers js um body pid ctx gw of
        (Return r, ctx, gw) \<Rightarrow> (r, ctx, gw)
      | (Retry e, ctx, gw) \<Rightarrow> failover providers js um body pids (Some e) ctx gw)"

text \<open>
  A provider whose calls leave a part of the shared state as it is: nothing else touches it
  while the call is awaited.  \<open>quiet\<close> is the case of the load counters.
\<close>

definition keeps :: "(gateway \<Rightarrow> 'x) \<Rightarrow> gateway provider \<Rightarrow> bool" where
  "keeps part pv \<longleftrightarrow> (\<forall>creds cctx gw.
     (\<forall>req. part (snd (pv_chat pv req creds cctx gw)) = part gw) \<and>
     (\<forall>req. part (snd (pv_chat_stream pv req creds cctx gw)) = part gw) \<and>
     (\<forall>req. part (snd (pv_messages pv req creds cctx gw)) = part gw) \<and>
     (\<forall>req. part (snd (pv_messages_stream pv req creds cctx gw)) = part gw) \<and>
     (\<forall>req. part (snd (pv_embeddings pv req creds cctx gw)) = part gw))"

definition all_keep :: "(gateway \<Rightarrow> 'x) \<Rightarrow> registry \<Rightarrow> bool" where
  "all_keep part providers \<longleftrightarrow> (\<forall>(pv, c) \<in> ran providers. keeps part pv)"

definition quiet :: "registry \<Rightarrow> bool" where
  "quiet providers \<longleftrightarrow> all_keep gw_load providers"

text \<open>What a provider answers to a body: the error, if any.\<close>

definition error_of :: "'e + 'a \<Rightarrow> 'e option" where
  "error_of r = (case r of Inl e \<Rightarrow> Some e | Inr a \<Rightarrow> None)"

definition reply_error ::
  "gateway provider \<Rightarrow> request_body \<Rightarrow> credentials \<Rightarrow> call_ctx \<Rightarrow> gateway \<Rightarrow> provider_error option"
where
  "reply_error pv body creds cctx gw = (case body of
     OpenAiChat req \<Rightarrow>
       if wants_stream (cr_stream req) then error_of (fst (pv_chat_stream pv req creds cctx gw))
       else error_of (fst (pv_chat pv req creds cctx gw))
   | AnthropicMessages req \<Rightarrow>
       if wants_stream (mr_stream req) then error_of (fst (pv_messages_stream pv req creds cctx gw))
       else error_of (fst (pv_messages pv req creds cctx gw))
   | OpenAiEmbeddings req \<Rightarrow> error_of (fst (pv_embeddings pv req creds cctx gw))
   | Empty \<Rightarrow> None)"

text \<open>A provider that always answers a body, and one that may only fail in retryable ways.\<close>

definition answers :: "request_body \<Rightarrow> gateway provider \<Rightarrow> bool" where
  "answers body pv \<longleftrightarrow> (\<forall>creds cctx gw. reply_error pv body creds cctx gw = None)"

definition at_worst_retryable :: "request_body \<Rightarrow> gateway provider \<Rightarrow> bool" where
  "at_worst_retryable body pv \<longleftrightarrow>
     (\<forall>creds cctx gw e. reply_error pv body creds cctx gw = Some e \<longrightarrow> retryable e)"

definition serialises :: "response_codec \<Rightarrow> bool" where
  "serialises js \<longleftrightarrow> (\<forall>r. error_of (js_chat js r) = None) \<and> (\<forall>r. error_of (js_messages js r) = None)
     \<and> (\<forall>r. error_of (js_embeddings js r) = None)"

text \<open>
  How a call may go: the provider fails, or its answer is serialised, or its stream handed on.
  A part of the shared state that the provider keeps, and that the metrics are no part of, is
  then still as it was.
\<close>

definition no_metrics :: "(gateway \<Rightarrow> 'x) \<Rightarrow> bool" where
  "no_metrics part \<longleftrightarrow> (\<forall>gw m. part (gw\<lparr>gw_metrics := m\<rparr>) = part gw)"

lemma after_call_cases:
  assumes "after_call guard answer on_ok ctx = (a, ctx', gw')"
  obtains (failed) e where "error_of (fst answer) = Some e"
      "(a, ctx', gw') = (if retryable e then (Retry e, ctx, snd answer)
         else (Return (Inl (stage_err e)), ctx, release guard (snd answer)))"
    | (ok) resp where "error_of (fst answer) = None" "fst answer = Inr resp"
      "on_ok resp ctx (snd answer) = (a, ctx', gw')"
proof (cases answer)
  case (Pair r gw2)
  show thesis
  proof (cases r)
    case (Inl e)
    show thesis
      by (rule failed [of e]) (use assms Pair Inl in \<open>auto simp: after_call_def error_of_def\<close>)
  next
    case (Inr resp)
    show thesis
      by (rule ok [of resp]) (use assms Pair Inr in \<open>auto simp: after_call_def error_of_def\<close>)
  qed
qed

lemma call_provider_cases:
  assumes call: "call_provider js body pv creds cctx pid guard ctx gw = (a, ctx', gw')"
    and keeps: "keeps part pv" and body: "body \<noteq> Empty" and part: "no_metrics part"
  obtains (failed) e gw1 where "reply_error pv body creds cctx gw = Some e" "part gw1 = part gw"
      "(a, ctx', gw') = (if retryable e then (Retry e, ctx, gw1)
         else (Return (Inl (stage_err e)), ctx, release guard gw1))"
    | (full) r slot gw1 where "reply_error pv body creds cctx gw = None" "part gw1 = part gw"
      "serialises js \<Longrightarrow> error_of r = None"
      "answer_full guard r (ctx\<lparr>rc_usage_slot := slot\<rparr>) gw1 = (a, ctx', gw')"
    | (stream) kind events gw1 where "reply_error pv body creds cctx gw = None" "part gw1 = part gw"
      "answer_stream kind pid guard events ctx gw1 = (a, ctx', gw')"
proof -
  have same: "ctx\<lparr>rc_usage_slot := rc_usage_slot ctx\<rparr> = ctx" by simp
  have credit: "part (credit_full i n g) = part g" for i n g
    using part by (simp add: no_metrics_def credit_full_def)
  have fails: thesis if "error_of (fst ans) = Some e"
      "(a, ctx', gw') = (if retryable e then (Retry e, ctx, snd ans)
         else (Return (Inl (stage_err e)), ctx, release guard (snd ans)))"
      "reply_error pv body creds cctx gw = error_of (fst ans)" "part (snd ans) = part gw"
    for e and ans :: "(provider_error + 'r) \<times> gateway"
    by (rule failed [of e "snd ans"]) (use that in simp_all)
  have streams: thesis if "after_call guard ans (answer_stream kind pid guard) ctx = (a, ctx', gw')"
      "reply_error pv body creds cctx gw = error_of (fst ans)" "part (snd ans) = part gw" for ans kind
  proof (rule after_call_cases [OF that(1)])
    fix resp
    assume "error_of (fst ans) = None" "answer_stream kind pid guard resp ctx (snd ans) = (a, ctx', gw')"
    then show thesis
      by (intro stream [of "snd ans" kind resp]) (use that in simp_all)
  qed (rule fails [OF _ _ that(2,3)])
  show thesis
  proof (cases body)
    case (OpenAiChat req)
    show thesis
    proof (cases "wants_stream (cr_stream req)")
      case True
      with OpenAiChat call have "after_call guard (pv_chat_stream pv req creds cctx gw)
          (answer_stream OpenAiStream pid guard) ctx = (a, ctx', gw')"
        by (simp add: call_provider_def)
      moreover have "reply_error pv body creds cctx gw = error_of (fst (pv_chat_stream pv req creds cctx gw))"
        and kept: "part (snd (pv_chat_stream pv req creds cctx gw)) = part gw"
        using OpenAiChat True keeps by (simp_all add: reply_error_def keeps_def)
      ultimately show thesis
        by (rule streams)
    next
      case False
      with OpenAiChat have reply: "reply_error pv body creds cctx gw = error_of (fst (pv_chat pv req creds cctx gw))"
        and kept: "part (snd (pv_chat pv req creds cctx gw)) = part gw"
        using keeps by (simp_all add: reply_error_def keeps_def)
      from call [unfolded call_provider_def OpenAiChat request_body.case if_not_P [OF False]] show thesis
      proof (rule after_call_cases)
        fix resp
        let ?gw = "snd (pv_chat pv req creds cctx gw)"
        assume err: "error_of (fst (pv_chat pv req creds cctx gw)) = None"
          and ok: "(case rs_usage resp of
              None \<Rightarrow> answer_full guard (js_chat js resp) ctx ?gw
            | Some u \<Rightarrow> answer_full guard (js_chat js resp)
                (ctx\<lparr>rc_usage_slot := record_openai_usage u (rc_usage_slot ctx)\<rparr>)
                (credit_full pid (us_completion_tokens u) ?gw)) = (a, ctx', gw')"
        have ser: "serialises js \<Longrightarrow> error_of (js_chat js resp) = None"
          by (simp add: serialises_def)
        show thesis
        proof (cases "rs_usage resp")
          case None
          show thesis
            by (rule full [of "?gw" "js_chat js resp" "rc_usage_slot ctx"])
              (use ok None reply err kept ser in simp_all)
        next
          case (Some u)
          show thesis
            by (rule full [of "credit_full pid (us_completion_tokens u) ?gw" "js_chat js resp"
                  "record_openai_usage u (rc_usage_slot ctx)"])
              (use ok Some reply err kept ser credit in simp_all)
        qed
      qed (rule fails [OF _ _ reply kept])
    qed
  next
    case (AnthropicMessages req)
    show thesis
    proof (cases "wants_stream (mr_stream req)")
      case True
      with AnthropicMessages call have "after_call guard (pv_messages_stream pv req creds cctx gw)
          (answer_stream AnthropicStream pid guard) ctx = (a, ctx', gw')"
        by (simp add: call_provider_def)
      moreover have "reply_error pv body creds cctx gw = error_of (fst (pv_messages_stream pv req creds cctx gw))"
        and kept: "part (snd (pv_messages_stream pv req creds cctx gw)) = part gw"
        using AnthropicMessages True keeps by (simp_all add: reply_error_def keeps_def)
      ultimately show thesis
        by (rule streams)
    next
      case False
      with AnthropicMessages have reply: "reply_error pv body creds cctx gw = error_of (fst (pv_messages pv req creds cctx gw))"
        and kept: "part (snd (pv_messages pv req creds cctx gw)) = part gw"
        using keeps by (simp_all add: reply_error_def keeps_def)
      from call [unfolded call_provider_def AnthropicMessages request_body.case if_not_P [OF False]] show thesis
      proof (rule after_call_cases)
        fix resp
        let ?gw = "snd (pv_messages pv req creds cctx gw)"
        assume err: "error_of (fst (pv_messages pv req creds cctx gw)) = None"
          and ok: "answer_full guard (js_messages js resp)
            (ctx\<lparr>rc_usage_slot := record_anthropic_usage (ms_usage resp) (rc_usage_slot ctx)\<rparr>)
            (credit_full pid (au_output_tokens (ms_usage resp)) ?gw) = (a, ctx', gw')"
        show thesis
          by (rule full [of "credit_full pid (au_output_tokens (ms_usage resp)) ?gw" "js_messages js resp"
                "record_anthropic_usage (ms_usage resp) (rc_usage_slot ctx)"])
            (use ok reply err kept credit in \<open>simp_all add: serialises_def\<close>)
      qed (rule fails [OF _ _ reply kept])
    qed
  next
    case (OpenAiEmbeddings req)
    then have reply: "reply_error pv body creds cctx gw = error_of (fst (pv_embeddings pv req creds cctx gw))"
      and kept: "part (snd (pv_embeddings pv req creds cctx gw)) = part gw"
      using keeps by (simp_all add: reply_error_def keeps_def)
    from call [unfolded call_provider_def OpenAiEmbeddings request_body.case] show thesis
    proof (rule after_call_cases)
      fix resp
      let ?gw = "snd (pv_embeddings pv req creds cctx gw)"
      assume err: "error_of (fst (pv_embeddings pv req creds cctx gw)) = None"
        and ok: "answer_full guard (js_embeddings js resp) (case er_usage resp of None \<Rightarrow> ctx
          | Some u \<Rightarrow> ctx\<lparr>rc_usage_slot := record_openai_usage u (rc_usage_slot ctx)\<rparr>) ?gw = (a, ctx', gw')"
      obtain slot where slot: "(case er_usage resp of None \<Rightarrow> ctx
          | Some u \<Rightarrow> ctx\<lparr>rc_usage_slot := record_openai_usage u (rc_usage_slot ctx)\<rparr>) = ctx\<lparr>rc_usage_slot := slot\<rparr>"
        using same by (cases "er_usage resp") (metis option.case)+
      show thesis
        by (rule full [of ?gw "js_embeddings js resp" slot])
          (use ok slot reply err kept in \<open>simp_all add: serialises_def\<close>)
    qed (rule fails [OF _ _ reply kept])
  qed (use body in simp)
qed

text \<open>The loads an attempt leaves: the guard is held by the stream it made, or dropped.\<close>

definition stream_guard :: "response_slot \<Rightarrow> inflight_guard" where
  "stream_guard slot = (case slot of Stream sm \<Rightarrow> sm_guard sm | _ \<Rightarrow> None)"

lemma release_load [simp]: "gw_load (release g gw) = drop_guard g (gw_load gw)"
  by (simp add: release_def)

lemma drop_none [simp]: "drop_guard None t = t"
  by (simp add: drop_guard_def)

text \<open>
  What an attempt may leave: a retry with the loads restored; a return without a stream, also
  with the loads restored; or a stream that holds the guard.
\<close>

definition attempt_leaves ::
  "string \<Rightarrow> response_slot \<Rightarrow> load_tracker \<Rightarrow> attempt \<Rightarrow> response_slot \<Rightarrow> load_tracker \<Rightarrow> bool"
where
  "attempt_leaves pid slot t a slot' t' \<longleftrightarrow> (case a of
     Retry e \<Rightarrow> slot' = slot \<and> t' = t
   | Return (Inl e) \<Rightarrow> slot' = slot \<and> t' = t
   | Return (Inr Continue) \<Rightarrow>
       (\<exists>resp. slot' = Full resp) \<and> t' = t
     \<or> (\<exists>sm. slot' = Stream sm \<and> sm_provider sm = pid \<and> sm_guard sm = fst (acquire pid t)
          \<and> t' = snd (acquire pid t))
   | Return (Inr (Respond resp)) \<Rightarrow> False)"

definition leaves_held ::
  "inflight_guard \<Rightarrow> string \<Rightarrow> response_slot \<Rightarrow> load_tracker \<Rightarrow> attempt \<Rightarrow> response_slot \<Rightarrow> load_tracker \<Rightarrow> bool"
where
  "leaves_held guard pid slot t a slot' t' \<longleftrightarrow> (case a of
     Retry e \<Rightarrow> slot' = slot \<and> t' = t
   | Return (Inl e) \<Rightarrow> slot' = slot \<and> t' = drop_guard guard t
   | Return (Inr Continue) \<Rightarrow>
       (\<exists>resp. slot' = Full resp) \<and> t' = drop_guard guard t
     \<or> (\<exists>sm. slot' = Stream sm \<and> sm_provider sm = pid \<and> sm_guard sm = guard \<and> t' = t)
   | Return (Inr (Respond resp)) \<Rightarrow> False)"

lemma attempt_leaves_Inr:
  assumes "attempt_leaves pid slot t (Return (Inr out)) slot' t'"
  shows "(\<exists>resp. slot' = Full resp) \<and> t' = t
     \<or> (\<exists>sm. slot' = Stream sm \<and> sm_guard sm = fst (acquire pid t) \<and> t' = snd (acquire pid t))"
  using assms by (cases out) (auto simp: attempt_leaves_def)

lemma answer_full_leaves:
  assumes "answer_full guard r ctx gw = (a, ctx', gw')"
  shows "leaves_held guard pid (rc_response ctx) (gw_load gw) a (rc_response ctx') (gw_load gw')"
  using assms by (auto simp: answer_full_def full_json_def leaves_held_def split: sum.splits)

lemma answer_stream_leaves:
  assumes "answer_stream kind pid guard events ctx gw = (a, ctx', gw')"
  shows "leaves_held guard pid (rc_response ctx) (gw_load gw) a (rc_response ctx') (gw_load gw')"
  using assms by (auto simp: answer_stream_def leaves_held_def)

lemma no_metrics_load: "no_metrics gw_load"
  by (simp add: no_metrics_def)

lemma call_provider_leaves:
  assumes call: "call_provider js body pv creds cctx pid guard ctx gw = (a, ctx', gw')"
    and keeps: "keeps gw_load pv" and body: "body \<noteq> Empty"
  shows "leaves_held guard pid (rc_response ctx) (gw_load gw) a (rc_response ctx') (gw_load gw')"
  using call keeps body no_metrics_load
proof (cases rule: call_provider_cases)
  case (full r slot gw1)
  with answer_full_leaves [OF full(4), of pid] show ?thesis by simp
next
  case (stream kind events gw1)
  with answer_stream_leaves [OF stream(3)] show ?thesis by simp
qed (auto simp: leaves_held_def split: if_splits)

lemma try_candidate_leaves:
  assumes "try_candidate providers js um body pid ctx gw = (a, ctx', gw')"
    and "quiet providers" and "body \<noteq> Empty"
  shows "attempt_leaves pid (rc_response ctx) (gw_load gw) a (rc_response ctx') (gw_load gw')"
proof (cases "providers pid")
  case None
  with assms(1) show ?thesis
    by (auto simp: try_candidate_def attempt_leaves_def)
next
  case (Some p)
  obtain pv c where p: "p = (pv, c)" by (cases p)
  with Some assms(2) have q: "keeps gw_load pv"
    by (auto simp: quiet_def all_keep_def dest: ranI)
  define ctx1 where "ctx1 = ctx\<lparr>rc_binding := map_option (\<lambda>b. b\<lparr>pb_provider_id := pid\<rparr>) (rc_binding ctx)\<rparr>"
  define gw1 where "gw1 = gw\<lparr>gw_load := snd (acquire pid (gw_load gw))\<rparr>"
  obtain b ctx2 gw2 where call: "call_provider js body pv (call_credentials (rc_identity ctx) c)
      \<lparr>ca_request_id = rc_request_id ctx, ca_upstream_model = um\<rparr> pid
      (fst (acquire pid (gw_load gw))) ctx1 gw1 = (b, ctx2, gw2)"
    by (metis prod_cases3)
  have "try_candidate providers js um body pid ctx gw
      = (b, ctx2, case b of Return r \<Rightarrow> gw2 | Retry e \<Rightarrow> release (fst (acquire pid (gw_load gw))) gw2)"
    using call Some p by (simp add: try_candidate_def Let_def split_beta ctx1_def gw1_def split: attempt.splits)
  with assms(1) call_provider_leaves [OF call q assms(3)] show ?thesis
    by (auto simp: leaves_held_def attempt_leaves_def ctx1_def gw1_def
        split: attempt.splits sum.splits stage_outcome.splits)
qed

section \<open>The loop is failover in order of load\<close>

lemma map_snd_insort_key:
  "map snd (insort_key (\<lambda>(i, a). f a) y ys) = insort_key f (snd y) (map snd ys)"
  by (induction ys) (auto split: prod.splits)

lemma map_snd_sort_key: "map snd (sort_key (\<lambda>(i, a). f a) xs) = sort_key f (map snd xs)"
  by (induction xs) (simp_all add: map_snd_insort_key)

definition untried :: "string list \<Rightarrow> nat list \<Rightarrow> (nat \<times> string) list" where
  "untried candidates tried = filter (\<lambda>(i, pid). i \<notin> set tried) (zip [0..<length candidates] candidates)"

lemma forward_loop_failover:
  assumes "quiet providers" and "body \<noteq> Empty"
  shows "forward_loop providers js um body candidates tried last_err ctx gw =
    failover providers js um body
      (map snd (sort_key (\<lambda>(i, pid). load (gw_load gw) pid) (untried candidates tried))) last_err ctx gw"
proof (induction "length (untried candidates tried)" arbitrary: tried last_err ctx gw)
  case 0
  then show ?case
    by (simp add: forward_loop.simps pick_candidate_def untried_def)
next
  case (Suc n)
  let ?f = "\<lambda>(i :: nat, pid). load (gw_load gw) pid"
  from Suc.hyps(2) obtain y where y: "min_by_key ?f (untried candidates tried) = Some y"
    by (metis (no_types, lifting) list.size(3) min_by_key_None not_None_eq nat.distinct(1))
  obtain i pid where ip: "y = (i, pid)" by (cases y)
  have mem: "y \<in> set (untried candidates tried)"
    using min_by_key_in [OF y] .
  then have i: "i < length candidates" "candidates ! i = pid" "i \<notin> set tried"
    by (auto simp: untried_def ip in_set_zip)
  have rest: "remove1 y (untried candidates tried) = untried candidates (tried @ [i])"
    using remove1_filter_untried [of "zip [0..<length candidates] candidates" y "set tried"] mem
    by (simp add: untried_def ip)
  have sorted: "sort_key ?f (untried candidates tried) = y # sort_key ?f (untried candidates (tried @ [i]))"
    using sort_key_min [OF y] rest by simp
  have pick: "pick_candidate (gw_load gw) candidates tried = Some i"
    using y by (simp add: pick_candidate_def untried_def ip)
  have len: "n = length (untried candidates (tried @ [i]))"
    using Suc.hyps(2) mem rest length_remove1 [of y "untried candidates tried"] by simp
  obtain a ctx' gw' where attempt: "try_candidate providers js um body pid ctx gw = (a, ctx', gw')"
    by (metis prod_cases3)
  show ?case
  proof (cases a)
    case (Retry e)
    have "gw_load gw' = gw_load gw"
      using try_candidate_leaves [OF attempt assms] Retry by (simp add: attempt_leaves_def)
    with Suc.hyps(1) [OF len, of "Some e" ctx' gw'] attempt Retry pick sorted i show ?thesis
      by (subst forward_loop.simps) (simp add: ip)
  next
    case (Return r)
    with attempt pick sorted i show ?thesis
      by (subst forward_loop.simps) (simp add: ip)
  qed
qed

lemma forward_loop_sorted:
  assumes "quiet providers" and "body \<noteq> Empty"
  shows "forward_loop providers js um body candidates [] None ctx gw =
    failover providers js um body (sort_key (load (gw_load gw)) candidates) None ctx gw"
  using forward_loop_failover [OF assms, of js um candidates "[]"]
  by (simp add: untried_def map_snd_sort_key)

lemma forward_process_failover:
  assumes "quiet providers" and "rc_body ctx \<noteq> Empty" and "rc_binding ctx = Some b"
  shows "forward_process providers js ctx gw = failover providers js (pb_upstream_model b) (rc_body ctx)
    (sort_key (load (gw_load gw)) (pool b)) None (ctx\<lparr>rc_body := Empty\<rparr>) gw"
  using assms by (cases "rc_body ctx") (auto simp: forward_process_def Let_def forward_loop_sorted)

text \<open>
  C29: with providers that leave the load counters alone, picking the least busy untried
  candidate each time round, and failing over, is the same as trying the candidates one after
  the other in stable order of their load when the request arrived.
\<close>

theorem forward_is_failover:
  assumes "quiet providers" and "rc_binding ctx = Some b" and "rc_body ctx \<noteq> Empty"
  shows "forward_process providers js ctx gw = failover providers js (pb_upstream_model b) (rc_body ctx)
    (sort_key (load (gw_load gw)) (pool b)) None (ctx\<lparr>rc_body := Empty\<rparr>) gw"
  by (rule forward_process_failover [OF assms(1,3,2)])

section \<open>Who serves a request\<close>

lemma failover_leaves:
  assumes "failover providers js um body pids last_err ctx gw = (r, ctx', gw')"
    and "quiet providers" and "body \<noteq> Empty"
  shows "case r of
      Inl e \<Rightarrow> rc_response ctx' = rc_response ctx \<and> gw_load gw' = gw_load gw
    | Inr out \<Rightarrow> \<exists>pid \<in> set pids. attempt_leaves pid (rc_response ctx) (gw_load gw) (Return (Inr out))
        (rc_response ctx') (gw_load gw')"
  using assms(1)
proof (induction pids arbitrary: last_err ctx gw)
  case (Cons pid pids)
  obtain a ctx1 gw1 where attempt: "try_candidate providers js um body pid ctx gw = (a, ctx1, gw1)"
    by (metis prod_cases3)
  note leaves = try_candidate_leaves [OF attempt assms(2,3)]
  show ?case
  proof (cases a)
    case (Retry e)
    with leaves have same: "rc_response ctx1 = rc_response ctx" "gw_load gw1 = gw_load gw"
      by (auto simp: attempt_leaves_def)
    from Cons.prems attempt Retry have "failover providers js um body pids (Some e) ctx1 gw1 = (r, ctx', gw')"
      by simp
    from Cons.IH [OF this] same show ?thesis
      by (cases r) auto
  next
    case (Return x)
    with Cons.prems attempt have "x = r" "ctx1 = ctx'" "gw1 = gw'" by auto
    with leaves Return show ?thesis
      by (cases r) (auto simp: attempt_leaves_def)
  qed
qed auto


text \<open>An attempt at a registered provider follows its reply.\<close>

definition follows_reply ::
  "string \<Rightarrow> provider_error option \<Rightarrow> request_ctx \<Rightarrow> attempt \<Rightarrow> request_ctx \<Rightarrow> bool"
where
  "follows_reply pid reply ctx a ctx' \<longleftrightarrow>
     rc_binding ctx' = rc_binding ctx
   \<and> (case reply of
       None \<Rightarrow> a = Return (Inr Continue) \<and> rc_response ctx' \<noteq> Pending
     | Some e \<Rightarrow> a = (if retryable e then Retry e else Return (Inl (stage_err e))))"

lemma call_provider_follows:
  assumes call: "call_provider js body pv creds cctx pid guard ctx gw = (a, ctx', gw')"
    and body: "body \<noteq> Empty" and ser: "serialises js"
  shows "follows_reply pid (reply_error pv body creds cctx gw) ctx a ctx'"
proof -
  have "keeps (\<lambda>gw. ()) pv" "no_metrics (\<lambda>gw. ())"
    by (simp_all add: keeps_def no_metrics_def)
  from call this(1) body this(2) show ?thesis
  proof (cases rule: call_provider_cases)
    case (full r slot gw1)
    with ser show ?thesis
      by (auto simp: answer_full_def full_json_def error_of_def follows_reply_def split: sum.splits)
  qed (auto simp: follows_reply_def answer_stream_def split: if_splits)
qed

text \<open>The binding names the provider an attempt was made at.\<close>

definition names_provider :: "string \<Rightarrow> request_ctx \<Rightarrow> request_ctx \<Rightarrow> bool" where
  "names_provider pid ctx ctx' \<longleftrightarrow>
     rc_binding ctx' = map_option (\<lambda>b. b\<lparr>pb_provider_id := pid\<rparr>) (rc_binding ctx)"

lemma try_candidate_follows:
  assumes "try_candidate providers js um body pid ctx gw = (a, ctx', gw')"
    and "providers pid = Some (pv, c)" and "body \<noteq> Empty" and "serialises js"
  shows "names_provider pid ctx ctx' \<and> (\<exists>creds cctx gw1.
    (case reply_error pv body creds cctx gw1 of
       None \<Rightarrow> a = Return (Inr Continue) \<and> rc_response ctx' \<noteq> Pending
     | Some e \<Rightarrow> a = (if retryable e then Retry e else Return (Inl (stage_err e)))))"
proof -
  define creds where "creds = call_credentials (rc_identity ctx) c"
  define cctx where "cctx = \<lparr>ca_request_id = rc_request_id ctx, ca_upstream_model = um\<rparr>"
  define ctx1 where "ctx1 = ctx\<lparr>rc_binding := map_option (\<lambda>b. b\<lparr>pb_provider_id := pid\<rparr>) (rc_binding ctx)\<rparr>"
  define gw1 where "gw1 = gw\<lparr>gw_load := snd (acquire pid (gw_load gw))\<rparr>"
  obtain b ctx2 gw2 where call: "call_provider js body pv creds cctx pid
      (fst (acquire pid (gw_load gw))) ctx1 gw1 = (b, ctx2, gw2)"
    by (metis prod_cases3)
  have "try_candidate providers js um body pid ctx gw
      = (b, ctx2, case b of Return r \<Rightarrow> gw2 | Retry e \<Rightarrow> release (fst (acquire pid (gw_load gw))) gw2)"
    using call assms(2)
    by (simp add: try_candidate_def Let_def split_beta ctx1_def gw1_def creds_def cctx_def split: attempt.splits)
  with assms(1) have "b = a" "ctx2 = ctx'" by auto
  with call_provider_follows [OF call assms(3,4)]
  have named: "names_provider pid ctx ctx'" and reply: "case reply_error pv body creds cctx gw1 of
       None \<Rightarrow> a = Return (Inr Continue) \<and> rc_response ctx' \<noteq> Pending
     | Some e \<Rightarrow> a = (if retryable e then Retry e else Return (Inl (stage_err e)))"
    using \<open>b = a\<close> \<open>ctx2 = ctx'\<close> unfolding follows_reply_def names_provider_def ctx1_def
    by (simp, blast)
  from named show ?thesis
    by (rule conjI) (rule exI [of _ creds], rule exI [of _ cctx], rule exI [of _ gw1], rule reply)
qed

lemma failover_serves:
  assumes "serialises js" and "body \<noteq> Empty"
    and "\<forall>pid \<in> set pids. \<forall>pv c. providers pid = Some (pv, c) \<longrightarrow> at_worst_retryable body pv"
    and "\<exists>pid \<in> set pids. \<exists>pv c. providers pid = Some (pv, c) \<and> answers body pv"
    and "rc_binding ctx = Some b" and "set pids \<subseteq> set all"
  shows "\<exists>ctx' gw' b'. failover providers js um body pids last_err ctx gw = (Inr Continue, ctx', gw')
    \<and> rc_response ctx' \<noteq> Pending \<and> rc_binding ctx' = Some b' \<and> pb_provider_id b' \<in> set all"
  using assms(3-)
proof (induction pids arbitrary: last_err ctx gw b)
  case (Cons pid pids)
  obtain a ctx1 gw1 where attempt: "try_candidate providers js um body pid ctx gw = (a, ctx1, gw1)"
    by (metis prod_cases3)
  show ?case
  proof (cases "providers pid")
    case None
    then have "a = Retry (Connect (''unknown provider '' @ pid))" "ctx1 = ctx"
      using attempt by (auto simp: try_candidate_def)
    with Cons.IH [of ctx b] Cons.prems attempt None show ?thesis by auto
  next
    case (Some p)
    obtain pv c where p: "providers pid = Some (pv, c)"
      using Some by (cases p) auto
    from try_candidate_follows [OF attempt p assms(2,1)] obtain creds cctx gw2 where
      named: "names_provider pid ctx ctx1"
      and reply: "case reply_error pv body creds cctx gw2 of
        None \<Rightarrow> a = Return (Inr Continue) \<and> rc_response ctx1 \<noteq> Pending
      | Some e \<Rightarrow> a = (if retryable e then Retry e else Return (Inl (stage_err e)))"
      by blast
    have b1: "rc_binding ctx1 = Some (b\<lparr>pb_provider_id := pid\<rparr>)"
      using named Cons.prems(3) by (simp add: names_provider_def)
    show ?thesis
    proof (cases "reply_error pv body creds cctx gw2")
      case None
      with reply attempt b1 Cons.prems(4) show ?thesis by simp
    next
      case (Some e)
      moreover have "retryable e"
        using Cons.prems(1) p Some by (auto simp: at_worst_retryable_def)
      ultimately have a: "a = Retry e"
        using reply by simp
      have "\<not> answers body pv"
        using Some by (auto simp: answers_def)
      then have "\<exists>pid \<in> set pids. \<exists>pv c. providers pid = Some (pv, c) \<and> answers body pv"
        using Cons.prems(2) p by auto
      with Cons.IH [OF _ _ b1, of "Some e" gw1] Cons.prems a attempt show ?thesis by auto
    qed
  qed
qed simp

text \<open>
  C30: a request is served as long as one provider of its pool answers and the others fail, if
  they fail, in ways worth a retry: \<open>forward\<close> then returns a response from a provider of
  the pool, whose name the binding carries for the log.
\<close>

theorem forward_serves:
  assumes "quiet providers" and "serialises js" and "rc_body ctx \<noteq> Empty"
    and "rc_binding ctx = Some b"
    and "\<forall>pid \<in> set (pool b). \<forall>pv c. providers pid = Some (pv, c) \<longrightarrow> at_worst_retryable (rc_body ctx) pv"
    and "\<exists>pid \<in> set (pool b). \<exists>pv c. providers pid = Some (pv, c) \<and> answers (rc_body ctx) pv"
  shows "\<exists>ctx' gw' b'. forward_process providers js ctx gw = (Inr Continue, ctx', gw')
    \<and> rc_response ctx' \<noteq> Pending \<and> rc_binding ctx' = Some b' \<and> pb_provider_id b' \<in> set (pool b)"
  using failover_serves [OF assms(2,3), of "sort_key (load (gw_load gw)) (pool b)" providers
      "ctx\<lparr>rc_body := Empty\<rparr>" b "pool b" "pb_upstream_model b" None gw] assms(4-)
    forward_process_failover [OF assms(1,3,4), of js gw]
  by simp

section \<open>An example\<close>

text \<open>Two providers: \<open>a\<close>, idle, whose connection times out, and \<open>b\<close>, busy, which answers.\<close>

definition ex_chat :: chat_request where
  "ex_chat = \<lparr>cr_model = ''m'', cr_messages = [\<lparr>cm_role = ''user'', cm_content = ChatText ''hi'',
     cm_extras = []\<rparr>], cr_stream = None, cr_temperature = None, cr_max_tokens = None,
     cr_stream_options = None, cr_extras = []\<rparr>"

definition ex_response :: chat_response where
  "ex_response = \<lparr>rs_id = ''r'', rs_model = ''m'', rs_choices = [],
     rs_usage = Some \<lparr>us_prompt_tokens = 2, us_completion_tokens = 5, us_total_tokens = 7\<rparr>, rs_extras = []\<rparr>"

definition ex_chat_caps :: capabilities where
  "ex_chat_caps = \<lparr>cap_chat = True, cap_messages = False, cap_embeddings = False, cap_streaming = False,
     cap_tools = False, cap_vision = False\<rparr>"

definition ex_down :: "gateway provider" where
  "ex_down = (default_provider ''a'' ''openai'' ex_chat_caps)\<lparr>pv_chat := \<lambda>req creds cctx gw. (Inl Timeout, gw)\<rparr>"

definition ex_up :: "gateway provider" where
  "ex_up = (default_provider ''b'' ''openai'' ex_chat_caps)\<lparr>pv_chat := \<lambda>req creds cctx gw. (Inr ex_response, gw)\<rparr>"

definition ex_registry :: registry where
  "ex_registry = [''a'' \<mapsto> (ex_down, no_credentials), ''b'' \<mapsto> (ex_up, no_credentials)]"

definition ex_codec_json :: response_codec where
  "ex_codec_json = \<lparr>js_chat = \<lambda>r. Inr (as_bytes (rs_id r)), js_messages = \<lambda>r. Inr (as_bytes (ms_id r)),
     js_embeddings = \<lambda>r. Inr (as_bytes (er_model r))\<rparr>"

definition ex_gateway :: gateway where
  "ex_gateway = \<lparr>gw_load = [''a'' \<mapsto> 0, ''b'' \<mapsto> 1], gw_metrics = metrics_new [''a'', ''b''],
     gw_activity = default_activity, gw_lines = [], gw_clock = 1000\<rparr>"

definition ex_binding :: provider_binding where
  "ex_binding = \<lparr>pb_candidates = [''b'', ''a''], pb_provider_id = '''', pb_upstream_model = ''m''\<rparr>"

definition ex_ctx :: request_ctx where
  "ex_ctx = (new_ctx 0 900 ''/v1/chat/completions'' [] 10 (OpenAiChat ex_chat))\<lparr>rc_binding := Some ex_binding\<rparr>"

lemma ex_quiet: "quiet ex_registry"
  by (auto simp: quiet_def all_keep_def ex_registry_def keeps_def ex_down_def ex_up_def default_provider_def
      unsupported_def ran_def split: if_splits)

lemma ex_ctx_facts:
  "rc_body ex_ctx = OpenAiChat ex_chat" "rc_binding ex_ctx = Some ex_binding" "rc_response ex_ctx = Pending"
  by (simp_all add: ex_ctx_def new_ctx_def)

lemma ex_pool: "set (pool ex_binding) = {''a'', ''b''}"
  by (auto simp: pool_def ex_binding_def)

lemma ex_upstream: "pb_upstream_model ex_binding = ''m''"
  by (simp add: ex_binding_def)

lemma ex_sorted: "sort_key (load (gw_load ex_gateway)) (pool ex_binding) = [''a'', ''b'']"
  by (simp add: pool_def ex_binding_def ex_gateway_def load_def)

lemma forward_is_failover_witness:
  "forward_process ex_registry ex_codec_json ex_ctx ex_gateway =
    failover ex_registry ex_codec_json ''m'' (OpenAiChat ex_chat) [''a'', ''b''] None
      (ex_ctx\<lparr>rc_body := Empty\<rparr>) ex_gateway"
  using forward_is_failover [OF ex_quiet ex_ctx_facts(2), of ex_codec_json ex_gateway]
  by (simp add: ex_ctx_facts(1) ex_sorted ex_upstream del: failover.simps)


lemma forward_serves_witness:
  "\<exists>ctx' gw' b'. forward_process ex_registry ex_codec_json ex_ctx ex_gateway = (Inr Continue, ctx', gw')
    \<and> rc_response ctx' \<noteq> Pending \<and> rc_binding ctx' = Some b' \<and> pb_provider_id b' \<in> {''a'', ''b''}"
proof -
  have "serialises ex_codec_json"
    by (simp add: serialises_def ex_codec_json_def error_of_def)
  moreover have "rc_body ex_ctx \<noteq> Empty"
    by (simp add: ex_ctx_facts)
  moreover have "at_worst_retryable (rc_body ex_ctx) ex_down" "answers (rc_body ex_ctx) ex_up"
    "at_worst_retryable (rc_body ex_ctx) ex_up"
    by (auto simp: at_worst_retryable_def answers_def reply_error_def ex_ctx_facts ex_chat_def
        wants_stream_def ex_down_def ex_up_def error_of_def)
  then have "\<forall>pid \<in> set (pool ex_binding). \<forall>pv c. ex_registry pid = Some (pv, c) \<longrightarrow>
      at_worst_retryable (rc_body ex_ctx) pv"
    and "\<exists>pid \<in> set (pool ex_binding). \<exists>pv c. ex_registry pid = Some (pv, c) \<and> answers (rc_body ex_ctx) pv"
    by (auto simp: ex_pool ex_registry_def)
  ultimately show ?thesis
    using forward_serves [OF ex_quiet, of ex_codec_json ex_ctx ex_binding ex_gateway]
    by (simp add: ex_ctx_facts ex_pool)
qed

end
