(* ===== verification/StreamTap.thy ===== *)
theory StreamTap
  imports Failover
begin

text \<open>
  What a tapped stream does as the client drains it: every event passes through unchanged,
  and the provider is credited, over the whole stream, with the largest completion count any
  event reported, however often the upstream repeats or lowers it.
\<close>

function drain :: "response_stream \<Rightarrow> gateway \<Rightarrow> event_stream \<times> response_stream \<times> gateway" where
  "drain sm gw = (case stream_next sm gw of
     ((None, sm), gw) \<Rightarrow> ([], sm, gw)
   | ((Some item, sm), gw) \<Rightarrow> (case drain sm gw of (items, r) \<Rightarrow> (item # items, r)))"
  by pat_completeness auto

lemma credit_items [simp]: "sm_items (fst (credit n sm m)) = sm_items sm"
  by (simp add: credit_def)

lemma tap_items [simp]:
  "sm_items (fst (tap_openai raw sm m)) = sm_items sm"
  "sm_items (fst (tap_anthropic raw sm m)) = sm_items sm"
  by (auto simp: tap_openai_def tap_anthropic_def Let_def split_beta split: option.splits)

lemma stream_next_items:
  "stream_next sm gw = ((Some item, sm'), gw') \<Longrightarrow> sm_items sm = item # sm_items sm'"
  by (auto simp: stream_next_def Let_def split_beta split: list.splits sum.splits stream_kind.splits)

termination drain
  by (relation "measure (\<lambda>(sm, gw). length (sm_items sm))") (auto dest: stream_next_items [OF sym])

declare drain.simps [simp del]

text \<open>The completion count an event reports.\<close>

definition reported :: "stream_kind \<Rightarrow> provider_error + json \<Rightarrow> u32 option" where
  "reported kind item = (case item of
     Inl e \<Rightarrow> None
   | Inr raw \<Rightarrow> (case kind of
       OpenAiStream \<Rightarrow> map_option (\<lambda>u. json_u32 u ''completion_tokens'') (json_get raw ''usage'')
     | AnthropicStream \<Rightarrow> Option.bind (or_else (json_get raw ''usage'')
           (Option.bind (json_get raw ''message'') (\<lambda>msg. json_get msg ''usage'')))
         (\<lambda>u. map_option ucast (json_u64 u ''output_tokens''))))"

fun most :: "stream_kind \<Rightarrow> u32 \<Rightarrow> event_stream \<Rightarrow> u32" where
  "most kind n [] = n"
| "most kind n (item # items) =
     most kind (case reported kind item of None \<Rightarrow> n | Some c \<Rightarrow> max n c) items"

lemma most_ge: "n \<le> most kind n items"
proof (induction items arbitrary: n)
  case (Cons item items)
  show ?case
  proof (cases "reported kind item")
    case (Some c)
    have "n \<le> max n c" by simp
    also have "\<dots> \<le> most kind (max n c) items" by (rule Cons.IH)
    finally show ?thesis using Some by simp
  qed (use Cons in simp)
qed simp

lemma add_output_add: "add_output i a (add_output i b m) = add_output i (b + a) m"
  by (auto simp: add_output_def add.assoc split: option.splits)

lemma add_output_0 [simp]: "add_output i 0 m = m"
  by (auto simp: add_output_def fun_upd_idem split: option.splits)

lemma ucast_diff_add:
  assumes "a \<le> b" and "b \<le> (c :: u32)"
  shows "(ucast (b - a) :: u64) + ucast (c - b) = ucast (c - a)"
proof -
  have "unat b - unat a + (unat c - unat b) = unat c - unat a"
    using assms by (simp add: word_le_nat_alt)
  moreover have "unat (c - a) = unat c - unat a" "unat (b - a) = unat b - unat a"
    "unat (c - b) = unat c - unat b"
    using assms by (simp_all add: unat_sub)
  ultimately have "unat (c - a) = unat (b - a) + unat (c - b)" by simp
  then have "(word_of_nat (unat (c - a)) :: u64) = word_of_nat (unat (b - a)) + word_of_nat (unat (c - b))"
    by simp
  then show ?thesis
    by simp
qed

text \<open>One event: what it credits, and what it leaves alone.\<close>

lemma credit_max:
  "snd (credit c sm m) = add_output (sm_provider sm) (ucast (max (sm_credited sm) c - sm_credited sm)) m
   \<and> sm_credited (fst (credit c sm m)) = max (sm_credited sm) c
   \<and> sm_provider (fst (credit c sm m)) = sm_provider sm \<and> sm_kind (fst (credit c sm m)) = sm_kind sm
   \<and> sm_guard (fst (credit c sm m)) = sm_guard sm"
  by (auto simp: credit_def max_def not_less)

definition tapped :: "json \<Rightarrow> response_stream \<Rightarrow> gateway_metrics \<Rightarrow> response_stream \<times> gateway_metrics" where
  "tapped raw sm m = (case sm_kind sm of
     OpenAiStream \<Rightarrow> tap_openai raw sm m | AnthropicStream \<Rightarrow> tap_anthropic raw sm m)"

lemma tapped_credits:
  assumes "n = (case reported (sm_kind sm) (Inr raw) of None \<Rightarrow> sm_credited sm | Some c \<Rightarrow> max (sm_credited sm) c)"
  shows "snd (tapped raw sm m) = add_output (sm_provider sm) (ucast (n - sm_credited sm)) m
    \<and> sm_credited (fst (tapped raw sm m)) = n \<and> sm_provider (fst (tapped raw sm m)) = sm_provider sm
    \<and> sm_kind (fst (tapped raw sm m)) = sm_kind sm \<and> sm_guard (fst (tapped raw sm m)) = sm_guard sm
    \<and> sm_items (fst (tapped raw sm m)) = sm_items sm"
proof (cases "sm_kind sm")
  case OpenAiStream
  show ?thesis
  proof (cases "json_get raw ''usage''")
    case None
    with OpenAiStream assms show ?thesis by (simp add: tapped_def tap_openai_def reported_def)
  next
    case (Some u)
    with OpenAiStream assms credit_max [of "json_u32 u ''completion_tokens''" sm m] show ?thesis
      by (simp add: tapped_def tap_openai_def reported_def Let_def split_beta)
  qed
next
  case AnthropicStream
  let ?u = "or_else (json_get raw ''usage'')
      (Option.bind (json_get raw ''message'') (\<lambda>msg. json_get msg ''usage''))"
  show ?thesis
  proof (cases ?u)
    case None
    with AnthropicStream assms show ?thesis by (simp add: tapped_def tap_anthropic_def reported_def)
  next
    case (Some u)
    show ?thesis
    proof (cases "json_u64 u ''output_tokens''")
      case None
      with Some AnthropicStream assms show ?thesis
        by (simp add: tapped_def tap_anthropic_def reported_def Let_def split_beta)
    next
      case (Some c)
      with \<open>?u = Some u\<close> AnthropicStream assms credit_max [of "ucast c" sm m] show ?thesis
        by (simp add: tapped_def tap_anthropic_def reported_def Let_def split_beta)
    qed
  qed
qed

section \<open>The whole stream\<close>

lemma drain_credits:
  "\<exists>sm'. drain sm gw = (sm_items sm, sm',
      gw\<lparr>gw_metrics := add_output (sm_provider sm)
        (ucast (most (sm_kind sm) (sm_credited sm) (sm_items sm) - sm_credited sm)) (gw_metrics gw)\<rparr>)
    \<and> sm_guard sm' = sm_guard sm"
proof (induction "sm_items sm" arbitrary: sm gw)
  case Nil
  then have "sm_items sm = []" by simp
  then show ?case
    by (simp add: drain.simps stream_next_def)
next
  case (Cons item items)
  show ?case
  proof (cases item)
    case (Inl e)
    let ?sm = "sm\<lparr>sm_items := items\<rparr>"
    have "stream_next sm gw = ((Some (Inl e), ?sm), gw)"
      using Cons.hyps(2) [symmetric] Inl by (simp add: stream_next_def)
    moreover have "most (sm_kind sm) (sm_credited sm) (sm_items sm)
        = most (sm_kind ?sm) (sm_credited ?sm) (sm_items ?sm)"
      using Cons.hyps(2) [symmetric] Inl by (simp add: reported_def)
    ultimately show ?thesis
      using Cons.hyps(1) [of ?sm gw] Cons.hyps(2) [symmetric] Inl
      by (auto simp: drain.simps [of sm])
  next
    case (Inr raw)
    let ?sm = "sm\<lparr>sm_items := items\<rparr>"
    obtain sm1 m1 where tap: "tapped raw ?sm (gw_metrics gw) = (sm1, m1)"
      by fastforce
    define n where "n = (case reported (sm_kind sm) (Inr raw) of
        None \<Rightarrow> sm_credited sm | Some c \<Rightarrow> max (sm_credited sm) c)"
    have n: "n = (case reported (sm_kind ?sm) (Inr raw) of
        None \<Rightarrow> sm_credited ?sm | Some c \<Rightarrow> max (sm_credited ?sm) c)"
      by (cases "reported (sm_kind sm) (Inr raw)") (simp_all add: n_def)
    have one: "m1 = add_output (sm_provider sm) (ucast (n - sm_credited sm)) (gw_metrics gw)"
      "sm_credited sm1 = n" "sm_provider sm1 = sm_provider sm" "sm_kind sm1 = sm_kind sm"
      "sm_guard sm1 = sm_guard sm" "sm_items sm1 = items"
      using tapped_credits [OF n, of "gw_metrics gw"] tap by simp_all
    have next_: "stream_next sm gw = ((Some item, sm1), gw\<lparr>gw_metrics := m1\<rparr>)"
      using Cons.hyps(2) [symmetric] Inr tap
      by (simp add: stream_next_def tapped_def Let_def split: stream_kind.splits)
    let ?n = "most (sm_kind sm) n items"
    have "sm_credited sm \<le> n"
      by (simp add: n_def split: option.splits)
    then have sum: "ucast (n - sm_credited sm) + ucast (?n - n) = (ucast (?n - sm_credited sm) :: u64)"
      by (rule ucast_diff_add [OF _ most_ge])
    have whole: "most (sm_kind sm) (sm_credited sm) (sm_items sm) = ?n"
      using Cons.hyps(2) [symmetric] Inr by (simp add: n_def)
    from Cons.hyps(1) [OF one(6) [symmetric], of "gw\<lparr>gw_metrics := m1\<rparr>"] obtain sm' where
      rest: "drain sm1 (gw\<lparr>gw_metrics := m1\<rparr>) = (items, sm',
        gw\<lparr>gw_metrics := add_output (sm_provider sm) (ucast (?n - n)) m1\<rparr>)"
      and guard: "sm_guard sm' = sm_guard sm"
      using one by auto
    have "drain sm gw = (sm_items sm, sm', gw\<lparr>gw_metrics :=
        add_output (sm_provider sm) (ucast (?n - sm_credited sm)) (gw_metrics gw)\<rparr>)"
      using rest next_ Cons.hyps(2) [symmetric]
      by (simp add: drain.simps [of sm] one(1) add_output_add sum)
    with guard whole show ?thesis by metis
  qed
qed

text \<open>
  C19: a stream passes every event of the upstream through, changes nothing the requests share
  but the metrics of its provider, and credits that provider with the largest completion
  count any event reported, whatever the order or the repetitions of the reports; it still
  holds its in-flight guard until it is dropped.
\<close>

theorem stream_credits_most:
  assumes "sm_credited sm = 0"
  shows "\<exists>sm'. drain sm gw = (sm_items sm, sm',
      gw\<lparr>gw_metrics := add_output (sm_provider sm) (ucast (most (sm_kind sm) 0 (sm_items sm)))
        (gw_metrics gw)\<rparr>) \<and> sm_guard sm' = sm_guard sm"
  using drain_credits [of sm gw] assms by simp

definition ex_usage :: "nat \<Rightarrow> json" where
  "ex_usage n = JObject [(''usage'', JObject [(''completion_tokens'', JNumber (PosInt (of_nat n)))])]"

definition ex_stream :: response_stream where
  "ex_stream = \<lparr>sm_kind = OpenAiStream, sm_items = [Inr (ex_usage 3), Inr JNull, Inr (ex_usage 7),
     Inr (ex_usage 5), Inl Timeout], sm_slot = None, sm_credited = 0, sm_provider = ''a'', sm_guard = Some ''a''\<rparr>"

lemma stream_credits_most_witness:
  "\<exists>sm'. drain ex_stream ex_gateway = (sm_items ex_stream, sm',
      ex_gateway\<lparr>gw_metrics := add_output ''a'' 7 (gw_metrics ex_gateway)\<rparr>) \<and> sm_guard sm' = Some ''a''"
proof -
  have "sm_credited ex_stream = 0" "sm_provider ex_stream = ''a''" "sm_guard ex_stream = Some ''a''"
    by (simp_all add: ex_stream_def)
  moreover have "most (sm_kind ex_stream) 0 (sm_items ex_stream) = 7"
    by code_simp
  ultimately show ?thesis
    using stream_credits_most [of ex_stream ex_gateway] by simp
qed

end
