(* ===== verification/InFlight.thy ===== *)
theory InFlight
  imports Forward "HOL-Library.Multiset"
begin

text \<open>
  Many requests at once: the forward stage (\<open>ai-engine-stages/src/forward.rs\<close>) as a step
  relation in which every atomic action on the load tracker
  (\<open>ai-engine-stages/src/lib.rs\<close>) is a step of its own, so that the requests interleave in
  any order, providers answer when and how they like, and clients leave at any await.  The
  invariant is that the count of a provider is the number of guards on it that are alive.
\<close>

section \<open>Counters and guards\<close>

text \<open>
  What the stage relies on: a guard names the counter it took, which went up by one, and
  comes down by one when the guard is dropped.
\<close>

locale guarded_counter =
  fixes counts :: "'t \<Rightarrow> 'k \<Rightarrow> u64"
    and known :: "'t \<Rightarrow> 'k set"
    and take :: "'k \<Rightarrow> 't \<Rightarrow> 'k option \<times> 't"
    and give :: "'k option \<Rightarrow> 't \<Rightarrow> 't"
  assumes take_guard: "fst (take k t) = (if k \<in> known t then Some k else None)"
    and take_known: "known (snd (take k t)) = known t"
    and take_count: "k' \<in> known t \<Longrightarrow> counts (snd (take k t)) k' = (if k = k' then counts t k' + 1 else counts t k')"
    and give_known: "known (give g t) = known t"
    and give_count: "k' \<in> known t \<Longrightarrow> counts (give g t) k' = (if g = Some k' then counts t k' - 1 else counts t k')"
begin

lemma take_accounts:
  assumes "\<forall>k \<in> known t. counts t k = of_nat (count gs (Some k))" and "take i t = (g, t')"
  shows "\<forall>k \<in> known t'. counts t' k = of_nat (count (add_mset g gs) (Some k))"
proof -
  have "g = (if i \<in> known t then Some i else None)" "t' = snd (take i t)"
    using assms(2) take_guard [of i t] by auto
  with assms(1) take_known [of i t] take_count [of _ t i] show ?thesis
    by (auto simp: algebra_simps)
qed

lemma give_accounts:
  assumes "\<forall>k \<in> known t. counts t k = of_nat (count gs (Some k))" and "g \<in># gs"
  shows "\<forall>k \<in> known (give g t). counts (give g t) k = of_nat (count (gs - {#g#}) (Some k))"
proof
  fix k
  assume "k \<in> known (give g t)"
  then have k: "k \<in> known t"
    by (simp add: give_known)
  show "counts (give g t) k = of_nat (count (gs - {#g#}) (Some k))"
  proof (cases "g = Some k")
    case True
    with assms(2) obtain n where "count gs (Some k) = Suc n"
      by (metis Suc_pred count_greater_zero_iff)
    with True k assms(1) show ?thesis
      by (simp add: give_count)
  next
    case False
    with k assms(1) show ?thesis
      by (simp add: give_count)
  qed
qed

end

interpretation tracker: guarded_counter load dom acquire drop_guard
  by unfold_locales (auto simp: guard_acquire)

section \<open>Requests in flight\<close>

text \<open>
  A request picks a candidate, then takes the counter, then awaits the provider; a stream
  keeps its guard until it is dropped.
\<close>

datatype task =
    Picking "string list" "nat list"
  | Chosen "string list" "nat list" nat
  | Calling "string list" "nat list" nat inflight_guard
  | Streaming inflight_guard
  | Ended

fun task_guard :: "task \<Rightarrow> inflight_guard" where
  "task_guard (Calling candidates tried i g) = g"
| "task_guard (Streaming g) = g"
| "task_guard t = None"

record flight =
  fl_load :: load_tracker
  fl_tasks :: "nat \<rightharpoonup> task"

abbreviation set_task :: "nat \<Rightarrow> task \<Rightarrow> load_tracker \<Rightarrow> flight \<Rightarrow> flight" where
  "set_task r t loads s \<equiv> s\<lparr>fl_load := loads, fl_tasks := (fl_tasks s)(r \<mapsto> t)\<rparr>"

inductive flight_step :: "flight \<Rightarrow> flight \<Rightarrow> bool" where
  arrive: "fl_tasks s r = None \<Longrightarrow>
    flight_step s (set_task r (Picking candidates []) (fl_load s) s)"
| choose: "fl_tasks s r = Some (Picking candidates tried) \<Longrightarrow>
    pick_candidate (fl_load s) candidates tried = Some i \<Longrightarrow>
    flight_step s (set_task r (Chosen candidates tried i) (fl_load s) s)"
| exhaust: "fl_tasks s r = Some (Picking candidates tried) \<Longrightarrow>
    pick_candidate (fl_load s) candidates tried = None \<Longrightarrow>
    flight_step s (set_task r Ended (fl_load s) s)"
| unknown: "fl_tasks s r = Some (Chosen candidates tried i) \<Longrightarrow>
    flight_step s (set_task r (Picking candidates (tried @ [i])) (fl_load s) s)"
| dispatch: "fl_tasks s r = Some (Chosen candidates tried i) \<Longrightarrow>
    acquire (candidates ! i) (fl_load s) = (g, loads) \<Longrightarrow>
    flight_step s (set_task r (Calling candidates tried i g) loads s)"
| retry: "fl_tasks s r = Some (Calling candidates tried i g) \<Longrightarrow>
    flight_step s (set_task r (Picking candidates (tried @ [i])) (drop_guard g (fl_load s)) s)"
| answer: "fl_tasks s r = Some (Calling candidates tried i g) \<Longrightarrow>
    flight_step s (set_task r Ended (drop_guard g (fl_load s)) s)"
| stream: "fl_tasks s r = Some (Calling candidates tried i g) \<Longrightarrow>
    flight_step s (set_task r (Streaming g) (fl_load s) s)"
| leave: "fl_tasks s r = Some t \<Longrightarrow>
    flight_step s (set_task r Ended (drop_guard (task_guard t) (fl_load s)) s)"

inductive in_flight :: "string list \<Rightarrow> flight \<Rightarrow> bool" for ids where
  start: "in_flight ids \<lparr>fl_load = tracker_new ids, fl_tasks = Map.empty\<rparr>"
| step: "in_flight ids s \<Longrightarrow> flight_step s s' \<Longrightarrow> in_flight ids s'"

definition held :: "flight \<Rightarrow> inflight_guard multiset" where
  "held s = image_mset (\<lambda>r. task_guard (the (fl_tasks s r))) (mset_set (dom (fl_tasks s)))"

definition accounted :: "flight \<Rightarrow> bool" where
  "accounted s \<longleftrightarrow> finite (dom (fl_tasks s))
     \<and> (\<forall>i \<in> dom (fl_load s). load (fl_load s) i = of_nat (count (held s) (Some i)))"

definition orderly :: "task \<Rightarrow> bool" where
  "orderly t = (case t of
     Picking candidates tried \<Rightarrow> distinct tried \<and> set tried \<subseteq> {..<length candidates}
   | Chosen candidates tried i \<Rightarrow> distinct (tried @ [i]) \<and> set (tried @ [i]) \<subseteq> {..<length candidates}
   | Calling candidates tried i g \<Rightarrow> distinct (tried @ [i]) \<and> set (tried @ [i]) \<subseteq> {..<length candidates}
   | _ \<Rightarrow> True)"

lemma orderly_simps [simp]: "orderly (Picking candidates [])" "orderly (Streaming g)" "orderly Ended"
  by (simp_all add: orderly_def)

lemma held_update:
  assumes "finite (dom (fl_tasks s))" and "fl_tasks s r = Some t"
  shows "held (set_task r t' loads s) = add_mset (task_guard t') (held s - {#task_guard t#})"
    and "task_guard t \<in># held s"
proof -
  let ?d = "mset_set (dom (fl_tasks s) - {r})"
  have dom: "mset_set (dom (fl_tasks s)) = add_mset r ?d"
    using assms by (metis domI mset_set.remove)
  have rest: "image_mset (\<lambda>q. task_guard (the (((fl_tasks s)(r \<mapsto> t')) q))) ?d
      = image_mset (\<lambda>q. task_guard (the (fl_tasks s q))) ?d"
    by (rule image_mset_cong) (use assms(1) in auto)
  show "held (set_task r t' loads s) = add_mset (task_guard t') (held s - {#task_guard t#})"
    using assms rest dom by (simp add: held_def insert_absorb domI)
  show "task_guard t \<in># held s"
    using assms dom by (simp add: held_def)
qed

lemma held_arrive:
  assumes "finite (dom (fl_tasks s))" and "fl_tasks s r = None"
  shows "held (set_task r t loads s) = add_mset (task_guard t) (held s)"
proof -
  have "image_mset (\<lambda>q. task_guard (the (((fl_tasks s)(r \<mapsto> t)) q))) (mset_set (dom (fl_tasks s)))
      = image_mset (\<lambda>q. task_guard (the (fl_tasks s q))) (mset_set (dom (fl_tasks s)))"
    by (rule image_mset_cong) (use assms in auto)
  with assms show ?thesis
    by (simp add: held_def domIff)
qed

section \<open>The counts are the guards alive\<close>

lemma accounted_same:
  assumes "accounted s" and "fl_tasks s r = Some t" and "task_guard t' = task_guard t"
  shows "accounted (s\<lparr>fl_tasks := (fl_tasks s)(r \<mapsto> t')\<rparr>)"
  using assms held_update(1) [of s r t t' "fl_load s"] held_update(2) [of s r t] by (simp add: accounted_def)

lemma accounted_give:
  assumes "accounted s" and "fl_tasks s r = Some t" and "task_guard t' = None"
  shows "accounted (set_task r t' (drop_guard (task_guard t) (fl_load s)) s)"
proof -
  have fin: "finite (dom (fl_tasks s))"
    using assms(1) by (simp add: accounted_def)
  have "\<forall>i \<in> dom (drop_guard (task_guard t) (fl_load s)). load (drop_guard (task_guard t) (fl_load s)) i
      = of_nat (count (held s - {#task_guard t#}) (Some i))"
    by (rule tracker.give_accounts [OF _ held_update(2) [OF fin assms(2)]])
      (use assms(1) in \<open>simp add: accounted_def\<close>)
  with fin assms(3) held_update(1) [OF fin assms(2)] show ?thesis
    by (simp add: accounted_def)
qed

lemma accounted_take:
  assumes "accounted s" and "fl_tasks s r = Some t" and "task_guard t = None"
    and "acquire i (fl_load s) = (task_guard t', loads)"
  shows "accounted (set_task r t' loads s)"
proof -
  have fin: "finite (dom (fl_tasks s))"
    using assms(1) by (simp add: accounted_def)
  have "\<forall>k \<in> dom loads. load loads k = of_nat (count (add_mset (task_guard t') (held s)) (Some k))"
    by (rule tracker.take_accounts [OF _ assms(4)]) (use assms(1) in \<open>simp add: accounted_def\<close>)
  then have "\<forall>k \<in> dom loads. load loads k =
      of_nat (count (add_mset (task_guard t') (held s - {#None#})) (Some k))"
    by simp
  with fin assms(3) held_update(1) [OF fin assms(2), of t' loads] show ?thesis
    by (simp add: accounted_def)
qed

lemma flight_step_accounted:
  assumes "flight_step s s'" and "accounted s"
  shows "accounted s'"
  using assms
proof cases
  case (arrive r candidates)
  with assms(2) held_arrive [of s r "Picking candidates []" "fl_load s"] show ?thesis
    by (simp add: accounted_def)
next
  case (exhaust r candidates tried)
  with assms(2) accounted_same show ?thesis by simp
next
  case (retry r candidates tried i g)
  with assms(2) accounted_give [of s r _ "Picking candidates (tried @ [i])"] show ?thesis by fastforce
next
  case (answer r candidates tried i g)
  with assms(2) accounted_give [of s r _ Ended] show ?thesis by fastforce
next
  case (leave r t)
  with assms(2) accounted_give [of s r t Ended] show ?thesis by simp
next
  case (dispatch r candidates tried i g loads)
  with assms(2) accounted_take [of s r _ _ "Calling candidates tried i g"] show ?thesis by simp
qed (use assms(2) in \<open>auto intro: accounted_same\<close>)

lemma flight_step_orderly:
  assumes "flight_step s s'" and "\<forall>t \<in> ran (fl_tasks s). orderly t"
  shows "\<forall>t \<in> ran (fl_tasks s'). orderly t"
proof -
  have upd: "\<forall>t \<in> ran ((fl_tasks s)(r \<mapsto> t')). orderly t" if "orderly t'" for r t'
    using assms(2) that by (auto simp: ran_def)
  have old: "orderly t" if "fl_tasks s r = Some t" for r t
    using assms(2) that by (auto simp: ran_def)
  from assms(1) show ?thesis
  proof cases
    case (choose r candidates tried i)
    then have "orderly (Chosen candidates tried i)"
      using old [of r] pick_candidate_untried [of "fl_load s" candidates tried i]
      by (auto simp: orderly_def)
    with choose upd show ?thesis by simp
  next
    case (unknown r candidates tried i)
    then have "orderly (Picking candidates (tried @ [i]))"
      using old [of r] by (auto simp: orderly_def)
    with unknown upd show ?thesis by simp
  next
    case (dispatch r candidates tried i g loads)
    then have "orderly (Calling candidates tried i g)"
      using old [of r] by (auto simp: orderly_def)
    with dispatch upd show ?thesis by simp
  next
    case (retry r candidates tried i g)
    then have "orderly (Picking candidates (tried @ [i]))"
      using old [of r] by (auto simp: orderly_def)
    with retry upd show ?thesis by simp
  qed (use assms(2) in \<open>auto simp: ran_def split: if_splits\<close>)
qed

lemma flight_step_dom:
  assumes "flight_step s s'"
  shows "dom (fl_load s') = dom (fl_load s)"
  using assms
proof cases
  case (dispatch r candidates tried i g loads)
  then have "dom loads = dom (fl_load s)"
    using dom_acquire [of "candidates ! i" "fl_load s"] by simp
  with dispatch show ?thesis by simp
qed simp_all

lemma count_held:
  "finite (dom (fl_tasks s)) \<Longrightarrow>
    count (held s) (Some i) = card {r. \<exists>t. fl_tasks s r = Some t \<and> task_guard t = Some i}"
proof -
  assume fin: "finite (dom (fl_tasks s))"
  have "{r \<in> dom (fl_tasks s). task_guard (the (fl_tasks s r)) = Some i}
      = {r. \<exists>t. fl_tasks s r = Some t \<and> task_guard t = Some i}"
    by auto
  with fin show ?thesis
    by (simp add: held_def count_conv_size_mset filter_mset_image_mset size_mset_set filter_mset_mset_set eq_commute)
qed

lemma in_flight_invariant:
  "in_flight ids s \<Longrightarrow> accounted s \<and> dom (fl_load s) = set ids \<and> (\<forall>t \<in> ran (fl_tasks s). orderly t)"
proof (induction rule: in_flight.induct)
  case start
  have "load (tracker_new ids) i = 0" for i
    by (simp add: load_def tracker_new_def)
  then show ?case
    by (auto simp: accounted_def held_def tracker_new_def split: if_splits)
next
  case (step s s')
  then show ?case
    using flight_step_accounted flight_step_orderly flight_step_dom by blast
qed

text \<open>
  C13: however requests interleave, fail over, stream and are abandoned by their clients, the
  in-flight count of each known provider is the number of requests that hold a guard on it
  (so no count leaks), and no request tries a candidate twice.
\<close>

theorem in_flight_counts:
  assumes "in_flight ids s"
  shows "(\<forall>i \<in> set ids. load (fl_load s) i =
      of_nat (card {r. \<exists>t. fl_tasks s r = Some t \<and> task_guard t = Some i}))
    \<and> (\<forall>t \<in> ran (fl_tasks s). orderly t)"
  using in_flight_invariant [OF assms] by (auto simp: accounted_def count_held)

lemma in_flight_counts_witness:
  "\<exists>s. in_flight [''a''] s \<and> fl_tasks s 0 = Some (Calling [''a''] [] 0 (Some ''a''))
    \<and> load (fl_load s) ''a'' = of_nat (card {r. \<exists>t. fl_tasks s r = Some t \<and> task_guard t = Some ''a''})"
proof -
  let ?s0 = "\<lparr>fl_load = tracker_new [''a''], fl_tasks = Map.empty\<rparr>"
  let ?s1 = "set_task 0 (Picking [''a''] []) (fl_load ?s0) ?s0"
  let ?s2 = "set_task 0 (Chosen [''a''] [] 0) (fl_load ?s1) ?s1"
  let ?s3 = "set_task 0 (Calling [''a''] [] 0 (Some ''a'')) (snd (acquire ''a'' (fl_load ?s2))) ?s2"
  have "flight_step ?s0 ?s1"
    by (rule flight_step.arrive) simp
  moreover have "flight_step ?s1 ?s2"
    by (rule flight_step.choose) (simp_all add: pick_candidate_def)
  moreover have "acquire ''a'' (fl_load ?s2) = (Some ''a'', snd (acquire ''a'' (fl_load ?s2)))"
    by (simp add: acquire_def tracker_new_def)
  then have "flight_step ?s2 ?s3"
    by (intro flight_step.dispatch) simp_all
  ultimately have "in_flight [''a''] ?s3"
    using in_flight.start in_flight.step by blast
  moreover from in_flight_counts [OF this]
  have "load (fl_load ?s3) ''a'' = of_nat (card {r. \<exists>t. fl_tasks ?s3 r = Some t \<and> task_guard t = Some ''a''})"
    by simp
  ultimately show ?thesis
    by (intro exI [of _ ?s3]) simp
qed

end
