(* ===== verification/Http.thy ===== *)
theory Http
  imports Forward
begin

text \<open>
  The terminal log stage (\<open>ai-engine-stages/src/log.rs\<close>) and the HTTP surface of the gateway
  (\<open>ai-engine-http\<close>: \<open>lib.rs\<close>, \<open>error.rs\<close>, \<open>routes.rs\<close>, \<open>sse.rs\<close>).  The text form of a
  request id, of a timestamp and of a JSON value, and the parsers of request bodies, are
  parameters: the standard library's and serde's.  The content type and framing headers that
  the web framework adds are not modelled, and neither is the endpoint of the knowledge graph.
\<close>

section \<open>What an error says\<close>

fun provider_error_display :: "provider_error \<Rightarrow> string" where
  "provider_error_display (Connect m) = ''connect: '' @ m"
| "provider_error_display Timeout = ''timeout''"
| "provider_error_display (Status status body) = ''upstream status '' @ decimal (unat status)"
| "provider_error_display (InvalidResponse m) = ''invalid response: '' @ m"
| "provider_error_display (StreamError m) = ''stream error: '' @ m"
| "provider_error_display Unsupported = ''unsupported''"

fun error_display :: "gateway_error \<Rightarrow> string" where
  "error_display (BadRequest m) = ''bad request: '' @ m"
| "error_display Unauthorized = ''unauthorized''"
| "error_display PayloadTooLarge = ''payload too large''"
| "error_display (NoRouteForModel m) = ''no route for model '' @ m"
| "error_display (Provider e) = provider_error_display e"
| "error_display (Internal m) = ''internal: '' @ m"

section \<open>The log stage\<close>

record log_stage =
  lg_activity :: bool
  lg_metrics :: bool
  lg_uuid :: "128 word \<Rightarrow> string"
  lg_time :: "nat \<Rightarrow> string"

definition logged_status :: "request_ctx \<Rightarrow> u16" where
  "logged_status ctx = (case rc_error ctx of
     Some e \<Rightarrow> http_status e
   | None \<Rightarrow> (case rc_response ctx of
       Full r \<Rightarrow> if gr_status r \<noteq> 0 then gr_status r else 200
     | _ \<Rightarrow> 200))"

definition identity_label :: "identity option \<Rightarrow> string option" where
  "identity_label identity = map_option (\<lambda>i. case i of
     Anonymous b \<Rightarrow> ''anonymous'' | Holder name \<Rightarrow> name) identity"

definition json_opt :: "string option \<Rightarrow> json" where
  "json_opt x = (case x of None \<Rightarrow> JNull | Some s \<Rightarrow> JString s)"

definition json_nat :: "'a::len word \<Rightarrow> json" where
  "json_nat w = JNumber (PosInt (ucast w))"

definition log_line :: "log_stage \<Rightarrow> request_ctx \<Rightarrow> gateway \<Rightarrow> json" where
  "log_line lg ctx gw =
     (let usage = Option.bind (rc_usage_slot ctx) id in
      JObject [
        (''ts'', JString (lg_time lg (gw_clock gw))),
        (''request_id'', JString (lg_uuid lg (rc_request_id ctx))),
        (''route'', JString (rc_route ctx)),
        (''model'', json_opt (model_of (rc_body ctx))),
        (''provider'', json_opt (map_option pb_provider_id (rc_binding ctx))),
        (''upstream_model'', json_opt (map_option pb_upstream_model (rc_binding ctx))),
        (''status'', json_nat (logged_status ctx)),
        (''duration_ms'', JNumber (PosInt (of_nat (gw_clock gw - rc_started_at ctx)))),
        (''stream'', JBool (case rc_response ctx of Stream sm \<Rightarrow> True | _ \<Rightarrow> False)),
        (''tokens'', case usage of None \<Rightarrow> JNull | Some u \<Rightarrow> JObject [
           (''prompt'', json_nat (ru_prompt u)),
           (''completion'', json_nat (ru_completion u)),
           (''total'', json_nat (ru_total u))]),
        (''identity'', json_opt (identity_label (rc_identity ctx))),
        (''error'', json_opt (map_option error_display (rc_error ctx)))])"

definition chat_event_of :: "log_stage \<Rightarrow> request_ctx \<Rightarrow> provider_binding \<Rightarrow> gateway \<Rightarrow> chat_event" where
  "chat_event_of lg ctx b gw = \<lparr>ce_request_id = rc_request_id ctx,
     ce_ts = lg_time lg (gw_clock gw), ce_model = pb_upstream_model b, ce_provider = pb_provider_id b,
     ce_tokens = (case Option.bind (rc_usage_slot ctx) id of None \<Rightarrow> 0 | Some u \<Rightarrow> ru_completion u),
     ce_duration_ms = of_nat (gw_clock gw - rc_started_at ctx), ce_status = logged_status ctx,
     ce_prompt = Option.bind (rc_metadata ctx ''prompt_preview'') as_str\<rparr>"

definition log_process :: "log_stage \<Rightarrow> (gateway, stage_outcome) process" where
  "log_process lg ctx gw =
     (let status = logged_status ctx;
          duration_ms = of_nat (gw_clock gw - rc_started_at ctx);
          line = log_line lg ctx gw;
          gw = (case rc_binding ctx of
                  Some b \<Rightarrow>
                    if lg_metrics lg \<and> pb_provider_id b \<noteq> ''''
                    then gw\<lparr>gw_metrics :=
                      record_request (pb_provider_id b) (400 \<le> status) duration_ms (gw_metrics gw)\<rparr>
                    else gw
                | None \<Rightarrow> gw);
          gw = (case rc_binding ctx of
                  Some b \<Rightarrow>
                    if lg_activity lg \<and> pb_provider_id b \<noteq> '''' \<and> pb_upstream_model b \<noteq> ''''
                    then gw\<lparr>gw_activity := record_event (chat_event_of lg ctx b gw) (gw_activity gw)\<rparr>
                    else gw
                | None \<Rightarrow> gw)
      in (Inr Continue, ctx, gw\<lparr>gw_lines := gw_lines gw @ [line]\<rparr>))"

definition log_stage :: "log_stage \<Rightarrow> gateway stage" where
  "log_stage lg = \<lparr>st_name = ''log'', st_terminal = True, st_process = log_process lg\<rparr>"

section \<open>Responses and error envelopes\<close>

datatype format = OpenAi | Anthropic

datatype http_body = Plain string | Raw bytes | Json json | Sse format response_stream

record http_response =
  hr_status :: u16
  hr_headers :: headers
  hr_body :: http_body

fun classify :: "gateway_error \<Rightarrow> string" where
  "classify (BadRequest m) = ''invalid_request_error''"
| "classify Unauthorized = ''authentication_error''"
| "classify PayloadTooLarge = ''request_too_large''"
| "classify (NoRouteForModel m) = ''upstream_error''"
| "classify (Provider e) = ''upstream_error''"
| "classify (Internal m) = ''internal_error''"

definition unwrap_or :: "'a \<Rightarrow> 'a option \<Rightarrow> 'a" where
  "unwrap_or d x = (case x of None \<Rightarrow> d | Some a \<Rightarrow> a)"

definition error_body :: "format \<Rightarrow> gateway_error \<Rightarrow> json" where
  "error_body format err = (case format of
     OpenAi \<Rightarrow> JObject [(''error'', JObject [(''message'', JString (error_display err)),
       (''type'', JString (classify err)), (''code'', JString (classify err))])]
   | Anthropic \<Rightarrow> JObject [(''type'', JString ''error''),
       (''error'', JObject [(''type'', JString (classify err)),
         (''message'', JString (error_display err))])])"

definition envelope :: "http_lib \<Rightarrow> format \<Rightarrow> gateway_error \<Rightarrow> http_response" where
  "envelope lib format err = (case err of
     Provider (Status status body) \<Rightarrow>
       \<lparr>hr_status = unwrap_or 502 (hl_status lib status), hr_headers = [], hr_body = Raw body\<rparr>
   | _ \<Rightarrow> \<lparr>hr_status = unwrap_or 500 (hl_status lib (http_status err)), hr_headers = [],
            hr_body = Json (error_body format err)\<rparr>)"

section \<open>Handlers\<close>

record app_state =
  ap_pipelines :: "string \<rightharpoonup> gateway stage list"
  ap_openai_models :: "string list"
  ap_ready :: bool

definition handle ::
  "http_lib \<Rightarrow> app_state \<Rightarrow> string \<Rightarrow> headers \<Rightarrow> nat \<Rightarrow> request_body \<Rightarrow> format \<Rightarrow> 128 word \<Rightarrow> gateway \<Rightarrow>
   http_response \<times> gateway"
where
  "handle lib st route hs raw_len body format request_id gw = (case ap_pipelines st route of
     None \<Rightarrow> (envelope lib format (Internal (''no pipeline configured for route '' @ route)), gw)
   | Some stages \<Rightarrow>
       let ctx = (new_ctx request_id (gw_clock gw) route hs raw_len body)\<lparr>rc_usage_slot := Some None\<rparr>
       in case execute stages ctx gw of (ctx, gw) \<Rightarrow>
         (case rc_error ctx of
            Some err \<Rightarrow> envelope lib format err
          | None \<Rightarrow> (case rc_response ctx of
              Full r \<Rightarrow> \<lparr>hr_status = (if gr_status r = 0 then 200
                  else unwrap_or 200 (hl_status lib (gr_status r))),
                hr_headers = gr_headers r, hr_body = Raw (gr_body r)\<rparr>
            | Stream sm \<Rightarrow> \<lparr>hr_status = 200, hr_headers = [], hr_body = Sse format sm\<rparr>
            | Pending \<Rightarrow> envelope lib format (Internal ''pipeline produced no response and no error'')),
          gw))"

definition bad_json :: "http_lib \<Rightarrow> format \<Rightarrow> string \<Rightarrow> http_response" where
  "bad_json lib format e = envelope lib format (BadRequest (''invalid JSON: '' @ e))"

definition chat_completions ::
  "http_lib \<Rightarrow> (bytes \<Rightarrow> string + chat_request) \<Rightarrow> app_state \<Rightarrow> headers \<Rightarrow> bytes \<Rightarrow> 128 word \<Rightarrow> gateway \<Rightarrow>
   http_response \<times> gateway"
where
  "chat_completions lib parse st hs body request_id gw = (case parse body of
     Inl e \<Rightarrow> (bad_json lib OpenAi e, gw)
   | Inr req \<Rightarrow> handle lib st ''/v1/chat/completions'' hs (length body) (OpenAiChat req) OpenAi request_id gw)"

definition messages ::
  "http_lib \<Rightarrow> (bytes \<Rightarrow> string + messages_request) \<Rightarrow> app_state \<Rightarrow> headers \<Rightarrow> bytes \<Rightarrow> 128 word \<Rightarrow> gateway \<Rightarrow>
   http_response \<times> gateway"
where
  "messages lib parse st hs body request_id gw = (case parse body of
     Inl e \<Rightarrow> (bad_json lib Anthropic e, gw)
   | Inr req \<Rightarrow> handle lib st ''/v1/messages'' hs (length body) (AnthropicMessages req) Anthropic request_id gw)"

definition embeddings ::
  "http_lib \<Rightarrow> (bytes \<Rightarrow> string + embeddings_request) \<Rightarrow> app_state \<Rightarrow> headers \<Rightarrow> bytes \<Rightarrow> 128 word \<Rightarrow> gateway \<Rightarrow>
   http_response \<times> gateway"
where
  "embeddings lib parse st hs body request_id gw = (case parse body of
     Inl e \<Rightarrow> (bad_json lib OpenAi e, gw)
   | Inr req \<Rightarrow> handle lib st ''/v1/embeddings'' hs (length body) (OpenAiEmbeddings req) OpenAi request_id gw)"

definition healthz :: string where
  "healthz = ''ok''"

definition readyz :: "app_state \<Rightarrow> http_response" where
  "readyz st = (if ap_ready st
     then \<lparr>hr_status = 200, hr_headers = [], hr_body = Plain ''ready''\<rparr>
     else \<lparr>hr_status = 503, hr_headers = [], hr_body = Plain ''starting''\<rparr>)"

definition models :: "app_state \<Rightarrow> http_response" where
  "models st = \<lparr>hr_status = 200, hr_headers = [], hr_body = Json (JObject [
     (''object'', JString ''list''),
     (''data'', JArray (map (\<lambda>m. JObject [(''id'', JString m), (''object'', JString ''model''),
        (''owned_by'', JString ''ai-engine'')]) (ap_openai_models st)))])\<rparr>"

section \<open>Server-sent events\<close>

record sse_event =
  ev_event :: "string option"
  ev_data :: "string option"
  ev_comment :: "string option"

definition data_event :: "string \<Rightarrow> sse_event" where
  "data_event d = \<lparr>ev_event = None, ev_data = Some d, ev_comment = None\<rparr>"

definition named_event :: "string \<Rightarrow> string \<Rightarrow> sse_event" where
  "named_event n d = \<lparr>ev_event = Some n, ev_data = Some d, ev_comment = None\<rparr>"

text \<open>The event of one item of the stream, or of its end.\<close>

definition encode_item ::
  "(json \<Rightarrow> string) \<Rightarrow> format \<Rightarrow> stream_kind \<Rightarrow> (provider_error + json) option \<Rightarrow> sse_event"
where
  "encode_item print format kind maybe_item = (case maybe_item of
     Some (Inr raw) \<Rightarrow> (case kind of
       OpenAiStream \<Rightarrow> data_event (print raw)
     | AnthropicStream \<Rightarrow>
         named_event (unwrap_or ''event'' (Option.bind (json_get raw ''type'') as_str)) (print raw))
   | Some (Inl e) \<Rightarrow> named_event ''error'' (print (JObject [(''message'', JString (provider_error_display e))]))
   | None \<Rightarrow> (case format of
       OpenAi \<Rightarrow> data_event ''[DONE]''
     | Anthropic \<Rightarrow> \<lparr>ev_event = None, ev_data = None, ev_comment = Some ''done''\<rparr>))"

definition encode_stream ::
  "(json \<Rightarrow> string) \<Rightarrow> format \<Rightarrow> stream_kind \<Rightarrow> event_stream \<Rightarrow> sse_event list"
where
  "encode_stream print format kind items =
     map (encode_item print format kind) (map Some items @ [None])"

end
