(* ===== verification/Requests.thy ===== *)
theory Requests
  imports Http Failover
begin

text \<open>
  What the gateway promises for a whole request: candidates are the providers whose rules
  match; a refused request reaches no provider and changes nothing but the log; and the log
  has one line per request, whose status is the one the client sees.
\<close>

section \<open>Routing\<close>

lemma route_fold:
  "fold (route_step model) rules (cs, up) =
    (let matching = filter (\<lambda>r. rr_matcher r model) rules in
     (cs @ rev (remdups (rev (filter (\<lambda>p. p \<notin> set cs) (map rr_provider_id matching)))),
      case up of Some u \<Rightarrow> Some u
      | None \<Rightarrow> (case matching of [] \<Rightarrow> None
          | r # rs \<Rightarrow> Some (unwrap_or model (rr_upstream_model r)))))"
proof (induction rules arbitrary: cs up)
  case (Cons r rules)
  have dedup: "rev (remdups (rev (filter P (x # xs)))) =
      (if P x then x # rev (remdups (rev (filter (\<lambda>y. P y \<and> y \<noteq> x) xs)))
       else rev (remdups (rev (filter P xs))))" for P and x :: string and xs
  proof -
    have "remdups (ys @ [x]) = remdups (filter (\<lambda>y. y \<noteq> x) ys) @ [x]" for ys :: "string list"
      by (induction ys) auto
    from this [of "rev (filter P xs)"] show ?thesis
      by (simp add: rev_filter filter_filter conj_commute)
  qed
  show ?case
  proof (cases "rr_matcher r model")
    case True
    then show ?thesis
      using Cons.IH dedup [of "\<lambda>p. p \<notin> set cs" "rr_provider_id r"]
      by (auto simp: route_step_def Let_def unwrap_or_def conj_commute conj_assoc
          split: option.splits intro!: arg_cong [where f = "\<lambda>x. rev (remdups (rev x))"] filter_cong)
  next
    case False
    with Cons.IH show ?thesis by (simp add: route_step_def)
  qed
qed (simp split: option.splits)

text \<open>
  Routing a request binds it to the providers of the rules that match its model, in the
  order of the rules and each once, with the upstream model of the first of these rules, or
  the model itself when that rule names none; with no matching rule it is refused.
\<close>

theorem route_binds:
  assumes "model_of (rc_body ctx) = Some model"
  shows "let matching = filter (\<lambda>r. rr_matcher r model) rules in
    case matching of
      [] \<Rightarrow> route_process rules ctx s =
        (Inl \<lparr>se_stage = ''model_route'', se_error = NoRouteForModel model\<rparr>, ctx, s)
    | r # rs \<Rightarrow> (\<exists>ctx'. route_process rules ctx s = (Inr Continue, ctx', s)
        \<and> rc_binding ctx' = Some
            \<lparr>pb_candidates = rev (remdups (rev (map rr_provider_id matching))), pb_provider_id = '''',
             pb_upstream_model = unwrap_or model (rr_upstream_model r)\<rparr>
        \<and> rc_body ctx' = rc_body ctx \<and> rc_response ctx' = rc_response ctx)"
proof -
  let ?m = "filter (\<lambda>r. rr_matcher r model) rules"
  have cands: "route_candidates rules model =
      (rev (remdups (rev (map rr_provider_id ?m))),
       case ?m of [] \<Rightarrow> None | r # rs \<Rightarrow> Some (unwrap_or model (rr_upstream_model r)))"
    using route_fold [of model rules "[]" None] by (simp add: route_candidates_def Let_def)
  show ?thesis
  proof (cases ?m)
    case Nil
    with cands assms show ?thesis
      by (simp add: route_process_def)
  next
    case (Cons r rs)
    have "rev (remdups (rev (map rr_provider_id ?m))) \<noteq> []"
      using Cons by simp
    with cands Cons assms show ?thesis
      by (auto simp: route_process_def Let_def split: option.splits)
  qed
qed

section \<open>Refused requests\<close>

text \<open>The texts of a body that the policy looks at.\<close>

definition part_texts :: "json list \<Rightarrow> string list" where
  "part_texts parts = List.map_filter (\<lambda>p. Option.bind (json_get p ''text'') as_str) parts"

definition texts :: "request_body \<Rightarrow> string list" where
  "texts body = (case body of
     OpenAiChat c \<Rightarrow> concat (map (\<lambda>m. case cm_content m of
       ChatText s \<Rightarrow> [s] | ChatParts ps \<Rightarrow> part_texts ps) (cr_messages c))
   | AnthropicMessages r \<Rightarrow>
       (case mr_system r of None \<Rightarrow> [] | Some (SystemText t) \<Rightarrow> [t] | Some (SystemBlocks ps) \<Rightarrow> part_texts ps)
       @ concat (map (\<lambda>m. case am_content m of
           MessageText s \<Rightarrow> [s] | MessageBlocks ps \<Rightarrow> part_texts ps) (mr_messages r))
   | OpenAiEmbeddings e \<Rightarrow> (case em_input e of Single s \<Rightarrow> [s] | Many v \<Rightarrow> v)
   | Empty \<Rightarrow> [])"

definition policy_error :: "content_policy \<Rightarrow> nat \<Rightarrow> request_body \<Rightarrow> gateway_error option" where
  "policy_error p raw_len body =
     (if cp_max_request_bytes p < raw_len then Some PayloadTooLarge
      else if \<exists>t \<in> set (texts body). policy_is_match p t then Some (BadRequest ''prompt blocked by policy'')
      else None)"

lemma scan_part_texts: "list_ex (scan_part hit) ps \<longleftrightarrow> (\<exists>t \<in> set (part_texts ps). hit t)"
  by (induction ps) (auto simp: scan_part_def part_texts_def map_filter_simps split: option.splits)

lemma scan_chat_texts: "scan_openai_chat hit c \<longleftrightarrow> (\<exists>t \<in> set (texts (OpenAiChat c)). hit t)"
proof -
  have "list_ex (\<lambda>m. case cm_content m of ChatText s \<Rightarrow> hit s | ChatParts ps \<Rightarrow> list_ex (scan_part hit) ps) ms
    \<longleftrightarrow> (\<exists>t \<in> set (concat (map (\<lambda>m. case cm_content m of
          ChatText s \<Rightarrow> [s] | ChatParts ps \<Rightarrow> part_texts ps) ms)). hit t)" for ms
    by (induction ms) (simp_all add: scan_part_texts bex_Un split: chat_content.splits)
  then show ?thesis
    by (simp add: scan_openai_chat_def texts_def del: set_concat set_map)
qed

lemma scan_messages_texts:
  "scan_anthropic_messages hit r \<longleftrightarrow> (\<exists>t \<in> set (texts (AnthropicMessages r)). hit t)"
proof -
  have "list_ex (\<lambda>m. case am_content m of MessageText s \<Rightarrow> hit s | MessageBlocks ps \<Rightarrow> list_ex (scan_part hit) ps) ms
    \<longleftrightarrow> (\<exists>t \<in> set (concat (map (\<lambda>m. case am_content m of
          MessageText s \<Rightarrow> [s] | MessageBlocks ps \<Rightarrow> part_texts ps) ms)). hit t)" for ms :: "anthropic_message list"
    by (induction ms) (simp_all add: scan_part_texts bex_Un split: message_content.splits)
  then show ?thesis
    by (simp add: scan_anthropic_messages_def texts_def scan_part_texts bex_Un
        split: option.splits system_prompt.splits del: set_concat set_map) blast
qed

lemma scan_embeddings_texts:
  "scan_openai_embeddings hit e \<longleftrightarrow> (\<exists>t \<in> set (texts (OpenAiEmbeddings e)). hit t)"
  by (simp add: scan_openai_embeddings_def texts_def list_ex_iff split: embeddings_input.splits)

lemmas scan_texts = scan_chat_texts scan_messages_texts scan_embeddings_texts

lemma policy_process_error:
  "policy_process p ctx s = (case policy_error p (rc_raw_body_len ctx) (rc_body ctx) of
     Some e \<Rightarrow> (Inl \<lparr>se_stage = ''content_policy'', se_error = e\<rparr>, ctx, s)
   | None \<Rightarrow> (Inr Continue, ctx, s))"
  by (cases "rc_body ctx") (simp_all add: policy_process_def policy_error_def scan_texts, simp add: texts_def)

definition auth_error :: "http_lib \<Rightarrow> auth_mode \<Rightarrow> headers \<Rightarrow> gateway_error option" where
  "auth_error lib mode hs = (case mode of
     Passthrough \<Rightarrow> None
   | SharedKey keys \<Rightarrow> (case extract_bearer lib hs of
       None \<Rightarrow> Some Unauthorized
     | Some b \<Rightarrow> if b \<in> fst ` set keys then None else Some Unauthorized))"

lemma auth_process_error:
  "(\<exists>i. auth_process lib mode ctx s = (Inr Continue, ctx\<lparr>rc_identity := Some i\<rparr>, s) \<and>
      auth_error lib mode (rc_headers ctx) = None)
   \<or> (\<exists>e. auth_process lib mode ctx s = (Inl \<lparr>se_stage = ''auth'', se_error = e\<rparr>, ctx, s) \<and>
      auth_error lib mode (rc_headers ctx) = Some e)"
proof (cases mode)
  case (SharedKey keys)
  have "find (\<lambda>(k, n). k = b) keys = None \<longleftrightarrow> b \<notin> fst ` set keys" for b
    by (force simp: find_None_iff)
  note found = this
  show ?thesis
  proof (cases "extract_bearer lib (rc_headers ctx)")
    case None
    with SharedKey show ?thesis
      by (simp add: auth_process_def auth_error_def)
  next
    case (Some b)
    with SharedKey found [of b] show ?thesis
      by (cases "find (\<lambda>(k, n). k = b) keys") (auto simp: auth_process_def auth_error_def)
  qed
qed (auto simp: auth_process_def auth_error_def)

text \<open>The error the first two stages of a pipeline end a request with.\<close>

definition refusal :: "http_lib \<Rightarrow> auth_mode \<Rightarrow> content_policy \<Rightarrow> headers \<Rightarrow> nat \<Rightarrow> request_body \<Rightarrow> gateway_error option" where
  "refusal lib mode p hs raw_len body = (case auth_error lib mode hs of
     Some e \<Rightarrow> Some e | None \<Rightarrow> policy_error p raw_len body)"

lemma refusal_stages:
  assumes "refusal lib mode p (rc_headers ctx) (rc_raw_body_len ctx) (rc_body ctx) = Some e"
  shows "\<exists>i. run_stages (auth_stage lib mode # policy_stage p # sts) ctx s =
    (ctx\<lparr>rc_identity := i, rc_error := Some e\<rparr>, s)"
proof -
  from auth_process_error [of lib mode ctx s] show ?thesis
  proof
    assume "\<exists>i. auth_process lib mode ctx s = (Inr Continue, ctx\<lparr>rc_identity := Some i\<rparr>, s) \<and>
      auth_error lib mode (rc_headers ctx) = None"
    then obtain i where i: "auth_process lib mode ctx s = (Inr Continue, ctx\<lparr>rc_identity := Some i\<rparr>, s)"
      "auth_error lib mode (rc_headers ctx) = None" by blast
    with assms have "policy_error p (rc_raw_body_len ctx) (rc_body ctx) = Some e"
      by (simp add: refusal_def)
    with i show ?thesis
      by (intro exI [of _ "Some i"]) (simp add: auth_stage_def policy_stage_def policy_process_error)
  next
    assume "\<exists>e. auth_process lib mode ctx s = (Inl \<lparr>se_stage = ''auth'', se_error = e\<rparr>, ctx, s) \<and>
      auth_error lib mode (rc_headers ctx) = Some e"
    with assms show ?thesis
      by (intro exI [of _ "rc_identity ctx"]) (auto simp: refusal_def auth_stage_def)
  qed
qed

lemma log_line_status [simp]:
  "json_get (log_line lg ctx gw) ''status'' = Some (JNumber (PosInt (ucast (logged_status ctx))))"
  by (simp add: log_line_def json_nat_def Let_def)

lemma log_process_error:
  assumes "rc_error ctx = Some e" and "rc_binding ctx = None"
  shows "log_process lg ctx gw = (Inr Continue, ctx, gw\<lparr>gw_lines := gw_lines gw @ [log_line lg ctx gw]\<rparr>)
    \<and> logged_status ctx = http_status e"
  using assms by (simp add: log_process_def logged_status_def Let_def)

text \<open>
  C8: with authentication and the content policy first in the pipeline, whatever stages come
  after them, a request without a valid key, too large, or with a text that matches a blocked
  pattern gets the error's envelope, reaches no provider, and leaves everything the requests
  share as it was, but for one line of the log that carries the error's status.
\<close>

theorem refused_request_touches_nothing:
  assumes "ap_pipelines st route = Some (auth_stage lib mode # policy_stage p # stages)"
    and "filter st_terminal stages = [log_stage lg]"
    and "refusal lib mode p hs raw_len body = Some e"
  shows "\<exists>line. handle lib st route hs raw_len body format request_id gw =
      (envelope lib format e, gw\<lparr>gw_lines := gw_lines gw @ [line]\<rparr>)
    \<and> json_get line ''status'' = Some (JNumber (PosInt (ucast (http_status e))))"
proof -
  let ?ctx = "(new_ctx request_id (gw_clock gw) route hs raw_len body)\<lparr>rc_usage_slot := Some None\<rparr>"
  have "refusal lib mode p (rc_headers ?ctx) (rc_raw_body_len ?ctx) (rc_body ?ctx) = Some e"
    using assms(3) by (simp add: new_ctx_def)
  from refusal_stages [OF this, of "filter (\<lambda>st. \<not> st_terminal st) stages" gw] obtain i where
    run: "run_stages (auth_stage lib mode # policy_stage p # filter (\<lambda>st. \<not> st_terminal st) stages) ?ctx gw
      = (?ctx\<lparr>rc_identity := i, rc_error := Some e\<rparr>, gw)" by blast
  let ?ctx' = "?ctx\<lparr>rc_identity := i, rc_error := Some e\<rparr>"
  let ?line = "log_line lg ?ctx' gw"
  have line: "log_process lg ?ctx' gw = (Inr Continue, ?ctx', gw\<lparr>gw_lines := gw_lines gw @ [?line]\<rparr>)"
    and status: "logged_status ?ctx' = http_status e"
    using log_process_error [of ?ctx' e lg gw] by (simp_all add: new_ctx_def)
  have "execute (auth_stage lib mode # policy_stage p # stages) ?ctx gw = (?ctx', gw\<lparr>gw_lines := gw_lines gw @ [?line]\<rparr>)"
    using run line assms(2)
    by (simp add: execute_def auth_stage_def policy_stage_def log_stage_def Let_def)
  with assms(1) have "handle lib st route hs raw_len body format request_id gw =
      (envelope lib format e, gw\<lparr>gw_lines := gw_lines gw @ [?line]\<rparr>)"
    by (simp add: handle_def)
  with status show ?thesis
    by (intro exI [of _ ?line]) simp
qed

section \<open>The log agrees with the response\<close>

text \<open>An attempt writes no line; if it returns without an error there is a response of status 200.\<close>

definition settles :: "request_ctx \<Rightarrow> gateway \<Rightarrow> attempt \<Rightarrow> request_ctx \<Rightarrow> gateway \<Rightarrow> bool" where
  "settles ctx gw a ctx' gw' \<longleftrightarrow> gw_lines gw' = gw_lines gw \<and> rc_error ctx' = rc_error ctx
     \<and> (\<forall>out. a = Return (Inr out) \<longrightarrow> out = Continue
          \<and> ((\<exists>resp. rc_response ctx' = Full resp \<and> gr_status resp = 200) \<or> (\<exists>sm. rc_response ctx' = Stream sm)))"

lemma release_lines [simp]: "gw_lines (release g gw) = gw_lines gw"
  by (simp add: release_def)

lemma answer_full_settles:
  assumes "answer_full guard r ctx gw = (a, ctx', gw')" and "rc_error ctx = err" and "gw_lines gw = ls"
  shows "gw_lines gw' = ls \<and> rc_error ctx' = err \<and> (\<forall>out. a = Return (Inr out) \<longrightarrow> out = Continue
    \<and> ((\<exists>resp. rc_response ctx' = Full resp \<and> gr_status resp = 200) \<or> (\<exists>sm. rc_response ctx' = Stream sm)))"
  using assms by (auto simp: answer_full_def full_json_def split: sum.splits)

lemma answer_stream_settles:
  assumes "answer_stream kind pid guard r ctx gw = (a, ctx', gw')" and "rc_error ctx = err" and "gw_lines gw = ls"
  shows "gw_lines gw' = ls \<and> rc_error ctx' = err \<and> (\<forall>out. a = Return (Inr out) \<longrightarrow> out = Continue
    \<and> ((\<exists>resp. rc_response ctx' = Full resp \<and> gr_status resp = 200) \<or> (\<exists>sm. rc_response ctx' = Stream sm)))"
  using assms by (auto simp: answer_stream_def)

lemma no_metrics_lines: "no_metrics gw_lines"
  by (simp add: no_metrics_def)

lemma call_provider_settles:
  assumes call: "call_provider js body pv creds cctx pid guard ctx gw = (a, ctx', gw')"
    and keeps: "keeps gw_lines pv" and body: "body \<noteq> Empty"
  shows "settles ctx gw a ctx' gw'"
  using call keeps body no_metrics_lines
proof (cases rule: call_provider_cases)
  case (full r slot gw1)
  with answer_full_settles [OF full(4) refl refl] show ?thesis by (simp add: settles_def)
next
  case (stream kind events gw1)
  with answer_stream_settles [OF stream(3) refl refl] show ?thesis by (simp add: settles_def)
qed (auto simp: settles_def split: if_splits)

lemma try_candidate_settles:
  assumes "try_candidate providers js um body pid ctx gw = (a, ctx', gw')"
    and "all_keep gw_lines providers" and "body \<noteq> Empty"
  shows "settles ctx gw a ctx' gw'"
proof (cases "providers pid")
  case None
  with assms(1) show ?thesis
    by (auto simp: try_candidate_def settles_def)
next
  case (Some p)
  obtain pv c where p: "p = (pv, c)" by (cases p)
  with Some assms(2) have q: "keeps gw_lines pv"
    by (auto simp: all_keep_def dest: ranI)
  define ctx1 where "ctx1 = ctx\<lparr>rc_binding := map_option (\<lambda>b. b\<lparr>pb_provider_id := pid\<rparr>) (rc_binding ctx)\<rparr>"
  define gw1 where "gw1 = gw\<lparr>gw_load := snd (acquire pid (gw_load gw))\<rparr>"
  obtain b ctx2 gw2 where call: "call_provider js body pv (call_credentials (rc_identity ctx) c)
      \<lparr>ca_request_id = rc_request_id ctx, ca_upstream_model = um\<rparr> pid
      (fst (acquire pid (gw_load gw))) ctx1 gw1 = (b, ctx2, gw2)"
    by (metis prod_cases3)
  have "try_candidate providers js um body pid ctx gw
      = (b, ctx2, case b of Return r \<Rightarrow> gw2 | Retry e \<Rightarrow> release (fst (acquire pid (gw_load gw))) gw2)"
    using call Some p by (simp add: try_candidate_def Let_def split_beta ctx1_def gw1_def split: attempt.splits)
  with assms(1) call_provider_settles [OF call q assms(3)] show ?thesis
    by (auto simp: settles_def ctx1_def gw1_def split: attempt.splits)
qed

lemma forward_loop_settles:
  assumes "forward_loop providers js um body candidates tried last_err ctx gw = (r, ctx', gw')"
    and "all_keep gw_lines providers" and "body \<noteq> Empty"
  shows "settles ctx gw (Return r) ctx' gw'"
  using assms
proof (induction providers js um body candidates tried last_err ctx gw rule: forward_loop.induct)
  case (1 providers js um body candidates tried last_err ctx gw)
  show ?case
  proof (cases "pick_candidate (gw_load gw) candidates tried")
    case None
    with 1(2) show ?thesis
      by (auto simp: forward_loop.simps settles_def)
  next
    case (Some i)
    obtain a ctx1 gw1 where attempt: "try_candidate providers js um body (candidates ! i) ctx gw = (a, ctx1, gw1)"
      by (metis prod_cases3)
    note one = try_candidate_settles [OF attempt 1(3,4)]
    show ?thesis
    proof (cases a)
      case (Retry e)
      then have "forward_loop providers js um body candidates (tried @ [i]) (Some e) ctx1 gw1 = (r, ctx', gw')"
        using 1(2) Some attempt by (simp add: forward_loop.simps)
      with 1(1) [OF Some attempt [symmetric] Retry refl] 1(3,4) one show ?thesis
        by (simp add: settles_def)
    next
      case (Return x)
      with 1(2) Some attempt one show ?thesis
        by (simp add: forward_loop.simps)
    qed
  qed
qed

definition standard_pipeline ::
  "http_lib \<Rightarrow> auth_mode \<Rightarrow> content_policy \<Rightarrow> route_rule list \<Rightarrow> registry \<Rightarrow> response_codec \<Rightarrow> log_stage \<Rightarrow> gateway stage list"
where
  "standard_pipeline lib mode p rules providers js lg =
     [auth_stage lib mode, policy_stage p, route_stage rules, forward_stage providers js, log_stage lg]"

definition settled :: "request_ctx \<Rightarrow> bool" where
  "settled ctx \<longleftrightarrow> rc_error ctx \<noteq> None
     \<or> ((\<exists>resp. rc_response ctx = Full resp \<and> gr_status resp = 200) \<or> (\<exists>sm. rc_response ctx = Stream sm))"

lemma forward_process_settles:
  assumes "forward_process providers js ctx gw = (r, ctx', gw')"
    and "all_keep gw_lines providers" and "rc_body ctx \<noteq> Empty"
  shows "settles ctx gw (Return r) ctx' gw'"
proof (cases "rc_binding ctx")
  case None
  with assms(1) show ?thesis
    by (auto simp: forward_process_def settles_def)
next
  case (Some b)
  with assms(1,3) have "forward_loop providers js (pb_upstream_model b) (rc_body ctx) (pool b) [] None
      (ctx\<lparr>rc_body := Empty\<rparr>) gw = (r, ctx', gw')"
    by (cases "rc_body ctx") (simp_all add: forward_process_def Let_def)
  from forward_loop_settles [OF this assms(2,3)] show ?thesis
    by (simp add: settles_def)
qed

lemma route_process_simple:
  assumes "rc_body ctx \<noteq> Empty"
  shows "(\<exists>e. route_process rules ctx s = (Inl e, ctx, s))
    \<or> (\<exists>ctx'. route_process rules ctx s = (Inr Continue, ctx', s) \<and> rc_body ctx' = rc_body ctx
        \<and> rc_error ctx' = rc_error ctx \<and> rc_response ctx' = rc_response ctx)"
  using assms by (auto simp: route_process_def model_of_def Let_def split: request_body.splits option.splits prod.splits)

lemma auth_process_simple:
  "(\<exists>e. auth_process lib mode ctx s = (Inl e, ctx, s))
    \<or> (\<exists>i. auth_process lib mode ctx s = (Inr Continue, ctx\<lparr>rc_identity := i\<rparr>, s))"
  using auth_process_error [of lib mode ctx s] by blast

lemma policy_process_simple:
  "(\<exists>e. policy_process p ctx s = (Inl e, ctx, s)) \<or> policy_process p ctx s = (Inr Continue, ctx, s)"
  by (auto simp: policy_process_error split: option.splits)

lemma standard_settles:
  assumes "run_stages [auth_stage lib mode, policy_stage p, route_stage rules, forward_stage providers js] ctx gw = (ctx', gw')"
    and "all_keep gw_lines providers" and "rc_body ctx \<noteq> Empty" and "rc_error ctx = None"
  shows "gw_lines gw' = gw_lines gw \<and> settled ctx'"
proof -
  have steps: "st_process (auth_stage lib mode) = auth_process lib mode" "st_process (policy_stage p) = policy_process p"
    "st_process (route_stage rules) = route_process rules" "st_process (forward_stage providers js) = forward_process providers js"
    by (simp_all add: auth_stage_def policy_stage_def route_stage_def forward_stage_def)
  from auth_process_simple [of lib mode ctx gw] consider
    e where "auth_process lib mode ctx gw = (Inl e, ctx, gw)"
    | i where "auth_process lib mode ctx gw = (Inr Continue, ctx\<lparr>rc_identity := i\<rparr>, gw)" by blast
  then show ?thesis
  proof cases
    case 1
    with assms(1) show ?thesis by (auto simp: steps settled_def)
  next
    case (2 i)
    let ?c1 = "ctx\<lparr>rc_identity := i\<rparr>"
    from assms(1) 2 have run1: "run_stages [policy_stage p, route_stage rules, forward_stage providers js] ?c1 gw = (ctx', gw')"
      by (simp add: steps)
    show ?thesis
    proof (cases "policy_process p ?c1 gw = (Inr Continue, ?c1, gw)")
      case False
      with policy_process_simple [of p ?c1 gw] obtain e where "policy_process p ?c1 gw = (Inl e, ?c1, gw)" by blast
      with run1 show ?thesis by (auto simp: steps settled_def)
    next
      case True
      with run1 have run2: "run_stages [route_stage rules, forward_stage providers js] ?c1 gw = (ctx', gw')"
        by (simp add: steps)
      from route_process_simple [of ?c1 rules gw] assms(3) consider
        e where "route_process rules ?c1 gw = (Inl e, ?c1, gw)"
        | c2 where "route_process rules ?c1 gw = (Inr Continue, c2, gw)" "rc_body c2 = rc_body ctx"
          "rc_error c2 = rc_error ctx" by auto
      then show ?thesis
      proof cases
        case 1
        with run2 show ?thesis by (auto simp: steps settled_def)
      next
        case (2 c2)
        obtain r c3 gw3 where fwd: "forward_process providers js c2 gw = (r, c3, gw3)"
          by (metis prod_cases3)
        from forward_process_settles [OF fwd assms(2)] 2(2) assms(3)
        have fin: "settles c2 gw (Return r) c3 gw3" by simp
        with run2 2 fwd assms(4) show ?thesis
          by (cases r) (auto simp: steps settles_def settled_def)
      qed
    qed
  qed
qed

lemma log_process_lines:
  "\<exists>gw'. log_process lg ctx gw = (Inr Continue, ctx, gw') \<and> gw_lines gw' = gw_lines gw @ [log_line lg ctx gw]"
  by (simp add: log_process_def Let_def split: option.splits)

text \<open>
  C15: over the standard pipeline, authentication, policy, routing, forwarding and log, a
  request, however it ends, adds exactly one line to the log, and the status of the line is
  the status the client gets, as long as it is a status HTTP has.
\<close>

theorem log_matches_response:
  assumes "ap_pipelines st route = Some (standard_pipeline lib mode p rules providers js lg)"
    and "all_keep gw_lines providers" and "body \<noteq> Empty"
    and "handle lib st route hs raw_len body format request_id gw = (resp, gw')"
  shows "\<exists>line n. gw_lines gw' = gw_lines gw @ [line]
    \<and> json_get line ''status'' = Some (JNumber (PosInt (ucast n)))
    \<and> (hl_status lib n = Some n \<longrightarrow> hr_status resp = n)"
proof -
  let ?ctx = "(new_ctx request_id (gw_clock gw) route hs raw_len body)\<lparr>rc_usage_slot := Some None\<rparr>"
  obtain ctx1 gw1 where run: "run_stages [auth_stage lib mode, policy_stage p, route_stage rules, forward_stage providers js]
      ?ctx gw = (ctx1, gw1)"
    by (metis surj_pair)
  have lines: "gw_lines gw1 = gw_lines gw" and settled: "settled ctx1"
    using standard_settles [OF run assms(2)] assms(3) by (simp_all add: new_ctx_def)
  obtain gw2 where log: "log_process lg ctx1 gw1 = (Inr Continue, ctx1, gw2)"
    and lines2: "gw_lines gw2 = gw_lines gw1 @ [log_line lg ctx1 gw1]"
    using log_process_lines [of lg ctx1 gw1] by blast
  have "execute (standard_pipeline lib mode p rules providers js lg) ?ctx gw = (ctx1, gw2)"
    using run log by (simp add: execute_def standard_pipeline_def auth_stage_def policy_stage_def
        route_stage_def forward_stage_def log_stage_def Let_def)
  with assms(1,4) have gw': "gw' = gw2" and resp: "resp = (case rc_error ctx1 of
      Some err \<Rightarrow> envelope lib format err
    | None \<Rightarrow> (case rc_response ctx1 of
        Full r \<Rightarrow> \<lparr>hr_status = (if gr_status r = 0 then 200 else unwrap_or 200 (hl_status lib (gr_status r))),
          hr_headers = gr_headers r, hr_body = Raw (gr_body r)\<rparr>
      | Stream sm \<Rightarrow> \<lparr>hr_status = 200, hr_headers = [], hr_body = Sse format sm\<rparr>
      | Pending \<Rightarrow> envelope lib format (Internal ''pipeline produced no response and no error'')))"
    by (simp_all add: handle_def)
  have agree: "hr_status resp = logged_status ctx1" if "hl_status lib (logged_status ctx1) = Some (logged_status ctx1)"
  proof (cases "rc_error ctx1")
    case None
    with settled resp that show ?thesis
      by (auto simp: settled_def logged_status_def unwrap_or_def)
  next
    case (Some e)
    with that resp have "resp = envelope lib format e" "hl_status lib (http_status e) = Some (http_status e)"
      by (simp_all add: logged_status_def)
    with Some show ?thesis
      by (auto simp: envelope_def logged_status_def unwrap_or_def
          split: gateway_error.splits provider_error.splits)
  qed
  show ?thesis
    by (rule exI [of _ "log_line lg ctx1 gw1"], rule exI [of _ "logged_status ctx1"])
      (use agree lines lines2 gw' in simp)
qed

section \<open>An example\<close>

definition ex_rules :: "route_rule list" where
  "ex_rules = [\<lparr>rr_pattern = ''m*'', rr_matcher = (\<lambda>m. take 1 m = ''m''), rr_provider_id = ''b'', rr_upstream_model = Some ''big''\<rparr>,
     \<lparr>rr_pattern = ''x'', rr_matcher = (\<lambda>m. m = ''x''), rr_provider_id = ''c'', rr_upstream_model = None\<rparr>,
     \<lparr>rr_pattern = ''m'', rr_matcher = (\<lambda>m. m = ''m''), rr_provider_id = ''a'', rr_upstream_model = None\<rparr>,
     \<lparr>rr_pattern = ''*'', rr_matcher = (\<lambda>m. True), rr_provider_id = ''b'', rr_upstream_model = None\<rparr>]"

definition ex_policy :: content_policy where
  "ex_policy = \<lparr>cp_max_request_bytes = 100, cp_patterns = [''ignore''], cp_matcher = (\<lambda>s. take 6 s = ''ignore'')\<rparr>"

definition ex_keys :: auth_mode where
  "ex_keys = SharedKey [(''k1'', ''ann'')]"

definition ex_http :: http_lib where
  "ex_http = (let visible = (\<lambda>v. if list_all (\<lambda>c. let b = (of_char c :: nat) in 32 \<le> b \<and> b < 127 \<or> b = 9) v
      then Some v else None)
     in \<lparr>hl_to_str = visible, hl_value = visible, hl_name = visible,
         hl_status = (\<lambda>n. if 100 \<le> n \<and> n < 1000 then Some n else None)\<rparr>)"

definition ex_log :: log_stage where
  "ex_log = \<lparr>lg_activity = True, lg_metrics = True, lg_uuid = (\<lambda>u. ''id''), lg_time = (\<lambda>t. ''now'')\<rparr>"

definition ex_app :: app_state where
  "ex_app = \<lparr>ap_pipelines = [''/v1/chat/completions'' \<mapsto>
       standard_pipeline ex_http ex_keys ex_policy ex_rules ex_registry ex_codec_json ex_log],
     ap_openai_models = [''m''], ap_ready = True\<rparr>"

lemma route_binds_witness:
  "\<exists>ctx'. route_process ex_rules ex_ctx ex_gateway = (Inr Continue, ctx', ex_gateway)
    \<and> rc_binding ctx' = Some \<lparr>pb_candidates = [''b'', ''a''], pb_provider_id = '''', pb_upstream_model = ''big''\<rparr>"
proof -
  have "model_of (rc_body ex_ctx) = Some ''m''"
    by (simp add: ex_ctx_facts model_of_def ex_chat_def)
  from route_binds [OF this, of ex_rules ex_gateway] show ?thesis
    by (auto simp: ex_rules_def unwrap_or_def Let_def)
qed

lemma refused_request_touches_nothing_witness:
  "\<exists>line. handle ex_http ex_app ''/v1/chat/completions'' [(''authorization'', ''Bearer k2'')] 10 (OpenAiChat ex_chat)
      OpenAi 7 ex_gateway = (envelope ex_http OpenAi Unauthorized, ex_gateway\<lparr>gw_lines := [line]\<rparr>)
    \<and> json_get line ''status'' = Some (JNumber (PosInt 401))"
proof -
  have "extract_bearer ex_http [(''authorization'', ''Bearer k2'')] = Some ''k2''"
    by (simp add: extract_bearer_def ex_http_def Let_def strip_bearer_def or_else_def)
  then have "refusal ex_http ex_keys ex_policy [(''authorization'', ''Bearer k2'')] 10 (OpenAiChat ex_chat) = Some Unauthorized"
    by (simp add: refusal_def auth_error_def ex_keys_def)
  moreover have "gw_lines ex_gateway = []"
    by (simp add: ex_gateway_def)
  ultimately show ?thesis
    using refused_request_touches_nothing [of ex_app "''/v1/chat/completions''" ex_http ex_keys ex_policy
        "[route_stage ex_rules, forward_stage ex_registry ex_codec_json, log_stage ex_log]" ex_log
        "[(''authorization'', ''Bearer k2'')]" 10 "OpenAiChat ex_chat" Unauthorized OpenAi 7 ex_gateway]
    by (simp add: ex_app_def standard_pipeline_def route_stage_def forward_stage_def log_stage_def)
qed

lemma log_matches_response_witness:
  "\<exists>resp gw' line n. handle ex_http ex_app ''/v1/chat/completions'' [(''authorization'', ''Bearer k1'')] 10
      (OpenAiChat ex_chat) OpenAi 7 ex_gateway = (resp, gw')
    \<and> gw_lines gw' = [line] \<and> json_get line ''status'' = Some (JNumber (PosInt (ucast n)))
    \<and> (hl_status ex_http n = Some n \<longrightarrow> hr_status resp = n)"
proof -
  obtain resp gw' where eq: "handle ex_http ex_app ''/v1/chat/completions'' [(''authorization'', ''Bearer k1'')] 10
      (OpenAiChat ex_chat) OpenAi 7 ex_gateway = (resp, gw')"
    by (metis surj_pair)
  have "ap_pipelines ex_app ''/v1/chat/completions'' =
      Some (standard_pipeline ex_http ex_keys ex_policy ex_rules ex_registry ex_codec_json ex_log)"
    by (simp add: ex_app_def)
  moreover have "all_keep gw_lines ex_registry"
    by (auto simp: all_keep_def ex_registry_def keeps_def ex_down_def ex_up_def default_provider_def
        unsupported_def ran_def split: if_splits)
  moreover have "gw_lines ex_gateway = []"
    by (simp add: ex_gateway_def)
  ultimately show ?thesis
    using log_matches_response [OF _ _ _ eq] eq by fastforce
qed

end
