(* ===== verification/Utf8.thy ===== *)
theory Utf8
  imports Prelude
begin

text \<open>
  The standard library's UTF-8 check (\<open>str::from_utf8\<close>) on bytes, and how it behaves on
  concatenations: a string is the bytes of a sequence of well-formed characters.
\<close>

section \<open>UTF-8\<close>

definition continuation :: "u8 \<Rightarrow> bool" where
  "continuation b \<longleftrightarrow> 0x80 \<le> b \<and> b < 0xC0"

text \<open>The length of the well-formed character the bytes start with.\<close>

definition char_len :: "bytes \<Rightarrow> nat option" where
  "char_len bs = (case bs of
     [] \<Rightarrow> None
   | b # rest \<Rightarrow>
       let cont = (\<lambda>k. k \<le> length rest \<and> list_all continuation (take k rest));
           second = (\<lambda>lo hi. case rest of [] \<Rightarrow> False | c # cs \<Rightarrow> lo \<le> c \<and> c \<le> hi)
       in if b < 0x80 then Some 1
          else if 0xC2 \<le> b \<and> b < 0xE0 then (if cont 1 then Some 2 else None)
          else if 0xE0 \<le> b \<and> b < 0xF0 then
            (if cont 2 \<and> (b = 0xE0 \<longrightarrow> second 0xA0 0xBF) \<and> (b = 0xED \<longrightarrow> second 0x80 0x9F)
             then Some 3 else None)
          else if 0xF0 \<le> b \<and> b < 0xF5 then
            (if cont 3 \<and> (b = 0xF0 \<longrightarrow> second 0x90 0xBF) \<and> (b = 0xF4 \<longrightarrow> second 0x80 0x8F)
             then Some 4 else None)
          else None)"

lemma char_len_pos: "char_len bs = Some n \<Longrightarrow> 0 < n"
  by (auto simp: char_len_def Let_def split: list.splits if_splits)

function utf8_valid :: "bytes \<Rightarrow> bool" where
  "utf8_valid bs = (case bs of
     [] \<Rightarrow> True
   | b # rest \<Rightarrow> (case char_len bs of None \<Rightarrow> False | Some n \<Rightarrow> utf8_valid (drop n bs)))"
  by pat_completeness auto
termination
  by (relation "measure length") (auto dest!: char_len_pos)

declare utf8_valid.simps [simp del]

definition from_utf8 :: "bytes \<Rightarrow> string option" where
  "from_utf8 bs = (if utf8_valid bs then Some (map (\<lambda>b. char_of (unat b)) bs) else None)"

section \<open>Concatenation\<close>

lemma char_len_append: "char_len bs = Some n \<Longrightarrow> char_len (bs @ cs) = Some n"
  by (cases bs) (auto simp: char_len_def Let_def split: if_splits list.splits)

lemma char_len_le: "char_len bs = Some n \<Longrightarrow> n \<le> length bs"
  by (auto simp: char_len_def Let_def split: list.splits if_splits)

lemma utf8_valid_append: "utf8_valid bs \<Longrightarrow> utf8_valid (bs @ cs) = utf8_valid cs"
proof (induction bs rule: utf8_valid.induct)
  case (1 bs)
  show ?case
  proof (cases bs)
    case (Cons b rest)
    with 1(2) obtain n where n: "char_len bs = Some n" "utf8_valid (drop n bs)"
      by (subst (asm) utf8_valid.simps) (auto split: option.splits)
    have "utf8_valid (bs @ cs) = utf8_valid (drop n (bs @ cs))"
      using char_len_append [OF n(1), of cs] Cons by (subst utf8_valid.simps) simp
    also have "drop n (bs @ cs) = drop n bs @ cs"
      using char_len_le [OF n(1)] by simp
    finally show ?thesis
      using 1(1) [OF Cons n(1) n(2)] Cons by simp
  qed simp
qed

lemma utf8_valid_ascii: "utf8_valid (as_bytes [c]) = True" if "of_char c < (128 :: nat)"
proof -
  have "(of_char c :: u8) = word_of_nat (of_char c)"
    by (simp add: of_nat_of_char)
  then have "(of_char c :: u8) < 0x80"
    using that by (simp add: word_less_nat_alt unat_of_nat)
  then have "char_len (as_bytes [c]) = Some 1"
    by (simp add: char_len_def as_bytes_def)
  then show ?thesis
    by (subst utf8_valid.simps) (simp add: as_bytes_def utf8_valid.simps [of "[]"])
qed

lemma as_bytes_append [simp]: "as_bytes (s @ t) = as_bytes s @ as_bytes t"
  by (simp add: as_bytes_def)

lemma utf8_valid_nil [simp]: "utf8_valid []"
  by (simp add: utf8_valid.simps)

lemma utf8_valid_ascii_append:
  "\<forall>c \<in> set s. of_char c < (128 :: nat) \<Longrightarrow> utf8_valid (as_bytes s @ bs) = utf8_valid bs"
proof (induction s)
  case (Cons c s)
  have "as_bytes (c # s) @ bs = as_bytes [c] @ (as_bytes s @ bs)"
    by (simp add: as_bytes_def)
  with Cons utf8_valid_append [of "as_bytes [c]"] utf8_valid_ascii [of c] show ?case by simp
qed (simp add: as_bytes_def)

lemma unat_of_char_u8 [simp]: "unat (of_char c :: u8) = of_char c"
proof -
  have "(of_char c :: u8) = word_of_nat (of_char c)"
    by (simp add: of_nat_of_char)
  moreover have "(of_char c :: nat) mod 256 = of_char c"
    by (rule of_char_mod_256)
  ultimately show ?thesis
    by (simp add: unat_of_nat)
qed

lemma from_utf8_as_bytes: "utf8_valid (as_bytes s) \<Longrightarrow> from_utf8 (as_bytes s) = Some s"
  by (simp add: from_utf8_def as_bytes_def comp_def)

end
