(* ===== verification/Sse.thy ===== *)
theory Sse
  imports Api Utf8
begin

text \<open>
  The parsers of upstream event streams (\<open>ai-engine-openai/src/stream.rs\<close>,
  \<open>ai-engine-anthropic/src/stream.rs\<close>): bytes arrive in chunks cut anywhere, frames end at an
  empty line, each \<open>data:\<close> line of a frame holds a JSON value.  The standard library's
  \<open>lines\<close> and \<open>trim_start\<close> are written out on the bytes; JSON parsing and the text of
  errors are parameters.
\<close>

section \<open>Lines\<close>

abbreviation newline :: char where
  "newline \<equiv> CHR 0x0A"

abbreviation return :: char where
  "return \<equiv> CHR 0x0D"

fun split_inclusive :: "string \<Rightarrow> string list" where
  "split_inclusive [] = []"
| "split_inclusive (c # cs) =
     (if c = newline then [c] # split_inclusive cs
      else case split_inclusive cs of [] \<Rightarrow> [[c]] | l # ls \<Rightarrow> (c # l) # ls)"

definition strip_eol :: "string \<Rightarrow> string" where
  "strip_eol l =
     (if l \<noteq> [] \<and> last l = newline
      then (let l' = butlast l in if l' \<noteq> [] \<and> last l' = return then butlast l' else l')
      else l)"

definition str_lines :: "string \<Rightarrow> string list" where
  "str_lines s = map strip_eol (split_inclusive s)"

text \<open>\<open>trim_start\<close>: the characters of the Unicode property \<open>White_Space\<close>, by their bytes.\<close>

definition white_space :: "nat list list" where
  "white_space = map (\<lambda>b. [b]) [9, 10, 11, 12, 13, 32] @ [[0xC2, 0x85], [0xC2, 0xA0], [0xE1, 0x9A, 0x80]]
     @ map (\<lambda>b. [0xE2, 0x80, b]) ([0x80..<0x8B] @ [0xA8, 0xA9, 0xAF]) @ [[0xE2, 0x81, 0x9F], [0xE3, 0x80, 0x80]]"

definition white_prefix :: "string \<Rightarrow> nat list option" where
  "white_prefix s = find (\<lambda>w. take (length w) (map of_char s) = w) white_space"

lemma white_prefix_pos: "white_prefix s = Some w \<Longrightarrow> 0 < length w \<and> 0 < length s"
  by (auto simp: white_prefix_def white_space_def find_Some_iff nth_append nth_Cons' split: if_splits)

function trim_start :: "string \<Rightarrow> string" where
  "trim_start s = (case white_prefix s of None \<Rightarrow> s | Some w \<Rightarrow> trim_start (drop (length w) s))"
  by pat_completeness auto
termination
  by (relation "measure length") (auto dest!: white_prefix_pos)

declare trim_start.simps [simp del]

section \<open>Frames\<close>

record sse_lib =
  ss_parse :: "string \<Rightarrow> string + json"
  ss_utf8_error :: "bytes \<Rightarrow> string"

fun find_frame_end :: "bytes \<Rightarrow> nat option" where
  "find_frame_end (b # c # bs) =
     (if b = 10 \<and> c = 10 then Some 0 else map_option Suc (find_frame_end (c # bs)))"
| "find_frame_end bs = None"

lemma find_frame_end_bound: "find_frame_end b = Some i \<Longrightarrow> i + 2 \<le> length b"
  by (induction b arbitrary: i rule: find_frame_end.induct) (auto split: if_splits)

text \<open>
  The lines of a frame; the flag says that the stream ends here.  \<open>finish\<close> is the sentinel
  of the OpenAI dialect; Anthropic's has none.
\<close>

fun frame_lines :: "sse_lib \<Rightarrow> string option \<Rightarrow> string list \<Rightarrow> event_stream \<times> bool" where
  "frame_lines lib finish [] = ([], False)"
| "frame_lines lib finish (line # lines) =
     (case or_else (strip_prefix ''data: '' line) (strip_prefix ''data:'' line) of
        None \<Rightarrow> frame_lines lib finish lines
      | Some d \<Rightarrow>
          let d = trim_start d in
          if finish = Some d then ([], True)
          else if d = [] then frame_lines lib finish lines
          else case ss_parse lib d of
            Inr raw \<Rightarrow> (case frame_lines lib finish lines of (events, stop) \<Rightarrow> (Inr raw # events, stop))
          | Inl e \<Rightarrow> ([Inl (InvalidResponse e)], True))"

definition frame_events :: "sse_lib \<Rightarrow> string option \<Rightarrow> bytes \<Rightarrow> event_stream \<times> bool" where
  "frame_events lib finish frame = (case from_utf8 frame of
     None \<Rightarrow> ([Inl (StreamError (ss_utf8_error lib frame))], True)
   | Some s \<Rightarrow> frame_lines lib finish (str_lines s))"

text \<open>The frames complete in the buffer; what is left of it, or nothing once the stream ended.\<close>

function feed :: "sse_lib \<Rightarrow> string option \<Rightarrow> bytes \<Rightarrow> event_stream \<times> bytes option" where
  "feed lib finish buf = (case find_frame_end buf of
     None \<Rightarrow> ([], Some buf)
   | Some idx \<Rightarrow> (case frame_events lib finish (take (idx + 2) buf) of
       (events, True) \<Rightarrow> (events, None)
     | (events, False) \<Rightarrow> (case feed lib finish (drop (idx + 2) buf) of
         (events', r) \<Rightarrow> (events @ events', r))))"
  by pat_completeness auto
termination
  by (relation "measure (\<lambda>(lib, finish, buf). length buf)") (auto dest!: find_frame_end_bound)

declare feed.simps [simp del]

fun run_chunks ::
  "(bytes \<Rightarrow> event_stream \<times> bytes option) \<Rightarrow> bytes \<Rightarrow> (string + bytes) list \<Rightarrow> event_stream"
where
  "run_chunks f buf [] = []"
| "run_chunks f buf (Inl e # chunks) = [Inl (StreamError e)]"
| "run_chunks f buf (Inr chunk # chunks) = (case f (buf @ chunk) of
     (events, None) \<Rightarrow> events
   | (events, Some buf) \<Rightarrow> events @ run_chunks f buf chunks)"

definition parse_openai :: "sse_lib \<Rightarrow> (string + bytes) list \<Rightarrow> event_stream" where
  "parse_openai lib chunks = run_chunks (feed lib (Some ''[DONE]'')) [] chunks"

definition parse_anthropic :: "sse_lib \<Rightarrow> (string + bytes) list \<Rightarrow> event_stream" where
  "parse_anthropic lib chunks = run_chunks (feed lib None) [] chunks"

section \<open>Where the network cuts the bytes does not matter\<close>

text \<open>
  An incremental parser: feeding two pieces one after the other is feeding them together.
  The law is all the loop over the chunks relies on.
\<close>

locale incremental =
  fixes f :: "bytes \<Rightarrow> event_stream \<times> bytes option"
  assumes f_append: "f (b @ c) = (case f b of
      (events, None) \<Rightarrow> (events, None)
    | (events, Some b') \<Rightarrow> (case f (b' @ c) of (events', r) \<Rightarrow> (events @ events', r)))"
begin

lemma f_settled: "f b = (events, Some b') \<Longrightarrow> f b' = ([], Some b')"
  using f_append [of b "[]"] by (auto split: prod.splits option.splits)

lemma run_settled:
  "f buf = ([], Some buf) \<Longrightarrow> run_chunks f buf (map Inr chunks) = fst (f (buf @ concat chunks))"
proof (induction chunks arbitrary: buf)
  case (Cons c chunks)
  show ?case
  proof (cases "f (buf @ c)")
    case (Pair events r)
    show ?thesis
    proof (cases r)
      case None
      with Pair f_append [of "buf @ c" "concat chunks"] show ?thesis by simp
    next
      case (Some buf')
      with Pair have "f buf' = ([], Some buf')"
        using f_settled by blast
      with Pair Some Cons.IH [of buf'] f_append [of "buf @ c" "concat chunks"] show ?thesis
        by (auto split: prod.splits)
    qed
  qed
qed simp

end

lemma find_frame_end_append: "find_frame_end b = Some i \<Longrightarrow> find_frame_end (b @ c) = Some i"
  by (induction b arbitrary: i rule: find_frame_end.induct) (auto split: if_splits)

lemma feed_append:
  "feed lib finish (b @ c) = (case feed lib finish b of
      (events, None) \<Rightarrow> (events, None)
    | (events, Some b') \<Rightarrow> (case feed lib finish (b' @ c) of (events', r) \<Rightarrow> (events @ events', r)))"
proof (induction lib finish b rule: feed.induct)
  case (1 lib finish buf)
  show ?case
  proof (cases "find_frame_end buf")
    case None
    then show ?thesis
      by (simp add: feed.simps [of lib finish buf] split: prod.splits)
  next
    case (Some idx)
    note bound = find_frame_end_bound [OF Some]
    obtain events stop where ev: "frame_events lib finish (take (idx + 2) buf) = (events, stop)"
      by (metis surj_pair)
    have whole: "find_frame_end (buf @ c) = Some idx" "take (idx + 2) (buf @ c) = take (idx + 2) buf"
      "drop (idx + 2) (buf @ c) = drop (idx + 2) buf @ c"
      using find_frame_end_append [OF Some] bound by simp_all
    show ?thesis
    proof (cases stop)
      case True
      with Some ev whole show ?thesis
        by (simp add: feed.simps [of lib finish buf] feed.simps [of lib finish "buf @ c"] del: take_append drop_append)
    next
      case False
      then have "stop = False" by simp
      with 1 [OF Some ev [symmetric] this] Some ev whole show ?thesis
        by (simp add: feed.simps [of lib finish buf] feed.simps [of lib finish "buf @ c"]
            del: take_append drop_append split: prod.splits option.splits)
    qed
  qed
qed

interpretation sse: incremental "feed lib finish" for lib finish
  by unfold_locales (rule feed_append)

lemma feed_nil: "feed lib finish [] = ([], Some [])"
  by (simp add: feed.simps)

text \<open>
  C9: the events of an upstream stream do not depend on how the network cuts its bytes: for
  both dialects, parsing the chunks is parsing their concatenation, whether the cut falls
  inside a frame, a line, a character, or between the two bytes that end a frame.
\<close>

theorem chunking_is_irrelevant:
  "parse_openai lib (map Inr chunks) = parse_openai lib [Inr (concat chunks)]
   \<and> parse_anthropic lib (map Inr chunks) = parse_anthropic lib [Inr (concat chunks)]"
  using sse.run_settled [OF feed_nil, of lib _ chunks] sse.run_settled [OF feed_nil, of lib _ "[concat chunks]"]
  by (simp add: parse_openai_def parse_anthropic_def)

end
