(* ===== verification/Upstream.thy ===== *)
theory Upstream
  imports Sse Requests
begin

text \<open>
  The HTTP providers (\<open>ai-engine-openai/src/lib.rs\<close> and \<open>client.rs\<close>,
  \<open>ai-engine-anthropic/src/lib.rs\<close> and \<open>client.rs\<close>): the headers that authenticate an
  outbound request, the request itself, and what becomes of the reply.  The HTTP client is a
  parameter: it posts a value at a URL with headers and answers with an error or a reply; so
  is the decoding of a reply's body.
\<close>

section \<open>Headers\<close>

text \<open>\<open>HeaderMap::insert\<close>: the new value replaces the values under that name.\<close>

definition header_insert :: "string \<Rightarrow> string \<Rightarrow> headers \<Rightarrow> headers" where
  "header_insert k v h = filter (\<lambda>(k', v'). k' \<noteq> k) h @ [(k, v)]"

definition insert_value :: "http_lib \<Rightarrow> string \<Rightarrow> string \<Rightarrow> headers \<Rightarrow> headers" where
  "insert_value lib k v h = (case hl_value lib v of None \<Rightarrow> h | Some v' \<Rightarrow> header_insert k v' h)"

definition insert_extra :: "http_lib \<Rightarrow> string \<times> string \<Rightarrow> headers \<Rightarrow> headers" where
  "insert_extra lib kv h = (case (hl_name lib (fst kv), hl_value lib (snd kv)) of
     (Some k, Some v) \<Rightarrow> header_insert k v h
   | _ \<Rightarrow> h)"

definition openai_headers :: "http_lib \<Rightarrow> credentials \<Rightarrow> (string \<times> string) list \<Rightarrow> headers" where
  "openai_headers lib creds extra =
     (let h = (case cd_raw_bearer creds of
            Some bearer \<Rightarrow> insert_value lib ''authorization'' bearer []
          | None \<Rightarrow> (case cd_api_key creds of
              Some k \<Rightarrow> insert_value lib ''authorization'' (''Bearer '' @ k) []
            | None \<Rightarrow> []))
      in fold (insert_extra lib) (cd_extra_headers creds @ extra) h)"

definition strip_bearer_prefix :: "string \<Rightarrow> string" where
  "strip_bearer_prefix s = unwrap_or s (strip_bearer s)"

definition anthropic_headers :: "http_lib \<Rightarrow> credentials \<Rightarrow> (string \<times> string) list \<Rightarrow> headers" where
  "anthropic_headers lib creds extra =
     (let key = (case cd_api_key creds of
            Some k \<Rightarrow> Some k
          | None \<Rightarrow> map_option strip_bearer_prefix (cd_raw_bearer creds));
          h = (case key of Some k \<Rightarrow> insert_value lib ''x-api-key'' k [] | None \<Rightarrow> []);
          h = header_insert ''anthropic-version'' ''2023-06-01'' h
      in fold (insert_extra lib) (cd_extra_headers creds @ extra) h)"

section \<open>Requests\<close>

datatype send_error = SendTimeout | SendOther string

record reply =
  rp_status :: u16
  rp_body :: "string + bytes"
  rp_chunks :: "(string + bytes) list"

type_synonym ('s, 'req) post = "string \<Rightarrow> headers \<Rightarrow> 'req \<Rightarrow> 's \<Rightarrow> (send_error + reply) \<times> 's"

definition trim_end_slashes :: "string \<Rightarrow> string" where
  "trim_end_slashes s = rev (dropWhile (\<lambda>c. c = CHR ''/'') (rev s))"

definition url :: "string \<Rightarrow> string \<Rightarrow> string" where
  "url base_url path = trim_end_slashes base_url @ path"

definition map_send_err :: "send_error \<Rightarrow> provider_error" where
  "map_send_err e = (case e of SendTimeout \<Rightarrow> Timeout | SendOther m \<Rightarrow> Connect m)"

definition is_success :: "u16 \<Rightarrow> bool" where
  "is_success s \<longleftrightarrow> 200 \<le> s \<and> s < 300"

text \<open>What every method does with the outcome of a request: errors first, then the body.\<close>

definition on_reply :: "(reply \<Rightarrow> provider_error + 'a) \<Rightarrow> (send_error + reply) \<times> 's \<Rightarrow> (provider_error + 'a) \<times> 's" where
  "on_reply ok outcome = (case outcome of
     (Inl e, s) \<Rightarrow> (Inl (map_send_err e), s)
   | (Inr r, s) \<Rightarrow>
       (if \<not> is_success (rp_status r)
        then Inl (Status (rp_status r) (case rp_body r of Inl e \<Rightarrow> [] | Inr b \<Rightarrow> b))
        else ok r, s))"

definition decoded :: "(bytes \<Rightarrow> string + 'a) \<Rightarrow> reply \<Rightarrow> provider_error + 'a" where
  "decoded decode r = (case rp_body r of
     Inl e \<Rightarrow> Inl (InvalidResponse e)
   | Inr b \<Rightarrow> (case decode b of Inl e \<Rightarrow> Inl (InvalidResponse e) | Inr a \<Rightarrow> Inr a))"

definition event_stream_header :: "(string \<times> string) list" where
  "event_stream_header = [(''accept'', ''text/event-stream'')]"

record openai_provider =
  op_id :: string
  op_base_url :: string

definition openai_chat ::
  "http_lib \<Rightarrow> ('s, chat_request) post \<Rightarrow> (bytes \<Rightarrow> string + chat_response) \<Rightarrow> openai_provider \<Rightarrow>
   ('s, chat_request, chat_response) call"
where
  "openai_chat lib post decode p req creds cctx s =
     on_reply (decoded decode) (post (url (op_base_url p) ''/chat/completions'') (openai_headers lib creds [])
       (req\<lparr>cr_model := ca_upstream_model cctx, cr_stream := Some False\<rparr>) s)"

definition with_usage :: "stream_options option \<Rightarrow> stream_options" where
  "with_usage opts =
     (let so = (case opts of None \<Rightarrow> \<lparr>so_include_usage = None\<rparr> | Some so \<Rightarrow> so)
      in if so_include_usage so = None then so\<lparr>so_include_usage := Some True\<rparr> else so)"

definition openai_chat_stream ::
  "http_lib \<Rightarrow> ('s, chat_request) post \<Rightarrow> sse_lib \<Rightarrow> openai_provider \<Rightarrow> ('s, chat_request, event_stream) call"
where
  "openai_chat_stream lib post sse p req creds cctx s =
     on_reply (\<lambda>r. Inr (parse_openai sse (rp_chunks r)))
       (post (url (op_base_url p) ''/chat/completions'') (openai_headers lib creds event_stream_header)
         (req\<lparr>cr_model := ca_upstream_model cctx, cr_stream := Some True,
              cr_stream_options := Some (with_usage (cr_stream_options req))\<rparr>) s)"

definition openai_embeddings ::
  "http_lib \<Rightarrow> ('s, embeddings_request) post \<Rightarrow> (bytes \<Rightarrow> string + embeddings_response) \<Rightarrow> openai_provider \<Rightarrow>
   ('s, embeddings_request, embeddings_response) call"
where
  "openai_embeddings lib post decode p req creds cctx s =
     on_reply (decoded decode) (post (url (op_base_url p) ''/embeddings'') (openai_headers lib creds [])
       (req\<lparr>em_model := ca_upstream_model cctx\<rparr>) s)"

definition openai_capabilities :: capabilities where
  "openai_capabilities = \<lparr>cap_chat = True, cap_messages = False, cap_embeddings = True,
     cap_streaming = True, cap_tools = True, cap_vision = True\<rparr>"

definition openai_provider ::
  "http_lib \<Rightarrow> sse_lib \<Rightarrow> ('s, chat_request) post \<Rightarrow> ('s, embeddings_request) post \<Rightarrow>
   (bytes \<Rightarrow> string + chat_response) \<Rightarrow> (bytes \<Rightarrow> string + embeddings_response) \<Rightarrow> openai_provider \<Rightarrow> 's provider"
where
  "openai_provider lib sse post_chat post_emb dec_chat dec_emb p =
     (default_provider (op_id p) ''openai'' openai_capabilities)
       \<lparr>pv_chat := openai_chat lib post_chat dec_chat p,
        pv_chat_stream := openai_chat_stream lib post_chat sse p,
        pv_embeddings := openai_embeddings lib post_emb dec_emb p\<rparr>"

record anthropic_provider =
  an_id :: string
  an_base_url :: string

definition anthropic_messages ::
  "http_lib \<Rightarrow> ('s, messages_request) post \<Rightarrow> (bytes \<Rightarrow> string + messages_response) \<Rightarrow> anthropic_provider \<Rightarrow>
   ('s, messages_request, messages_response) call"
where
  "anthropic_messages lib post decode p req creds cctx s =
     on_reply (decoded decode) (post (url (an_base_url p) ''/v1/messages'') (anthropic_headers lib creds [])
       (req\<lparr>mr_model := ca_upstream_model cctx, mr_stream := Some False\<rparr>) s)"

definition anthropic_messages_stream ::
  "http_lib \<Rightarrow> ('s, messages_request) post \<Rightarrow> sse_lib \<Rightarrow> anthropic_provider \<Rightarrow> ('s, messages_request, event_stream) call"
where
  "anthropic_messages_stream lib post sse p req creds cctx s =
     on_reply (\<lambda>r. Inr (parse_anthropic sse (rp_chunks r)))
       (post (url (an_base_url p) ''/v1/messages'') (anthropic_headers lib creds event_stream_header)
         (req\<lparr>mr_model := ca_upstream_model cctx, mr_stream := Some True\<rparr>) s)"

definition anthropic_capabilities :: capabilities where
  "anthropic_capabilities = \<lparr>cap_chat = False, cap_messages = True, cap_embeddings = False,
     cap_streaming = True, cap_tools = True, cap_vision = True\<rparr>"

definition anthropic_provider ::
  "http_lib \<Rightarrow> sse_lib \<Rightarrow> ('s, messages_request) post \<Rightarrow> (bytes \<Rightarrow> string + messages_response) \<Rightarrow>
   anthropic_provider \<Rightarrow> 's provider"
where
  "anthropic_provider lib sse post decode p =
     (default_provider (an_id p) ''anthropic'' anthropic_capabilities)
       \<lparr>pv_messages := anthropic_messages lib post decode p,
        pv_messages_stream := anthropic_messages_stream lib post sse p\<rparr>"

section \<open>A client's key in passthrough mode\<close>

lemma map_of_header_insert: "map_of (header_insert k v h) k' = (if k = k' then Some v else map_of h k')"
proof -
  have "map_of (filter (\<lambda>(k', v'). k' \<noteq> k) h) k' = (if k = k' then None else map_of h k')"
    by (induction h) auto
  then show ?thesis
    by (simp add: header_insert_def map_add_def split: option.splits)
qed

text \<open>
  In passthrough mode the token a client sends as \<open>Authorization: Bearer\<close> goes upstream: as
  \<open>x-api-key\<close> to an Anthropic provider that has no key of its own, as it should; but to an
  OpenAI provider as the whole value of \<open>Authorization\<close>, without the scheme, since the
  authentication stage has already cut \<open>Bearer\<close> off and the provider sends the token verbatim.
\<close>

theorem passthrough_token:
  assumes "map_of (rc_headers ctx) ''authorization'' = Some (''Bearer '' @ token)"
    and "hl_to_str lib (''Bearer '' @ token) = Some (''Bearer '' @ token)"
    and "hl_value lib token = Some token" and "strip_bearer token = None"
    and "auth_process lib Passthrough ctx s = (r, ctx', s')"
    and "creds = call_credentials (rc_identity ctx') defaults" and "cd_extra_headers defaults = []"
  shows "map_of (openai_headers lib creds []) ''authorization'' = Some token
    \<and> (cd_api_key defaults = None \<longrightarrow> map_of (anthropic_headers lib creds []) ''x-api-key'' = Some token)"
proof -
  have "extract_bearer lib (rc_headers ctx) = Some token"
    using assms(1,2) by (simp add: extract_bearer_def strip_bearer_def or_else_def)
  with assms(5) have "rc_identity ctx' = Some (Anonymous (Some token))"
    by (auto simp: auth_process_def)
  with assms(6) have "creds = \<lparr>cd_api_key = cd_api_key defaults, cd_raw_bearer = Some token,
      cd_extra_headers = cd_extra_headers defaults\<rparr>"
    by (simp add: call_credentials_def)
  with assms(3,4,7) show ?thesis
    by (simp add: openai_headers_def anthropic_headers_def insert_value_def map_of_header_insert
        strip_bearer_prefix_def unwrap_or_def)
qed

lemma passthrough_token_witness:
  "\<exists>creds. map_of (openai_headers ex_http creds []) ''authorization'' = Some ''sk-1''
    \<and> map_of (anthropic_headers ex_http creds []) ''x-api-key'' = Some ''sk-1''"
proof -
  let ?ctx = "ex_ctx\<lparr>rc_headers := [(''authorization'', ''Bearer sk-1'')]\<rparr>"
  obtain r ctx' s' where eq: "auth_process ex_http Passthrough ?ctx ex_gateway = (r, ctx', s')"
    by (metis prod_cases3)
  have "hl_to_str ex_http (''Bearer '' @ ''sk-1'') = Some (''Bearer '' @ ''sk-1'')"
    "hl_value ex_http ''sk-1'' = Some ''sk-1''" "strip_bearer ''sk-1'' = None"
    by (simp_all add: ex_http_def Let_def strip_bearer_def or_else_def)
  from passthrough_token [OF _ this eq refl, of no_credentials] show ?thesis
    by (auto simp: no_credentials_def)
qed

section \<open>One gateway behind another\<close>

lemma of_char_newline: "(of_char c :: u8) = 10 \<longleftrightarrow> c = newline"
proof -
  have "(of_char newline :: u8) = 10"
    by (simp add: of_char_def)
  then show ?thesis
    by (metis of_char_u8_inject)
qed

lemma find_frame_end_text:
  "newline \<notin> set u \<Longrightarrow> find_frame_end (as_bytes u @ 10 # 10 # rest) = Some (length u)"
proof (induction u)
  case (Cons c u)
  then show ?case
    by (cases u) (auto simp: as_bytes_def of_char_newline)
qed (simp add: as_bytes_def)

lemma split_inclusive_text:
  "newline \<notin> set u \<Longrightarrow> split_inclusive (u @ newline # v) = (u @ [newline]) # split_inclusive v"
  by (induction u) auto

text \<open>The text of a JSON value on one line, as the parser takes it.\<close>

definition one_line :: "string \<Rightarrow> bool" where
  "one_line t \<longleftrightarrow> t \<noteq> [] \<and> newline \<notin> set t \<and> last t \<noteq> return \<and> white_prefix t = None
     \<and> utf8_valid (as_bytes t)"

definition data_frame :: "string \<Rightarrow> bytes" where
  "data_frame d = as_bytes (''data: '' @ d @ [newline, newline])"

lemma feed_data_frame:
  assumes "one_line t"
  shows "feed lib finish (data_frame t @ rest) = (case frame_lines lib finish [''data: '' @ t, []] of
      (events, True) \<Rightarrow> (events, None)
    | (events, False) \<Rightarrow> (case feed lib finish rest of (events', r) \<Rightarrow> (events @ events', r)))"
proof -
  let ?u = "''data: '' @ t"
  have nl: "newline \<notin> set ?u"
    using assms by (simp add: one_line_def)
  have bytes: "data_frame t @ rest = as_bytes ?u @ 10 # 10 # rest"
    by (simp add: data_frame_def as_bytes_def of_char_def)
  then have "find_frame_end (data_frame t @ rest) = Some (length ?u)"
    using find_frame_end_text [OF nl] by simp
  moreover have len: "length (data_frame t) = length ?u + 2"
    by (simp add: data_frame_def)
  then have "take (length ?u + 2) (data_frame t @ rest) = data_frame t" "drop (length ?u + 2) (data_frame t @ rest) = rest"
    by simp_all
  moreover have "data_frame t = as_bytes ''data: '' @ as_bytes t @ as_bytes [newline, newline]"
    by (simp only: data_frame_def as_bytes_append)
  then have "utf8_valid (data_frame t)"
    using assms utf8_valid_ascii_append [of "''data: ''" "as_bytes t @ as_bytes [newline, newline]"]
      utf8_valid_append [of "as_bytes t" "as_bytes [newline, newline]"]
      utf8_valid_ascii_append [of "[newline, newline]" "[]"]
    by (simp add: one_line_def del: as_bytes_append)
  then have "from_utf8 (data_frame t) = Some (?u @ [newline, newline])"
    using from_utf8_as_bytes [of "?u @ [newline, newline]"] by (simp add: data_frame_def)
  moreover have "str_lines (?u @ [newline, newline]) = [?u, []]"
  proof -
    have "split_inclusive (?u @ newline # [newline]) = [?u @ [newline], [newline]]"
      using split_inclusive_text [OF nl, of "[newline]"] by simp
    moreover have "strip_eol (?u @ [newline]) = ?u"
      using assms by (simp add: strip_eol_def one_line_def Let_def)
    ultimately show ?thesis
      by (simp add: str_lines_def strip_eol_def)
  qed
  ultimately show ?thesis
    by (simp add: feed.simps [of lib finish "data_frame t @ rest"] frame_events_def del: frame_lines.simps)
qed

lemma frame_lines_data:
  assumes "one_line t"
  shows "frame_lines lib finish [''data: '' @ t, []] =
    (if finish = Some t then ([], True)
     else case ss_parse lib t of Inr raw \<Rightarrow> ([Inr raw], False) | Inl e \<Rightarrow> ([Inl (InvalidResponse e)], True))"
proof -
  have "trim_start t = t"
    using assms by (simp add: trim_start.simps one_line_def)
  with assms show ?thesis
    by (simp add: or_else_def one_line_def split: sum.splits)
qed

lemma feed_frames:
  assumes "\<forall>raw \<in> set raws. one_line (print raw) \<and> print raw \<noteq> ''[DONE]'' \<and> ss_parse lib (print raw) = Inr raw"
  shows "fst (feed lib (Some ''[DONE]'') (concat (map (data_frame \<circ> print) raws) @ data_frame ''[DONE]'')) = map Inr raws"
  using assms
proof (induction raws)
  case Nil
  have "one_line ''[DONE]''"
    by code_simp
  from feed_data_frame [OF this, of lib _ "[]"] frame_lines_data [OF this] show ?case
    by simp
next
  case (Cons raw raws)
  then have ol: "one_line (print raw)" and "print raw \<noteq> ''[DONE]''" "ss_parse lib (print raw) = Inr raw" by simp_all
  with Cons feed_data_frame [OF ol, of lib "Some ''[DONE]''"] frame_lines_data [OF ol, of lib "Some ''[DONE]''"] show ?case
    by (auto split: prod.splits)
qed



end
