(* ===== verification/Gguf.thy ===== *)
theory Gguf
  imports Utf8
begin

text \<open>
  The reader of GGUF checkpoints (\<open>runtime/src/gguf/header.rs\<close>, \<open>metadata.rs\<close>,
  \<open>tensor_desc.rs\<close>, \<open>mod.rs\<close>) and the model configuration it yields
  (\<open>runtime/src/config.rs\<close>).  Every parser takes the bytes from its cursor on and returns the
  value with the number of bytes it consumed.  A panic is an outcome of its own: the addition
  of a declared length past \<open>usize\<close>, and a \<open>Vec\<close> asked for more than \<open>isize::MAX\<close> bytes.
  Floats are their bit patterns.
\<close>

section \<open>Header\<close>

datatype gguf_error =
    HeaderTruncated nat
  | BadMagic bytes
  | UnsupportedVersion nat
  | StringLengthTruncated
  | StringTruncated nat nat
  | InvalidUtf8
  | ValueTypeTruncated
  | UnknownValueType nat
  | BufferTruncated nat nat
  | ArrayHeaderTruncated
  | UnknownElementType nat
  | DescTruncated string
  | UnsupportedGgmlType nat
  | ConfigError string

type_synonym 'a parsed = "(gguf_error, 'a \<times> nat) outcome"

record gguf_header =
  gh_version :: nat
  gh_tensor_count :: nat
  gh_metadata_count :: nat

definition gguf_magic :: bytes where
  "gguf_magic = [0x47, 0x47, 0x55, 0x46]"

definition supported_version :: nat where
  "supported_version = 3"

text \<open>\<open>from_le_bytes(bytes[i..j])\<close>\<close>

definition le_at :: "bytes \<Rightarrow> nat \<Rightarrow> nat \<Rightarrow> nat" where
  "le_at bs i j = from_le (take (j - i) (drop i bs))"

definition parse_header :: "bytes \<Rightarrow> gguf_header parsed" where
  "parse_header bs =
     (if length bs < 24 then Err (HeaderTruncated (length bs))
      else if take 4 bs \<noteq> gguf_magic then Err (BadMagic (take 4 bs))
      else let version = le_at bs 4 8 in
        if version \<noteq> supported_version then Err (UnsupportedVersion version)
        else Ok (\<lparr>gh_version = version, gh_tensor_count = le_at bs 8 16, gh_metadata_count = le_at bs 16 24\<rparr>, 24))"

section \<open>Values\<close>

datatype gguf_array =
    AI32 "32 word list"
  | AU32 "u32 list"
  | AU64 "u64 list"
  | AF32 "u32 list"
  | AString "string list"

datatype gguf_value =
    GU8 u8
  | GI8 "8 word"
  | GU16 u16
  | GI16 "16 word"
  | GU32 u32
  | GI32 "32 word"
  | GU64 u64
  | GI64 "64 word"
  | GF32 u32
  | GF64 u64
  | GBool bool
  | GString string
  | GArray gguf_array

definition parse_string :: "bytes \<Rightarrow> string parsed" where
  "parse_string bs =
     (if length bs < 8 then Err StringLengthTruncated
      else let len = le_at bs 0 8 in
        if usize_bound \<le> 8 + len then Panic
        else if length bs < 8 + len then Err (StringTruncated len (length bs - 8))
        else case from_utf8 (take len (drop 8 bs)) of
          None \<Rightarrow> Err InvalidUtf8
        | Some s \<Rightarrow> Ok (s, 8 + len))"

definition take_n :: "bytes \<Rightarrow> nat \<Rightarrow> (gguf_error, bytes) outcome" where
  "take_n bs n = (if length bs < n then Err (BufferTruncated n (length bs)) else Ok (take n bs))"

text \<open>A fixed-width little-endian number.\<close>

definition parse_word :: "nat \<Rightarrow> bytes \<Rightarrow> ('a::len) word parsed" where
  "parse_word n bs = and_then (take_n bs n) (\<lambda>buf. Ok (word_of_nat (from_le buf), n))"

definition map_parsed :: "('a \<Rightarrow> 'b) \<Rightarrow> 'a parsed \<Rightarrow> 'b parsed" where
  "map_parsed f r = and_then r (\<lambda>(a, c). Ok (f a, c))"

text \<open>\<open>Vec::with_capacity(count)\<close> and the loop that fills it, the cursor moving along.\<close>

fun parse_many :: "(bytes \<Rightarrow> 'a parsed) \<Rightarrow> nat \<Rightarrow> bytes \<Rightarrow> 'a list parsed" where
  "parse_many p 0 bs = Ok ([], 0)"
| "parse_many p (Suc n) bs = and_then (p bs) (\<lambda>(a, c).
     and_then (parse_many p n (drop c bs)) (\<lambda>(as, c'). Ok (a # as, c + c')))"

definition isize_max :: nat where
  "isize_max = 2 ^ 63 - 1"

definition parse_vec :: "nat \<Rightarrow> (bytes \<Rightarrow> 'a parsed) \<Rightarrow> nat \<Rightarrow> bytes \<Rightarrow> 'a list parsed" where
  "parse_vec width p n bs = (if isize_max < n * width then Panic else parse_many p n bs)"

definition parse_array :: "bytes \<Rightarrow> gguf_value parsed" where
  "parse_array bs =
     (if length bs < 12 then Err ArrayHeaderTruncated
      else
        let elem_type = le_at bs 0 4; count = le_at bs 4 12; rest = drop 12 bs;
            arr = (\<lambda>r. and_then r (\<lambda>(a, c). Ok (GArray a, 12 + c)))
        in if elem_type = 4 then arr (map_parsed AU32 (parse_vec 4 (parse_word 4) count rest))
           else if elem_type = 5 then arr (map_parsed AI32 (parse_vec 4 (parse_word 4) count rest))
           else if elem_type = 10 then arr (map_parsed AU64 (parse_vec 8 (parse_word 8) count rest))
           else if elem_type = 6 then arr (map_parsed AF32 (parse_vec 4 (parse_word 4) count rest))
           else if elem_type = 8 then arr (map_parsed AString (parse_vec 24 parse_string count rest))
           else Err (UnknownElementType elem_type))"

definition parse_value :: "nat \<Rightarrow> bytes \<Rightarrow> gguf_value parsed" where
  "parse_value type_id bs =
     (if type_id = 0 then map_parsed GU8 (parse_word 1 bs)
      else if type_id = 1 then map_parsed GI8 (parse_word 1 bs)
      else if type_id = 2 then map_parsed GU16 (parse_word 2 bs)
      else if type_id = 3 then map_parsed GI16 (parse_word 2 bs)
      else if type_id = 4 then map_parsed GU32 (parse_word 4 bs)
      else if type_id = 5 then map_parsed GI32 (parse_word 4 bs)
      else if type_id = 6 then map_parsed GF32 (parse_word 4 bs)
      else if type_id = 7 then map_parsed (\<lambda>b. GBool (b \<noteq> (0 :: u8))) (parse_word 1 bs)
      else if type_id = 8 then map_parsed GString (parse_string bs)
      else if type_id = 9 then parse_array bs
      else if type_id = 10 then map_parsed GU64 (parse_word 8 bs)
      else if type_id = 11 then map_parsed GI64 (parse_word 8 bs)
      else if type_id = 12 then map_parsed GF64 (parse_word 8 bs)
      else Err (UnknownValueType type_id))"

definition parse_kv :: "bytes \<Rightarrow> (string \<times> gguf_value) parsed" where
  "parse_kv bs = and_then (parse_string bs) (\<lambda>(key, key_consumed).
     let rest = drop key_consumed bs in
     if length rest < 4 then Err ValueTypeTruncated
     else and_then (parse_value (le_at rest 0 4) (drop 4 rest)) (\<lambda>(value, value_consumed).
       Ok ((key, value), key_consumed + 4 + value_consumed)))"

text \<open>
  The loop of \<open>read_metadata_only\<close>: a later value of a key replaces an earlier one.  The
  table is allocated first, for as many entries as the header declares: \<open>table_fits\<close> says for
  which capacities \<open>HashMap::with_capacity\<close> does not panic.
\<close>

fun insert_all :: "nat \<Rightarrow> bytes \<Rightarrow> (string \<rightharpoonup> gguf_value) \<Rightarrow> (gguf_error, string \<rightharpoonup> gguf_value) outcome" where
  "insert_all 0 bs m = Ok m"
| "insert_all (Suc n) bs m = and_then (parse_kv bs) (\<lambda>((k, v), consumed).
     insert_all n (drop consumed bs) (m(k \<mapsto> v)))"

definition read_metadata :: "(nat \<Rightarrow> bool) \<Rightarrow> bytes \<Rightarrow> (gguf_error, string \<rightharpoonup> gguf_value) outcome" where
  "read_metadata table_fits file = and_then (parse_header file) (\<lambda>(hdr, cursor).
     if \<not> table_fits (gh_metadata_count hdr) then Panic
     else insert_all (gh_metadata_count hdr) (drop cursor file) Map.empty)"

section \<open>Tensor descriptors\<close>

datatype ggml_type = GgmlF32 | GgmlF16 | GgmlQ4_0 | GgmlQ4_1 | GgmlQ6_K | GgmlBF16

record tensor_desc =
  td_name :: string
  td_shape :: "u64 list"
  td_type :: ggml_type
  td_offset :: u64

definition ggml_type_of :: "nat \<Rightarrow> ggml_type option" where
  "ggml_type_of n = map_of [(0, GgmlF32), (1, GgmlF16), (2, GgmlQ4_0), (3, GgmlQ4_1), (14, GgmlQ6_K), (30, GgmlBF16)] n"

definition need :: "bytes \<Rightarrow> nat \<Rightarrow> string \<Rightarrow> (gguf_error, unit) outcome" where
  "need bs n what = (if length bs < n then Err (DescTruncated what) else Ok ())"

definition parse_tensor_desc :: "bytes \<Rightarrow> tensor_desc parsed" where
  "parse_tensor_desc bs = and_then (parse_string bs) (\<lambda>(name, cursor).
     and_then (need bs (cursor + 4) ''n_dims'') (\<lambda>_.
     let n_dims = le_at bs cursor (cursor + 4); cursor = cursor + 4 in
     and_then (need bs (cursor + n_dims * 8) ''shape'') (\<lambda>_.
     and_then (parse_many (parse_word 8) n_dims (drop cursor bs)) (\<lambda>(shape, c).
     let cursor = cursor + c in
     and_then (need bs (cursor + 4) ''ggml_type'') (\<lambda>_.
     let type_id = le_at bs cursor (cursor + 4) in
     and_then (ok_or (UnsupportedGgmlType type_id) (ggml_type_of type_id)) (\<lambda>ty.
     let cursor = cursor + 4 in
     and_then (need bs (cursor + 8) ''offset'') (\<lambda>_.
       Ok (\<lparr>td_name = name, td_shape = shape, td_type = ty,
            td_offset = word_of_nat (le_at bs cursor (cursor + 8))\<rparr>, cursor + 8))))))))"

section \<open>The configuration of a model\<close>

datatype model_family = Llama3 | Mistral | Qwen25 | DeepSeekV2

record model_config =
  mc_hidden_size :: nat
  mc_intermediate_size :: nat
  mc_n_layers :: nat
  mc_n_heads :: nat
  mc_n_kv_heads :: nat
  mc_head_dim :: nat
  mc_vocab_size :: nat
  mc_max_position_embeddings :: nat
  mc_rope_theta :: u32
  mc_rms_norm_eps :: u32
  mc_tie_word_embeddings :: bool
  mc_family :: model_family

definition gguf_read_u32 :: "(string \<rightharpoonup> gguf_value) \<Rightarrow> string \<Rightarrow> (gguf_error, nat) outcome" where
  "gguf_read_u32 m key = (case m key of
     Some (GU32 n) \<Rightarrow> Ok (unat n)
   | Some (GU64 n) \<Rightarrow> Ok (unat (ucast n :: u32))
   | Some (GI32 n) \<Rightarrow> Ok (unat n)
   | Some other \<Rightarrow> Err (ConfigError (''wrong type: '' @ key))
   | None \<Rightarrow> Err (ConfigError (''missing: '' @ key)))"

text \<open>\<open>narrow\<close> is the cast of an \<open>f64\<close> to an \<open>f32\<close>.\<close>

definition gguf_read_f32 :: "(u64 \<Rightarrow> u32) \<Rightarrow> (string \<rightharpoonup> gguf_value) \<Rightarrow> string \<Rightarrow> (gguf_error, u32) outcome" where
  "gguf_read_f32 narrow m key = (case m key of
     Some (GF32 f) \<Rightarrow> Ok f
   | Some (GF64 f) \<Rightarrow> Ok (narrow f)
   | Some other \<Rightarrow> Err (ConfigError (''wrong type: '' @ key))
   | None \<Rightarrow> Err (ConfigError (''missing: '' @ key)))"

definition gguf_vocab_size :: "(string \<rightharpoonup> gguf_value) \<Rightarrow> (gguf_error, nat) outcome" where
  "gguf_vocab_size m = (case m ''tokenizer.ggml.tokens'' of
     Some (GArray (AString v)) \<Rightarrow> Ok (length v)
   | _ \<Rightarrow> (case m ''llama.vocab_size'' of
       Some (GU32 n) \<Rightarrow> Ok (unat n)
     | _ \<Rightarrow> Err (ConfigError ''missing both tokenizer.ggml.tokens array and llama.vocab_size'')))"

definition checked_div :: "nat \<Rightarrow> nat \<Rightarrow> ('e, nat) outcome" where
  "checked_div a b = (if b = 0 then Panic else Ok (a div b))"

definition gguf_family :: "(string \<rightharpoonup> gguf_value) \<Rightarrow> (gguf_error, model_family) outcome" where
  "gguf_family m = (case m ''general.architecture'' of
     Some (GString s) \<Rightarrow>
       if s = ''llama'' then Ok Llama3 else Err (ConfigError (''not supported: '' @ s))
   | Some other \<Rightarrow> Err (ConfigError ''wrong type: general.architecture'')
   | None \<Rightarrow> Err (ConfigError ''missing: general.architecture''))"

definition from_gguf_metadata :: "(u64 \<Rightarrow> u32) \<Rightarrow> (string \<rightharpoonup> gguf_value) \<Rightarrow> (gguf_error, model_config) outcome" where
  "from_gguf_metadata narrow m =
     and_then (gguf_family m) (\<lambda>family.
     and_then (gguf_read_u32 m ''llama.block_count'') (\<lambda>n_layers.
     and_then (gguf_read_u32 m ''llama.embedding_length'') (\<lambda>hidden_size.
     and_then (gguf_read_u32 m ''llama.attention.head_count'') (\<lambda>n_heads.
     and_then (gguf_read_u32 m ''llama.attention.head_count_kv'') (\<lambda>n_kv_heads.
     and_then (gguf_read_u32 m ''llama.feed_forward_length'') (\<lambda>intermediate_size.
     and_then (gguf_read_u32 m ''llama.context_length'') (\<lambda>max_pos.
     and_then (gguf_read_f32 narrow m ''llama.attention.layer_norm_rms_epsilon'') (\<lambda>eps.
     and_then (gguf_read_f32 narrow m ''llama.rope.freq_base'') (\<lambda>theta.
     and_then (checked_div hidden_size n_heads) (\<lambda>head_dim.
     and_then (gguf_vocab_size m) (\<lambda>vocab_size.
       Ok \<lparr>mc_hidden_size = hidden_size, mc_intermediate_size = intermediate_size, mc_n_layers = n_layers,
           mc_n_heads = n_heads, mc_n_kv_heads = n_kv_heads, mc_head_dim = head_dim,
           mc_vocab_size = vocab_size, mc_max_position_embeddings = max_pos, mc_rope_theta = theta,
           mc_rms_norm_eps = eps, mc_tie_word_embeddings = True, mc_family = family\<rparr>)))))))))))"

text \<open>\<open>ModelConfig::from_gguf_file\<close> on the bytes of the file.\<close>

definition from_gguf_file ::
    "(nat \<Rightarrow> bool) \<Rightarrow> (u64 \<Rightarrow> u32) \<Rightarrow> bytes \<Rightarrow> (gguf_error, model_config) outcome" where
  "from_gguf_file table_fits narrow file = and_then (read_metadata table_fits file) (from_gguf_metadata narrow)"

section \<open>What parsing yields is well typed\<close>

fun array_type :: "gguf_array \<Rightarrow> nat" where
  "array_type (AU32 v) = 4"
| "array_type (AI32 v) = 5"
| "array_type (AF32 v) = 6"
| "array_type (AString v) = 8"
| "array_type (AU64 v) = 10"

fun value_type :: "gguf_value \<Rightarrow> nat" where
  "value_type (GU8 v) = 0"
| "value_type (GI8 v) = 1"
| "value_type (GU16 v) = 2"
| "value_type (GI16 v) = 3"
| "value_type (GU32 v) = 4"
| "value_type (GI32 v) = 5"
| "value_type (GF32 v) = 6"
| "value_type (GBool v) = 7"
| "value_type (GString v) = 8"
| "value_type (GArray v) = 9"
| "value_type (GU64 v) = 10"
| "value_type (GI64 v) = 11"
| "value_type (GF64 v) = 12"

text \<open>A string a file can hold: UTF-8, and of a length that does not run over.\<close>

definition string_ok :: "string \<Rightarrow> bool" where
  "string_ok s \<longleftrightarrow> utf8_valid (as_bytes s) \<and> 8 + length s < usize_bound"

fun array_ok :: "gguf_array \<Rightarrow> bool" where
  "array_ok (AU32 v) = (length v * 4 \<le> isize_max)"
| "array_ok (AI32 v) = (length v * 4 \<le> isize_max)"
| "array_ok (AF32 v) = (length v * 4 \<le> isize_max)"
| "array_ok (AU64 v) = (length v * 8 \<le> isize_max)"
| "array_ok (AString v) = (length v * 24 \<le> isize_max \<and> (\<forall>s \<in> set v. string_ok s))"

fun value_ok :: "gguf_value \<Rightarrow> bool" where
  "value_ok (GString s) = string_ok s"
| "value_ok (GArray a) = array_ok a"
| "value_ok v = True"

text \<open>A parser whose results satisfy a predicate and fit in the bytes it was given.\<close>

definition parses :: "('a \<Rightarrow> bool) \<Rightarrow> (bytes \<Rightarrow> 'a parsed) \<Rightarrow> bool" where
  "parses P p \<longleftrightarrow> (\<forall>bs a c. p bs = Ok (a, c) \<longrightarrow> P a \<and> c \<le> length bs)"

lemma parsesD: "parses P p \<Longrightarrow> p bs = Ok (a, c) \<Longrightarrow> P a \<and> c \<le> length bs"
  by (simp add: parses_def)

lemma parses_word: "parses (\<lambda>w. True) (parse_word n)"
  by (auto simp: parses_def parse_word_def take_n_def outcome_simps split: if_splits)

lemma as_bytes_from_utf8: "from_utf8 bs = Some s \<Longrightarrow> as_bytes s = bs \<and> utf8_valid bs"
proof -
  have "(of_char (char_of (unat b) :: char) :: u8) = b" for b :: u8
  proof -
    have "(of_char (char_of (unat b) :: char) :: u8) = word_of_nat (of_char (char_of (unat b) :: char))"
      by (simp only: of_nat_of_char)
    moreover have "(of_char (char_of (unat b) :: char) :: nat) = unat b"
      using unsigned_less [of b, where ?'a = nat] by simp
    ultimately show ?thesis by simp
  qed
  then show "from_utf8 bs = Some s \<Longrightarrow> as_bytes s = bs \<and> utf8_valid bs"
    by (auto simp: from_utf8_def as_bytes_def comp_def split: if_splits)
qed

lemma parses_string: "parses string_ok parse_string"
  unfolding parses_def
proof (intro allI impI)
  fix bs s c
  assume "parse_string bs = Ok (s, c)"
  then have c: "c = 8 + le_at bs 0 8" "c < usize_bound" "c \<le> length bs"
    and s: "from_utf8 (take (le_at bs 0 8) (drop 8 bs)) = Some s"
    by (auto simp: parse_string_def Let_def split: if_splits option.splits)
  from as_bytes_from_utf8 [OF s] have "utf8_valid (as_bytes s)" "length s = le_at bs 0 8"
    using c length_as_bytes [of s] by simp_all
  with c show "string_ok s \<and> c \<le> length bs"
    by (simp add: string_ok_def)
qed

lemma parses_many: "parses P p \<Longrightarrow> parse_many p n bs = Ok (as, c) \<Longrightarrow>
    length as = n \<and> (\<forall>a \<in> set as. P a) \<and> c \<le> length bs"
proof (induction n arbitrary: bs as c)
  case (Suc n)
  then obtain a c1 as' c2 where one: "p bs = Ok (a, c1)" and rest: "parse_many p n (drop c1 bs) = Ok (as', c2)"
    and eq: "as = a # as'" "c = c1 + c2"
    by (auto simp: outcome_simps)
  from Suc.IH [OF Suc.prems(1) rest] parsesD [OF Suc.prems(1) one] eq show ?case by auto
qed auto

lemma parses_vec:
  "parses P p \<Longrightarrow> parses (\<lambda>as. length as * width \<le> isize_max \<and> (\<forall>a \<in> set as. P a)) (parse_vec width p n)"
  by (auto simp: parses_def parse_vec_def dest: parses_many [unfolded parses_def] split: if_splits)

lemma parses_map: "parses P p \<Longrightarrow> (\<And>a. P a \<Longrightarrow> Q (f a)) \<Longrightarrow> parses Q (\<lambda>bs. map_parsed f (p bs))"
  by (fastforce simp: parses_def map_parsed_def outcome_simps)

lemma parses_array: "parse_array bs = Ok (v, c) \<Longrightarrow> value_type v = 9 \<and> value_ok v \<and> c \<le> length bs"
proof -
  assume v: "parse_array bs = Ok (v, c)"
  then have long: "12 \<le> length bs"
    by (simp add: parse_array_def split: if_splits)
  have fin: ?thesis if "parses array_ok p"
      and "and_then (p (drop 12 bs)) (\<lambda>(a, c). Ok (GArray a, 12 + c)) = Ok (v, c)" for p
    using that(2) parsesD [OF that(1)] long by (fastforce simp: outcome_simps)
  have words: "parses array_ok (\<lambda>bs. map_parsed AU32 (parse_vec 4 (parse_word 4) n bs))"
    "parses array_ok (\<lambda>bs. map_parsed AI32 (parse_vec 4 (parse_word 4) n bs))"
    "parses array_ok (\<lambda>bs. map_parsed AU64 (parse_vec 8 (parse_word 8) n bs))"
    "parses array_ok (\<lambda>bs. map_parsed AF32 (parse_vec 4 (parse_word 4) n bs))" for n
    by (rule parses_map [OF parses_vec [OF parses_word]]; simp)+
  have strings: "parses array_ok (\<lambda>bs. map_parsed AString (parse_vec 24 parse_string n bs))" for n
    by (rule parses_map [OF parses_vec [OF parses_string]]) simp
  from v long show ?thesis
    by (auto simp: parse_array_def Let_def split: if_splits dest: fin [OF words(1)] fin [OF words(2)]
        fin [OF words(3)] fin [OF words(4)] fin [OF strings])
qed

lemma parsed_word_value:
  "map_parsed f (parse_word n bs) = Ok (v, c) \<Longrightarrow> (\<exists>w. v = f w) \<and> c \<le> length bs"
  by (auto simp: map_parsed_def parse_word_def take_n_def outcome_simps split: if_splits)

text \<open>
  C25: whatever bytes a file holds, a value that parses has the type its tag declares and is
  well formed, strings being UTF-8, and the parser has consumed no more bytes than there are.
\<close>

theorem parsed_value_typed:
  assumes "parse_value t bs = Ok (v, c)"
  shows "value_type v = t \<and> value_ok v \<and> c \<le> length bs"
proof -
  have str: "map_parsed GString (parse_string bs) = Ok (v, c) \<Longrightarrow> value_type v = 8 \<and> value_ok v \<and> c \<le> length bs"
    using parsesD [OF parses_string] by (fastforce simp: map_parsed_def outcome_simps)
  show ?thesis
    using assms str parses_array [of bs v c]
    by (auto simp: parse_value_def split: if_splits dest!: parsed_word_value)
qed

lemma parsed_value_typed_witness:
  "value_type (GString ''ab'') = 8 \<and> value_ok (GString ''ab'') \<and> 10 \<le> length (to_le 8 2 @ as_bytes ''abc'')"
proof (rule parsed_value_typed)
  show "parse_value 8 (to_le 8 2 @ as_bytes ''abc'') = Ok (GString ''ab'', 10)"
    by code_simp
qed

section \<open>What a writer writes is read back\<close>

definition le_word :: "nat \<Rightarrow> ('a::len) word \<Rightarrow> bytes" where
  "le_word n w = to_le n (unat w)"

definition encode_string :: "string \<Rightarrow> bytes" where
  "encode_string s = to_le 8 (length s) @ as_bytes s"

fun encode_array :: "gguf_array \<Rightarrow> bytes" where
  "encode_array (AU32 v) = to_le 4 4 @ to_le 8 (length v) @ concat (map (le_word 4) v)"
| "encode_array (AI32 v) = to_le 4 5 @ to_le 8 (length v) @ concat (map (le_word 4) v)"
| "encode_array (AU64 v) = to_le 4 10 @ to_le 8 (length v) @ concat (map (le_word 8) v)"
| "encode_array (AF32 v) = to_le 4 6 @ to_le 8 (length v) @ concat (map (le_word 4) v)"
| "encode_array (AString v) = to_le 4 8 @ to_le 8 (length v) @ concat (map encode_string v)"

fun encode_value :: "gguf_value \<Rightarrow> bytes" where
  "encode_value (GU8 w) = le_word 1 w"
| "encode_value (GI8 w) = le_word 1 w"
| "encode_value (GU16 w) = le_word 2 w"
| "encode_value (GI16 w) = le_word 2 w"
| "encode_value (GU32 w) = le_word 4 w"
| "encode_value (GI32 w) = le_word 4 w"
| "encode_value (GU64 w) = le_word 8 w"
| "encode_value (GI64 w) = le_word 8 w"
| "encode_value (GF32 w) = le_word 4 w"
| "encode_value (GF64 w) = le_word 8 w"
| "encode_value (GBool b) = [if b then 1 else 0]"
| "encode_value (GString s) = encode_string s"
| "encode_value (GArray a) = encode_array a"

definition encode_kv :: "string \<times> gguf_value \<Rightarrow> bytes" where
  "encode_kv kv = encode_string (fst kv) @ to_le 4 (value_type (snd kv)) @ encode_value (snd kv)"

definition encode_header :: "nat \<Rightarrow> nat \<Rightarrow> bytes" where
  "encode_header tensors metadata = gguf_magic @ to_le 4 supported_version @ to_le 8 tensors @ to_le 8 metadata"

text \<open>A parser reads the encoding of a value, whatever follows it, and stops at its end.\<close>

definition reads :: "(bytes \<Rightarrow> 'a parsed) \<Rightarrow> bytes \<Rightarrow> 'a \<Rightarrow> bool" where
  "reads p enc a \<longleftrightarrow> (\<forall>rest. p (enc @ rest) = Ok (a, length enc))"

lemma readsD: "reads p enc a \<Longrightarrow> p (enc @ rest) = Ok (a, length enc)"
  by (simp add: reads_def)

lemma length_le_word [simp]: "length (le_word n w) = n"
  by (simp add: le_word_def)

lemma reads_word: "LENGTH('a::len) = 8 * n \<Longrightarrow> reads (parse_word n) (le_word n w) (w :: 'a word)"
proof -
  assume len: "LENGTH('a) = 8 * n"
  have "unat w < 2 ^ (8 * n)"
    using unsigned_less [of w, where ?'a = nat] len by simp
  then have "unat w < 256 ^ n"
    by (simp add: power_mult)
  then show ?thesis
    by (simp add: reads_def parse_word_def take_n_def le_word_def)
qed

lemma reads_map: "reads p enc a \<Longrightarrow> reads (\<lambda>bs. map_parsed f (p bs)) enc (f a)"
  by (simp add: reads_def map_parsed_def)

lemma le_at_prefix: "length pre = i \<Longrightarrow> x < 256 ^ n \<Longrightarrow> j = i + n \<Longrightarrow> le_at (pre @ to_le n x @ rest) i j = x"
  by (simp add: le_at_def)

lemma reads_string: "string_ok s \<Longrightarrow> reads parse_string (encode_string s) s"
proof -
  assume s: "string_ok s"
  then have len: "length s < 256 ^ 8" "\<not> usize_bound \<le> 8 + length s"
    by (simp_all add: string_ok_def usize_bound_def)
  have "le_at (encode_string s @ rest) 0 8 = length s" for rest
    using le_at_prefix [of "[]" 0 "length s" 8 8 "as_bytes s @ rest"] len by (simp add: encode_string_def)
  moreover have "from_utf8 (as_bytes s) = Some s"
    using s by (intro from_utf8_as_bytes) (simp add: string_ok_def)
  ultimately show ?thesis
    using len by (simp add: reads_def parse_string_def Let_def, simp add: encode_string_def)
qed

lemma reads_many:
  "(\<And>a. a \<in> set as \<Longrightarrow> reads p (e a) a) \<Longrightarrow> reads (parse_many p (length as)) (concat (map e as)) as"
proof (induction as)
  case (Cons a as)
  then have "reads p (e a) a" "reads (parse_many p (length as)) (concat (map e as)) as" by simp_all
  then show ?case
    by (simp add: reads_def)
qed (simp add: reads_def)

lemma reads_vec:
  "(\<And>a. a \<in> set as \<Longrightarrow> reads p (e a) a) \<Longrightarrow> length as * width \<le> isize_max \<Longrightarrow>
    reads (parse_vec width p (length as)) (concat (map e as)) as"
  using reads_many [of as p e] by (simp add: reads_def parse_vec_def)

lemma reads_array_body:
  assumes "reads (f (length as)) body a" and "t < 256 ^ 4" and "length as < 256 ^ 8"
    and "\<And>bs. le_at bs 0 4 = t \<Longrightarrow> 12 \<le> length bs \<Longrightarrow>
      parse_array bs = and_then (f (le_at bs 4 12) (drop 12 bs)) (\<lambda>(a, c). Ok (GArray a, 12 + c))"
  shows "reads parse_array (to_le 4 t @ to_le 8 (length as) @ body) (GArray a)"
  unfolding reads_def
proof
  fix rest
  let ?bs = "(to_le 4 t @ to_le 8 (length as) @ body) @ rest"
  have "le_at ?bs 0 4 = t"
    using le_at_prefix [of "[]" 0 t 4 4] assms(2) by simp
  moreover have "le_at ?bs 4 12 = length as"
    using le_at_prefix [of "to_le 4 t" 4 "length as" 8 12] assms(3) by simp
  moreover have "drop 12 ?bs = body @ rest"
    by simp
  ultimately show "parse_array ?bs = Ok (GArray a, length (to_le 4 t @ to_le 8 (length as) @ body))"
    using assms(4) [of ?bs] readsD [OF assms(1), of rest] by simp
qed

lemma isize_small: "n * Suc k \<le> isize_max \<Longrightarrow> n < 256 ^ 8"
  by (simp add: isize_max_def)

lemma reads_array: "array_ok a \<Longrightarrow> reads parse_array (encode_array a) (GArray a)"
proof (cases a)
  case (AI32 v)
  moreover assume "array_ok a"
  ultimately show ?thesis
    using isize_small [of "length v" 3]
    by (auto intro!: reads_array_body [where f = "\<lambda>n bs. map_parsed AI32 (parse_vec 4 (parse_word 4) n bs)"]
        reads_map reads_vec reads_word simp: parse_array_def Let_def)
next
  case (AU32 v)
  moreover assume "array_ok a"
  ultimately show ?thesis
    using isize_small [of "length v" 3]
    by (auto intro!: reads_array_body [where f = "\<lambda>n bs. map_parsed AU32 (parse_vec 4 (parse_word 4) n bs)"]
        reads_map reads_vec reads_word simp: parse_array_def Let_def)
next
  case (AU64 v)
  moreover assume "array_ok a"
  ultimately show ?thesis
    using isize_small [of "length v" 7]
    by (auto intro!: reads_array_body [where f = "\<lambda>n bs. map_parsed AU64 (parse_vec 8 (parse_word 8) n bs)"]
        reads_map reads_vec reads_word simp: parse_array_def Let_def)
next
  case (AF32 v)
  moreover assume "array_ok a"
  ultimately show ?thesis
    using isize_small [of "length v" 3]
    by (auto intro!: reads_array_body [where f = "\<lambda>n bs. map_parsed AF32 (parse_vec 4 (parse_word 4) n bs)"]
        reads_map reads_vec reads_word simp: parse_array_def Let_def)
next
  case (AString v)
  moreover assume "array_ok a"
  ultimately show ?thesis
    using isize_small [of "length v" 23]
    by (auto intro!: reads_array_body [where f = "\<lambda>n bs. map_parsed AString (parse_vec 24 parse_string n bs)"]
        reads_map reads_vec reads_string simp: parse_array_def Let_def)
qed

lemma reads_bool: "reads (parse_value 7) [if b then 1 else 0] (GBool b)"
  by (cases b) (simp_all add: reads_def parse_value_def map_parsed_def parse_word_def take_n_def)

lemma read_number:
  "LENGTH('a::len) = 8 * n \<Longrightarrow> map_parsed f (parse_word n (le_word n w @ rest)) = Ok (f (w :: 'a word), n)"
  using readsD [OF reads_word [of n w], of rest] by (simp add: map_parsed_def)

lemma reads_value: "value_ok v \<Longrightarrow> reads (parse_value (value_type v)) (encode_value v) v"
proof (cases v)
  case (GBool b)
  with reads_bool [of b] show ?thesis by simp
next
  case (GString s)
  moreover assume "value_ok v"
  ultimately show ?thesis
    using readsD [OF reads_map [OF reads_string [of s], of GString]] by (simp add: reads_def parse_value_def)
next
  case (GArray a)
  moreover assume "value_ok v"
  ultimately show ?thesis
    using readsD [OF reads_array [of a]] by (simp add: reads_def parse_value_def)
qed (simp_all add: reads_def parse_value_def read_number del: One_nat_def)

lemma value_type_small: "value_type v < 256 ^ 4"
  by (cases v) simp_all

definition entry_ok :: "string \<times> gguf_value \<Rightarrow> bool" where
  "entry_ok kv \<longleftrightarrow> string_ok (fst kv) \<and> value_ok (snd kv)"

lemma reads_kv:
  assumes "entry_ok kv"
  shows "reads parse_kv (encode_kv kv) kv"
  unfolding reads_def
proof
  fix rest
  obtain k v where kv: "kv = (k, v)" by (cases kv)
  let ?tail = "to_le 4 (value_type v) @ encode_value v @ rest"
  have "parse_string (encode_string k @ ?tail) = Ok (k, length (encode_string k))"
    using assms kv by (intro readsD reads_string) (simp add: entry_ok_def)
  moreover have "le_at ?tail 0 4 = value_type v"
    using le_at_prefix [of "[]" 0 "value_type v" 4 4 "encode_value v @ rest"] value_type_small by simp
  moreover have "parse_value (value_type v) (encode_value v @ rest) = Ok (v, length (encode_value v))"
    using assms kv by (intro readsD reads_value) (simp add: entry_ok_def)
  ultimately show "parse_kv (encode_kv kv @ rest) = Ok (kv, length (encode_kv kv))"
    by (simp add: parse_kv_def encode_kv_def kv Let_def)
qed

lemma insert_all_step:
  "entry_ok (k, v) \<Longrightarrow> insert_all (Suc n) (encode_kv (k, v) @ rest) m = insert_all n rest (m(k \<mapsto> v))"
  using readsD [OF reads_kv [of "(k, v)"], of rest] by simp

lemma insert_all_encoded:
  "(\<And>kv. kv \<in> set kvs \<Longrightarrow> entry_ok kv) \<Longrightarrow>
    insert_all (length kvs) (concat (map encode_kv kvs) @ rest) m = Ok (m ++ map_of (rev kvs))"
proof (induction kvs arbitrary: m)
  case (Cons kv kvs)
  obtain k v where kv: "kv = (k, v)" by (cases kv)
  have "insert_all (length (kv # kvs)) (concat (map encode_kv (kv # kvs)) @ rest) m
      = insert_all (length kvs) (concat (map encode_kv kvs) @ rest) (m(k \<mapsto> v))"
    using insert_all_step [of k v] Cons.prems [of kv] unfolding kv list.size(4) add_0_right add_Suc_right list.map concat.simps append_assoc
    by (simp del: insert_all.simps)
  also have "\<dots> = Ok (m(k \<mapsto> v) ++ map_of (rev kvs))"
    by (rule Cons.IH) (rule Cons.prems, simp)
  also have "m(k \<mapsto> v) ++ map_of (rev kvs) = m ++ map_of (rev (kv # kvs))"
    by (simp add: kv map_add_assoc map_add_upd_left)
  finally show ?case .
qed simp

lemma parse_header_encoded:
  assumes "n_tensors < 256 ^ 8" and "n_meta < 256 ^ 8"
  shows "parse_header (encode_header n_tensors n_meta @ rest)
    = Ok (\<lparr>gh_version = supported_version, gh_tensor_count = n_tensors, gh_metadata_count = n_meta\<rparr>, 24)"
proof -
  let ?bs = "encode_header n_tensors n_meta @ rest"
  have "le_at ?bs 4 8 = supported_version"
    using le_at_prefix [of gguf_magic 4 supported_version 4 8]
    by (simp add: encode_header_def gguf_magic_def supported_version_def)
  moreover have "le_at ?bs 8 16 = n_tensors"
    using le_at_prefix [of "gguf_magic @ to_le 4 supported_version" 8 n_tensors 8 16] assms
    by (simp add: encode_header_def gguf_magic_def)
  moreover have "le_at ?bs 16 24 = n_meta"
    using le_at_prefix [of "gguf_magic @ to_le 4 supported_version @ to_le 8 n_tensors" 16 n_meta 8 24] assms
    by (simp add: encode_header_def gguf_magic_def)
  moreover have "take 4 ?bs = gguf_magic" "24 \<le> length ?bs"
    by (simp_all add: encode_header_def gguf_magic_def)
  ultimately show ?thesis
    by (simp add: parse_header_def Let_def)
qed

text \<open>
  C26: a checkpoint written as a header and well-formed key/value pairs reads back as exactly
  the table of those pairs, the last value of a repeated key winning, whatever tensors follow.
\<close>

theorem metadata_roundtrip:
  assumes "\<And>kv. kv \<in> set kvs \<Longrightarrow> entry_ok kv" and "n_tensors < 256 ^ 8" and "length kvs < 256 ^ 8"
    and "table_fits (length kvs)"
  shows "read_metadata table_fits (encode_header n_tensors (length kvs) @ concat (map encode_kv kvs) @ rest)
    = Ok (map_of (rev kvs))"
proof -
  have "drop 24 (encode_header n_tensors (length kvs) @ concat (map encode_kv kvs) @ rest)
      = concat (map encode_kv kvs) @ rest"
    by (simp add: encode_header_def gguf_magic_def)
  with insert_all_encoded [of kvs rest Map.empty] assms(1,4) parse_header_encoded [OF assms(2,3)]
  show ?thesis
    by (simp add: read_metadata_def)
qed

lemma metadata_roundtrip_witness:
  "read_metadata (\<lambda>n. n < 1000) (encode_header 2 (length [(''a'', GU8 1), (''b'', GArray (AU32 [7, 8])), (''a'', GString ''x'')])
      @ concat (map encode_kv [(''a'', GU8 1), (''b'', GArray (AU32 [7, 8])), (''a'', GString ''x'')]) @ [0, 0])
    = Ok (map_of (rev [(''a'', GU8 1), (''b'', GArray (AU32 [7, 8])), (''a'', GString ''x'')]))"
proof (rule metadata_roundtrip)
  have "list_all entry_ok [(''a'', GU8 1), (''b'', GArray (AU32 [7, 8])), (''a'', GString ''x'')]"
    by code_simp
  then show "entry_ok kv" if "kv \<in> set [(''a'', GU8 1), (''b'', GArray (AU32 [7, 8])), (''a'', GString ''x'')]" for kv
    using that by (auto simp: list_all_iff)
qed simp_all

end
