(* ===== verification/Names.thy ===== *)
theory Names
  imports Gguf
begin

text \<open>
  Which model a checkpoint holds and how its tensors are called: the configuration read from a
  HuggingFace \<open>config.json\<close> (\<open>runtime/src/config.rs\<close>) and the two naming schemes
  (\<open>runtime/src/name_map.rs\<close>).  The parser of the JSON file is serde's, a parameter.
\<close>

section \<open>Tensor names\<close>

datatype tensor_id =
    Embedding
  | FinalNorm
  | OutputProjection
  | OutputProjectionScale
  | LayerAttnNorm nat
  | LayerQProj nat
  | LayerQProjScale nat
  | LayerKProj nat
  | LayerKProjScale nat
  | LayerVProj nat
  | LayerVProjScale nat
  | LayerOProj nat
  | LayerOProjScale nat
  | LayerFfnNorm nat
  | LayerFfnGate nat
  | LayerFfnGateScale nat
  | LayerFfnUp nat
  | LayerFfnUpScale nat
  | LayerFfnDown nat
  | LayerFfnDownScale nat
  | OutputProjectionQ4Weight
  | OutputProjectionQ4Scale
  | LayerQProjQ4Weight nat
  | LayerQProjQ4Scale nat
  | LayerKProjQ4Weight nat
  | LayerKProjQ4Scale nat
  | LayerVProjQ4Weight nat
  | LayerVProjQ4Scale nat
  | LayerOProjQ4Weight nat
  | LayerOProjQ4Scale nat
  | LayerFfnGateQ4Weight nat
  | LayerFfnGateQ4Scale nat
  | LayerFfnUpQ4Weight nat
  | LayerFfnUpQ4Scale nat
  | LayerFfnDownQ4Weight nat
  | LayerFfnDownQ4Scale nat

primrec llama_style :: "tensor_id \<Rightarrow> string" where
  "llama_style Embedding = ''model.embed_tokens.weight''"
| "llama_style FinalNorm = ''model.norm.weight''"
| "llama_style OutputProjection = ''lm_head.weight''"
| "llama_style OutputProjectionScale = ''lm_head.weight.scale''"
| "llama_style (LayerAttnNorm i) = ''model.layers.'' @ decimal i @ ''.input_layernorm.weight''"
| "llama_style (LayerQProj i) = ''model.layers.'' @ decimal i @ ''.self_attn.q_proj.weight''"
| "llama_style (LayerQProjScale i) = ''model.layers.'' @ decimal i @ ''.self_attn.q_proj.weight.scale''"
| "llama_style (LayerKProj i) = ''model.layers.'' @ decimal i @ ''.self_attn.k_proj.weight''"
| "llama_style (LayerKProjScale i) = ''model.layers.'' @ decimal i @ ''.self_attn.k_proj.weight.scale''"
| "llama_style (LayerVProj i) = ''model.layers.'' @ decimal i @ ''.self_attn.v_proj.weight''"
| "llama_style (LayerVProjScale i) = ''model.layers.'' @ decimal i @ ''.self_attn.v_proj.weight.scale''"
| "llama_style (LayerOProj i) = ''model.layers.'' @ decimal i @ ''.self_attn.o_proj.weight''"
| "llama_style (LayerOProjScale i) = ''model.layers.'' @ decimal i @ ''.self_attn.o_proj.weight.scale''"
| "llama_style (LayerFfnNorm i) = ''model.layers.'' @ decimal i @ ''.post_attention_layernorm.weight''"
| "llama_style (LayerFfnGate i) = ''model.layers.'' @ decimal i @ ''.mlp.gate_proj.weight''"
| "llama_style (LayerFfnGateScale i) = ''model.layers.'' @ decimal i @ ''.mlp.gate_proj.weight.scale''"
| "llama_style (LayerFfnUp i) = ''model.layers.'' @ decimal i @ ''.mlp.up_proj.weight''"
| "llama_style (LayerFfnUpScale i) = ''model.layers.'' @ decimal i @ ''.mlp.up_proj.weight.scale''"
| "llama_style (LayerFfnDown i) = ''model.layers.'' @ decimal i @ ''.mlp.down_proj.weight''"
| "llama_style (LayerFfnDownScale i) = ''model.layers.'' @ decimal i @ ''.mlp.down_proj.weight.scale''"
| "llama_style OutputProjectionQ4Weight = ''lm_head.weight.q4_weight''"
| "llama_style OutputProjectionQ4Scale = ''lm_head.weight.q4_scale''"
| "llama_style (LayerQProjQ4Weight i) = ''model.layers.'' @ decimal i @ ''.self_attn.q_proj.weight.q4_weight''"
| "llama_style (LayerQProjQ4Scale i) = ''model.layers.'' @ decimal i @ ''.self_attn.q_proj.weight.q4_scale''"
| "llama_style (LayerKProjQ4Weight i) = ''model.layers.'' @ decimal i @ ''.self_attn.k_proj.weight.q4_weight''"
| "llama_style (LayerKProjQ4Scale i) = ''model.layers.'' @ decimal i @ ''.self_attn.k_proj.weight.q4_scale''"
| "llama_style (LayerVProjQ4Weight i) = ''model.layers.'' @ decimal i @ ''.self_attn.v_proj.weight.q4_weight''"
| "llama_style (LayerVProjQ4Scale i) = ''model.layers.'' @ decimal i @ ''.self_attn.v_proj.weight.q4_scale''"
| "llama_style (LayerOProjQ4Weight i) = ''model.layers.'' @ decimal i @ ''.self_attn.o_proj.weight.q4_weight''"
| "llama_style (LayerOProjQ4Scale i) = ''model.layers.'' @ decimal i @ ''.self_attn.o_proj.weight.q4_scale''"
| "llama_style (LayerFfnGateQ4Weight i) = ''model.layers.'' @ decimal i @ ''.mlp.gate_proj.weight.q4_weight''"
| "llama_style (LayerFfnGateQ4Scale i) = ''model.layers.'' @ decimal i @ ''.mlp.gate_proj.weight.q4_scale''"
| "llama_style (LayerFfnUpQ4Weight i) = ''model.layers.'' @ decimal i @ ''.mlp.up_proj.weight.q4_weight''"
| "llama_style (LayerFfnUpQ4Scale i) = ''model.layers.'' @ decimal i @ ''.mlp.up_proj.weight.q4_scale''"
| "llama_style (LayerFfnDownQ4Weight i) = ''model.layers.'' @ decimal i @ ''.mlp.down_proj.weight.q4_weight''"
| "llama_style (LayerFfnDownQ4Scale i) = ''model.layers.'' @ decimal i @ ''.mlp.down_proj.weight.q4_scale''"

definition lookup_name :: "model_family \<Rightarrow> tensor_id \<Rightarrow> string" where
  "lookup_name family tensor = (case family of
     Llama3 \<Rightarrow> llama_style tensor
   | Mistral \<Rightarrow> llama_style tensor
   | DeepSeekV2 \<Rightarrow> llama_style tensor
   | Qwen25 \<Rightarrow> llama_style tensor)"

text \<open>\<open>str::find('.')\<close>\<close>

definition find_dot :: "string \<Rightarrow> nat option" where
  "find_dot s = (let n = length (takeWhile (\<lambda>c. c \<noteq> CHR ''.'') s) in if n < length s then Some n else None)"

text \<open>What follows the layer number, and its HuggingFace counterpart.\<close>

definition gguf_kinds :: "(string \<times> string) list" where
  "gguf_kinds =
     [(''attn_norm.weight'', ''input_layernorm.weight''),
      (''attn_q.weight'', ''self_attn.q_proj.weight''),
      (''attn_k.weight'', ''self_attn.k_proj.weight''),
      (''attn_v.weight'', ''self_attn.v_proj.weight''),
      (''attn_output.weight'', ''self_attn.o_proj.weight''),
      (''ffn_norm.weight'', ''post_attention_layernorm.weight''),
      (''ffn_gate.weight'', ''mlp.gate_proj.weight''),
      (''ffn_up.weight'', ''mlp.up_proj.weight''),
      (''ffn_down.weight'', ''mlp.down_proj.weight'')]"

definition layer_name :: "nat \<Rightarrow> string \<Rightarrow> string option" where
  "layer_name layer rest = map_option (\<lambda>s. ''model.layers.'' @ decimal layer @ ''.'' @ s) (map_of gguf_kinds rest)"

definition hf_from_gguf :: "string \<Rightarrow> string option" where
  "hf_from_gguf name =
     (if name = ''token_embd.weight'' then Some ''model.embed_tokens.weight''
      else if name = ''output_norm.weight'' then Some ''model.norm.weight''
      else if name = ''output.weight'' then Some ''lm_head.weight''
      else Option.bind (strip_prefix ''blk.'' name) (\<lambda>stripped.
        Option.bind (find_dot stripped) (\<lambda>dot.
        Option.bind (parse_usize (take dot stripped)) (\<lambda>layer.
          layer_name layer (drop (dot + 1) stripped)))))"

text \<open>The name a GGUF checkpoint gives a tensor.\<close>

definition gguf_name :: "tensor_id \<Rightarrow> string option" where
  "gguf_name tensor = (case tensor of
     Embedding \<Rightarrow> Some ''token_embd.weight''
   | FinalNorm \<Rightarrow> Some ''output_norm.weight''
   | OutputProjection \<Rightarrow> Some ''output.weight''
   | LayerAttnNorm i \<Rightarrow> Some (''blk.'' @ decimal i @ ''.attn_norm.weight'')
   | LayerQProj i \<Rightarrow> Some (''blk.'' @ decimal i @ ''.attn_q.weight'')
   | LayerKProj i \<Rightarrow> Some (''blk.'' @ decimal i @ ''.attn_k.weight'')
   | LayerVProj i \<Rightarrow> Some (''blk.'' @ decimal i @ ''.attn_v.weight'')
   | LayerOProj i \<Rightarrow> Some (''blk.'' @ decimal i @ ''.attn_output.weight'')
   | LayerFfnNorm i \<Rightarrow> Some (''blk.'' @ decimal i @ ''.ffn_norm.weight'')
   | LayerFfnGate i \<Rightarrow> Some (''blk.'' @ decimal i @ ''.ffn_gate.weight'')
   | LayerFfnUp i \<Rightarrow> Some (''blk.'' @ decimal i @ ''.ffn_up.weight'')
   | LayerFfnDown i \<Rightarrow> Some (''blk.'' @ decimal i @ ''.ffn_down.weight'')
   | _ \<Rightarrow> None)"

definition layer_of :: "tensor_id \<Rightarrow> nat" where
  "layer_of tensor = (case tensor of
     LayerAttnNorm i \<Rightarrow> i
   | LayerQProj i \<Rightarrow> i
   | LayerKProj i \<Rightarrow> i
   | LayerVProj i \<Rightarrow> i
   | LayerOProj i \<Rightarrow> i
   | LayerFfnNorm i \<Rightarrow> i
   | LayerFfnGate i \<Rightarrow> i
   | LayerFfnUp i \<Rightarrow> i
   | LayerFfnDown i \<Rightarrow> i
   | _ \<Rightarrow> 0)"

lemma lookup_eq: "lookup_name family tensor = llama_style tensor"
  by (simp add: lookup_name_def split: model_family.split)

lemma no_dot_in_decimal: "takeWhile (\<lambda>c. c \<noteq> CHR ''.'') (decimal i @ CHR ''.'' # s) = decimal i"
proof -
  have "c \<noteq> CHR ''.''" if "c \<in> set (decimal i)" for c
    using decimal_digits [OF that] by (auto simp: digit_value_def)
  then show ?thesis
    by (subst takeWhile_append2) auto
qed

lemma hf_from_gguf_layer:
  assumes "i < 2 ^ 64"
  shows "hf_from_gguf (''blk.'' @ decimal i @ CHR ''.'' # s) = layer_name i s"
proof -
  have "find_dot (decimal i @ CHR ''.'' # s) = Some (length (decimal i))"
    by (simp add: find_dot_def no_dot_in_decimal)
  with assms show ?thesis
    by (simp add: hf_from_gguf_def)
qed

text \<open>
  Every tensor of a checkpoint that the loader translates is found again under the name the
  model looks it up by.
\<close>

lemma kind_names:
  "map_of gguf_kinds ''attn_norm.weight'' = Some ''input_layernorm.weight''"
  "map_of gguf_kinds ''attn_q.weight'' = Some ''self_attn.q_proj.weight''"
  "map_of gguf_kinds ''attn_k.weight'' = Some ''self_attn.k_proj.weight''"
  "map_of gguf_kinds ''attn_v.weight'' = Some ''self_attn.v_proj.weight''"
  "map_of gguf_kinds ''attn_output.weight'' = Some ''self_attn.o_proj.weight''"
  "map_of gguf_kinds ''ffn_norm.weight'' = Some ''post_attention_layernorm.weight''"
  "map_of gguf_kinds ''ffn_gate.weight'' = Some ''mlp.gate_proj.weight''"
  "map_of gguf_kinds ''ffn_up.weight'' = Some ''mlp.up_proj.weight''"
  "map_of gguf_kinds ''ffn_down.weight'' = Some ''mlp.down_proj.weight''"
  by (simp_all add: gguf_kinds_def)

lemma boundary_names:
  "hf_from_gguf ''token_embd.weight'' = Some ''model.embed_tokens.weight''"
  "hf_from_gguf ''output_norm.weight'' = Some ''model.norm.weight''"
  "hf_from_gguf ''output.weight'' = Some ''lm_head.weight''"
  by (simp_all add: hf_from_gguf_def)

lemma hf_from_gguf_lookup:
  assumes "gguf_name tensor = Some g" and "layer_of tensor < 2 ^ 64"
  shows "hf_from_gguf g = Some (lookup_name family tensor)"
proof -
  have layer: "hf_from_gguf (''blk.'' @ decimal i @ CHR ''.'' # k) = Some (''model.layers.'' @ decimal i @ CHR ''.'' # h)"
    if "i < 2 ^ 64" "map_of gguf_kinds k = Some h" for i k h
    using hf_from_gguf_layer [OF that(1), of k] that(2)
    by (simp only: layer_name_def option.map append_Cons append_Nil)
  show ?thesis
    using assms
    by (cases tensor; simp only: gguf_name_def layer_of_def tensor_id.case option.inject option.distinct lookup_eq llama_style.simps)
      (drule sym, simp only: boundary_names layer kind_names)+
qed

lemma hf_from_gguf_sound:
  assumes "hf_from_gguf g = Some h"
  shows "\<exists>tensor. h = lookup_name family tensor \<and> gguf_name tensor \<noteq> None"
proof -
  consider "h = ''model.embed_tokens.weight''" | "h = ''model.norm.weight''" | "h = ''lm_head.weight''"
    | i s where "layer_name i s = Some h"
  proof (cases "g = ''token_embd.weight'' \<or> g = ''output_norm.weight'' \<or> g = ''output.weight''")
    case True
    with assms show ?thesis
      using that(1-3) boundary_names by (elim disjE) (simp_all only: option.inject)
  next
    case False
    with assms have "Option.bind (strip_prefix ''blk.'' g) (\<lambda>stripped.
        Option.bind (find_dot stripped) (\<lambda>dot.
        Option.bind (parse_usize (take dot stripped)) (\<lambda>layer. layer_name layer (drop (dot + 1) stripped)))) = Some h"
      unfolding hf_from_gguf_def de_Morgan_disj by (simp only: if_False)
    then obtain i s where "layer_name i s = Some h"
      unfolding bind_eq_Some_conv by blast
    then show ?thesis by (rule that(4))
  qed
  then show ?thesis
  proof cases
    case 1
    then show ?thesis by (intro exI [of _ Embedding]) (simp add: lookup_eq gguf_name_def)
  next
    case 2
    then show ?thesis by (intro exI [of _ FinalNorm]) (simp add: lookup_eq gguf_name_def)
  next
    case 3
    then show ?thesis by (intro exI [of _ OutputProjection]) (simp add: lookup_eq gguf_name_def)
  next
    case (4 i s)
    then obtain k where k: "(s, k) \<in> set gguf_kinds" and h: "h = ''model.layers.'' @ decimal i @ ''.'' @ k"
      by (auto simp: layer_name_def dest: map_of_SomeD)
    have named: "\<forall>k \<in> snd ` set gguf_kinds. \<exists>tensor \<in> set [LayerAttnNorm i, LayerQProj i, LayerKProj i, LayerVProj i,
        LayerOProj i, LayerFfnNorm i, LayerFfnGate i, LayerFfnUp i, LayerFfnDown i].
        ''model.layers.'' @ decimal i @ ''.'' @ k = llama_style tensor \<and> gguf_name tensor \<noteq> None"
      by (simp add: gguf_kinds_def gguf_name_def)
    have "k \<in> snd ` set gguf_kinds"
      using k by (rule image_eqI [rotated]) simp
    from bspec [OF named this] show ?thesis
      unfolding lookup_eq h by blast
  qed
qed

section \<open>The HuggingFace configuration\<close>

text \<open>
  \<open>str::to_lowercase\<close> up to the letters outside ASCII, which it maps among themselves, the
  Kelvin sign and the dotted capital I apart: it maps those to \<open>k\<close> and to \<open>i\<close> and a combining dot.
\<close>

fun to_lowercase :: "string \<Rightarrow> string" where
  "to_lowercase (a # b # c # s) =
     (if a = char_of (226 :: nat) \<and> b = char_of (132 :: nat) \<and> c = char_of (170 :: nat) then CHR ''k'' # to_lowercase s
      else if a = char_of (196 :: nat) \<and> b = char_of (176 :: nat)
        then CHR ''i'' # char_of (204 :: nat) # char_of (135 :: nat) # to_lowercase (c # s)
      else lower a # to_lowercase (b # c # s))"
| "to_lowercase [a, b] =
     (if a = char_of (196 :: nat) \<and> b = char_of (176 :: nat) then [CHR ''i'', char_of (204 :: nat), char_of (135 :: nat)]
      else [lower a, lower b])"
| "to_lowercase [a] = [lower a]"
| "to_lowercase [] = []"

fun contains :: "string \<Rightarrow> string \<Rightarrow> bool" where
  "contains [] pat = (pat = [])"
| "contains (c # cs) pat = (strip_prefix pat (c # cs) \<noteq> None \<or> contains cs pat)"

record hf_config =
  hf_architectures :: "string list"
  hf_hidden_size :: nat
  hf_intermediate_size :: nat
  hf_num_hidden_layers :: nat
  hf_num_attention_heads :: nat
  hf_num_key_value_heads :: "nat option"
  hf_head_dim :: "nat option"
  hf_vocab_size :: nat
  hf_max_position_embeddings :: nat
  hf_rope_theta :: u32
  hf_rms_norm_eps :: u32
  hf_tie_word_embeddings :: bool

fun detect_from :: "string list \<Rightarrow> string list \<Rightarrow> (gguf_error, model_family) outcome" where
  "detect_from architectures [] = Err (ConfigError ''unknown model architecture'')"
| "detect_from architectures (arch # rest) =
     (let lc = to_lowercase arch in
      if contains lc ''mixtral'' then Err (ConfigError (''Mixtral / MoE not supported: '' @ arch))
      else if contains lc ''llama'' then Ok Llama3
      else if contains lc ''mistral'' then Ok Mistral
      else if contains lc ''qwen'' then Ok Qwen25
      else if contains lc ''deepseek'' then Ok DeepSeekV2
      else detect_from architectures rest)"

definition detect_family :: "string list \<Rightarrow> (gguf_error, model_family) outcome" where
  "detect_family architectures = detect_from architectures architectures"

text \<open>\<open>unwrap_or\<close> computes its argument first, so zero heads panic even where a head size is given.\<close>

definition config_from_hf :: "hf_config \<Rightarrow> (gguf_error, model_config) outcome" where
  "config_from_hf raw =
     and_then (detect_family (hf_architectures raw)) (\<lambda>family.
     let n_kv_heads = (case hf_num_key_value_heads raw of None \<Rightarrow> hf_num_attention_heads raw | Some n \<Rightarrow> n) in
     and_then (checked_div (hf_hidden_size raw) (hf_num_attention_heads raw)) (\<lambda>per_head.
     let head_dim = (case hf_head_dim raw of None \<Rightarrow> per_head | Some d \<Rightarrow> d) in
       Ok \<lparr>mc_hidden_size = hf_hidden_size raw, mc_intermediate_size = hf_intermediate_size raw,
           mc_n_layers = hf_num_hidden_layers raw, mc_n_heads = hf_num_attention_heads raw,
           mc_n_kv_heads = n_kv_heads, mc_head_dim = head_dim, mc_vocab_size = hf_vocab_size raw,
           mc_max_position_embeddings = hf_max_position_embeddings raw, mc_rope_theta = hf_rope_theta raw,
           mc_rms_norm_eps = hf_rms_norm_eps raw, mc_tie_word_embeddings = hf_tie_word_embeddings raw,
           mc_family = family\<rparr>))"

definition config_from_str :: "(string \<Rightarrow> (string, hf_config) outcome) \<Rightarrow> string \<Rightarrow> (gguf_error, model_config) outcome" where
  "config_from_str parse_json s = (case parse_json s of
     Ok raw \<Rightarrow> config_from_hf raw
   | Err e \<Rightarrow> Err (ConfigError (''config.json parse: '' @ e))
   | Panic \<Rightarrow> Panic)"

lemma zero_heads_panic:
  "detect_family (hf_architectures raw) = Ok family \<Longrightarrow> hf_num_attention_heads raw = 0 \<Longrightarrow> config_from_hf raw = Panic"
  by (simp add: config_from_hf_def checked_div_def Let_def)

lemma contains_mixtral_first:
  "contains (to_lowercase arch) ''mixtral'' \<Longrightarrow> detect_family (arch # rest) = Err (ConfigError (''Mixtral / MoE not supported: '' @ arch))"
  by (simp add: detect_family_def)

section \<open>Paths\<close>

fun split_on :: "char \<Rightarrow> string \<Rightarrow> string list" where
  "split_on d [] = [[]]"
| "split_on d (c # cs) = (if c = d then [] # split_on d cs
     else case split_on d cs of [] \<Rightarrow> [[c]] | w # ws \<Rightarrow> (c # w) # ws)"

text \<open>\<open>Path::file_name\<close>: the last component, unless it is a parent.\<close>

definition file_name :: "string \<Rightarrow> string option" where
  "file_name path = (case rev (filter (\<lambda>c. c \<noteq> [] \<and> c \<noteq> ''.'') (split_on CHR ''/'' path)) of
     [] \<Rightarrow> None
   | c # cs \<Rightarrow> if c = ''..'' then None else Some c)"

end
