(* ===== verification/Quant.thy ===== *)
theory Quant
  imports Prelude
begin

text \<open>
  Quantised weights: the engine's own Q8 and Q4 tensors (\<open>runtime/src/quant.rs\<close>) and the
  block formats of GGUF checkpoints (\<open>runtime/src/gguf/q4_0.rs\<close>, \<open>q4_1.rs\<close>,
  \<open>q6_k.rs\<close>).  Floats are an opaque type whose operations are the fields of
  \<open>quant_ops\<close>; codes, nibbles, bytes and every index are concrete.  An index out of range
  panics.  The loops that fill a buffer are shown to compute it element by element.
\<close>

unbundle bit_operations_syntax

record 'f quant_ops =
  qf_int :: "int \<Rightarrow> 'f"  \<comment> \<open>a literal, or \<open>as f32\<close>\<close>
  qf_abs :: "'f \<Rightarrow> 'f"
  qf_max :: "'f \<Rightarrow> 'f \<Rightarrow> 'f"
  qf_lt :: "'f \<Rightarrow> 'f \<Rightarrow> bool"
  qf_eq :: "'f \<Rightarrow> 'f \<Rightarrow> bool"
  qf_mul :: "'f \<Rightarrow> 'f \<Rightarrow> 'f"
  qf_add :: "'f \<Rightarrow> 'f \<Rightarrow> 'f"
  qf_div :: "'f \<Rightarrow> 'f \<Rightarrow> 'f"
  qf_round :: "'f \<Rightarrow> 'f"
  qf_clamp :: "'f \<Rightarrow> 'f \<Rightarrow> 'f \<Rightarrow> 'f"  \<comment> \<open>value, low, high\<close>
  qf_to_i32 :: "'f \<Rightarrow> int"  \<comment> \<open>the saturating cast\<close>
  qf_to_i8 :: "'f \<Rightarrow> 8 word"
  qf_f16 :: "u16 \<Rightarrow> 'f"  \<comment> \<open>\<open>f16::from_bits(x).to_f32()\<close>\<close>

type_synonym 'a checked = "(string, 'a) outcome"

section \<open>Buffers and loops\<close>

text \<open>\<open>xs[k]\<close>, \<open>xs[k] = v\<close>, \<open>&xs[i..i + n]\<close>, and \<open>for i in is\<close>.\<close>

definition index :: "'a list \<Rightarrow> nat \<Rightarrow> 'a checked" where
  "index xs k = (if k < length xs then Ok (xs ! k) else Panic)"

definition store :: "nat \<Rightarrow> 'a \<Rightarrow> 'a list \<Rightarrow> 'a list checked" where
  "store k v xs = (if k < length xs then Ok (xs[k := v]) else Panic)"

definition slice :: "'a list \<Rightarrow> nat \<Rightarrow> nat \<Rightarrow> 'a list checked" where
  "slice xs i n = (if i + n \<le> length xs then Ok (take n (drop i xs)) else Panic)"

definition splice :: "'a list \<Rightarrow> nat \<Rightarrow> 'a list \<Rightarrow> 'a list" where
  "splice xs i ys = take i xs @ ys @ drop (i + length ys) xs"

fun for_each :: "'i list \<Rightarrow> ('i \<Rightarrow> 's \<Rightarrow> 's checked) \<Rightarrow> 's \<Rightarrow> 's checked" where
  "for_each [] f s = Ok s"
| "for_each (i # is) f s = and_then (f i s) (for_each is f)"

text \<open>\<open>(0..n).step_by(2)\<close>\<close>

definition evens :: "nat \<Rightarrow> nat list" where
  "evens n = map ((*) 2) [0..<(n + 1) div 2]"

definition perform :: "(nat \<times> 'a) list \<Rightarrow> 'a list \<Rightarrow> 'a list" where
  "perform ws xs = foldl (\<lambda>xs (k, v). xs[k := v]) xs ws"

lemma length_perform [simp]: "length (perform ws xs) = length xs"
  by (induction ws arbitrary: xs) (auto simp: perform_def)

lemma perform_append: "perform (us @ vs) xs = perform vs (perform us xs)"
  by (simp add: perform_def)

lemma perform_simps [simp]:
  "perform [] xs = xs"
  "perform ((k, v) # ws) xs = perform ws (xs[k := v])"
  by (simp_all add: perform_def)

text \<open>Writes that all agree with a function leave its values where they wrote.\<close>

lemma nth_perform:
  "(\<And>k v. (k, v) \<in> set ws \<Longrightarrow> v = g k) \<Longrightarrow> k < length xs \<Longrightarrow>
    perform ws xs ! k = (if k \<in> fst ` set ws then g k else xs ! k)"
proof (induction ws arbitrary: xs)
  case (Cons w ws)
  obtain k' v where w: "w = (k', v)" by (cases w)
  with Cons.prems(1) have v: "v = g k'" by simp
  have "perform ws (xs[k' := v]) ! k = (if k \<in> fst ` set ws then g k else xs[k' := v] ! k)"
    by (rule Cons.IH) (simp_all add: Cons.prems)
  with Cons.prems(2) show ?case
    by (simp add: w v nth_list_update)
qed simp

lemma perform_eq_map:
  assumes "\<And>k v. (k, v) \<in> set ws \<Longrightarrow> v = g k" and "\<And>k. k < length xs \<Longrightarrow> k \<in> fst ` set ws"
  shows "perform ws xs = map g [0..<length xs]"
proof (rule nth_equalityI)
  fix k
  assume "k < length (perform ws xs)"
  then show "perform ws xs ! k = map g [0..<length xs] ! k"
    using nth_perform [of ws g k xs] assms by simp
qed simp

lemma for_each_writes:
  assumes "\<And>i s. i \<in> set is \<Longrightarrow> length s = n \<Longrightarrow> f i s = Ok (perform (ws i) s)" and "length s = n"
  shows "for_each is f s = Ok (perform (concat (map ws is)) s)"
  using assms
proof (induction "is" arbitrary: s)
  case (Cons i "is")
  then have "f i s = Ok (perform (ws i) s)" by simp
  moreover have "for_each is f (perform (ws i) s) = Ok (perform (concat (map ws is)) (perform (ws i) s))"
    by (rule Cons.IH) (use Cons.prems in auto)
  ultimately show ?case
    by (simp add: perform_append)
qed simp

text \<open>A loop that writes one function's values, whatever it writes in what order.\<close>

lemma for_each_fills:
  assumes "\<And>i s. i \<in> set is \<Longrightarrow> length s = n \<Longrightarrow> f i s = Ok (perform (ws i) s)" and "length s = n"
    and "\<And>i k v. i \<in> set is \<Longrightarrow> (k, v) \<in> set (ws i) \<Longrightarrow> v = g k"
    and "\<And>k. k < n \<Longrightarrow> \<exists>i \<in> set is. k \<in> fst ` set (ws i)"
  shows "for_each is f s = Ok (map g [0..<n])"
proof -
  have "for_each is f s = Ok (perform (concat (map ws is)) s)"
    using assms(1,2) by (rule for_each_writes)
  also have "perform (concat (map ws is)) s = map g [0..<length s]"
  proof (rule perform_eq_map)
    show "v = g k" if "(k, v) \<in> set (concat (map ws is))" for k v
      using that assms(3) by auto
    show "k \<in> fst ` set (concat (map ws is))" if "k < length s" for k
      using assms(4) [of k] that assms(2) by force
  qed
  finally show ?thesis
    using assms(2) by simp
qed

lemma for_each_pure:
  "(\<And>i s. i \<in> set is \<Longrightarrow> f i s = Ok (h i s)) \<Longrightarrow> for_each is f s = Ok (fold h is s)"
  by (induction "is" arbitrary: s) auto

lemma store_in [simp]: "k < length xs \<Longrightarrow> store k v xs = Ok (xs[k := v])"
  by (simp add: store_def)

lemma index_in [simp]: "k < length xs \<Longrightarrow> index xs k = Ok (xs ! k)"
  by (simp add: index_def)

lemma slice_in [simp]: "i + n \<le> length xs \<Longrightarrow> slice xs i n = Ok (take n (drop i xs))"
  by (simp add: slice_def)

lemma set_evens: "set (evens n) = {j. j < n \<and> even j}" if "even n"
  using that by (auto simp: evens_def elim!: evenE)

text \<open>Row-major positions.\<close>

lemma position_less: "i < m \<Longrightarrow> j < n \<Longrightarrow> i * n + j < m * (n :: nat)"
proof -
  assume "i < m" "j < n"
  then have "i * n + j < i * n + n" by simp
  also have "\<dots> = Suc i * n" by simp
  also have "\<dots> \<le> m * n"
    using \<open>i < m\<close> by (intro mult_le_mono1) simp
  finally show ?thesis .
qed

lemma position_split: "k < m * (n :: nat) \<Longrightarrow> k div n < m \<and> k mod n < n \<and> (k div n) * n + k mod n = k"
proof -
  assume k: "k < m * n"
  then have "0 < n" by (cases n) simp_all
  with k show ?thesis
    by (simp add: less_mult_imp_div_less)
qed

lemma position_div: "j < (n :: nat) \<Longrightarrow> (i * n + j) div n = i" "j < (n :: nat) \<Longrightarrow> (i * n + j) mod n = j"
  by simp_all

section \<open>Per-tensor Q8\<close>

record 'f q8_tensor =
  q8_packed :: "8 word list"
  q8_scale :: 'f
  q8_shape :: "nat \<times> nat"

definition q8_quantize :: "'f quant_ops \<Rightarrow> 'f list \<Rightarrow> nat \<times> nat \<Rightarrow> 'f q8_tensor" where
  "q8_quantize q values shape =
     (let max_abs = foldl (\<lambda>acc x. qf_max q acc (qf_abs q x)) (qf_int q 0) values;
          scale = (if qf_eq q max_abs (qf_int q 0) then qf_int q 1 else qf_div q max_abs (qf_int q 127))
      in \<lparr>q8_packed = map (\<lambda>v. qf_to_i8 q (qf_clamp q (qf_round q (qf_div q v scale)) (qf_int q (-127)) (qf_int q 127))) values,
          q8_scale = scale, q8_shape = shape\<rparr>)"

definition q8_from_packed :: "8 word list \<Rightarrow> 'f \<Rightarrow> nat \<times> nat \<Rightarrow> 'f q8_tensor checked" where
  "q8_from_packed packed scale shape =
     (if length packed \<noteq> fst shape * snd shape then Panic
      else Ok \<lparr>q8_packed = packed, q8_scale = scale, q8_shape = shape\<rparr>)"

definition q8_dequantize :: "'f quant_ops \<Rightarrow> 'f q8_tensor \<Rightarrow> 'f list" where
  "q8_dequantize q t = map (\<lambda>x. qf_mul q (qf_int q (sint x)) (q8_scale t)) (q8_packed t)"

definition q8_transpose :: "'f q8_tensor \<Rightarrow> 'f q8_tensor checked" where
  "q8_transpose t =
     (let (r, c) = q8_shape t in
      and_then (for_each [0..<r] (\<lambda>i. for_each [0..<c] (\<lambda>j packed.
          and_then (index (q8_packed t) (i * c + j)) (\<lambda>v. store (j * r + i) v packed)))
        (replicate (r * c) 0))
      (\<lambda>packed. Ok \<lparr>q8_packed = packed, q8_scale = q8_scale t, q8_shape = (c, r)\<rparr>))"

definition q8_wf :: "'f q8_tensor \<Rightarrow> bool" where
  "q8_wf t \<longleftrightarrow> length (q8_packed t) = fst (q8_shape t) * snd (q8_shape t)"

lemma q8_from_packed_wf: "q8_from_packed p s sh = Ok t \<Longrightarrow> q8_wf t"
  by (auto simp: q8_from_packed_def q8_wf_def split: if_splits)

lemma q8_transpose_eq:
  assumes "q8_wf t" and "q8_shape t = (r, c)"
  shows "q8_transpose t = Ok \<lparr>q8_packed = map (\<lambda>k. q8_packed t ! ((k mod r) * c + k div r)) [0..<r * c],
    q8_scale = q8_scale t, q8_shape = (c, r)\<rparr>"
proof -
  let ?ws = "\<lambda>i. map (\<lambda>j. (j * r + i, q8_packed t ! (i * c + j))) [0..<c]"
  have len: "length (q8_packed t) = r * c"
    using assms by (simp add: q8_wf_def)
  have "for_each [0..<r] (\<lambda>i. for_each [0..<c] (\<lambda>j packed.
          and_then (index (q8_packed t) (i * c + j)) (\<lambda>v. store (j * r + i) v packed))) (replicate (r * c) 0)
      = Ok (map (\<lambda>k. q8_packed t ! ((k mod r) * c + k div r)) [0..<r * c])"
  proof (rule for_each_fills [where ws = ?ws])
    fix i and s :: "8 word list"
    assume i: "i \<in> set [0..<r]" and s: "length s = r * c"
    have "for_each [0..<c] (\<lambda>j packed.
          and_then (index (q8_packed t) (i * c + j)) (\<lambda>v. store (j * r + i) v packed)) s
        = Ok (perform (concat (map (\<lambda>j. [(j * r + i, q8_packed t ! (i * c + j))]) [0..<c])) s)"
      by (rule for_each_writes [where n = "r * c"])
        (use i s len position_less [of i r _ c] position_less [of _ c i r] in \<open>auto simp: mult.commute\<close>)
    then show "for_each [0..<c] (\<lambda>j packed.
          and_then (index (q8_packed t) (i * c + j)) (\<lambda>v. store (j * r + i) v packed)) s
        = Ok (perform (?ws i) s)"
      by (simp add: concat_map_singleton)
  next
    fix k
    assume "k < r * c"
    with position_split [of k c r] have "k mod r \<in> set [0..<r] \<and> k div r < c \<and> (k div r) * r + k mod r = k"
      by (auto simp: mult.commute)
    then show "\<exists>i \<in> set [0..<r]. k \<in> fst ` set (?ws i)"
      by (intro bexI [of _ "k mod r"]) (force simp: image_iff)+
  qed auto
  then show ?thesis
    by (simp add: q8_transpose_def assms(2))
qed

text \<open>Transposing loses nothing: it moves element \<open>(i, j)\<close> to \<open>(j, i)\<close>, and twice is nothing.\<close>

lemma q8_transpose_involutive:
  assumes "q8_wf t"
  shows "and_then (q8_transpose t) q8_transpose = Ok t"
proof -
  obtain r c where sh: "q8_shape t = (r, c)" by (cases "q8_shape t")
  let ?p = "map (\<lambda>k. q8_packed t ! ((k mod r) * c + k div r)) [0..<r * c]"
  have len: "length (q8_packed t) = r * c"
    using assms sh by (simp add: q8_wf_def)
  have "map (\<lambda>k. ?p ! ((k mod c) * r + k div c)) [0..<c * r] = q8_packed t"
  proof (rule nth_equalityI)
    fix k
    assume "k < length (map (\<lambda>k. ?p ! ((k mod c) * r + k div c)) [0..<c * r])"
    then have k: "k < r * c" by (simp add: mult.commute)
    with position_split [OF k] position_less [of "k mod c" c "k div c" r]
    show "map (\<lambda>k. ?p ! ((k mod c) * r + k div c)) [0..<c * r] ! k = q8_packed t ! k"
      by (simp add: mult.commute)
  qed (simp add: len mult.commute)
  with assms sh show ?thesis
    by (simp add: q8_transpose_eq [OF assms sh], subst q8_transpose_eq [where r = c and c = r])
      (simp_all add: q8_wf_def mult.commute)
qed

section \<open>Per-group Q4\<close>

record 'f q4_tensor =
  q4_packed :: bytes
  q4_scales :: "'f list"
  q4_shape :: "nat \<times> nat"

definition q4_group :: nat where
  "q4_group = 32"

text \<open>\<open>((v / s).round() as i32).clamp(-7, 7)\<close>\<close>

definition q4_code :: "'f quant_ops \<Rightarrow> 'f \<Rightarrow> 'f \<Rightarrow> int" where
  "q4_code q v s = min 7 (max (-7) (qf_to_i32 q (qf_round q (qf_div q v s))))"

definition q4_pack :: "int \<Rightarrow> int \<Rightarrow> u8" where
  "q4_pack q_lo q_hi = (word_of_int q_lo AND 0x0F) OR push_bit 4 (word_of_int q_hi AND 0x0F)"

definition low_nibble :: "u8 \<Rightarrow> u8" where
  "low_nibble byte = byte AND 0x0F"

definition high_nibble :: "u8 \<Rightarrow> u8" where
  "high_nibble byte = drop_bit 4 byte AND 0x0F"

definition q4_signed :: "u8 \<Rightarrow> int" where
  "q4_signed nibble = (if nibble < 8 then uint nibble else uint nibble - 16)"

definition q4_scale_of :: "'f quant_ops \<Rightarrow> 'f \<Rightarrow> 'f" where
  "q4_scale_of q max_abs = (if qf_eq q max_abs (qf_int q 0) then qf_int q 1 else qf_div q max_abs (qf_int q 7))"

text \<open>The scale of every (group, output) pair.\<close>

definition q4_group_max :: "'f quant_ops \<Rightarrow> 'f list \<Rightarrow> nat \<Rightarrow> nat \<Rightarrow> nat \<Rightarrow> 'f checked" where
  "q4_group_max q values out_dim g j =
     for_each [0..<q4_group] (\<lambda>k max_abs. and_then (index values ((g * q4_group + k) * out_dim + j)) (\<lambda>x.
       let v = qf_abs q x in Ok (if qf_lt q max_abs v then v else max_abs))) (qf_int q 0)"

definition q4_fill_scales :: "'f quant_ops \<Rightarrow> 'f list \<Rightarrow> nat \<Rightarrow> nat \<Rightarrow> 'f list checked" where
  "q4_fill_scales q values num_groups out_dim =
     for_each [0..<num_groups] (\<lambda>g. for_each [0..<out_dim] (\<lambda>j scales.
       and_then (q4_group_max q values out_dim g j) (\<lambda>max_abs. store (g * out_dim + j) (q4_scale_of q max_abs) scales)))
     (replicate (num_groups * out_dim) (qf_int q 0))"

definition q4_fill_packed :: "'f quant_ops \<Rightarrow> 'f list \<Rightarrow> 'f list \<Rightarrow> nat \<Rightarrow> nat \<Rightarrow> bytes checked" where
  "q4_fill_packed q values scales in_dim out_dim =
     for_each [0..<in_dim] (\<lambda>i. let g = i div q4_group in for_each (evens out_dim) (\<lambda>j packed.
       and_then (index scales (g * out_dim + j)) (\<lambda>s_lo.
       and_then (index scales (g * out_dim + j + 1)) (\<lambda>s_hi.
       and_then (index values (i * out_dim + j)) (\<lambda>v_lo.
       and_then (index values (i * out_dim + j + 1)) (\<lambda>v_hi.
         store (i * (out_dim div 2) + j div 2) (q4_pack (q4_code q v_lo s_lo) (q4_code q v_hi s_hi)) packed))))))
     (replicate (in_dim * (out_dim div 2)) 0)"

definition q4_quantize :: "'f quant_ops \<Rightarrow> 'f list \<Rightarrow> nat \<times> nat \<Rightarrow> 'f q4_tensor checked" where
  "q4_quantize q values shape =
     (let (in_dim, out_dim) = shape in
      if in_dim mod q4_group \<noteq> 0 then Panic
      else if out_dim mod 2 \<noteq> 0 then Panic
      else and_then (q4_fill_scales q values (in_dim div q4_group) out_dim) (\<lambda>scales.
        and_then (q4_fill_packed q values scales in_dim out_dim) (\<lambda>packed.
          Ok \<lparr>q4_packed = packed, q4_scales = scales, q4_shape = shape\<rparr>)))"

definition q4_from_packed :: "bytes \<Rightarrow> 'f list \<Rightarrow> nat \<times> nat \<Rightarrow> 'f q4_tensor checked" where
  "q4_from_packed packed scales shape =
     (let (in_dim, out_dim) = shape in
      if length packed \<noteq> in_dim * (out_dim div 2) then Panic
      else if length scales \<noteq> (in_dim div q4_group) * out_dim then Panic
      else Ok \<lparr>q4_packed = packed, q4_scales = scales, q4_shape = shape\<rparr>)"

definition q4_dequantize :: "'f quant_ops \<Rightarrow> 'f q4_tensor \<Rightarrow> 'f list checked" where
  "q4_dequantize q t =
     (let (in_dim, out_dim) = q4_shape t in
      for_each [0..<in_dim] (\<lambda>i. let g = i div q4_group in for_each (evens out_dim) (\<lambda>j values.
        and_then (index (q4_packed t) (i * (out_dim div 2) + j div 2)) (\<lambda>byte.
        let q_lo = q4_signed (low_nibble byte); q_hi = q4_signed (high_nibble byte) in
        and_then (index (q4_scales t) (g * out_dim + j)) (\<lambda>s_lo.
        and_then (index (q4_scales t) (g * out_dim + j + 1)) (\<lambda>s_hi.
        and_then (store (i * out_dim + j) (qf_mul q (qf_int q q_lo) s_lo) values) (\<lambda>values.
          store (i * out_dim + j + 1) (qf_mul q (qf_int q q_hi) s_hi) values))))))
      (replicate (in_dim * out_dim) (qf_int q 0)))"

text \<open>Two codes in a byte come back out of it.\<close>

lemma mask_four: "(0x0F :: u8) = mask 4"
  by (simp add: mask_eq_exp_minus_1)

lemma nibbles_of_byte:
  "low_nibble ((x AND 0x0F) OR push_bit 4 (y AND 0x0F)) = x AND 0x0F"
  "high_nibble ((x AND 0x0F) OR push_bit 4 (y AND 0x0F)) = y AND 0x0F"
  unfolding low_nibble_def high_nibble_def mask_four
  by (rule bit_word_eqI, auto simp: bit_simps)+

lemma q4_signed_code: "list_all (\<lambda>a. q4_signed (word_of_int a AND 0x0F) = a) [-7..7]"
  by code_simp

lemma q4_unpack:
  assumes "-7 \<le> a" "a \<le> 7" "-7 \<le> b" "b \<le> 7"
  shows "q4_signed (low_nibble (q4_pack a b)) = a" and "q4_signed (high_nibble (q4_pack a b)) = b"
  using assms bspec [OF q4_signed_code [unfolded list_all_iff set_upto]]
  unfolding q4_pack_def nibbles_of_byte by simp_all
lemma q4_code_range: "-7 \<le> q4_code q v s" "q4_code q v s \<le> 7"
  by (simp_all add: q4_code_def)

text \<open>The scale of the group of a weight, as a fold over the group.\<close>

definition q4_spec_scale :: "'f quant_ops \<Rightarrow> 'f list \<Rightarrow> nat \<Rightarrow> nat \<Rightarrow> nat \<Rightarrow> 'f" where
  "q4_spec_scale q values out_dim g j = q4_scale_of q
     (foldl (\<lambda>m x. if qf_lt q m (qf_abs q x) then qf_abs q x else m) (qf_int q 0)
       (map (\<lambda>k. values ! ((g * q4_group + k) * out_dim + j)) [0..<q4_group]))"

lemma q4_group_max_eq:
  assumes "length values = in_dim * out_dim" and "(g + 1) * q4_group \<le> in_dim" and "j < out_dim"
  shows "and_then (q4_group_max q values out_dim g j) (\<lambda>m. f (q4_scale_of q m)) = f (q4_spec_scale q values out_dim g j)"
proof -
  let ?x = "\<lambda>k. values ! ((g * q4_group + k) * out_dim + j)"
  have "q4_group_max q values out_dim g j
      = Ok (fold (\<lambda>k m. if qf_lt q m (qf_abs q (?x k)) then qf_abs q (?x k) else m) [0..<q4_group] (qf_int q 0))"
    unfolding q4_group_max_def
  proof (rule for_each_pure)
    fix k s
    assume "k \<in> set [0..<q4_group]"
    then have "(g * q4_group + k) * out_dim + j < length values"
      using position_less [of "g * q4_group + k" in_dim j out_dim] assms by simp
    then show "and_then (index values ((g * q4_group + k) * out_dim + j)) (\<lambda>x. let v = qf_abs q x in
        Ok (if qf_lt q s v then v else s)) = Ok (if qf_lt q s (qf_abs q (?x k)) then qf_abs q (?x k) else s)"
      by (simp add: Let_def)
  qed
  then show ?thesis
    by (simp add: q4_spec_scale_def foldl_conv_fold fold_map comp_def)
qed

lemma q4_fill_scales_eq:
  assumes "length values = in_dim * out_dim" and "n * q4_group \<le> in_dim"
  shows "q4_fill_scales q values n out_dim
    = Ok (map (\<lambda>k. q4_spec_scale q values out_dim (k div out_dim) (k mod out_dim)) [0..<n * out_dim])"
  unfolding q4_fill_scales_def
proof (rule for_each_fills [where ws = "\<lambda>g. map (\<lambda>j. (g * out_dim + j, q4_spec_scale q values out_dim g j)) [0..<out_dim]"])
  fix g and s :: "'a list"
  assume g: "g \<in> set [0..<n]" and s: "length s = n * out_dim"
  then have "(g + 1) * q4_group \<le> n * q4_group"
    by (intro mult_le_mono1) simp
  then have "(g + 1) * q4_group \<le> in_dim"
    using assms(2) by simp
  note max_eq = q4_group_max_eq [OF assms(1) this]
  have "for_each [0..<out_dim] (\<lambda>j scales. and_then (q4_group_max q values out_dim g j)
        (\<lambda>max_abs. store (g * out_dim + j) (q4_scale_of q max_abs) scales)) s
      = Ok (perform (concat (map (\<lambda>j. [(g * out_dim + j, q4_spec_scale q values out_dim g j)]) [0..<out_dim])) s)"
  proof (rule for_each_writes [OF _ s])
    fix j and s :: "'a list"
    assume "j \<in> set [0..<out_dim]" "length s = n * out_dim"
    then show "and_then (q4_group_max q values out_dim g j)
        (\<lambda>max_abs. store (g * out_dim + j) (q4_scale_of q max_abs) s)
      = Ok (perform [(g * out_dim + j, q4_spec_scale q values out_dim g j)] s)"
      using g max_eq [of j q "\<lambda>m. store (g * out_dim + j) m s"] position_less [of g n j out_dim] by simp
  qed
  then show "for_each [0..<out_dim] (\<lambda>j scales. and_then (q4_group_max q values out_dim g j)
        (\<lambda>max_abs. store (g * out_dim + j) (q4_scale_of q max_abs) scales)) s
      = Ok (perform (map (\<lambda>j. (g * out_dim + j, q4_spec_scale q values out_dim g j)) [0..<out_dim]) s)"
    by (simp add: concat_map_singleton)
next
  fix k
  assume "k < n * out_dim"
  from position_split [OF this] show "\<exists>g \<in> set [0..<n].
      k \<in> fst ` set (map (\<lambda>j. (g * out_dim + j, q4_spec_scale q values out_dim g j)) [0..<out_dim])"
    by (intro bexI [of _ "k div out_dim"]) (force simp: image_iff)+
qed auto

lemma q4_fill_packed_eq:
  assumes vals: "length values = in_dim * out_dim" and scs: "length scales = (in_dim div q4_group) * out_dim"
    and inn: "in_dim mod q4_group = 0" and ev: "even out_dim"
  shows "q4_fill_packed q values scales in_dim out_dim
    = Ok (map (\<lambda>p. let k = 2 * p; at = (\<lambda>k. q4_code q (values ! k) (scales ! (k div out_dim div q4_group * out_dim + k mod out_dim)))
        in q4_pack (at k) (at (k + 1))) [0..<in_dim * (out_dim div 2)])"
    (is "_ = Ok (map ?byte _)")
proof -
  define half where "half = out_dim div 2"
  have out: "out_dim = 2 * half"
    using ev by (simp add: half_def)
  let ?sc = "\<lambda>i j. scales ! (i div q4_group * out_dim + j)"
  let ?w = "\<lambda>i j. (i * half + j div 2, q4_pack (q4_code q (values ! (i * out_dim + j)) (?sc i j))
    (q4_code q (values ! (i * out_dim + j + 1)) (?sc i (j + 1))))"
  have body: "for_each (evens out_dim) (\<lambda>j packed.
       and_then (index scales (i div q4_group * out_dim + j)) (\<lambda>s_lo.
       and_then (index scales (i div q4_group * out_dim + j + 1)) (\<lambda>s_hi.
       and_then (index values (i * out_dim + j)) (\<lambda>v_lo.
       and_then (index values (i * out_dim + j + 1)) (\<lambda>v_hi.
         store (i * half + j div 2) (q4_pack (q4_code q v_lo s_lo) (q4_code q v_hi s_hi)) packed))))) s
      = Ok (perform (map (?w i) (evens out_dim)) s)"
    if i: "i < in_dim" and s: "length s = in_dim * half" for i and s :: bytes
  proof -
    have g: "i div q4_group < in_dim div q4_group"
      using i inn by (auto simp: q4_group_def elim!: dvdE simp: mod_eq_0_iff_dvd less_mult_imp_div_less mult.commute)
    have "for_each (evens out_dim) (\<lambda>j packed.
       and_then (index scales (i div q4_group * out_dim + j)) (\<lambda>s_lo.
       and_then (index scales (i div q4_group * out_dim + j + 1)) (\<lambda>s_hi.
       and_then (index values (i * out_dim + j)) (\<lambda>v_lo.
       and_then (index values (i * out_dim + j + 1)) (\<lambda>v_hi.
         store (i * half + j div 2) (q4_pack (q4_code q v_lo s_lo) (q4_code q v_hi s_hi)) packed))))) s
      = Ok (perform (concat (map (\<lambda>j. [?w i j]) (evens out_dim))) s)"
    proof (rule for_each_writes [OF _ s])
      fix j and s :: bytes
      assume "j \<in> set (evens out_dim)" and s: "length s = in_dim * half"
      then have j: "j < out_dim" "even j" "j + 1 < out_dim"
        using ev by (auto simp: set_evens out)
      then have "j div 2 < half"
        using out by simp
      with s i have "i * half + j div 2 < length s"
        using position_less [of i in_dim "j div 2" half] by simp
      moreover have "i * out_dim + j < length values" "i * out_dim + j + 1 < length values"
        using position_less [OF i j(1)] position_less [OF i j(3)] vals by simp_all
      moreover have "i div q4_group * out_dim + j < length scales" "i div q4_group * out_dim + j + 1 < length scales"
        using position_less [OF g j(1)] position_less [OF g j(3)] scs by simp_all
      ultimately show "and_then (index scales (i div q4_group * out_dim + j)) (\<lambda>s_lo.
         and_then (index scales (i div q4_group * out_dim + j + 1)) (\<lambda>s_hi.
         and_then (index values (i * out_dim + j)) (\<lambda>v_lo.
         and_then (index values (i * out_dim + j + 1)) (\<lambda>v_hi.
           store (i * half + j div 2) (q4_pack (q4_code q v_lo s_lo) (q4_code q v_hi s_hi)) s))))
        = Ok (perform [?w i j] s)"
        by simp
    qed
    then show ?thesis
      by (simp add: concat_map_singleton)
  qed
  have "for_each [0..<in_dim] (\<lambda>i. let g = i div q4_group in for_each (evens out_dim) (\<lambda>j packed.
       and_then (index scales (g * out_dim + j)) (\<lambda>s_lo.
       and_then (index scales (g * out_dim + j + 1)) (\<lambda>s_hi.
       and_then (index values (i * out_dim + j)) (\<lambda>v_lo.
       and_then (index values (i * out_dim + j + 1)) (\<lambda>v_hi.
         store (i * half + j div 2) (q4_pack (q4_code q v_lo s_lo) (q4_code q v_hi s_hi)) packed))))))
     (replicate (in_dim * half) 0)
    = Ok (map ?byte [0..<in_dim * half])"
  proof (rule for_each_fills [where ws = "\<lambda>i. map (?w i) (evens out_dim)"])
    show "(let g = i div q4_group in for_each (evens out_dim) (\<lambda>j packed.
       and_then (index scales (g * out_dim + j)) (\<lambda>s_lo.
       and_then (index scales (g * out_dim + j + 1)) (\<lambda>s_hi.
       and_then (index values (i * out_dim + j)) (\<lambda>v_lo.
       and_then (index values (i * out_dim + j + 1)) (\<lambda>v_hi.
         store (i * half + j div 2) (q4_pack (q4_code q v_lo s_lo) (q4_code q v_hi s_hi)) packed)))))) s
      = Ok (perform (map (?w i) (evens out_dim)) s)"
      if "i \<in> set [0..<in_dim]" "length s = in_dim * half" for i s
      using that body [of i s] by (simp add: Let_def)
  next
    fix i k v
    assume "i \<in> set [0..<in_dim]" and "(k, v) \<in> set (map (?w i) (evens out_dim))"
    then obtain j where j: "j < out_dim" "even j" and k: "k = i * half + j div 2" and v: "v = snd (?w i j)"
      using ev by (auto simp: set_evens)
    then have "2 * k = i * out_dim + j" and "j + 1 < out_dim"
      using out by (auto elim!: evenE) 
    with j v position_div [of j out_dim i] position_div [of "j + 1" out_dim i] show "v = ?byte k"
      by (simp add: Let_def)
  next
    fix k
    assume k: "k < in_dim * half"
    from position_split [OF k] have "k div half < in_dim" "k mod half < half" "k div half * half + k mod half = k"
      by simp_all
    moreover have "2 * (k mod half) \<in> set (evens out_dim)"
      using \<open>k mod half < half\<close> ev out by (simp add: set_evens)
    ultimately show "\<exists>i \<in> set [0..<in_dim]. k \<in> fst ` set (map (?w i) (evens out_dim))"
      by (intro bexI [of _ "k div half"]) (force simp: image_iff)+
  qed simp
  then show ?thesis
    by (simp add: q4_fill_packed_def half_def)
qed

text \<open>What dequantising gives, element by element.\<close>

definition q4_weight :: "'f quant_ops \<Rightarrow> 'f q4_tensor \<Rightarrow> nat \<Rightarrow> nat \<Rightarrow> 'f" where
  "q4_weight q t i j =
     (let byte = q4_packed t ! ((i * snd (q4_shape t) + j) div 2);
          nibble = (if even j then low_nibble byte else high_nibble byte)
      in qf_mul q (qf_int q (q4_signed nibble)) (q4_scales t ! (i div q4_group * snd (q4_shape t) + j)))"

definition q4_wf :: "'f q4_tensor \<Rightarrow> bool" where
  "q4_wf t \<longleftrightarrow> (let (in_dim, out_dim) = q4_shape t in
     even out_dim \<and> length (q4_packed t) = in_dim * (out_dim div 2) \<and>
     in_dim mod q4_group = 0 \<and> length (q4_scales t) = (in_dim div q4_group) * out_dim)"

lemma q4_dequantize_eq:
  assumes wf: "q4_wf t" and sh: "q4_shape t = (in_dim, out_dim)"
  shows "q4_dequantize q t = Ok (map (\<lambda>k. q4_weight q t (k div out_dim) (k mod out_dim)) [0..<in_dim * out_dim])"
proof -
  define half where "half = out_dim div 2"
  have out: "out_dim = 2 * half" and ev: "even out_dim" and packed: "length (q4_packed t) = in_dim * half"
    and inn: "in_dim mod q4_group = 0" and scs: "length (q4_scales t) = (in_dim div q4_group) * out_dim"
    using wf by (simp_all add: q4_wf_def sh half_def)
  let ?w = "\<lambda>i j. (i * out_dim + j, q4_weight q t i j)"
  let ?body = "\<lambda>i j values. and_then (index (q4_packed t) (i * half + j div 2)) (\<lambda>byte.
        let q_lo = q4_signed (low_nibble byte); q_hi = q4_signed (high_nibble byte) in
        and_then (index (q4_scales t) (i div q4_group * out_dim + j)) (\<lambda>s_lo.
        and_then (index (q4_scales t) (i div q4_group * out_dim + j + 1)) (\<lambda>s_hi.
        and_then (store (i * out_dim + j) (qf_mul q (qf_int q q_lo) s_lo) values) (\<lambda>values.
          store (i * out_dim + j + 1) (qf_mul q (qf_int q q_hi) s_hi) values))))"
  have step: "?body i j s = Ok (perform [?w i j, ?w i (j + 1)] s)"
    if i: "i < in_dim" and j: "j \<in> set (evens out_dim)" and s: "length s = in_dim * out_dim" for i j s
  proof -
    from j have j: "j < out_dim" "even j" "j + 1 < out_dim" "odd (j + 1)"
      using ev by (auto simp: set_evens out)
    have g: "i div q4_group < in_dim div q4_group"
      using i inn by (auto simp: q4_group_def elim!: dvdE simp: mod_eq_0_iff_dvd less_mult_imp_div_less mult.commute)
    have at: "(i * out_dim + j) div 2 = i * half + j div 2" "(i * out_dim + (j + 1)) div 2 = i * half + j div 2"
      using j(2) out by (auto elim!: evenE)
    have "i * half + j div 2 < length (q4_packed t)"
      using position_less [OF i, of "j div 2" half] packed j(1) out by simp
    moreover have "i * out_dim + j < length s" "i * out_dim + j + 1 < length s"
      using position_less [OF i j(1)] position_less [OF i j(3)] s by simp_all
    moreover have "i div q4_group * out_dim + j < length (q4_scales t)"
      "i div q4_group * out_dim + j + 1 < length (q4_scales t)"
      using position_less [OF g j(1)] position_less [OF g j(3)] scs by simp_all
    ultimately show ?thesis
      using j at by (simp add: q4_weight_def sh Let_def)
  qed
  have "for_each [0..<in_dim] (\<lambda>i. for_each (evens out_dim) (?body i)) (replicate (in_dim * out_dim) (qf_int q 0))
    = Ok (map (\<lambda>k. q4_weight q t (k div out_dim) (k mod out_dim)) [0..<in_dim * out_dim])"
  proof (rule for_each_fills [where ws = "\<lambda>i. concat (map (\<lambda>j. [?w i j, ?w i (j + 1)]) (evens out_dim))"])
    show "for_each (evens out_dim) (?body i) s
      = Ok (perform (concat (map (\<lambda>j. [?w i j, ?w i (j + 1)]) (evens out_dim))) s)"
      if "i \<in> set [0..<in_dim]" "length s = in_dim * out_dim" for i s
      by (rule for_each_writes [OF step]) (use that in auto)
  next
    fix i k v
    assume "(k, v) \<in> set (concat (map (\<lambda>j. [?w i j, ?w i (j + 1)]) (evens out_dim)))"
    then obtain j where "j < out_dim" "(k, v) = ?w i j"
      using ev by (auto simp: set_evens out)
    then show "v = q4_weight q t (k div out_dim) (k mod out_dim)"
      using position_div [of j out_dim i] by simp
  next
    fix k
    assume k: "k < in_dim * out_dim"
    let ?i = "k div out_dim" and ?j = "k mod out_dim"
    have split: "?i < in_dim" "?j < out_dim" "?i * out_dim + ?j = k"
      using position_split [OF k] by simp_all
    let ?e = "2 * (?j div 2)"
    have "?e \<in> set (evens out_dim)"
      using split(2) ev by (simp add: set_evens)
    moreover have "?w ?i ?j \<in> set [?w ?i ?e, ?w ?i (?e + 1)]"
    proof (cases "even ?j")
      case True
      then have "?e = ?j" by simp
      then show ?thesis by simp
    next
      case False
      then have "?e + 1 = ?j" by simp
      then show ?thesis by (simp del: One_nat_def)
    qed
    ultimately have "k \<in> fst ` set (concat (map (\<lambda>j. [?w ?i j, ?w ?i (j + 1)]) (evens out_dim)))"
      using split(3) by (intro image_eqI [of k fst "?w ?i ?j"]) (simp, unfold set_concat set_map, blast)
    then show "\<exists>i \<in> set [0..<in_dim]. k \<in> fst ` set (concat (map (\<lambda>j. [?w i j, ?w i (j + 1)]) (evens out_dim)))"
      using split(1) by (intro bexI [of _ ?i]) simp_all
  qed simp
  then show ?thesis
    by (simp add: q4_dequantize_def sh Let_def half_def)
qed

lemma q4_weight_code:
  "q4_signed (if even j then low_nibble (packed ! ((i * n + j) div 2)) else high_nibble (packed ! ((i * n + j) div 2))) = c
    \<Longrightarrow> scales ! (i div q4_group * n + j) = s
    \<Longrightarrow> q4_weight q \<lparr>q4_packed = packed, q4_scales = scales, q4_shape = (m, n)\<rparr> i j = qf_mul q (qf_int q c) s"
  by (auto simp: q4_weight_def Let_def)

text \<open>Quantising keeps the shape's layout.\<close>

lemma q4_quantize_Ok:
  assumes "length values = in_dim * out_dim" and "in_dim mod q4_group = 0" and "even out_dim"
  shows "\<exists>t. q4_quantize q values (in_dim, out_dim) = Ok t \<and> q4_wf t \<and> q4_shape t = (in_dim, out_dim)
    \<and> (\<forall>i < in_dim. \<forall>j < out_dim. q4_weight q t i j =
         (let s = q4_spec_scale q values out_dim (i div q4_group) j
          in qf_mul q (qf_int q (q4_code q (values ! (i * out_dim + j)) s)) s))"
proof -
  let ?scales = "map (\<lambda>k. q4_spec_scale q values out_dim (k div out_dim) (k mod out_dim)) [0..<in_dim div q4_group * out_dim]"
  let ?at = "\<lambda>k. q4_code q (values ! k) (?scales ! (k div out_dim div q4_group * out_dim + k mod out_dim))"
  let ?packed = "map (\<lambda>p. let k = 2 * p in q4_pack (?at k) (?at (k + 1))) [0..<in_dim * (out_dim div 2)]"
  let ?t = "\<lparr>q4_packed = ?packed, q4_scales = ?scales, q4_shape = (in_dim, out_dim)\<rparr>"
  have "q4_fill_scales q values (in_dim div q4_group) out_dim = Ok ?scales"
    using assms(1) by (rule q4_fill_scales_eq) simp
  moreover have "q4_fill_packed q values ?scales in_dim out_dim = Ok ?packed"
    using q4_fill_packed_eq [of "values" in_dim out_dim ?scales q] assms by (simp add: Let_def)
  ultimately have quant: "q4_quantize q values (in_dim, out_dim) = Ok ?t"
    using assms by (simp add: q4_quantize_def even_iff_mod_2_eq_zero)
  have wf: "q4_wf ?t"
    using assms by (simp add: q4_wf_def)
  have weight: "q4_weight q ?t i j = (let s = q4_spec_scale q values out_dim (i div q4_group) j
          in qf_mul q (qf_int q (q4_code q (values ! (i * out_dim + j)) s)) s)"
    if i: "i < in_dim" and j: "j < out_dim" for i j
  proof -
    let ?k = "i * out_dim + j"
    have g: "i div q4_group < in_dim div q4_group"
      using i assms(2) by (auto simp: q4_group_def elim!: dvdE simp: mod_eq_0_iff_dvd less_mult_imp_div_less mult.commute)
    have sc: "?scales ! (i div q4_group * out_dim + j) = q4_spec_scale q values out_dim (i div q4_group) j"
      using position_less [OF g j] position_div [OF j, of "i div q4_group"] by simp
    have "out_dim = 2 * (out_dim div 2)"
      using assms(3) by simp
    then have "?k < 2 * (in_dim * (out_dim div 2))"
      using position_less [OF i j] by (metis mult.left_commute)
    then have half: "?k div 2 < in_dim * (out_dim div 2)" by simp
    have par: "even ?k \<longleftrightarrow> even j"
      using assms(3) by simp
    have "q4_signed (if even j then low_nibble (?packed ! (?k div 2)) else high_nibble (?packed ! (?k div 2))) = ?at ?k"
    proof (cases "even j")
      case True
      then have "2 * (?k div 2) = ?k" using par by simp
      with True half show ?thesis
        by (simp add: Let_def q4_unpack q4_code_range del: One_nat_def)
    next
      case False
      then have "2 * (?k div 2) + 1 = ?k" using par by simp
      with False half show ?thesis
        by (simp add: Let_def q4_unpack q4_code_range del: One_nat_def)
    qed
    then have "q4_signed (if even j then low_nibble (?packed ! (?k div 2)) else high_nibble (?packed ! (?k div 2)))
        = q4_code q (values ! ?k) (q4_spec_scale q values out_dim (i div q4_group) j)"
      using position_div [OF j, of i] sc by simp
    from q4_weight_code [OF this sc] show ?thesis
      by (simp only: Let_def)
  qed
  show ?thesis
    by (rule exI [of _ ?t]) (intro conjI allI impI quant wf weight, simp)
qed

text \<open>
  C27: Q4 quantisation followed by dequantisation never panics on a matrix with an even number
  of columns and rows in whole groups; element \<open>(i, j)\<close> comes back in its place as its own
  code times the scale of its group and column, and every code is between -7 and 7.
\<close>

theorem q4_roundtrip:
  assumes "length values = in_dim * out_dim" and "in_dim mod q4_group = 0" and "even out_dim"
  shows "and_then (q4_quantize q values (in_dim, out_dim)) (q4_dequantize q)
    = Ok (map (\<lambda>k. let s = q4_spec_scale q values out_dim (k div out_dim div q4_group) (k mod out_dim)
        in qf_mul q (qf_int q (q4_code q (values ! k) s)) s) [0..<in_dim * out_dim])
    \<and> (\<forall>v s. -7 \<le> q4_code q v s \<and> q4_code q v s \<le> 7)"
proof -
  from q4_quantize_Ok [OF assms, of q] obtain t where t: "q4_quantize q values (in_dim, out_dim) = Ok t" "q4_wf t"
    "q4_shape t = (in_dim, out_dim)"
    and w: "\<And>i j. i < in_dim \<Longrightarrow> j < out_dim \<Longrightarrow> q4_weight q t i j =
         (let s = q4_spec_scale q values out_dim (i div q4_group) j
          in qf_mul q (qf_int q (q4_code q (values ! (i * out_dim + j)) s)) s)"
    by blast
  have "q4_weight q t (k div out_dim) (k mod out_dim)
      = (let s = q4_spec_scale q values out_dim (k div out_dim div q4_group) (k mod out_dim)
        in qf_mul q (qf_int q (q4_code q (values ! k) s)) s)" if "k < in_dim * out_dim" for k
    using position_split [OF that] w [of "k div out_dim" "k mod out_dim"] by simp
  with t q4_dequantize_eq [OF t(2,3), of q] show ?thesis
    by (simp add: q4_code_range cong: map_cong)
qed

text \<open>A concrete number type: integers standing for themselves.\<close>

definition int_quant_ops :: "int quant_ops" where
  "int_quant_ops = \<lparr>qf_int = id, qf_abs = abs, qf_max = max, qf_lt = (<), qf_eq = (=), qf_mul = (*), qf_add = (+),
     qf_div = (div), qf_round = id, qf_clamp = (\<lambda>v lo hi. min hi (max lo v)), qf_to_i32 = id, qf_to_i8 = word_of_int,
     qf_f16 = uint\<rparr>"

lemma q4_roundtrip_witness:
  "and_then (q4_quantize int_quant_ops (replicate 32 7 @ replicate 32 (-14)) (32, 2)) (q4_dequantize int_quant_ops)
    = Ok (map (\<lambda>k. let s = q4_spec_scale int_quant_ops (replicate 32 7 @ replicate 32 (-14)) 2 (k div 2 div q4_group) (k mod 2)
        in s * q4_code int_quant_ops ((replicate 32 7 @ replicate 32 (-14)) ! k) s) [0..<32 * 2])"
  using q4_roundtrip [of "replicate 32 7 @ replicate 32 (-14)" 32 2 int_quant_ops]
  by (simp add: q4_group_def int_quant_ops_def mult.commute Let_def del: upt_conv_Cons)

end
