(* ===== verification/Blocks.thy ===== *)
theory Blocks
  imports Quant
begin

text \<open>
  The block formats of GGUF checkpoints: \<open>runtime/src/gguf/q4_0.rs\<close>, \<open>q4_1.rs\<close> and
  \<open>q6_k.rs\<close>.  Each loop is shown to compute its block element by element, and a tensor block
  by block.
\<close>

unbundle bit_operations_syntax

definition le_u16 :: "u8 \<Rightarrow> u8 \<Rightarrow> u16" where
  "le_u16 a b = word_of_nat (from_le [a, b])"

section \<open>Q4_0\<close>

record 'f q4_0_tensor =
  qz_blocks :: bytes
  qz_shape :: "nat \<times> nat"
  qz_cached_dense :: "'f list option"
  qz_cached_ndarray :: "'f list option"

definition q4_0_block :: nat where "q4_0_block = 32"
definition q4_0_bytes :: nat where "q4_0_bytes = 18"

definition q4_0_from_blocks :: "bytes \<Rightarrow> nat \<times> nat \<Rightarrow> 'f q4_0_tensor checked" where
  "q4_0_from_blocks blocks shape =
     (let elems = fst shape * snd shape in
      if elems mod q4_0_block \<noteq> 0 then Err ''Q4_0 requires total elements divisible by 32''
      else let expected_bytes = (elems div q4_0_block) * q4_0_bytes in
        if length blocks \<noteq> expected_bytes then Err ''Q4_0 block bytes len mismatch''
        else Ok \<lparr>qz_blocks = blocks, qz_shape = shape, qz_cached_dense = None, qz_cached_ndarray = None\<rparr>)"

definition q4_0_flat :: "'f quant_ops \<Rightarrow> bytes \<Rightarrow> nat \<Rightarrow> 'f list checked" where
  "q4_0_flat q blocks elems =
     for_each [0..<elems div q4_0_block] (\<lambda>b flat. let off = b * q4_0_bytes in
       and_then (index blocks off) (\<lambda>b0. and_then (index blocks (off + 1)) (\<lambda>b1.
       let scale = qf_f16 q (le_u16 b0 b1) in
       for_each [0..<16] (\<lambda>j flat. and_then (index blocks (off + 2 + j)) (\<lambda>byte.
         let low = uint (low_nibble byte) - 8; high = uint (high_nibble byte) - 8 in
         and_then (store (b * q4_0_block + j) (qf_mul q (qf_int q low) scale) flat)
           (store (b * q4_0_block + j + 16) (qf_mul q (qf_int q high) scale)))) flat)))
     (replicate elems (qf_int q 0))"

definition to_row_major :: "'f quant_ops \<Rightarrow> nat \<times> nat \<Rightarrow> 'f list \<Rightarrow> 'f list checked" where
  "to_row_major q shape flat =
     (let (in_dim, out_dim) = shape in
      for_each [0..<in_dim] (\<lambda>i. for_each [0..<out_dim] (\<lambda>j burn.
        and_then (index flat (j * in_dim + i)) (\<lambda>v. store (i * out_dim + j) v burn)))
      (replicate (in_dim * out_dim) (qf_int q 0)))"

definition q4_0_dequantize :: "'f quant_ops \<Rightarrow> 'f q4_0_tensor \<Rightarrow> 'f list checked" where
  "q4_0_dequantize q t =
     and_then (q4_0_flat q (qz_blocks t) (fst (qz_shape t) * snd (qz_shape t))) (to_row_major q (qz_shape t))"

text \<open>\<open>OnceLock::get_or_init\<close>: the first call fills the cell.\<close>

definition dequantize_cached :: "'f quant_ops \<Rightarrow> 'f q4_0_tensor \<Rightarrow> ('f list \<times> 'f q4_0_tensor) checked" where
  "dequantize_cached q t = (case qz_cached_dense t of
     Some d \<Rightarrow> Ok (d, t)
   | None \<Rightarrow> and_then (q4_0_dequantize q t) (\<lambda>d. Ok (d, t\<lparr>qz_cached_dense := Some d\<rparr>)))"

definition ndarray_weight :: "'f quant_ops \<Rightarrow> 'f q4_0_tensor \<Rightarrow> ('f list \<times> 'f q4_0_tensor) checked" where
  "ndarray_weight q t = (case qz_cached_ndarray t of
     Some d \<Rightarrow> Ok (d, t)
   | None \<Rightarrow> and_then (dequantize_cached q t) (\<lambda>(floats, t).
       if length floats \<noteq> fst (qz_shape t) * snd (qz_shape t) then Panic
       else Ok (floats, t\<lparr>qz_cached_ndarray := Some floats\<rparr>)))"

definition q4_0_wf :: "'f q4_0_tensor \<Rightarrow> bool" where
  "q4_0_wf t \<longleftrightarrow> (let elems = fst (qz_shape t) * snd (qz_shape t) in
     elems mod q4_0_block = 0 \<and> length (qz_blocks t) = elems div q4_0_block * q4_0_bytes)"

lemma q4_0_from_blocks_wf: "q4_0_from_blocks bs sh = Ok t \<Longrightarrow> q4_0_wf t"
  by (auto simp: q4_0_from_blocks_def q4_0_wf_def Let_def split: if_splits)

text \<open>The weight at a flat position.\<close>

definition q4_0_weight :: "'f quant_ops \<Rightarrow> bytes \<Rightarrow> nat \<Rightarrow> 'f" where
  "q4_0_weight q blocks k =
     (let off = (k div 32) * 18; r = k mod 32;
          byte = blocks ! (off + 2 + r mod 16);
          nibble = (if r < 16 then low_nibble byte else high_nibble byte)
      in qf_mul q (qf_int q (uint nibble - 8)) (qf_f16 q (le_u16 (blocks ! off) (blocks ! (off + 1)))))"

lemma q4_0_weight_block:
  "j < 16 \<Longrightarrow> q4_0_weight q blocks (b * 32 + j) =
     qf_mul q (qf_int q (uint (low_nibble (blocks ! (b * 18 + 2 + j))) - 8))
       (qf_f16 q (le_u16 (blocks ! (b * 18)) (blocks ! (b * 18 + 1))))"
  "j < 16 \<Longrightarrow> q4_0_weight q blocks (b * 32 + j + 16) =
     qf_mul q (qf_int q (uint (high_nibble (blocks ! (b * 18 + 2 + j))) - 8))
       (qf_f16 q (le_u16 (blocks ! (b * 18)) (blocks ! (b * 18 + 1))))"
  using position_div [of j 32 b] position_div [of "j + 16" 32 b]
  by (simp_all add: q4_0_weight_def Let_def add.assoc)

lemma q4_0_flat_eq:
  assumes blocks: "length blocks = elems div q4_0_block * q4_0_bytes" and elems: "elems mod q4_0_block = 0"
  shows "q4_0_flat q blocks elems = Ok (map (q4_0_weight q blocks) [0..<elems])"
proof -
  define js where "js = [0..<16 :: nat]"
  have js: "j \<in> set js \<longleftrightarrow> j < 16" for j
    by (auto simp: js_def)
  let ?w = "\<lambda>b j. (b * 32 + j, q4_0_weight q blocks (b * 32 + j))"
  let ?ws = "\<lambda>b. concat (map (\<lambda>j. [?w b j, ?w b (j + 16)]) js)"
  show ?thesis
    unfolding q4_0_flat_def js_def [symmetric]
  proof (rule for_each_fills [where ws = ?ws])
    fix b and s :: "'a list"
    assume "b \<in> set [0..<elems div q4_0_block]" and s: "length s = elems"
    then have b: "b < elems div 32" by (simp add: q4_0_block_def)
    then have off: "b * 18 + 17 < length blocks"
      using blocks by (simp add: q4_0_block_def q4_0_bytes_def)
    have "b * 32 + 32 \<le> elems div 32 * 32" "elems div 32 * 32 \<le> elems"
      using b by simp_all
    then have slot: "b * 32 + 31 < elems" by linarith
    let ?scale = "qf_f16 q (le_u16 (blocks ! (b * 18)) (blocks ! (b * 18 + 1)))"
    let ?body = "\<lambda>j flat. and_then (index blocks (b * 18 + 2 + j)) (\<lambda>byte.
         let low = uint (low_nibble byte) - 8; high = uint (high_nibble byte) - 8 in
         and_then (store (b * 32 + j) (qf_mul q (qf_int q low) ?scale) flat)
           (store (b * 32 + j + 16) (qf_mul q (qf_int q high) ?scale)))"
    have "?body j s = Ok (perform [?w b j, ?w b (j + 16)] s)" if "j \<in> set js" and s: "length s = elems" for j s
    proof -
      have j: "j < 16" using that js by simp
      then have "b * 18 + 2 + j < length blocks" "b * 32 + j < elems" "b * 32 + j + 16 < elems"
        using off slot by linarith+
      then show ?thesis
        using q4_0_weight_block [OF j, of q blocks b] s by (simp add: Let_def add.assoc)
    qed
    from for_each_writes [OF this s] have "for_each js ?body s = Ok (perform (?ws b) s)" .
    then show "(let off = b * q4_0_bytes in
       and_then (index blocks off) (\<lambda>b0. and_then (index blocks (off + 1)) (\<lambda>b1.
       let scale = qf_f16 q (le_u16 b0 b1) in
       for_each js (\<lambda>j flat. and_then (index blocks (off + 2 + j)) (\<lambda>byte.
         let low = uint (low_nibble byte) - 8; high = uint (high_nibble byte) - 8 in
         and_then (store (b * q4_0_block + j) (qf_mul q (qf_int q low) scale) flat)
           (store (b * q4_0_block + j + 16) (qf_mul q (qf_int q high) scale)))) s)))
      = Ok (perform (?ws b) s)"
      using off by (simp only: Let_def q4_0_bytes_def q4_0_block_def index_in [OF add_lessD1 [OF off]]
          index_in [of "b * 18 + 1"] and_then.simps)
  next
    fix k
    assume "k < elems"
    then have "k div 32 < elems div q4_0_block"
      using elems by (auto simp: q4_0_block_def mod_eq_0_iff_dvd elim!: dvdE)
    let ?j = "k mod 32 mod 16"
    have "k mod 32 = ?j \<or> k mod 32 = ?j + 16"
      using mod_less_divisor [of 32 k] by (cases "k mod 32 < 16") (simp_all add: le_mod_geq)
    moreover have "k div 32 * 32 + k mod 32 = k"
      by (rule div_mult_mod_eq)
    ultimately have "k = fst (?w (k div 32) ?j) \<or> k = fst (?w (k div 32) (?j + 16))"
      by (metis add.assoc fst_conv)
    moreover have "?j \<in> set js" by (simp add: js)
    ultimately have "k \<in> fst ` set (?ws (k div 32))"
      unfolding set_concat set_map by fastforce
    with \<open>k div 32 < elems div q4_0_block\<close> show "\<exists>b \<in> set [0..<elems div q4_0_block]. k \<in> fst ` set (?ws b)"
      by (intro bexI [of _ "k div 32"]) (assumption, simp)
  qed auto
qed

lemma to_row_major_eq:
  assumes "length flat = in_dim * out_dim"
  shows "to_row_major q (in_dim, out_dim) flat
    = Ok (map (\<lambda>k. flat ! (k mod out_dim * in_dim + k div out_dim)) [0..<in_dim * out_dim])"
proof -
  let ?ws = "\<lambda>i. map (\<lambda>j. (i * out_dim + j, flat ! (j * in_dim + i))) [0..<out_dim]"
  have "for_each [0..<in_dim] (\<lambda>i. for_each [0..<out_dim] (\<lambda>j burn.
        and_then (index flat (j * in_dim + i)) (\<lambda>v. store (i * out_dim + j) v burn)))
      (replicate (in_dim * out_dim) (qf_int q 0))
    = Ok (map (\<lambda>k. flat ! (k mod out_dim * in_dim + k div out_dim)) [0..<in_dim * out_dim])"
  proof (rule for_each_fills [where ws = ?ws])
    fix i and s :: "'a list"
    assume i: "i \<in> set [0..<in_dim]" and s: "length s = in_dim * out_dim"
    have "for_each [0..<out_dim] (\<lambda>j burn.
        and_then (index flat (j * in_dim + i)) (\<lambda>v. store (i * out_dim + j) v burn)) s
      = Ok (perform (concat (map (\<lambda>j. [(i * out_dim + j, flat ! (j * in_dim + i))]) [0..<out_dim])) s)"
      by (rule for_each_writes [OF _ s])
        (use i assms position_less [of i in_dim _ out_dim] position_less [of _ out_dim i in_dim] in
          \<open>auto simp: mult.commute\<close>)
    then show "for_each [0..<out_dim] (\<lambda>j burn.
        and_then (index flat (j * in_dim + i)) (\<lambda>v. store (i * out_dim + j) v burn)) s = Ok (perform (?ws i) s)"
      by (simp add: concat_map_singleton)
  next
    fix k
    assume "k < in_dim * out_dim"
    from position_split [OF this] show "\<exists>i \<in> set [0..<in_dim]. k \<in> fst ` set (?ws i)"
      by (intro bexI [of _ "k div out_dim"]) (force simp: image_iff)+
  qed auto
  then show ?thesis
    by (simp add: to_row_major_def)
qed

text \<open>Element \<open>(i, j)\<close> of the result is the checkpoint's weight \<open>j * in_dim + i\<close>.\<close>

lemma q4_0_dequantize_eq:
  assumes "q4_0_wf t" and "qz_shape t = (in_dim, out_dim)"
  shows "q4_0_dequantize q t
    = Ok (map (\<lambda>k. q4_0_weight q (qz_blocks t) (k mod out_dim * in_dim + k div out_dim)) [0..<in_dim * out_dim])"
proof -
  have "q4_0_flat q (qz_blocks t) (in_dim * out_dim) = Ok (map (q4_0_weight q (qz_blocks t)) [0..<in_dim * out_dim])"
    using assms by (intro q4_0_flat_eq) (simp_all add: q4_0_wf_def Let_def)
  moreover have "k mod out_dim * in_dim + k div out_dim < in_dim * out_dim" if "k < in_dim * out_dim" for k
    using position_split [OF that] position_less [of "k mod out_dim" out_dim "k div out_dim" in_dim]
    by (simp add: mult.commute)
  ultimately show ?thesis
    by (simp add: q4_0_dequantize_def assms(2) to_row_major_eq)
qed

text \<open>The caches hold what dequantising gives, and keep doing so.\<close>

definition caches_ok :: "'f quant_ops \<Rightarrow> 'f q4_0_tensor \<Rightarrow> bool" where
  "caches_ok q t \<longleftrightarrow> (\<forall>d. qz_cached_dense t = Some d \<or> qz_cached_ndarray t = Some d \<longrightarrow> q4_0_dequantize q t = Ok d)"

lemma q4_0_dequantize_update [simp]:
  "q4_0_dequantize q (t\<lparr>qz_cached_dense := x\<rparr>) = q4_0_dequantize q t"
  "q4_0_dequantize q (t\<lparr>qz_cached_ndarray := x\<rparr>) = q4_0_dequantize q t"
  by (simp_all add: q4_0_dequantize_def)

lemma from_blocks_caches: "q4_0_from_blocks bs sh = Ok t \<Longrightarrow> caches_ok q t"
  by (auto simp: q4_0_from_blocks_def caches_ok_def Let_def split: if_splits)

lemma dequantize_cached_ok:
  assumes "q4_0_wf t" and "caches_ok q t"
  shows "\<exists>d t'. dequantize_cached q t = Ok (d, t') \<and> q4_0_dequantize q t = Ok d \<and> caches_ok q t' \<and> q4_0_wf t'
    \<and> qz_shape t' = qz_shape t \<and> q4_0_dequantize q t' = Ok d"
proof (cases "qz_cached_dense t")
  case (Some d)
  with assms have "q4_0_dequantize q t = Ok d"
    by (auto simp: caches_ok_def)
  with Some assms show ?thesis by (simp add: dequantize_cached_def)
next
  case None
  obtain d where "q4_0_dequantize q t = Ok d"
    using q4_0_dequantize_eq [OF assms(1), of "fst (qz_shape t)" "snd (qz_shape t)" q] by simp
  with None assms show ?thesis
    by (auto simp: dequantize_cached_def caches_ok_def q4_0_wf_def)
qed

lemma ndarray_weight_ok:
  assumes "q4_0_wf t" and "caches_ok q t"
  shows "\<exists>d t'. ndarray_weight q t = Ok (d, t') \<and> q4_0_dequantize q t = Ok d \<and> caches_ok q t'"
proof (cases "qz_cached_ndarray t")
  case (Some d)
  with assms show ?thesis
    by (auto simp: caches_ok_def ndarray_weight_def)
next
  case None
  from dequantize_cached_ok [OF assms] obtain d t' where d: "dequantize_cached q t = Ok (d, t')"
    "q4_0_dequantize q t = Ok d" "caches_ok q t'" "qz_shape t' = qz_shape t" "q4_0_dequantize q t' = Ok d"
    by blast
  moreover have "length d = fst (qz_shape t) * snd (qz_shape t)"
    using q4_0_dequantize_eq [OF assms(1), of "fst (qz_shape t)" "snd (qz_shape t)" q] d(2) by auto
  ultimately show ?thesis
    using None by (auto simp: ndarray_weight_def caches_ok_def)
qed

section \<open>Filling a tensor block by block\<close>

text \<open>The loop both \<open>dequant_q4_1_tensor\<close> and \<open>dequant_q6_k_tensor\<close> are.\<close>

definition dequant_blocks ::
    "nat \<Rightarrow> nat \<Rightarrow> (bytes \<Rightarrow> 'f list \<Rightarrow> 'f list checked) \<Rightarrow> bytes \<Rightarrow> nat \<Rightarrow> 'f list \<Rightarrow> 'f list checked" where
  "dequant_blocks block_bytes block_size dequant bytes num_blocks init =
     for_each [0..<num_blocks] (\<lambda>b out. let block_off = b * block_bytes; out_off = b * block_size in
       and_then (slice bytes block_off block_bytes) (\<lambda>block. and_then (slice out out_off block_size) (\<lambda>slots.
       and_then (dequant block slots) (\<lambda>filled. Ok (splice out out_off filled))))) init"

lemma for_each_snoc: "for_each (is @ [i]) f s = and_then (for_each is f s) (f i)"
proof (induction "is" arbitrary: s)
  case (Cons a "is")
  then show ?case by (cases "f a s") simp_all
next
  case Nil
  show ?case by (cases "f i s") simp_all
qed

lemma dequant_blocks_eq:
  assumes "\<And>block out. length block = bb \<Longrightarrow> length out = bs \<Longrightarrow> dequant block out = Ok (g block)"
    and len: "\<And>block. length (g block) = bs"
    and "length bytes = n * bb" and "length init = n * bs"
  shows "dequant_blocks bb bs dequant bytes n init = Ok (concat (map (\<lambda>b. g (take bb (drop (b * bb) bytes))) [0..<n]))"
proof -
  let ?res = "\<lambda>k. concat (map (\<lambda>b. g (take bb (drop (b * bb) bytes))) [0..<k])"
  let ?body = "\<lambda>b out. let block_off = b * bb; out_off = b * bs in
       and_then (slice bytes block_off bb) (\<lambda>block. and_then (slice out out_off bs) (\<lambda>slots.
       and_then (dequant block slots) (\<lambda>filled. Ok (splice out out_off filled))))"
  have lres: "length (?res k) = k * bs" for k
    by (simp add: length_concat comp_def len sum_list_triv)
  have "for_each [0..<k] ?body init = Ok (?res k @ drop (k * bs) init)" if "k \<le> n" for k
    using that
  proof (induction k)
    case (Suc k)
    have "Suc k * bb \<le> n * bb" "Suc k * bs \<le> n * bs"
      using Suc.prems by (simp_all only: mult_le_mono1)
    then have room: "k * bb + bb \<le> length bytes" "k * bs + bs \<le> length init"
      using assms(3,4) by (simp_all add: add.commute)
    let ?out = "?res k @ drop (k * bs) init"
    have "slice ?out (k * bs) bs = Ok (take bs (drop (k * bs) init))"
      using lres [of k] room by (simp add: slice_def)
    moreover have "dequant (take bb (drop (k * bb) bytes)) (take bs (drop (k * bs) init)) = Ok (g (take bb (drop (k * bb) bytes)))"
      using room by (intro assms(1)) simp_all
    moreover have "splice ?out (k * bs) (g (take bb (drop (k * bb) bytes))) = ?res (Suc k) @ drop (Suc k * bs) init"
      using lres [of k] by (simp add: splice_def len add.commute)
    ultimately have "?body k ?out = Ok (?res (Suc k) @ drop (Suc k * bs) init)"
      using room by (simp only: Let_def slice_in and_then.simps)
    with Suc show ?case
      by (simp only: upt_Suc_append [OF le0] for_each_snoc and_then.simps Suc_leD)
  qed simp
  from this [of n] show ?thesis
    using assms(4) by (simp add: dequant_blocks_def)
qed

section \<open>Q4_1\<close>

definition q4_1_block :: nat where "q4_1_block = 32"
definition q4_1_bytes :: nat where "q4_1_bytes = 20"

definition dequant_q4_1_block :: "'f quant_ops \<Rightarrow> bytes \<Rightarrow> 'f list \<Rightarrow> 'f list checked" where
  "dequant_q4_1_block q block out =
     (if length block \<noteq> q4_1_bytes then Err ''Q4_1 block: wrong number of bytes''
      else if length out \<noteq> q4_1_block then Err ''Q4_1 out: wrong number of slots''
      else and_then (index block 0) (\<lambda>b0. and_then (index block 1) (\<lambda>b1.
        and_then (index block 2) (\<lambda>b2. and_then (index block 3) (\<lambda>b3.
        let d = qf_f16 q (le_u16 b0 b1); m = qf_f16 q (le_u16 b2 b3) in
        for_each [0..<16] (\<lambda>j out. and_then (index block (4 + j)) (\<lambda>byte.
          let low = qf_int q (uint (low_nibble byte)); high = qf_int q (uint (high_nibble byte)) in
          and_then (store j (qf_add q (qf_mul q low d) m) out)
            (store (j + 16) (qf_add q (qf_mul q high d) m)))) out)))))"

definition dequant_q4_1_tensor :: "'f quant_ops \<Rightarrow> bytes \<Rightarrow> nat \<Rightarrow> 'f list checked" where
  "dequant_q4_1_tensor q bytes elems =
     (if elems mod q4_1_block \<noteq> 0 then Err ''Q4_1 requires total elements divisible by 32''
      else let num_blocks = elems div q4_1_block in
        if length bytes \<noteq> num_blocks * q4_1_bytes then Err ''Q4_1 bytes len mismatch''
        else dequant_blocks q4_1_bytes q4_1_block (dequant_q4_1_block q) bytes num_blocks (replicate elems (qf_int q 0)))"

definition q4_1_weight :: "'f quant_ops \<Rightarrow> bytes \<Rightarrow> nat \<Rightarrow> 'f" where
  "q4_1_weight q block k =
     (let byte = block ! (4 + k mod 16); nibble = (if k < 16 then low_nibble byte else high_nibble byte)
      in qf_add q (qf_mul q (qf_int q (uint nibble)) (qf_f16 q (le_u16 (block ! 0) (block ! 1))))
           (qf_f16 q (le_u16 (block ! 2) (block ! 3))))"

lemma dequant_q4_1_block_eq:
  assumes "length block = q4_1_bytes" and out: "length out = q4_1_block"
  shows "dequant_q4_1_block q block out = Ok (map (q4_1_weight q block) [0..<q4_1_block])"
proof -
  define js where "js = [0..<16 :: nat]"
  have js: "j \<in> set js \<longleftrightarrow> j < 16" for j
    by (auto simp: js_def)
  have len: "length block = 20" and slots: "length out = 32"
    using assms by (simp_all add: q4_1_bytes_def q4_1_block_def)
  let ?d = "qf_f16 q (le_u16 (block ! 0) (block ! 1))" and ?m = "qf_f16 q (le_u16 (block ! 2) (block ! 3))"
  let ?ws = "\<lambda>j. [(j, q4_1_weight q block j), (j + 16, q4_1_weight q block (j + 16))]"
  have "for_each js (\<lambda>j out. and_then (index block (4 + j)) (\<lambda>byte.
          let low = qf_int q (uint (low_nibble byte)); high = qf_int q (uint (high_nibble byte)) in
          and_then (store j (qf_add q (qf_mul q low ?d) ?m) out)
            (store (j + 16) (qf_add q (qf_mul q high ?d) ?m)))) out
      = Ok (map (q4_1_weight q block) [0..<32])"
  proof (rule for_each_fills [where ws = ?ws, OF _ slots])
    show "and_then (index block (4 + j)) (\<lambda>byte.
          let low = qf_int q (uint (low_nibble byte)); high = qf_int q (uint (high_nibble byte)) in
          and_then (store j (qf_add q (qf_mul q low ?d) ?m) s)
            (store (j + 16) (qf_add q (qf_mul q high ?d) ?m))) = Ok (perform (?ws j) s)"
      if "j \<in> set js" "length s = 32" for j s
      using that js len by (simp add: q4_1_weight_def Let_def)
  next
    fix k :: nat
    assume "k < 32"
    then have "k = k mod 16 \<or> k = k mod 16 + 16"
      by (cases "k < 16") (simp_all add: le_mod_geq)
    moreover have "k mod 16 \<in> set js" by (simp add: js)
    ultimately show "\<exists>j \<in> set js. k \<in> fst ` set (?ws j)"
      by (intro bexI [of _ "k mod 16"]) auto
  qed auto
  then show ?thesis
    using assms by (simp only: dequant_q4_1_block_def js_def [symmetric] index_in len Let_def and_then.simps
        if_False simp_thms q4_1_block_def)
qed

lemma dequant_q4_1_tensor_eq:
  assumes "elems mod q4_1_block = 0" and "length bytes = elems div q4_1_block * q4_1_bytes"
  shows "dequant_q4_1_tensor q bytes elems = Ok (concat (map (\<lambda>b.
    map (q4_1_weight q (take q4_1_bytes (drop (b * q4_1_bytes) bytes))) [0..<q4_1_block]) [0..<elems div q4_1_block]))"
proof -
  have "elems div q4_1_block * q4_1_block = elems"
    using assms(1) by (simp add: mod_eq_0_iff_dvd)
  then show ?thesis
    using dequant_blocks_eq [of q4_1_bytes q4_1_block "dequant_q4_1_block q" "\<lambda>block. map (q4_1_weight q block) [0..<q4_1_block]"
        bytes "elems div q4_1_block" "replicate elems (qf_int q 0)"] assms
    by (simp add: dequant_q4_1_tensor_def dequant_q4_1_block_eq)
qed

section \<open>Q6_K\<close>

definition q6_k_size :: nat where "q6_k_size = 256"
definition q6_k_bytes :: nat where "q6_k_bytes = 210"

text \<open>The four codes that the low nibbles and the high bits of position \<open>l\<close> hold.\<close>

definition q6_codes :: "u8 \<Rightarrow> u8 \<Rightarrow> u8 \<Rightarrow> int list" where
  "q6_codes lo hi qh =
     (let ql_lo = uint lo; ql_hi = uint hi; qhb = uint qh in
      [((ql_lo AND 0x0F) OR push_bit 4 (qhb AND 3)) - 32,
       ((ql_hi AND 0x0F) OR push_bit 4 (drop_bit 2 qhb AND 3)) - 32,
       (drop_bit 4 ql_lo OR push_bit 4 (drop_bit 4 qhb AND 3)) - 32,
       (drop_bit 4 ql_hi OR push_bit 4 (drop_bit 6 qhb AND 3)) - 32])"

text \<open>
  One position of a half.  The cursors \<open>y_off\<close>, \<open>ql_off\<close>, \<open>qh_off\<close> and \<open>scales_off\<close>
  are the tuple the outer loop advances; \<open>qh\<close> starts at byte 128 and the scales at 192.
\<close>

type_synonym q6_cursor = "nat \<times> nat \<times> nat \<times> nat"

definition q6_position :: "'f quant_ops \<Rightarrow> bytes \<Rightarrow> 'f \<Rightarrow> q6_cursor \<Rightarrow> nat \<Rightarrow> 'f list \<Rightarrow> 'f list checked" where
  "q6_position q block d cursor l out =
     (let (y_off, ql_off, qh_off, scales_off) = cursor; is = l div 16 in
      and_then (index block (ql_off + l)) (\<lambda>lo. and_then (index block (ql_off + l + 32)) (\<lambda>hi.
      and_then (index block (128 + (qh_off + l))) (\<lambda>qh.
      let codes = q6_codes lo hi qh in
      and_then (index block (192 + (scales_off + is))) (\<lambda>s0.
      and_then (index block (192 + (scales_off + is + 2))) (\<lambda>s1.
      and_then (index block (192 + (scales_off + is + 4))) (\<lambda>s2.
      and_then (index block (192 + (scales_off + is + 6))) (\<lambda>s3.
      let value = (\<lambda>s i. qf_mul q (qf_mul q d (qf_int q (sint s))) (qf_int q (codes ! i))) in
      and_then (store (y_off + l) (value s0 0) out) (\<lambda>out.
      and_then (store (y_off + l + 32) (value s1 1) out) (\<lambda>out.
      and_then (store (y_off + l + 64) (value s2 2) out) (\<lambda>out.
        store (y_off + l + 96) (value s3 3) out)))))))))))"

definition q6_half :: "'f quant_ops \<Rightarrow> bytes \<Rightarrow> 'f \<Rightarrow> nat \<Rightarrow> 'f list \<times> q6_cursor \<Rightarrow> ('f list \<times> q6_cursor) checked" where
  "q6_half q block d half state =
     (let (out, cursor) = state; (y_off, ql_off, qh_off, scales_off) = cursor in
      and_then (for_each [0..<32] (q6_position q block d cursor) out) (\<lambda>out.
        Ok (out, y_off + 128, ql_off + 64, qh_off + 32, scales_off + 8)))"

definition dequant_q6_k_superblock :: "'f quant_ops \<Rightarrow> bytes \<Rightarrow> 'f list \<Rightarrow> 'f list checked" where
  "dequant_q6_k_superblock q block out =
     (if length block \<noteq> q6_k_bytes then Err ''Q6_K superblock: wrong number of bytes''
      else if length out \<noteq> q6_k_size then Err ''Q6_K out: wrong number of slots''
      else and_then (index block 208) (\<lambda>b0. and_then (index block 209) (\<lambda>b1.
        and_then (for_each [0..<2] (q6_half q block (qf_f16 q (le_u16 b0 b1))) (out, 0, 0, 0, 0)) (\<lambda>(out, _). Ok out))))"

definition dequant_q6_k_tensor :: "'f quant_ops \<Rightarrow> bytes \<Rightarrow> nat \<Rightarrow> 'f list checked" where
  "dequant_q6_k_tensor q bytes elems =
     (if elems mod q6_k_size \<noteq> 0 then Err ''Q6_K requires total elements divisible by 256''
      else let num_blocks = elems div q6_k_size in
        if length bytes \<noteq> num_blocks * q6_k_bytes then Err ''Q6_K bytes len mismatch''
        else dequant_blocks q6_k_bytes q6_k_size (dequant_q6_k_superblock q) bytes num_blocks (replicate elems (qf_int q 0)))"

text \<open>The weight at position \<open>128 h + 32 c + l\<close> of a superblock.\<close>

definition q6_k_weight :: "'f quant_ops \<Rightarrow> bytes \<Rightarrow> nat \<Rightarrow> 'f" where
  "q6_k_weight q block k =
     (let h = k div 128; c = k mod 128 div 32; l = k mod 32;
          codes = q6_codes (block ! (h * 64 + l)) (block ! (h * 64 + l + 32)) (block ! (128 + (h * 32 + l)))
      in qf_mul q (qf_mul q (qf_f16 q (le_u16 (block ! 208) (block ! 209)))
           (qf_int q (sint (block ! (192 + (h * 8 + l div 16 + 2 * c)))))) (qf_int q (codes ! c)))"

lemma q6_k_weight_at:
  assumes "l < 32" and "c < 4"
  shows "q6_k_weight q block (h * 128 + (32 * c + l)) =
     qf_mul q (qf_mul q (qf_f16 q (le_u16 (block ! 208) (block ! 209)))
       (qf_int q (sint (block ! (192 + (h * 8 + l div 16 + 2 * c))))))
       (qf_int q (q6_codes (block ! (h * 64 + l)) (block ! (h * 64 + l + 32)) (block ! (128 + (h * 32 + l))) ! c))"
proof -
  have "(h * 128 + (32 * c + l)) div 128 = h" "(h * 128 + (32 * c + l)) mod 128 = 32 * c + l"
    using assms by (intro position_div; simp)+
  moreover have "(h * 128 + (32 * c + l)) mod 32 = l"
  proof -
    have "h * 128 + (32 * c + l) = (h * 4 + c) * 32 + l" by simp
    with assms(1) show ?thesis by (simp only: position_div)
  qed
  moreover have "(32 * c + l) div 32 = c"
    using assms(1) by simp
  ultimately show ?thesis
    by (simp add: q6_k_weight_def Let_def)
qed

lemma four_cases: "(c :: nat) < 4 \<longleftrightarrow> c = 0 \<or> c = 1 \<or> c = 2 \<or> c = 3"
  by auto

definition q6_writes :: "'f quant_ops \<Rightarrow> bytes \<Rightarrow> nat \<Rightarrow> nat \<Rightarrow> (nat \<times> 'f) list" where
  "q6_writes q block h l = map (\<lambda>c. (h * 128 + (32 * c + l), q6_k_weight q block (h * 128 + (32 * c + l)))) [0, 1, 2, 3]"

lemma q6_position_eq:
  assumes "length block = 210" and "length out = 256" and "h < 2" and "l < 32"
  shows "q6_position q block (qf_f16 q (le_u16 (block ! 208) (block ! 209))) (h * 128, h * 64, h * 32, h * 8) l out
    = Ok (perform (q6_writes q block h l) out)"
proof -
  have l: "l div 16 < 2" using assms(4) by simp
  have "h * 64 + l + 32 < 210" "h * 64 + l < 210" "128 + (h * 32 + l) < 210"
    "192 + (h * 8 + l div 16) < 210" "192 + (h * 8 + l div 16 + 2) < 210" "192 + (h * 8 + l div 16 + 4) < 210"
    "192 + (h * 8 + l div 16 + 6) < 210"
    "h * 128 + l < 256" "h * 128 + l + 32 < 256" "h * 128 + l + 64 < 256" "h * 128 + l + 96 < 256"
    using assms(3,4) l by linarith+
  note bounds = this
  show ?thesis
    using bounds assms q6_k_weight_at [OF assms(4), of 0 q block h] q6_k_weight_at [OF assms(4), of 1 q block h]
      q6_k_weight_at [OF assms(4), of 2 q block h] q6_k_weight_at [OF assms(4), of 3 q block h]
    by (simp add: q6_position_def q6_writes_def Let_def index_def store_def ac_simps)
      (use bounds in linarith)
qed

lemma q6_half_eq:
  assumes "length block = 210" and "length out = 256" and "h < 2"
  shows "q6_half q block (qf_f16 q (le_u16 (block ! 208) (block ! 209))) h (out, h * 128, h * 64, h * 32, h * 8)
    = Ok (perform (concat (map (q6_writes q block h) [0..<32])) out,
        Suc h * 128, Suc h * 64, Suc h * 32, Suc h * 8)"
proof -
  have "for_each [0..<32] (q6_position q block (qf_f16 q (le_u16 (block ! 208) (block ! 209)))
      (h * 128, h * 64, h * 32, h * 8)) out = Ok (perform (concat (map (q6_writes q block h) [0..<32])) out)"
    by (rule for_each_writes [OF q6_position_eq assms(2)]) (use assms in simp_all)
  then show ?thesis
    by (simp add: q6_half_def add.commute del: upt.simps upt_conv_Cons)
qed

lemma dequant_q6_k_superblock_eq:
  assumes "length block = q6_k_bytes" and "length out = q6_k_size"
  shows "dequant_q6_k_superblock q block out = Ok (map (q6_k_weight q block) [0..<q6_k_size])"
proof -
  have len: "length block = 210" and slots: "length out = 256"
    using assms by (simp_all add: q6_k_bytes_def q6_k_size_def)
  define ls where "ls = [0..<32 :: nat]"
  have ls: "l \<in> set ls \<longleftrightarrow> l < 32" for l
    by (auto simp: ls_def)
  let ?ws = "\<lambda>h. concat (map (q6_writes q block h) ls)"
  let ?d = "qf_f16 q (le_u16 (block ! 208) (block ! 209))"
  have one: "q6_half q block ?d 0 (out, 0, 0, 0, 0) = Ok (perform (?ws 0) out, 128, 64, 32, 8)"
    using q6_half_eq [OF len slots, of 0 q] by (simp add: ls_def)
  have two: "q6_half q block ?d 1 (perform (?ws 0) out, 128, 64, 32, 8)
      = Ok (perform (?ws 1) (perform (?ws 0) out), 256, 128, 64, 16)"
    using q6_half_eq [OF len, of "perform (?ws 0) out" 1 q] slots by (simp add: ls_def)
  have "[0..<2] = [0, 1 :: nat]" by (simp add: upt_rec)
  with one two have "for_each [0..<2] (q6_half q block ?d) (out, 0, 0, 0, 0)
      = Ok (perform (?ws 0 @ ?ws 1) out, 256, 128, 64, 16)"
    by (simp only: for_each.simps and_then.simps perform_append)
  moreover have "perform (?ws 0 @ ?ws 1) out = map (q6_k_weight q block) [0..<length out]"
  proof (rule perform_eq_map)
    show "v = q6_k_weight q block k" if "(k, v) \<in> set (?ws 0 @ ?ws 1)" for k v
      using that by (auto simp: q6_writes_def)
  next
    fix k
    assume k: "k < length out"
    let ?h = "k div 128" and ?c = "k mod 128 div 32" and ?l = "k mod 32"
    have h: "?h = 0 \<or> ?h = 1" and c: "?c < 4"
      using k slots by auto
    have "?h * 128 + (32 * ?c + ?l) = k"
    proof -
      have "k mod 128 mod 32 = k mod 32"
        by (rule mod_mod_cancel) simp
      then have "32 * ?c + ?l = k mod 128"
        using mult_div_mod_eq [of 32 "k mod 128"] by simp
      then show ?thesis
        using div_mult_mod_eq [of k 128] by simp
    qed
    then have "(k, q6_k_weight q block k) \<in> set (q6_writes q block ?h ?l)"
      using c by (auto simp: q6_writes_def four_cases)
    moreover have "?l \<in> set ls" by (simp add: ls)
    ultimately have "(k, q6_k_weight q block k) \<in> set (?ws ?h)"
      unfolding set_concat set_map by blast
    with h have "(k, q6_k_weight q block k) \<in> set (?ws 0 @ ?ws 1)" by auto
    then show "k \<in> fst ` set (?ws 0 @ ?ws 1)"
      by (rule image_eqI [rotated]) simp
  qed
  ultimately show ?thesis
    using assms by (simp only: dequant_q6_k_superblock_def index_in len slots and_then.simps q6_k_size_def prod.case
        simp_thms if_False)
qed

lemma dequant_q6_k_tensor_eq:
  assumes "elems mod q6_k_size = 0" and "length bytes = elems div q6_k_size * q6_k_bytes"
  shows "dequant_q6_k_tensor q bytes elems = Ok (concat (map (\<lambda>b.
    map (q6_k_weight q (take q6_k_bytes (drop (b * q6_k_bytes) bytes))) [0..<q6_k_size]) [0..<elems div q6_k_size]))"
proof -
  have "elems div q6_k_size * q6_k_size = elems"
    using assms(1) by (simp add: mod_eq_0_iff_dvd)
  then show ?thesis
    using dequant_blocks_eq [of q6_k_bytes q6_k_size "dequant_q6_k_superblock q" "\<lambda>block. map (q6_k_weight q block) [0..<q6_k_size]"
        bytes "elems div q6_k_size" "replicate elems (qf_int q 0)"] assms
    by (simp add: dequant_q6_k_tensor_def dequant_q6_k_superblock_eq)
qed

text \<open>Every code of a superblock fits the six bits it is packed in.\<close>

lemma six_bits:
  fixes x y :: int
  assumes "0 \<le> x" "x < 16" "0 \<le> y"
  shows "-32 \<le> (x OR push_bit 4 (y AND 3)) - 32 \<and> (x OR push_bit 4 (y AND 3)) - 32 < 32"
proof -
  have "0 \<le> y AND 3" "y AND 3 \<le> 3"
    by (simp_all add: AND_upper2)
  then have "0 \<le> push_bit 4 (y AND 3)" "push_bit 4 (y AND 3) < 2 ^ 6"
    by (simp_all add: push_bit_eq_mult)
  then have "x OR push_bit 4 (y AND 3) < 2 ^ 6" "0 \<le> x OR push_bit 4 (y AND 3)"
    using OR_upper [of x 6 "push_bit 4 (y AND 3)"] assms by simp_all
  then show ?thesis by simp
qed

lemma q6_codes_range: "c \<in> set (q6_codes lo hi qh) \<Longrightarrow> -32 \<le> c \<and> c < 32"
proof -
  have low: "0 \<le> uint b AND 15" "uint b AND 15 < 16" for b :: u8
    using AND_upper2 [of 15 "uint b"] by simp_all
  have high: "0 \<le> drop_bit 4 (uint b)" "drop_bit 4 (uint b) < 16" for b :: u8
    using uint_bounded [of b] by (simp_all add: drop_bit_eq_div pos_imp_zdiv_nonneg_iff)
  show "c \<in> set (q6_codes lo hi qh) \<Longrightarrow> -32 \<le> c \<and> c < 32"
    unfolding q6_codes_def Let_def set_simps insert_iff empty_iff
    by (elim disjE FalseE; simp only:; intro six_bits low high; simp)
qed

end
