(* ===== verification/Config.thy ===== *)
theory Config
  imports Prelude
begin

text \<open>
  The configuration file of the engine (\<open>ai-engine-config\<close>: \<open>lib.rs\<close>, \<open>interpolate.rs\<close>,
  \<open>validate.rs\<close>): its data, the substitution of environment variables and the checks.  The
  TOML parser and the process environment are parameters.  A \<open>HashMap\<close> is the list of its
  entries in the order the program happens to iterate over them.
\<close>

section \<open>The data\<close>

record server_cfg =
  sv_bind :: string
  sv_shutdown_grace_secs :: nat
  sv_log_format :: string
  sv_log_level :: string

record master_key =
  mk_key :: string
  mk_name :: string

record auth_cfg =
  au_mode :: string
  au_master_keys :: "master_key list"

record policy_cfg =
  po_max_request_bytes :: nat
  po_prompt_injection_patterns :: "string list"

record provider_cfg =
  pr_id :: string
  pr_kind :: string
  pr_base_url :: string
  pr_api_key :: "string option"
  pr_timeout_secs :: nat
  pr_http2 :: bool
  pr_extra_headers :: "(string \<times> string) list"
  pr_cluster :: "string option"
  pr_weights_path :: "string option"
  pr_device :: "string option"
  pr_pool_size :: "nat option"
  pr_engine :: "string option"
  pr_max_num_seqs :: "nat option"
  pr_block_size :: "nat option"
  pr_kv_cache_blocks :: "nat option"

record route_cfg =
  ro_model :: string
  ro_provider :: string
  ro_upstream_model :: "string option"

record cluster_model =
  cm_id :: string
  cm_weights_path :: string
  cm_config_path :: "string option"
  cm_tokenizer_path :: "string option"

record cluster_node =
  cn_id :: string
  cn_addr :: string
  cn_cert_fingerprint :: string
  cn_backend :: string
  cn_device_index :: nat
  cn_max_memory_mib :: "nat option"

record partition_override =
  ov_node :: string
  ov_layers :: string

record discover_cfg =
  di_expected_workers :: nat
  di_timeout_secs :: nat

record cluster_cfg =
  cl_id :: string
  cl_leader :: string
  cl_quic_bind :: string
  cl_protocol_version :: u16
  cl_join_timeout_secs :: nat
  cl_heartbeat_interval_secs :: nat
  cl_model :: cluster_model
  cl_nodes :: "cluster_node list"
  cl_partition_override :: "partition_override list"
  cl_discover :: "discover_cfg option"
  cl_leaderless :: bool

record mdns_cfg =
  md_ollama_mdns :: bool
  md_timeout_secs :: nat

record config =
  cf_server :: server_cfg
  cf_auth :: auth_cfg
  cf_content_policy :: policy_cfg
  cf_providers :: "provider_cfg list"
  cf_routes :: "route_cfg list"
  cf_pipeline :: "(string \<times> string list) list"
  cf_clusters :: "cluster_cfg list"
  cf_discovery :: "mdns_cfg option"

definition default_content_policy :: policy_cfg where
  "default_content_policy = \<lparr>po_max_request_bytes = 1048576, po_prompt_injection_patterns = []\<rparr>"

datatype config_error =
    MissingEnv "string list"
  | TomlParse string
  | BadAuthMode string
  | DuplicateProvider string
  | UnknownProviderKind string string
  | ZeroPool string
  | CandleWeights string string
  | RustyllmNoWeights string
  | RustyllmGguf string string
  | RouteUnknownProvider string string
  | RouteLooksAnthropic string string
  | RouteLooksOpenai string string
  | DuplicateCluster string
  | UnknownLeader string string
  | DuplicateNodeId string string
  | DuplicateNodeAddr string string
  | UnknownBackend string string
  | BadFingerprint string
  | ZeroWorkers string
  | NoConfigPath string
  | NoTokenizerPath string
  | NoClusterField string
  | ProviderUnknownCluster string string
  | NoForward string
  | NoTerminal string

type_synonym check = "(config_error, unit) outcome"

section \<open>Environment variables\<close>

definition var_start :: "char \<Rightarrow> bool" where
  "var_start c \<longleftrightarrow> (let d = of_char c :: nat in 65 \<le> d \<and> d \<le> 90) \<or> c = CHR ''_''"

definition var_char :: "char \<Rightarrow> bool" where
  "var_char c \<longleftrightarrow> var_start c \<or> (let d = of_char c :: nat in 48 \<le> d \<and> d \<le> 57)"

text \<open>A match of \<open>\$\{([A-Z_][A-Z0-9_]*)\}\<close> at the start of the text, and what follows it.\<close>

definition match_var :: "string \<Rightarrow> (string \<times> string) option" where
  "match_var s = Option.bind (strip_prefix ''${'' s) (\<lambda>rest.
     let name = takeWhile var_char rest; after = dropWhile var_char rest in
     if name \<noteq> [] \<and> var_start (hd name) \<and> after \<noteq> [] \<and> hd after = CHR ''}'' then Some (name, tl after) else None)"

lemma strip_prefix_Some: "strip_prefix p s = Some r \<longleftrightarrow> s = p @ r"
  by (induction p s rule: strip_prefix.induct) auto

lemma match_var_shorter: "match_var s = Some (name, rest) \<Longrightarrow> length rest < length s"
proof -
  assume "match_var s = Some (name, rest)"
  then obtain r where "s = ''${'' @ r" "rest = tl (dropWhile var_char r)"
    by (auto simp: match_var_def bind_eq_Some_conv strip_prefix_Some Let_def split: if_splits)
  moreover have "length (tl (dropWhile var_char r)) \<le> length r"
    using length_dropWhile_le [of var_char r] by simp
  ultimately show ?thesis by simp
qed

text \<open>\<open>replace_all\<close> with the closure of \<open>env_substitute\<close>: the text and the missing variables.\<close>

function replace_all :: "(string \<Rightarrow> string option) \<Rightarrow> string \<Rightarrow> string \<times> string list" where
  "replace_all env s = (case match_var s of
     Some (name, rest) \<Rightarrow>
       let (out, missing) = replace_all env rest in
       (case env name of
          Some v \<Rightarrow> (v @ out, missing)
        | None \<Rightarrow> (out, name # missing))
   | None \<Rightarrow> (case s of
       [] \<Rightarrow> ([], [])
     | c # cs \<Rightarrow> let (out, missing) = replace_all env cs in (c # out, missing)))"
  by pat_completeness auto
termination
  by (relation "measure (length \<circ> snd)") (auto dest: match_var_shorter)

declare replace_all.simps [simp del]

definition env_substitute :: "(string \<Rightarrow> string option) \<Rightarrow> string \<Rightarrow> (config_error, string) outcome" where
  "env_substitute env src =
     (let (out, missing) = replace_all env src in
      if missing \<noteq> [] then Err (MissingEnv missing) else Ok out)"

section \<open>Validation\<close>

fun for_all :: "('a \<Rightarrow> check) \<Rightarrow> 'a list \<Rightarrow> check" where
  "for_all f [] = Ok ()"
| "for_all f (x # xs) = and_then (f x) (\<lambda>_. for_all f xs)"

definition bail_if :: "bool \<Rightarrow> config_error \<Rightarrow> check" where
  "bail_if b e = (if b then Err e else Ok ())"

definition starts_with :: "string \<Rightarrow> string \<Rightarrow> bool" where
  "starts_with s p \<longleftrightarrow> strip_prefix p s \<noteq> None"

definition ends_with :: "string \<Rightarrow> string \<Rightarrow> bool" where
  "ends_with s p \<longleftrightarrow> strip_prefix (rev p) (rev s) \<noteq> None"

definition known_kinds :: "string list" where
  "known_kinds = [''openai'', ''anthropic'', ''local-cluster'', ''candle'', ''rustyllm'']"

fun check_providers :: "string set \<Rightarrow> provider_cfg list \<Rightarrow> check" where
  "check_providers ids [] = Ok ()"
| "check_providers ids (p # ps) =
     (if pr_id p \<in> ids then Err (DuplicateProvider (pr_id p))
      else if pr_kind p \<notin> set known_kinds then Err (UnknownProviderKind (pr_kind p) (pr_id p))
      else check_providers (insert (pr_id p) ids) ps)"

definition weights :: "provider_cfg \<Rightarrow> string" where
  "weights p = (case pr_weights_path p of None \<Rightarrow> [] | Some w \<Rightarrow> w)"

definition check_candle :: "provider_cfg \<Rightarrow> check" where
  "check_candle p =
     (if pr_kind p = ''candle'' then
        and_then (bail_if (pr_pool_size p = Some 0) (ZeroPool (pr_id p))) (\<lambda>_.
          bail_if (\<not> ends_with (weights p) ''.gguf'') (CandleWeights (pr_id p) (weights p)))
      else Ok ())"

definition check_rustyllm :: "provider_cfg \<Rightarrow> check" where
  "check_rustyllm p =
     (if pr_kind p = ''rustyllm'' then
        and_then (bail_if (weights p = []) (RustyllmNoWeights (pr_id p))) (\<lambda>_.
          bail_if (ends_with (weights p) ''.gguf'') (RustyllmGguf (pr_id p) (weights p)))
      else Ok ())"

definition check_route_provider :: "config \<Rightarrow> route_cfg \<Rightarrow> check" where
  "check_route_provider cfg r =
     bail_if (\<not> list_ex (\<lambda>p. pr_id p = ro_provider r) (cf_providers cfg)) (RouteUnknownProvider (ro_model r) (ro_provider r))"

definition check_route_format :: "config \<Rightarrow> route_cfg \<Rightarrow> check" where
  "check_route_format cfg r =
     (case List.find (\<lambda>p. pr_id p = ro_provider r) (cf_providers cfg) of
        None \<Rightarrow> Ok ()
      | Some p \<Rightarrow> let m = ro_model r in
          if pr_kind p = ''openai'' \<and> starts_with m ''claude'' then Err (RouteLooksAnthropic m (pr_id p))
          else if pr_kind p = ''anthropic'' \<and> (starts_with m ''gpt'' \<or> starts_with m ''text-embedding'')
          then Err (RouteLooksOpenai m (pr_id p))
          else Ok ())"

definition known_backends :: "string list" where
  "known_backends = [''cpu'', ''cuda'', ''metal'', ''wgpu'']"

fun check_nodes :: "string \<Rightarrow> string set \<Rightarrow> string set \<Rightarrow> cluster_node list \<Rightarrow> check" where
  "check_nodes cluster ids addrs [] = Ok ()"
| "check_nodes cluster ids addrs (n # ns) =
     (if cn_id n \<in> ids then Err (DuplicateNodeId (cn_id n) cluster)
      else if cn_addr n \<in> addrs then Err (DuplicateNodeAddr (cn_addr n) cluster)
      else if cn_backend n \<notin> set known_backends then Err (UnknownBackend (cn_backend n) (cn_id n))
      else if \<not> starts_with (cn_cert_fingerprint n) ''sha256:'' then Err (BadFingerprint (cn_id n))
      else check_nodes cluster (insert (cn_id n) ids) (insert (cn_addr n) addrs) ns)"

text \<open>\<open>rsplit('.').next()\<close>: what follows the last dot, or the whole path.\<close>

definition is_gguf :: "string \<Rightarrow> bool" where
  "is_gguf path = eq_ignore_case (rev (takeWhile (\<lambda>c. c \<noteq> CHR ''.'') (rev path))) ''gguf''"

fun check_clusters :: "string set \<Rightarrow> cluster_cfg list \<Rightarrow> check" where
  "check_clusters ids [] = Ok ()"
| "check_clusters ids (c # cs) =
     (if cl_id c \<in> ids then Err (DuplicateCluster (cl_id c))
      else if \<not> list_ex (\<lambda>n. cn_id n = cl_leader c) (cl_nodes c) then Err (UnknownLeader (cl_id c) (cl_leader c))
      else and_then (check_nodes (cl_id c) {} {} (cl_nodes c)) (\<lambda>_.
        and_then (case cl_discover c of
            None \<Rightarrow> Ok ()
          | Some d \<Rightarrow> bail_if (di_expected_workers d = 0) (ZeroWorkers (cl_id c))) (\<lambda>_.
        and_then
          (if \<not> is_gguf (cm_weights_path (cl_model c)) then
             and_then (bail_if (cm_config_path (cl_model c) = None) (NoConfigPath (cl_id c))) (\<lambda>_.
               bail_if (cm_tokenizer_path (cl_model c) = None) (NoTokenizerPath (cl_id c)))
           else Ok ()) (\<lambda>_.
        check_clusters (insert (cl_id c) ids) cs))))"

definition check_local_cluster :: "config \<Rightarrow> provider_cfg \<Rightarrow> check" where
  "check_local_cluster cfg p =
     (if pr_kind p = ''local-cluster'' then
        and_then (ok_or (NoClusterField (pr_id p)) (pr_cluster p)) (\<lambda>target.
          bail_if (\<not> list_ex (\<lambda>c. cl_id c = target) (cf_clusters cfg)) (ProviderUnknownCluster (pr_id p) target))
      else Ok ())"

definition check_pipeline :: "string \<times> string list \<Rightarrow> check" where
  "check_pipeline = (\<lambda>(route, stages).
     and_then (bail_if (\<not> list_ex (\<lambda>s. s = ''forward'') stages) (NoForward route)) (\<lambda>_.
       bail_if (\<not> list_ex (\<lambda>s. s = ''log'') stages) (NoTerminal route)))"

definition validate :: "config \<Rightarrow> check" where
  "validate cfg =
     and_then (bail_if (au_mode (cf_auth cfg) \<notin> set [''passthrough'', ''shared-key'']) (BadAuthMode (au_mode (cf_auth cfg)))) (\<lambda>_.
     and_then (check_providers {} (cf_providers cfg)) (\<lambda>_.
     and_then (for_all check_candle (cf_providers cfg)) (\<lambda>_.
     and_then (for_all check_rustyllm (cf_providers cfg)) (\<lambda>_.
     and_then (for_all (check_route_provider cfg) (cf_routes cfg)) (\<lambda>_.
     and_then (for_all (check_route_format cfg) (cf_routes cfg)) (\<lambda>_.
     and_then (check_clusters {} (cf_clusters cfg)) (\<lambda>_.
     and_then (for_all (check_local_cluster cfg) (cf_providers cfg)) (\<lambda>_.
       for_all check_pipeline (cf_pipeline cfg)))))))))"

definition config_from_text ::
    "(string \<Rightarrow> string option) \<Rightarrow> (string \<Rightarrow> (string, config) outcome) \<Rightarrow> string \<Rightarrow> (config_error, config) outcome" where
  "config_from_text env parse_toml src =
     and_then (env_substitute env src) (\<lambda>interpolated.
     and_then (case parse_toml interpolated of
         Ok cfg \<Rightarrow> Ok cfg
       | Err e \<Rightarrow> Err (TomlParse e)
       | Panic \<Rightarrow> Panic) (\<lambda>cfg.
     and_then (validate cfg) (\<lambda>_. Ok cfg)))"

section \<open>What substitution does\<close>

datatype template_part = Lit string | Var string

definition var_name :: "string \<Rightarrow> bool" where
  "var_name v \<longleftrightarrow> v \<noteq> [] \<and> var_start (hd v) \<and> list_all var_char v"

fun part_ok :: "template_part \<Rightarrow> bool" where
  "part_ok (Lit s) = (CHR ''$'' \<notin> set s)"
| "part_ok (Var v) = var_name v"

fun render_part :: "template_part \<Rightarrow> string" where
  "render_part (Lit s) = s"
| "render_part (Var v) = ''${'' @ v @ ''}''"

fun part_value :: "(string \<Rightarrow> string option) \<Rightarrow> template_part \<Rightarrow> string" where
  "part_value env (Lit s) = s"
| "part_value env (Var v) = (case env v of None \<Rightarrow> [] | Some x \<Rightarrow> x)"

fun part_missing :: "(string \<Rightarrow> string option) \<Rightarrow> template_part \<Rightarrow> string list" where
  "part_missing env (Lit s) = []"
| "part_missing env (Var v) = (if env v = None then [v] else [])"

lemma match_var_rendered: "var_name v \<Longrightarrow> match_var (''${'' @ v @ ''}'' @ rest) = Some (v, rest)"
proof -
  assume v: "var_name v"
  have "\<not> var_char (CHR ''}'')" by code_simp
  moreover have all: "x \<in> set v \<Longrightarrow> var_char x" for x
    using v by (simp add: var_name_def list_all_iff)
  ultimately have "takeWhile var_char (v @ ''}'' @ rest) = v" "dropWhile var_char (v @ ''}'' @ rest) = ''}'' @ rest"
    by (simp_all only: takeWhile_append2 [OF all] dropWhile_append2 [OF all]) simp_all
  with v show ?thesis
    by (simp add: match_var_def var_name_def del: dropWhile_eq_Nil_conv)
qed

lemma match_var_no_dollar: "c \<noteq> CHR ''$'' \<Longrightarrow> match_var (c # cs) = None"
  by (simp add: match_var_def)

lemma replace_all_lit:
  "CHR ''$'' \<notin> set s \<Longrightarrow> replace_all env (s @ rest) = (s @ fst (replace_all env rest), snd (replace_all env rest))"
proof (induction s)
  case (Cons c s)
  then have "match_var (c # s @ rest) = None" by (intro match_var_no_dollar) auto
  with Cons show ?case
    unfolding append_Cons by (subst replace_all.simps) (simp split: prod.split)
qed simp

lemma replace_all_rendered:
  "list_all part_ok parts \<Longrightarrow> replace_all env (concat (map render_part parts))
    = (concat (map (part_value env) parts), concat (map (part_missing env) parts))"
proof (induction parts)
  case Nil
  show ?case by (subst replace_all.simps) (simp add: match_var_def)
next
  case (Cons part parts)
  then have IH: "replace_all env (concat (map render_part parts))
    = (concat (map (part_value env) parts), concat (map (part_missing env) parts))" by simp
  show ?case
  proof (cases part)
    case (Lit s)
    with Cons.prems show ?thesis
      by (simp add: replace_all_lit IH)
  next
    case (Var v)
    with Cons.prems match_var_rendered [of v "concat (map render_part parts)"] show ?thesis
      by (subst replace_all.simps) (simp add: IH split: option.split)
  qed
qed

text \<open>
  A text of plain parts and variables becomes its parts with the values put in; if variables
  are unset, all of them are named, in order.
\<close>

lemma env_substitute_rendered:
  assumes "list_all part_ok parts"
  shows "env_substitute env (concat (map render_part parts)) =
    (let missing = concat (map (part_missing env) parts) in
     if missing = [] then Ok (concat (map (part_value env) parts)) else Err (MissingEnv missing))"
  by (simp add: env_substitute_def replace_all_rendered [OF assms] Let_def)

section \<open>What validation accepts\<close>

definition provider_valid :: "config \<Rightarrow> provider_cfg \<Rightarrow> bool" where
  "provider_valid cfg p \<longleftrightarrow>
     pr_kind p \<in> set known_kinds
     \<and> (pr_kind p = ''candle'' \<longrightarrow> pr_pool_size p \<noteq> Some 0 \<and> ends_with (weights p) ''.gguf'')
     \<and> (pr_kind p = ''rustyllm'' \<longrightarrow> weights p \<noteq> [] \<and> \<not> ends_with (weights p) ''.gguf'')
     \<and> (pr_kind p = ''local-cluster'' \<longrightarrow> (\<exists>c \<in> set (cf_clusters cfg). pr_cluster p = Some (cl_id c)))"

definition route_valid :: "config \<Rightarrow> route_cfg \<Rightarrow> bool" where
  "route_valid cfg r \<longleftrightarrow> (\<exists>p \<in> set (cf_providers cfg). pr_id p = ro_provider r
     \<and> \<not> (pr_kind p = ''openai'' \<and> starts_with (ro_model r) ''claude'')
     \<and> \<not> (pr_kind p = ''anthropic'' \<and> (starts_with (ro_model r) ''gpt'' \<or> starts_with (ro_model r) ''text-embedding'')))"

definition node_valid :: "cluster_node \<Rightarrow> bool" where
  "node_valid n \<longleftrightarrow> cn_backend n \<in> set known_backends \<and> starts_with (cn_cert_fingerprint n) ''sha256:''"

definition cluster_valid :: "cluster_cfg \<Rightarrow> bool" where
  "cluster_valid c \<longleftrightarrow>
     cl_leader c \<in> cn_id ` set (cl_nodes c)
     \<and> distinct (map cn_id (cl_nodes c)) \<and> distinct (map cn_addr (cl_nodes c))
     \<and> list_all node_valid (cl_nodes c)
     \<and> (\<forall>d. cl_discover c = Some d \<longrightarrow> di_expected_workers d \<noteq> 0)
     \<and> (is_gguf (cm_weights_path (cl_model c))
         \<or> cm_config_path (cl_model c) \<noteq> None \<and> cm_tokenizer_path (cl_model c) \<noteq> None)"

definition config_valid :: "config \<Rightarrow> bool" where
  "config_valid cfg \<longleftrightarrow>
     au_mode (cf_auth cfg) \<in> {''passthrough'', ''shared-key''}
     \<and> distinct (map pr_id (cf_providers cfg)) \<and> list_all (provider_valid cfg) (cf_providers cfg)
     \<and> list_all (route_valid cfg) (cf_routes cfg)
     \<and> distinct (map cl_id (cf_clusters cfg)) \<and> list_all cluster_valid (cf_clusters cfg)
     \<and> list_all (\<lambda>(route, stages). ''forward'' \<in> set stages \<and> ''log'' \<in> set stages) (cf_pipeline cfg)"

lemma bail_if_simps [simp]:
  "bail_if b e = Ok u \<longleftrightarrow> \<not> b" "bail_if b e \<noteq> Panic"
  by (simp_all add: bail_if_def)

lemma for_all_Ok: "for_all f xs = Ok u \<longleftrightarrow> (\<forall>x \<in> set xs. f x = Ok ())"
  by (induction xs) (auto simp: outcome_simps)

lemma for_all_no_panic: "(\<And>x. f x \<noteq> Panic) \<Longrightarrow> for_all f xs \<noteq> Panic"
  by (induction xs) (auto simp: outcome_simps)

lemma check_providers_Ok:
  "check_providers ids ps = Ok u \<longleftrightarrow>
    distinct (map pr_id ps) \<and> pr_id ` set ps \<inter> ids = {} \<and> (\<forall>p \<in> set ps. pr_kind p \<in> set known_kinds)"
  by (induction ps arbitrary: ids) auto

lemma check_providers_no_panic: "check_providers ids ps \<noteq> Panic"
  by (induction ps arbitrary: ids) auto

lemma check_nodes_Ok:
  "check_nodes cluster ids addrs ns = Ok u \<longleftrightarrow>
    distinct (map cn_id ns) \<and> cn_id ` set ns \<inter> ids = {} \<and> distinct (map cn_addr ns) \<and> cn_addr ` set ns \<inter> addrs = {}
    \<and> list_all node_valid ns"
proof (induction ns arbitrary: ids addrs)
  case (Cons n ns)
  show ?case
    using Cons.IH [of "insert (cn_id n) ids" "insert (cn_addr n) addrs"]
    by (auto simp: node_valid_def)
qed simp

lemma check_nodes_no_panic: "check_nodes cluster ids addrs ns \<noteq> Panic"
  by (induction ns arbitrary: ids addrs) auto

lemma check_model_Ok:
  "(if \<not> is_gguf (cm_weights_path (cl_model c)) then
      and_then (bail_if (cm_config_path (cl_model c) = None) e) (\<lambda>_. bail_if (cm_tokenizer_path (cl_model c) = None) e')
    else Ok ()) = Ok u
   \<longleftrightarrow> is_gguf (cm_weights_path (cl_model c))
     \<or> cm_config_path (cl_model c) \<noteq> None \<and> cm_tokenizer_path (cl_model c) \<noteq> None"
  by (simp add: outcome_simps)

lemma check_discover_Ok:
  "(case cl_discover c of None \<Rightarrow> Ok () | Some d \<Rightarrow> bail_if (di_expected_workers d = 0) e) = Ok u
    \<longleftrightarrow> (\<forall>d. cl_discover c = Some d \<longrightarrow> di_expected_workers d \<noteq> 0)"
  by (cases "cl_discover c") simp_all

lemma check_clusters_Cons:
  "check_clusters ids (c # cs) = Ok u \<longleftrightarrow>
    cl_id c \<notin> ids \<and> cluster_valid c \<and> check_clusters (insert (cl_id c) ids) cs = Ok u"
proof (cases "cl_id c \<in> ids \<or> \<not> list_ex (\<lambda>n. cn_id n = cl_leader c) (cl_nodes c)")
  case True
  then show ?thesis by (auto simp: cluster_valid_def list_ex_iff)
next
  case False
  then have fresh: "cl_id c \<notin> ids" and leader: "list_ex (\<lambda>n. cn_id n = cl_leader c) (cl_nodes c)"
    by simp_all
  then have "cl_leader c \<in> cn_id ` set (cl_nodes c)"
    unfolding list_ex_iff by (metis image_eqI)
  with fresh leader show ?thesis
    unfolding cluster_valid_def
    by (simp only: check_clusters.simps if_False if_True and_then_eq_Ok check_discover_Ok check_model_Ok check_nodes_Ok
        Int_empty_right simp_thms not_True_eq_False ex_simps conj_assoc)
qed

lemma check_clusters_Ok:
  "check_clusters ids cs = Ok u \<longleftrightarrow>
    distinct (map cl_id cs) \<and> cl_id ` set cs \<inter> ids = {} \<and> list_all cluster_valid cs"
proof (induction cs arbitrary: ids)
  case (Cons c cs)
  then show ?case
    by (auto simp: check_clusters_Cons simp del: check_clusters.simps)
qed simp

lemma check_clusters_no_panic: "check_clusters ids cs \<noteq> Panic"
  by (induction cs arbitrary: ids)
    (auto simp: outcome_simps check_nodes_no_panic split: option.splits if_splits)

lemma check_candle_Ok:
  "check_candle p = Ok u \<longleftrightarrow> (pr_kind p = ''candle'' \<longrightarrow> pr_pool_size p \<noteq> Some 0 \<and> ends_with (weights p) ''.gguf'')"
  by (simp add: check_candle_def outcome_simps)

lemma check_rustyllm_Ok:
  "check_rustyllm p = Ok u \<longleftrightarrow> (pr_kind p = ''rustyllm'' \<longrightarrow> weights p \<noteq> [] \<and> \<not> ends_with (weights p) ''.gguf'')"
  by (simp add: check_rustyllm_def outcome_simps)

lemma check_local_cluster_Ok:
  "check_local_cluster cfg p = Ok u \<longleftrightarrow>
    (pr_kind p = ''local-cluster'' \<longrightarrow> (\<exists>c \<in> set (cf_clusters cfg). pr_cluster p = Some (cl_id c)))"
  by (auto simp: check_local_cluster_def outcome_simps list_ex_iff)

lemma check_pipeline_Ok:
  "check_pipeline pl = Ok u \<longleftrightarrow> (case pl of (route, stages) \<Rightarrow> ''forward'' \<in> set stages \<and> ''log'' \<in> set stages)"
  by (auto simp: check_pipeline_def outcome_simps list_ex_iff split: prod.split)

lemma find_distinct:
  "distinct (map f xs) \<Longrightarrow> x \<in> set xs \<Longrightarrow> List.find (\<lambda>y. f y = f x) xs = Some x"
  by (induction xs) (auto simp: image_iff)

lemma check_route_Ok:
  assumes "distinct (map pr_id (cf_providers cfg))"
  shows "check_route_provider cfg r = Ok u \<and> check_route_format cfg r = Ok v \<longleftrightarrow> route_valid cfg r"
proof -
  have "check_route_format cfg r = Ok v \<longleftrightarrow>
      \<not> (pr_kind p = ''openai'' \<and> starts_with (ro_model r) ''claude'')
     \<and> \<not> (pr_kind p = ''anthropic'' \<and> (starts_with (ro_model r) ''gpt'' \<or> starts_with (ro_model r) ''text-embedding''))"
    if "p \<in> set (cf_providers cfg)" "pr_id p = ro_provider r" for p
    using find_distinct [OF assms that(1)] that(2) by (auto simp: check_route_format_def Let_def)
  then show ?thesis
    unfolding check_route_provider_def route_valid_def bail_if_simps list_ex_iff by blast
qed

lemma checks_no_panic:
  "check_candle p \<noteq> Panic" "check_rustyllm p \<noteq> Panic" "check_route_provider cfg r \<noteq> Panic"
  "check_route_format cfg r \<noteq> Panic" "check_local_cluster cfg p \<noteq> Panic" "check_pipeline pl \<noteq> Panic"
  by (auto simp: check_candle_def check_rustyllm_def check_route_provider_def check_route_format_def
      check_local_cluster_def check_pipeline_def outcome_simps Let_def split: option.split prod.split)

lemma validate_no_panic: "validate cfg \<noteq> Panic"
  by (simp add: validate_def outcome_simps for_all_no_panic checks_no_panic check_providers_no_panic
      check_clusters_no_panic)

lemma validate_Ok: "validate cfg = Ok () \<longleftrightarrow> config_valid cfg"
proof -
  have routes: "(\<forall>r \<in> set rs. check_route_provider cfg r = Ok ()) \<and> (\<forall>r \<in> set rs. check_route_format cfg r = Ok ())
      \<longleftrightarrow> list_all (route_valid cfg) rs" if "distinct (map pr_id (cf_providers cfg))" for rs
    unfolding list_all_iff using check_route_Ok [OF that, of _ "()" "()"] by blast
  have providers: "(\<forall>p \<in> set ps. pr_kind p \<in> set known_kinds) \<and> (\<forall>p \<in> set ps. check_candle p = Ok ())
      \<and> (\<forall>p \<in> set ps. check_rustyllm p = Ok ()) \<and> (\<forall>p \<in> set ps. check_local_cluster cfg p = Ok ())
      \<longleftrightarrow> list_all (provider_valid cfg) ps" for ps
    unfolding list_all_iff provider_valid_def check_candle_Ok check_rustyllm_Ok check_local_cluster_Ok by blast
  have pipelines: "(\<forall>pl \<in> set pls. check_pipeline pl = Ok ())
      \<longleftrightarrow> list_all (\<lambda>(route, stages). ''forward'' \<in> set stages \<and> ''log'' \<in> set stages) pls" for pls
    unfolding list_all_iff check_pipeline_Ok ..
  have "validate cfg = Ok () \<longleftrightarrow> au_mode (cf_auth cfg) \<in> {''passthrough'', ''shared-key''}
     \<and> distinct (map pr_id (cf_providers cfg)) \<and> (\<forall>p \<in> set (cf_providers cfg). pr_kind p \<in> set known_kinds)
     \<and> (\<forall>p \<in> set (cf_providers cfg). check_candle p = Ok ()) \<and> (\<forall>p \<in> set (cf_providers cfg). check_rustyllm p = Ok ())
     \<and> (\<forall>r \<in> set (cf_routes cfg). check_route_provider cfg r = Ok ())
     \<and> (\<forall>r \<in> set (cf_routes cfg). check_route_format cfg r = Ok ())
     \<and> distinct (map cl_id (cf_clusters cfg)) \<and> list_all cluster_valid (cf_clusters cfg)
     \<and> (\<forall>p \<in> set (cf_providers cfg). check_local_cluster cfg p = Ok ())
     \<and> (\<forall>pl \<in> set (cf_pipeline cfg). check_pipeline pl = Ok ())"
    unfolding validate_def and_then_eq_Ok bail_if_simps check_providers_Ok check_clusters_Ok for_all_Ok by auto
  then show ?thesis
    unfolding config_valid_def providers [symmetric] pipelines [symmetric] using routes by blast
qed

lemma toml_case:
  "(case r of Ok cfg \<Rightarrow> Ok cfg | Err e \<Rightarrow> Err (TomlParse e) | Panic \<Rightarrow> Panic) = Ok c \<longleftrightarrow> r = Ok c"
  by (cases r) simp_all

text \<open>
  C24: the configuration loads exactly when the substituted text parses to a configuration in
  which ids are unique, every reference resolves, every provider, route, node and cluster is
  of a known kind and complete, and every pipeline forwards and logs; checking never panics.
\<close>

theorem config_loads_iff_valid:
  "(config_from_text env parse_toml src = Ok cfg \<longleftrightarrow>
      (\<exists>text. env_substitute env src = Ok text \<and> parse_toml text = Ok cfg \<and> config_valid cfg))
   \<and> validate cfg \<noteq> Panic"
  unfolding config_from_text_def
  by (auto simp: outcome_simps toml_case validate_Ok validate_no_panic)

end
