(* ===== verification/ClusterChat.thy ===== *)
theory ClusterChat
  imports Api Utf8 Sample
begin

text \<open>
  A cluster as a provider of the gateway (\<open>cluster/src/provider.rs\<close>): the three roles of a
  \<open>ClusterProvider\<close>, the prompt it renders, its answers and its streams.  The tokenizer is a
  third-party library.  What the live state generates is a field of \<open>live\<close>, which
  ClusterLive fills with the coordinator's and the leader's generation; a task that panics ends
  its stream.
\<close>

record tokenizer =
  tk_encode :: "string \<Rightarrow> string + u32 list"
  tk_decode :: "u32 list \<Rightarrow> string + string"

record 's live =
  lv_tokenizer :: tokenizer
  lv_generate :: "u32 list \<Rightarrow> nat \<Rightarrow> u32 sampling_config \<Rightarrow> 's \<Rightarrow> (string, u32 list) outcome \<times> 's"
  lv_stream :: "u32 list \<Rightarrow> nat \<Rightarrow> u32 sampling_config \<Rightarrow> 's \<Rightarrow> (string + u32) list \<times> 's"

datatype cluster_role = LeaderRole | WorkerRole | CoordinatorRole

record 's cluster_provider =
  cp_id :: string
  cp_role :: cluster_role
  cp_state :: "'s live option"
  cp_coordinator :: "'s live option"

definition new_leader_with_state :: "string \<Rightarrow> 's live \<Rightarrow> 's cluster_provider" where
  "new_leader_with_state i st = \<lparr>cp_id = i, cp_role = LeaderRole, cp_state = Some st, cp_coordinator = None\<rparr>"

definition new_coordinator :: "string \<Rightarrow> 's live \<Rightarrow> 's cluster_provider" where
  "new_coordinator i st = \<lparr>cp_id = i, cp_role = CoordinatorRole, cp_state = None, cp_coordinator = Some st\<rparr>"

definition new_worker :: "string \<Rightarrow> 's cluster_provider" where
  "new_worker i = \<lparr>cp_id = i, cp_role = WorkerRole, cp_state = None, cp_coordinator = None\<rparr>"

definition stub_leader :: "string \<Rightarrow> 's cluster_provider" where
  "stub_leader i = \<lparr>cp_id = i, cp_role = LeaderRole, cp_state = None, cp_coordinator = None\<rparr>"

definition cluster_capabilities :: capabilities where
  "cluster_capabilities = \<lparr>cap_chat = True, cap_messages = False, cap_embeddings = False, cap_streaming = True,
     cap_tools = False, cap_vision = False\<rparr>"

section \<open>The prompt\<close>

text \<open>\<open>join("\n")\<close>\<close>

fun join_lines :: "string list \<Rightarrow> string" where
  "join_lines [] = []"
| "join_lines [s] = s"
| "join_lines (s # ss) = s @ char_of (10 :: nat) # join_lines ss"

definition message_text :: "chat_content \<Rightarrow> string" where
  "message_text content = (case content of
     ChatText s \<Rightarrow> s
   | ChatParts parts \<Rightarrow> join_lines (List.map_filter (\<lambda>p. Option.bind (json_get p ''text'') as_str) parts))"

definition render_prompt :: "chat_request \<Rightarrow> string" where
  "render_prompt req = concat (map (\<lambda>m. cm_role m @ '': '' @ message_text (cm_content m) @ [char_of (10 :: nat)]) (cr_messages req))"

definition f32_one :: u32 where
  "f32_one = 0x3F800000"

definition sampling_of :: "chat_request \<Rightarrow> call_ctx \<Rightarrow> u32 sampling_config" where
  "sampling_of req ctx = \<lparr>sc_temperature = (case cr_temperature req of None \<Rightarrow> f32_one | Some t \<Rightarrow> t),
     sc_top_p = None, sc_top_k = None, sc_seed = ucast (ca_request_id ctx)\<rparr>"

definition max_tokens_of :: "chat_request \<Rightarrow> nat" where
  "max_tokens_of req = (case cr_max_tokens req of None \<Rightarrow> 256 | Some n \<Rightarrow> unat n)"

section \<open>One answer\<close>

text \<open>\<open>show_uuid\<close> is the text form of a request id.\<close>

definition completion :: "(128 word \<Rightarrow> string) \<Rightarrow> chat_request \<Rightarrow> call_ctx \<Rightarrow> u32 list \<Rightarrow> u32 list \<Rightarrow> string \<Rightarrow> chat_response" where
  "completion show_uuid req ctx prompt_ids tokens content =
     \<lparr>rs_id = ''chatcmpl-'' @ show_uuid (ca_request_id ctx),
      rs_model = cr_model req,
      rs_choices = [\<lparr>cc_index = 0,
        cc_message = \<lparr>cm_role = ''assistant'', cm_content = ChatText content, cm_extras = []\<rparr>,
        cc_finish_reason = Some ''stop'', cc_extras = []\<rparr>],
      rs_usage = Some \<lparr>us_prompt_tokens = of_nat (length prompt_ids), us_completion_tokens = of_nat (length tokens),
        us_total_tokens = of_nat (length prompt_ids + length tokens)\<rparr>,
      rs_extras = []\<rparr>"

definition chat_with ::
    "(128 word \<Rightarrow> string) \<Rightarrow> 's live \<Rightarrow> chat_request \<Rightarrow> call_ctx \<Rightarrow> 's \<Rightarrow> (provider_error, chat_response) outcome \<times> 's" where
  "chat_with show_uuid lv req ctx s =
     (case tk_encode (lv_tokenizer lv) (render_prompt req) of
        Inl e \<Rightarrow> (Err (InvalidResponse (''tokenize: '' @ e)), s)
      | Inr prompt_ids \<Rightarrow> (case lv_generate lv prompt_ids (max_tokens_of req) (sampling_of req ctx) s of
          (Ok tokens, s) \<Rightarrow> (case tk_decode (lv_tokenizer lv) tokens of
              Inl e \<Rightarrow> (Err (InvalidResponse (''decode: '' @ e)), s)
            | Inr content \<Rightarrow> (Ok (completion show_uuid req ctx prompt_ids tokens content), s))
        | (Err e, s) \<Rightarrow> (Err (InvalidResponse (''generate: '' @ e)), s)
        | (Panic, s) \<Rightarrow> (Panic, s)))"

definition cluster_chat ::
    "(128 word \<Rightarrow> string) \<Rightarrow> 's cluster_provider \<Rightarrow> chat_request \<Rightarrow> call_ctx \<Rightarrow> 's
      \<Rightarrow> (provider_error, chat_response) outcome \<times> 's" where
  "cluster_chat show_uuid p req ctx s =
     (if cp_role p = WorkerRole then (Err Unsupported, s)
      else if cp_role p = CoordinatorRole then (case cp_coordinator p of
          None \<Rightarrow> (Err (InvalidResponse ''coordinator provider has no state''), s)
        | Some cs \<Rightarrow> chat_with show_uuid cs req ctx s)
      else (case cp_state p of
          None \<Rightarrow> (Err (InvalidResponse ''cluster provider has no leader state''), s)
        | Some st \<Rightarrow> chat_with show_uuid st req ctx s))"

section \<open>A stream\<close>

definition chunk :: "string \<Rightarrow> string \<Rightarrow> (string \<times> json) list \<Rightarrow> json \<Rightarrow> json" where
  "chunk i model delta finish_reason =
     JObject [(''id'', JString i), (''object'', JString ''chat.completion.chunk''), (''model'', JString model),
       (''choices'', JArray [JObject [(''index'', JNumber (PosInt 0)), (''delta'', JObject delta),
         (''finish_reason'', finish_reason)]])]"

definition text_chunk :: "string \<Rightarrow> string \<Rightarrow> string \<Rightarrow> json" where
  "text_chunk i model text = chunk i model [(''content'', JString text)] JNull"

definition stop_chunk :: "string \<Rightarrow> string \<Rightarrow> json" where
  "stop_chunk i model = chunk i model [] (JString ''stop'')"

text \<open>\<open>&s[k..]\<close>, which panics inside a character.\<close>

definition is_char_boundary :: "string \<Rightarrow> nat \<Rightarrow> bool" where
  "is_char_boundary s k \<longleftrightarrow> k = length s \<or> k < length s \<and> \<not> continuation (as_bytes s ! k)"

definition str_from :: "string \<Rightarrow> nat \<Rightarrow> string option" where
  "str_from s k = (if is_char_boundary s k then Some (drop k s) else None)"

text \<open>The events of a stream, and whether it ended in a panic.\<close>

type_synonym streamed = "event_stream \<times> bool"

definition yield_then :: "json \<Rightarrow> streamed \<Rightarrow> streamed" where
  "yield_then raw rest = (Inr raw # fst rest, snd rest)"

definition fail_with :: "string \<Rightarrow> streamed" where
  "fail_with e = ([Inl (InvalidResponse e)], False)"

fun coordinator_events :: "tokenizer \<Rightarrow> string \<Rightarrow> string \<Rightarrow> u32 list \<Rightarrow> string \<Rightarrow> (string + u32) list \<Rightarrow> streamed" where
  "coordinator_events tk i model emitted prev [] = yield_then (stop_chunk i model) ([], False)"
| "coordinator_events tk i model emitted prev (Inl e # rx) = fail_with (''generate: '' @ e)"
| "coordinator_events tk i model emitted prev (Inr tok # rx) =
     (let emitted = emitted @ [tok] in
      case tk_decode tk emitted of
        Inl e \<Rightarrow> fail_with (''decode: '' @ e)
      | Inr full \<Rightarrow>
          if length prev < length full then
            (case str_from full (length prev) of
               None \<Rightarrow> ([], True)
             | Some suffix \<Rightarrow>
                 if suffix = [] then coordinator_events tk i model emitted full rx
                 else yield_then (text_chunk i model suffix) (coordinator_events tk i model emitted full rx))
          else coordinator_events tk i model emitted prev rx)"

fun leader_events :: "tokenizer \<Rightarrow> string \<Rightarrow> string \<Rightarrow> (string + u32) list \<Rightarrow> streamed" where
  "leader_events tk i model [] = yield_then (stop_chunk i model) ([], False)"
| "leader_events tk i model (Inr tok # rx) =
     (case tk_decode tk [tok] of
        Inl e \<Rightarrow> fail_with (''decode: '' @ e)
      | Inr piece \<Rightarrow> yield_then (text_chunk i model piece) (leader_events tk i model rx))"
| "leader_events tk i model (Inl e # rx) = fail_with (''generate_stream: '' @ e)"

definition stream_with ::
    "(128 word \<Rightarrow> string) \<Rightarrow> (tokenizer \<Rightarrow> string \<Rightarrow> string \<Rightarrow> (string + u32) list \<Rightarrow> streamed) \<Rightarrow> 's live \<Rightarrow> chat_request
      \<Rightarrow> call_ctx \<Rightarrow> 's \<Rightarrow> (provider_error + streamed) \<times> 's" where
  "stream_with show_uuid events lv req ctx s =
     (case tk_encode (lv_tokenizer lv) (render_prompt req) of
        Inl e \<Rightarrow> (Inl (InvalidResponse (''tokenize: '' @ e)), s)
      | Inr prompt_ids \<Rightarrow> (case lv_stream lv prompt_ids (max_tokens_of req) (sampling_of req ctx) s of
          (rx, s) \<Rightarrow> (Inr (events (lv_tokenizer lv) (''chatcmpl-'' @ show_uuid (ca_request_id ctx)) (cr_model req) rx), s)))"

definition cluster_chat_stream ::
    "(128 word \<Rightarrow> string) \<Rightarrow> 's cluster_provider \<Rightarrow> chat_request \<Rightarrow> call_ctx \<Rightarrow> 's \<Rightarrow> (provider_error + streamed) \<times> 's" where
  "cluster_chat_stream show_uuid p req ctx s =
     (if cp_role p = WorkerRole then (Inl Unsupported, s)
      else if cp_role p = CoordinatorRole then (case cp_coordinator p of
          None \<Rightarrow> (Inl (InvalidResponse ''coordinator provider has no state''), s)
        | Some cs \<Rightarrow> stream_with show_uuid (\<lambda>tk i model. coordinator_events tk i model [] []) cs req ctx s)
      else (case cp_state p of
          None \<Rightarrow> (Inl (InvalidResponse ''cluster provider has no leader state''), s)
        | Some st \<Rightarrow> stream_with show_uuid leader_events st req ctx s))"

section \<open>What a stream says\<close>

text \<open>The text of a chunk, as a client reads it.\<close>

definition chunk_text :: "json \<Rightarrow> string" where
  "chunk_text raw = (case json_get raw ''choices'' of
     Some (JArray (c # cs)) \<Rightarrow> (case Option.bind (json_get c ''delta'') (\<lambda>d. Option.bind (json_get d ''content'') as_str) of
         None \<Rightarrow> []
       | Some t \<Rightarrow> t)
   | _ \<Rightarrow> [])"

definition stream_text :: "event_stream \<Rightarrow> string" where
  "stream_text evs = concat (map (\<lambda>e. case e of Inl x \<Rightarrow> [] | Inr raw \<Rightarrow> chunk_text raw) evs)"

lemma chunk_text_simps [simp]:
  "chunk_text (text_chunk i model t) = t"
  "chunk_text (stop_chunk i model) = []"
  by (simp_all add: chunk_text_def text_chunk_def stop_chunk_def chunk_def)

lemma stream_text_simps [simp]:
  "stream_text [] = []"
  "stream_text (Inr raw # evs) = chunk_text raw @ stream_text evs"
  "stream_text (Inl e # evs) = stream_text evs"
  by (simp_all add: stream_text_def)

text \<open>
  A tokenizer whose text only ever grows by whole characters: what it decodes is UTF-8, and one
  more token extends it.
\<close>

definition grows :: "tokenizer \<Rightarrow> bool" where
  "grows tk \<longleftrightarrow> tk_decode tk [] = Inr [] \<and>
     (\<forall>toks tok. \<exists>s t. tk_decode tk toks = Inr s \<and> tk_decode tk (toks @ [tok]) = Inr (s @ t) \<and>
       utf8_valid (as_bytes s) \<and> utf8_valid (as_bytes (s @ t)))"

lemma utf8_boundary: "utf8_valid (b # bs) \<Longrightarrow> \<not> continuation b"
proof
  assume "utf8_valid (b # bs)" "continuation b"
  moreover from \<open>continuation b\<close> have "char_len (b # bs) = None"
    by (simp add: char_len_def continuation_def word_le_nat_alt word_less_nat_alt)
  ultimately show False
    by (subst (asm) utf8_valid.simps) simp
qed

lemma grows_boundary:
  assumes "utf8_valid (as_bytes s)" and "utf8_valid (as_bytes (s @ t))"
  shows "str_from (s @ t) (length s) = Some t"
proof -
  have "utf8_valid (as_bytes t)"
    using assms utf8_valid_append [of "as_bytes s" "as_bytes t"] by simp
  then have "is_char_boundary (s @ t) (length s)"
    using utf8_boundary [of "as_bytes t ! 0" "tl (as_bytes t)"]
    by (cases t) (simp_all add: is_char_boundary_def nth_append as_bytes_def)
  then show ?thesis by (simp add: str_from_def)
qed

lemma coordinator_events_text:
  assumes "grows tk"
  shows "tk_decode tk emitted = Inr prev \<Longrightarrow> utf8_valid (as_bytes prev) \<Longrightarrow>
    \<exists>evs s. coordinator_events tk i model emitted prev (map Inr toks) = (evs, False)
      \<and> tk_decode tk (emitted @ toks) = Inr s \<and> s = prev @ stream_text evs \<and> last evs = Inr (stop_chunk i model) \<and> evs \<noteq> []
      \<and> (\<forall>e \<in> set evs. \<exists>raw. e = Inr raw)"
proof (induction toks arbitrary: emitted prev)
  case Nil
  then show ?case by (auto simp: yield_then_def)
next
  case (Cons tok toks)
  from assms Cons.prems obtain t where next_text: "tk_decode tk (emitted @ [tok]) = Inr (prev @ t)"
    "utf8_valid (as_bytes (prev @ t))"
    unfolding grows_def by (metis sum.inject(2))
  from Cons.IH [OF next_text] obtain evs s where IH:
    "coordinator_events tk i model (emitted @ [tok]) (prev @ t) (map Inr toks) = (evs, False)"
    "tk_decode tk ((emitted @ [tok]) @ toks) = Inr s" "s = (prev @ t) @ stream_text evs" "last evs = Inr (stop_chunk i model)"
    "evs \<noteq> []" "\<forall>e \<in> set evs. \<exists>raw. e = Inr raw"
    by blast
  show ?case
  proof (cases "t = []")
    case True
    with IH next_text show ?thesis by auto
  next
    case False
    with next_text have "coordinator_events tk i model emitted prev (map Inr (tok # toks))
        = yield_then (text_chunk i model t) (evs, False)"
      using grows_boundary [OF Cons.prems(2) next_text(2)] IH(1) by simp
    with IH show ?thesis by (auto simp: yield_then_def)
  qed
qed

end
