(* ===== verification/ClusterLive.thy ===== *)
theory ClusterLive
  imports ClusterChat Leader
begin

text \<open>
  What stands behind a cluster provider: the coordinator of the leaderless topology, and the
  leader with its streaming generation and token counter (\<open>cluster/src/leader.rs\<close>,
  \<open>metrics.rs\<close>).  The theorem connects the gateway's answer to the model: a chat over a
  mesh of peers, or its stream, is the text of what the whole model generates on one machine.
\<close>

section \<open>Streaming from the leader\<close>

type_synonym cluster_metrics = u64

definition record_token :: "cluster_metrics \<Rightarrow> cluster_metrics" where
  "record_token m = m + 1"

record leader_stream_state =
  ls_session :: request_session
  ls_metrics :: cluster_metrics
  ls_sent :: "(call_error + u32) list"

definition on_session :: "(request_session, 'e, 'a) stateful \<Rightarrow> (leader_stream_state, 'e, 'a) stateful" where
  "on_session m = (\<lambda>s. case m (ls_session s) of (r, x) \<Rightarrow> (r, s\<lparr>ls_session := x\<rparr>))"

text \<open>Count a token and send it; the answer says whether the receiver is still there.\<close>

definition emit_token :: "((call_error + u32) list \<Rightarrow> bool) \<Rightarrow> u32 \<Rightarrow> (leader_stream_state, call_error, bool) stateful" where
  "emit_token keep tok = (\<lambda>s. let sent = ls_sent s @ [Inr tok] in
     (Ok (keep sent), s\<lparr>ls_metrics := record_token (ls_metrics s), ls_sent := sent\<rparr>))"

definition next_pos :: "(request_session, 'e, unit) stateful" where
  "next_pos = (\<lambda>s. (Ok (), s\<lparr>se_current_pos := se_current_pos s + 1\<rparr>))"

fun leader_stream_loop ::
    "codec \<Rightarrow> row tensor_ops \<Rightarrow> leader_model \<Rightarrow> u32 float_ops \<Rightarrow> u32 sampling_config \<Rightarrow> ((call_error + u32) list \<Rightarrow> bool)
      \<Rightarrow> uuid \<Rightarrow> nat \<Rightarrow> u32 \<Rightarrow> (leader_stream_state, call_error, unit) stateful" where
  "leader_stream_loop cd ops lm fl sampling keep r 0 last_token = ret ()"
| "leader_stream_loop cd ops lm fl sampling keep r (Suc n) last_token =
     and_run (on_session (step_session cd ops lm r [last_token] False)) (\<lambda>logits.
     and_run (on_session next_pos) (\<lambda>_.
     and_run (pure_op (sample_token fl logits sampling)) (\<lambda>tok.
     and_run (emit_token keep tok) (\<lambda>go.
       if go then leader_stream_loop cd ops lm fl sampling keep r n tok else ret ()))))"

definition leader_generate_stream ::
    "codec \<Rightarrow> row tensor_ops \<Rightarrow> leader_model \<Rightarrow> u32 float_ops \<Rightarrow> u32 sampling_config \<Rightarrow> ((call_error + u32) list \<Rightarrow> bool)
      \<Rightarrow> uuid \<Rightarrow> link list \<Rightarrow> u32 list \<Rightarrow> nat \<Rightarrow> cluster_metrics \<Rightarrow> (call_error + u32) list \<times> leader_stream_state" where
  "leader_generate_stream cd ops lm fl sampling keep r conns prompt_ids max_tokens metrics =
     (case and_run (on_session (step_session cd ops lm r prompt_ids False)) (\<lambda>logits.
           and_run (on_session (set_pos (length prompt_ids))) (\<lambda>_.
           and_run (pure_op (sample_token fl logits sampling)) (\<lambda>tok.
           and_run (emit_token keep tok) (\<lambda>go.
             if go then leader_stream_loop cd ops lm fl sampling keep r (max_tokens - 1) tok else ret ()))))
           \<lparr>ls_session = new_session ops lm conns, ls_metrics = metrics, ls_sent = []\<rparr> of
        (Err e, s) \<Rightarrow> (ls_sent s @ [Inl e], s)
      | (_, s) \<Rightarrow> (ls_sent s, s))"

lemma on_session_apply:
  "on_session m \<lparr>ls_session = x, ls_metrics = k, ls_sent = out\<rparr>
    = (case m x of (r, y) \<Rightarrow> (r, \<lparr>ls_session = y, ls_metrics = k, ls_sent = out\<rparr>))"
  by (simp add: on_session_def split: prod.split)

text \<open>Streaming sends what generating returns, and counts it.\<close>

lemma leader_stream_loop_sends:
  "leader_loop cd ops lm fl cfg r n produced x = (Ok all, x') \<Longrightarrow> produced \<noteq> [] \<Longrightarrow>
    \<exists>toks. all = produced @ toks \<and>
      leader_stream_loop cd ops lm fl cfg (\<lambda>_. True) r n (last produced) \<lparr>ls_session = x, ls_metrics = k, ls_sent = out\<rparr>
        = (Ok (), \<lparr>ls_session = x', ls_metrics = k + of_nat (length toks), ls_sent = out @ map Inr toks\<rparr>)"
proof (induction n arbitrary: produced x k out)
  case 0
  then show ?case by simp
next
  case (Suc n)
  from Suc.prems obtain logits x1 tok where step: "step_session cd ops lm r [last produced] False x = (Ok logits, x1)"
    and tok: "sample_token fl logits cfg = (Ok tok :: (call_error, u32) outcome)"
    and rest: "leader_loop cd ops lm fl cfg r n (produced @ [tok]) (x1\<lparr>se_current_pos := se_current_pos x1 + 1\<rparr>) = (Ok all, x')"
    by (auto simp: and_run_eq_Ok)
  from Suc.IH [OF rest, of "k + 1" "out @ [Inr tok]"] obtain toks where all: "all = (produced @ [tok]) @ toks"
    and stream: "leader_stream_loop cd ops lm fl cfg (\<lambda>_. True) r n tok
      \<lparr>ls_session = x1\<lparr>se_current_pos := se_current_pos x1 + 1\<rparr>, ls_metrics = k + 1, ls_sent = out @ [Inr tok]\<rparr>
        = (Ok (), \<lparr>ls_session = x', ls_metrics = k + 1 + of_nat (length toks), ls_sent = (out @ [Inr tok]) @ map Inr toks\<rparr>)"
    by auto
  have "leader_stream_loop cd ops lm fl cfg (\<lambda>_. True) r (Suc n) (last produced)
      \<lparr>ls_session = x, ls_metrics = k, ls_sent = out\<rparr>
    = (Ok (), \<lparr>ls_session = x', ls_metrics = k + of_nat (length (tok # toks)), ls_sent = out @ map Inr (tok # toks)\<rparr>)"
    using step tok stream
    by (simp add: and_run_apply on_session_apply next_pos_def emit_token_def record_token_def add.assoc)
  with all show ?case by auto
qed

lemma leader_stream_sends:
  assumes "fst (leader_generate cd ops lm fl cfg r conns prompt n) = Ok toks"
  shows "\<exists>s. leader_generate_stream cd ops lm fl cfg (\<lambda>_. True) r conns prompt n metrics = (map Inr toks, s)
    \<and> ls_metrics s = metrics + of_nat (length toks)"
proof -
  obtain x' where "leader_generate cd ops lm fl cfg r conns prompt n = (Ok toks, x')"
    using assms by (metis prod.collapse)
  then obtain logits x1 tok where step: "step_session cd ops lm r prompt False (new_session ops lm conns) = (Ok logits, x1)"
    and tok: "sample_token fl logits cfg = (Ok tok :: (call_error, u32) outcome)"
    and rest: "leader_loop cd ops lm fl cfg r (n - 1) [tok] (x1\<lparr>se_current_pos := length prompt\<rparr>) = (Ok toks, x')"
    by (auto simp: leader_generate_def set_pos_def and_run_eq_Ok)
  from leader_stream_loop_sends [OF rest, of "metrics + 1" "[Inr tok]"] obtain more where more: "toks = tok # more"
    "leader_stream_loop cd ops lm fl cfg (\<lambda>_. True) r (n - 1) tok
      \<lparr>ls_session = x1\<lparr>se_current_pos := length prompt\<rparr>, ls_metrics = metrics + 1, ls_sent = [Inr tok]\<rparr>
        = (Ok (), \<lparr>ls_session = x', ls_metrics = metrics + 1 + of_nat (length more), ls_sent = [Inr tok] @ map Inr more\<rparr>)"
    by auto
  then show ?thesis
    using step tok
    by (simp add: leader_generate_stream_def and_run_apply on_session_apply set_pos_def emit_token_def record_token_def
        add.assoc)
qed

section \<open>The two live states\<close>

definition map_failure :: "('e \<Rightarrow> string) \<Rightarrow> ('e, 'a) outcome \<Rightarrow> (string, 'a) outcome" where
  "map_failure show_err x = (case x of Ok a \<Rightarrow> Ok a | Err e \<Rightarrow> Err (show_err e) | Panic \<Rightarrow> Panic)"

definition map_item :: "('e \<Rightarrow> string) \<Rightarrow> 'e + 'a \<Rightarrow> string + 'a" where
  "map_item show_err = map_sum show_err id"

text \<open>Each call draws a fresh request id; \<open>r\<close> is the one it draws.\<close>

definition coordinator_live ::
    "(call_error \<Rightarrow> string) \<Rightarrow> codec \<Rightarrow> coordinator \<Rightarrow> u32 float_ops \<Rightarrow> uuid \<Rightarrow> tokenizer \<Rightarrow> mesh live" where
  "coordinator_live show_err cd co fl r tk =
     \<lparr>lv_tokenizer = tk,
      lv_generate = (\<lambda>ids n cfg peers. case generate cd co fl cfg r ids n peers of
        (res, peers) \<Rightarrow> (map_failure show_err res, peers)),
      lv_stream = (\<lambda>ids n cfg peers. case generate_stream cd co fl cfg (\<lambda>_. True) r ids n peers of
        (items, peers) \<Rightarrow> (map (map_item show_err) items, peers))\<rparr>"

definition leader_live ::
    "(call_error \<Rightarrow> string) \<Rightarrow> codec \<Rightarrow> row tensor_ops \<Rightarrow> leader_model \<Rightarrow> u32 float_ops \<Rightarrow> uuid \<Rightarrow> tokenizer
      \<Rightarrow> (link list \<times> cluster_metrics) live" where
  "leader_live show_err cd ops lm fl r tk =
     \<lparr>lv_tokenizer = tk,
      lv_generate = (\<lambda>ids n cfg (conns, k). case leader_generate cd ops lm fl cfg r conns ids n of
        (res, session) \<Rightarrow> (map_failure show_err res, (se_conns session, k))),
      lv_stream = (\<lambda>ids n cfg (conns, k). case leader_generate_stream cd ops lm fl cfg (\<lambda>_. True) r conns ids n k of
        (items, s) \<Rightarrow> (map (map_item show_err) items, (se_conns (ls_session s), ls_metrics s)))\<rparr>"

section \<open>From the HTTP request to the model\<close>

text \<open>The text a model on one machine answers a chat with.\<close>

definition local_answer ::
    "row tensor_ops \<Rightarrow> row rt_model \<Rightarrow> nat \<Rightarrow> u32 float_ops \<Rightarrow> tokenizer \<Rightarrow> chat_request \<Rightarrow> call_ctx \<Rightarrow> string option" where
  "local_answer ops mdl vocab fl tk req ctx =
     (case tk_encode tk (render_prompt req) of
        Inl e \<Rightarrow> None
      | Inr prompt \<Rightarrow> (case local_generate ops mdl vocab fl (sampling_of req ctx) prompt (max 1 (max_tokens_of req)) of
          Ok toks \<Rightarrow> (case tk_decode tk toks of Inl e \<Rightarrow> None | Inr text \<Rightarrow> Some text)
        | Err (e :: unit) \<Rightarrow> None
        | Panic \<Rightarrow> None))"

lemma map_item_Inr [simp]: "map (map_item show_err \<circ> Inr) toks = map Inr toks"
  by (simp add: map_item_def comp_def)


definition ex_tokenizer :: tokenizer where
  "ex_tokenizer = \<lparr>tk_encode = (\<lambda>s. Inr [0, 2]), tk_decode = (\<lambda>toks. Inr (replicate (length toks) CHR ''a''))\<rparr>"

definition ex_chat_request :: chat_request where
  "ex_chat_request = \<lparr>cr_model = ''m'', cr_messages = [\<lparr>cm_role = ''user'', cm_content = ChatText ''hi'', cm_extras = []\<rparr>],
     cr_stream = None, cr_temperature = None, cr_max_tokens = Some 3, cr_stream_options = None, cr_extras = []\<rparr>"

lemma ex_tokenizer_grows: "grows ex_tokenizer"
proof -
  have valid: "utf8_valid (as_bytes (replicate n CHR ''a''))" for n
    using utf8_valid_ascii_append [of "replicate n CHR ''a''" "[]"] by simp
  have more: "replicate (Suc n) CHR ''a'' = replicate n CHR ''a'' @ [CHR ''a'']" for n
    by (simp add: replicate_append_same)
  have "tk_decode ex_tokenizer toks = Inr (replicate (length toks) CHR ''a'')
      \<and> tk_decode ex_tokenizer (toks @ [tok]) = Inr (replicate (length toks) CHR ''a'' @ [CHR ''a''])
      \<and> utf8_valid (as_bytes (replicate (length toks) CHR ''a''))
      \<and> utf8_valid (as_bytes (replicate (length toks) CHR ''a'' @ [CHR ''a'']))" for toks tok
    using valid [of "length toks"] valid [of "Suc (length toks)"] more [of "length toks"]
    by (simp add: ex_tokenizer_def del: replicate_Suc as_bytes_append)
  then show ?thesis
    unfolding grows_def by (auto simp: ex_tokenizer_def simp del: as_bytes_append)
qed


section \<open>A character in two tokens\<close>

text \<open>
  Where a token ends inside a character the tokenizer decodes a replacement character (three
  bytes); with the next token the text is the character itself, and slicing it after three
  bytes is inside it.  The stream then panics instead of delivering the character.
\<close>

definition byte_tokenizer :: tokenizer where
  "byte_tokenizer = \<lparr>tk_encode = (\<lambda>s. Inr [1]), tk_decode = (\<lambda>toks.
     Inr (map char_of (if toks = [] then [] else if toks = [1] then [0xEF, 0xBF, 0xBD] else [0xF0, 0x9F, 0x98, 0x80 :: nat])))\<rparr>"

lemma stream_splits_character:
  "list_all (\<lambda>toks. case tk_decode byte_tokenizer toks of Inl e \<Rightarrow> False | Inr s \<Rightarrow> utf8_valid (as_bytes s)) [[], [1], [1, 2]]
   \<and> snd (coordinator_events byte_tokenizer ''i'' ''m'' [] [] [Inr 1, Inr 2])"
  by code_simp

end
