(* ===== verification/App.thy ===== *)
theory App
  imports Config Names ClusterChat Upstream Requests
begin

text \<open>
  The wiring of a node (\<open>ai-engine/src/app.rs\<close>, \<open>discovery.rs\<close>, \<open>signal.rs\<close>): its role in
  the clusters of the configuration, the gateway built from a configuration (providers,
  routing rules, stages, pipelines), the Ollama endpoints merged into it, and the reload of the
  pipelines on SIGHUP.  What third-party crates construct (HTTP clients, globs, regular
  expressions) and the in-process engines are fields of \<open>build_lib\<close>; forming a cluster is an
  argument.
\<close>

section \<open>Roles\<close>

datatype node_role =
    GatewayRole
  | LeaderOf "string list"
  | WorkerOf string string

fun resolve_from :: "string \<Rightarrow> string list \<Rightarrow> cluster_cfg list \<Rightarrow> node_role" where
  "resolve_from node leads [] = (if leads = [] then GatewayRole else LeaderOf leads)"
| "resolve_from node leads (c # cs) =
     (if cl_leader c = node then resolve_from node (leads @ [cl_id c]) cs
      else if list_ex (\<lambda>n. cn_id n = node) (cl_nodes c) then
        WorkerOf (cl_id c) (case List.find (\<lambda>n. cn_id n = cl_leader c) (cl_nodes c) of None \<Rightarrow> [] | Some n \<Rightarrow> cn_addr n)
      else resolve_from node leads cs)"

definition resolve_role :: "config \<Rightarrow> string \<Rightarrow> node_role" where
  "resolve_role cfg node = resolve_from node [] (cf_clusters cfg)"

section \<open>The services of the dashboard\<close>

record service_info =
  si_id :: string
  si_kind :: string
  si_endpoint :: "string option"
  si_models :: "string list"
  si_device :: "string option"
  si_weights :: "string option"
  si_local :: bool

definition service_of :: "config \<Rightarrow> provider_cfg \<Rightarrow> service_info" where
  "service_of cfg p =
     (let in_process = pr_kind p \<in> {''candle'', ''rustyllm''};
          endpoint_local = contains (pr_base_url p) ''localhost'' \<or> contains (pr_base_url p) ''127.0.0.1'';
          weights = map_option (\<lambda>w. unwrap_or w (file_name w)) (pr_weights_path p)
      in \<lparr>si_id = pr_id p, si_kind = pr_kind p,
          si_endpoint = (if pr_base_url p \<noteq> [] then Some (pr_base_url p)
            else map_option (\<lambda>c. ''cluster:'' @ c) (pr_cluster p)),
          si_models = map ro_model (filter (\<lambda>r. ro_provider r = pr_id p) (cf_routes cfg)),
          si_device = (if in_process then pr_device p else None),
          si_weights = (if in_process then weights else None),
          si_local = (in_process \<or> endpoint_local)\<rparr>)"

definition build_services :: "config \<Rightarrow> service_info list" where
  "build_services cfg = map (service_of cfg) (cf_providers cfg)"

section \<open>Providers\<close>

record build_lib =
  bl_http :: http_lib
  bl_sse :: sse_lib
  bl_codec :: response_codec
  bl_chat_post :: "nat \<Rightarrow> bool \<Rightarrow> (gateway, chat_request) post"
  bl_embed_post :: "nat \<Rightarrow> bool \<Rightarrow> (gateway, embeddings_request) post"
  bl_messages_post :: "nat \<Rightarrow> (gateway, messages_request) post"
  bl_decode_chat :: "bytes \<Rightarrow> string + chat_response"
  bl_decode_embed :: "bytes \<Rightarrow> string + embeddings_response"
  bl_decode_messages :: "bytes \<Rightarrow> string + messages_response"
  bl_candle_pool :: "(string \<Rightarrow> string \<Rightarrow> string \<Rightarrow> nat \<Rightarrow> (string, gateway provider) outcome) option"
  bl_candle_paged :: "string \<Rightarrow> string \<Rightarrow> string \<Rightarrow> nat \<Rightarrow> nat \<Rightarrow> nat \<Rightarrow> (string, gateway provider) outcome"
  bl_rustyllm :: "(string \<Rightarrow> string \<Rightarrow> string \<Rightarrow> nat \<Rightarrow> (string, gateway provider) outcome) option"
  bl_glob :: "string \<Rightarrow> (string, string \<Rightarrow> bool) outcome"
  bl_regex_set :: "string list \<Rightarrow> (string, string \<Rightarrow> bool) outcome"
  bl_uuid :: "128 word \<Rightarrow> string"
  bl_time :: "nat \<Rightarrow> string"

definition provider_credentials :: "provider_cfg \<Rightarrow> credentials" where
  "provider_credentials p =
     \<lparr>cd_api_key = pr_api_key p, cd_raw_bearer = None, cd_extra_headers = pr_extra_headers p\<rparr>"

text \<open>\<open>ClusterProvider::new_worker\<close> as the gateway sees it: every call is unsupported.\<close>

definition worker_stub :: "string \<Rightarrow> gateway provider" where
  "worker_stub i = default_provider i ''local-cluster'' cluster_capabilities"

definition make_candle :: "build_lib \<Rightarrow> provider_cfg \<Rightarrow> (string, gateway provider) outcome" where
  "make_candle lib p = (case bl_candle_pool lib of
     None \<Rightarrow> Err ''built without the backend-candle feature''
   | Some new_pool \<Rightarrow>
       and_then (ok_or ''candle requires weights_path'' (pr_weights_path p)) (\<lambda>weights.
       let device = unwrap_or ''auto'' (pr_device p) in
       if unwrap_or ''paged'' (pr_engine p) = ''pool''
       then new_pool (pr_id p) weights device (unwrap_or 2 (pr_pool_size p))
       else bl_candle_paged lib (pr_id p) weights device (unwrap_or 32 (pr_max_num_seqs p))
         (unwrap_or 16 (pr_block_size p)) (unwrap_or 4096 (pr_kv_cache_blocks p))))"

definition make_rustyllm :: "build_lib \<Rightarrow> provider_cfg \<Rightarrow> (string, gateway provider) outcome" where
  "make_rustyllm lib p = (case bl_rustyllm lib of
     None \<Rightarrow> Err ''built without the backend-rustyllm feature''
   | Some new \<Rightarrow>
       and_then (ok_or ''rustyllm requires weights_path'' (pr_weights_path p)) (\<lambda>weights.
         new (pr_id p) weights (unwrap_or ''auto'' (pr_device p)) 2048))"

definition make_provider ::
    "build_lib \<Rightarrow> (string \<rightharpoonup> gateway provider) \<Rightarrow> provider_cfg \<Rightarrow> (string, gateway provider) outcome" where
  "make_provider lib cluster_providers p =
     (if pr_kind p = ''openai'' then
        Ok (openai_provider (bl_http lib) (bl_sse lib) (bl_chat_post lib (pr_timeout_secs p) (pr_http2 p))
          (bl_embed_post lib (pr_timeout_secs p) (pr_http2 p)) (bl_decode_chat lib) (bl_decode_embed lib)
          \<lparr>op_id = pr_id p, op_base_url = pr_base_url p\<rparr>)
      else if pr_kind p = ''anthropic'' then
        Ok (anthropic_provider (bl_http lib) (bl_sse lib) (bl_messages_post lib (pr_timeout_secs p)) (bl_decode_messages lib)
          \<lparr>an_id = pr_id p, an_base_url = pr_base_url p\<rparr>)
      else if pr_kind p = ''local-cluster'' then
        Ok (case cluster_providers (pr_id p) of Some pv \<Rightarrow> pv | None \<Rightarrow> worker_stub (pr_id p))
      else if pr_kind p = ''candle'' then make_candle lib p
      else if pr_kind p = ''rustyllm'' then make_rustyllm lib p
      else Err (''unknown provider kind '' @ pr_kind p))"

fun build_registry ::
    "build_lib \<Rightarrow> (string \<rightharpoonup> gateway provider) \<Rightarrow> provider_cfg list \<Rightarrow> registry \<Rightarrow> (string, registry) outcome" where
  "build_registry lib cluster_providers [] reg = Ok reg"
| "build_registry lib cluster_providers (p # ps) reg =
     and_then (make_provider lib cluster_providers p) (\<lambda>pv.
       build_registry lib cluster_providers ps (reg(pr_id p \<mapsto> (pv, provider_credentials p))))"

section \<open>The gateway\<close>

text \<open>
  What is built: the state the endpoints see, and beside it what the stages share.  The ids a
  tracker and the metrics are created for are the keys of the registry.
\<close>

record gateway_app =
  ga_state :: app_state
  ga_services :: "service_info list"
  ga_registry :: registry
  ga_rules :: "route_rule list"
  ga_load :: load_tracker
  ga_metrics :: gateway_metrics
  ga_activity :: activity_log

definition auth_mode_of :: "auth_cfg \<Rightarrow> (string, auth_mode) outcome" where
  "auth_mode_of a =
     (if au_mode a = ''passthrough'' then Ok Passthrough
      else if au_mode a = ''shared-key'' then Ok (SharedKey (map (\<lambda>k. (mk_key k, mk_name k)) (au_master_keys a)))
      else Err (''unknown auth.mode '' @ au_mode a))"

definition stage_table ::
    "http_lib \<Rightarrow> auth_mode \<Rightarrow> content_policy \<Rightarrow> route_rule list \<Rightarrow> registry \<Rightarrow> response_codec \<Rightarrow> log_stage
      \<Rightarrow> (string \<rightharpoonup> gateway stage)" where
  "stage_table lib mode policy rules reg js lg =
     [''auth'' \<mapsto> auth_stage lib mode, ''content_policy'' \<mapsto> policy_stage policy, ''model_route'' \<mapsto> route_stage rules,
      ''forward'' \<mapsto> forward_stage reg js, ''log'' \<mapsto> log_stage lg]"

definition served_routes :: "string list" where
  "served_routes = [''/v1/chat/completions'', ''/v1/messages'', ''/v1/embeddings'']"

fun build_pipelines ::
    "(string \<rightharpoonup> gateway stage) \<Rightarrow> (string \<rightharpoonup> string list) \<Rightarrow> string list \<Rightarrow> (string \<rightharpoonup> gateway stage list)
      \<Rightarrow> (string, string \<rightharpoonup> gateway stage list) outcome" where
  "build_pipelines table cfg [] acc = Ok acc"
| "build_pipelines table cfg (route # routes) acc = (case cfg route of
     None \<Rightarrow> build_pipelines table cfg routes acc
   | Some ids \<Rightarrow> (case build_pipeline table ids of
       Ok sts \<Rightarrow> build_pipelines table cfg routes (acc(route \<mapsto> sts))
     | Err e \<Rightarrow> Err (''pipeline '' @ route @ '': '' @ e)
     | Panic \<Rightarrow> Panic))"

definition build_gateway :: "build_lib \<Rightarrow> config \<Rightarrow> (string \<rightharpoonup> gateway provider) \<Rightarrow> (string, gateway_app) outcome" where
  "build_gateway lib cfg cluster_providers =
     and_then (build_registry lib cluster_providers (cf_providers cfg) Map.empty) (\<lambda>reg.
     and_then (rules_from_strings (bl_glob lib) (map (\<lambda>r. (ro_model r, ro_provider r, ro_upstream_model r)) (cf_routes cfg))) (\<lambda>rules.
     and_then (auth_mode_of (cf_auth cfg)) (\<lambda>mode.
     and_then (content_policy_new (bl_regex_set lib) (po_max_request_bytes (cf_content_policy cfg))
         (po_prompt_injection_patterns (cf_content_policy cfg))) (\<lambda>policy.
     let ids = map pr_id (cf_providers cfg);
         lg = \<lparr>lg_activity = True, lg_metrics = True, lg_uuid = bl_uuid lib, lg_time = bl_time lib\<rparr>;
         table = stage_table (bl_http lib) mode policy rules reg (bl_codec lib) lg
     in and_then (build_pipelines table (map_of (cf_pipeline cfg)) served_routes Map.empty) (\<lambda>pipelines.
       Ok \<lparr>ga_state = \<lparr>ap_pipelines = pipelines, ap_openai_models = map ro_model (cf_routes cfg), ap_ready = True\<rparr>,
           ga_services = build_services cfg, ga_registry = reg, ga_rules = rules,
           ga_load = tracker_new ids, ga_metrics = metrics_new ids, ga_activity = default_activity\<rparr>)))))"

definition worker_app :: "config \<Rightarrow> gateway_app" where
  "worker_app cfg = \<lparr>ga_state = \<lparr>ap_pipelines = Map.empty, ap_openai_models = [], ap_ready = True\<rparr>,
     ga_services = build_services cfg, ga_registry = Map.empty, ga_rules = [],
     ga_load = tracker_new [], ga_metrics = metrics_new [], ga_activity = default_activity\<rparr>"

text \<open>
  \<open>build_app_state\<close>.  \<open>mesh cfg cluster node\<close> forms the mesh of a leaderless cluster and
  \<open>lead cfg id\<close> the star of a cluster this node leads; each yields providers by their id.
\<close>

fun lead_all ::
    "(string \<Rightarrow> (string, string \<rightharpoonup> gateway provider) outcome) \<Rightarrow> string list \<Rightarrow> (string \<rightharpoonup> gateway provider)
      \<Rightarrow> (string, string \<rightharpoonup> gateway provider) outcome" where
  "lead_all lead [] acc = Ok acc"
| "lead_all lead (c # cs) acc = and_then (lead c) (\<lambda>m. lead_all lead cs (acc ++ m))"

definition build_app_state ::
    "build_lib \<Rightarrow> (config \<Rightarrow> cluster_cfg \<Rightarrow> string \<Rightarrow> (string, string \<rightharpoonup> gateway provider) outcome)
      \<Rightarrow> (config \<Rightarrow> string \<Rightarrow> (string, string \<rightharpoonup> gateway provider) outcome) \<Rightarrow> config \<Rightarrow> string \<Rightarrow> (string, gateway_app) outcome" where
  "build_app_state lib mesh lead cfg node =
     (case List.find (\<lambda>c. cl_leaderless c \<and> list_ex (\<lambda>n. cn_id n = node) (cl_nodes c)) (cf_clusters cfg) of
        Some c \<Rightarrow> and_then (mesh cfg c node) (build_gateway lib cfg)
      | None \<Rightarrow> (case resolve_role cfg node of
          WorkerOf c addr \<Rightarrow> Ok (worker_app cfg)
        | GatewayRole \<Rightarrow> build_gateway lib cfg Map.empty
        | LeaderOf cs \<Rightarrow> and_then (lead_all (lead cfg) cs Map.empty) (build_gateway lib cfg)))"

text \<open>The one provider of a cluster.\<close>

definition matching_provider :: "config \<Rightarrow> string \<Rightarrow> (string, provider_cfg) outcome" where
  "matching_provider cfg cluster =
     (case filter (\<lambda>p. pr_kind p = ''local-cluster'' \<and> pr_cluster p = Some cluster) (cf_providers cfg) of
        [p] \<Rightarrow> Ok p
      | [] \<Rightarrow> Err (''cluster '' @ cluster @ '' has no provider referencing it'')
      | ps \<Rightarrow> Err (''cluster '' @ cluster @ '' is referenced by several providers''))"

section \<open>Discovered Ollama endpoints\<close>

record ollama =
  ol_label :: string
  ol_url :: string
  ol_models :: "string list"

definition ollama_provider :: "string \<Rightarrow> string \<Rightarrow> provider_cfg" where
  "ollama_provider i base_url =
     \<lparr>pr_id = i, pr_kind = ''openai'', pr_base_url = base_url, pr_api_key = None, pr_timeout_secs = 600, pr_http2 = False,
      pr_extra_headers = [], pr_cluster = None, pr_weights_path = None, pr_device = None, pr_pool_size = None,
      pr_engine = None, pr_max_num_seqs = None, pr_block_size = None, pr_kv_cache_blocks = None\<rparr>"

fun add_models :: "string \<Rightarrow> string list \<Rightarrow> (string \<times> string) set \<times> route_cfg list \<Rightarrow> (string \<times> string) set \<times> route_cfg list" where
  "add_models i [] acc = acc"
| "add_models i (m # ms) (existing, routes) =
     (if (i, m) \<in> existing then add_models i ms (existing, routes)
      else add_models i ms (insert (i, m) existing,
        routes @ [\<lparr>ro_model = m, ro_provider = i, ro_upstream_model = None\<rparr>]))"

fun merge_found :: "ollama list \<Rightarrow> (string \<times> string) set \<times> config \<Rightarrow> (string \<times> string) set \<times> config" where
  "merge_found [] acc = acc"
| "merge_found (ol # os) (existing, cfg) =
     (let i = ''ollama-'' @ ol_label ol in
      if list_ex (\<lambda>p. pr_id p = i) (cf_providers cfg) then merge_found os (existing, cfg)
      else let (existing', routes) = add_models i (ol_models ol) (existing, cf_routes cfg)
        in merge_found os (existing', cfg\<lparr>cf_providers := cf_providers cfg @ [ollama_provider i (trim_end_slashes (ol_url ol) @ ''/v1'')],
             cf_routes := routes\<rparr>))"

text \<open>\<open>discover\<close> is what browsing the network for so many seconds finds, or its failure.\<close>

definition merge_discovered_ollamas :: "(nat \<Rightarrow> string + ollama list) \<Rightarrow> config \<Rightarrow> config" where
  "merge_discovered_ollamas discover cfg = (case cf_discovery cfg of
     None \<Rightarrow> cfg
   | Some disc \<Rightarrow>
       if \<not> md_ollama_mdns disc then cfg
       else (case discover (md_timeout_secs disc) of
           Inl e \<Rightarrow> cfg
         | Inr found \<Rightarrow>
             if found = [] then cfg
             else snd (merge_found found (set (map (\<lambda>r. (ro_provider r, ro_model r)) (cf_routes cfg)), cfg))))"

section \<open>Reload\<close>

text \<open>The new pipeline goes into every slot that exists; the rest of the state stays.\<close>

definition swap_pipelines :: "app_state \<Rightarrow> app_state \<Rightarrow> app_state" where
  "swap_pipelines new old = old\<lparr>ap_pipelines := (\<lambda>route. case ap_pipelines old route of
     None \<Rightarrow> None
   | Some p \<Rightarrow> (case ap_pipelines new route of None \<Rightarrow> Some p | Some q \<Rightarrow> Some q))\<rparr>"

definition reload ::
    "build_lib \<Rightarrow> (config \<Rightarrow> cluster_cfg \<Rightarrow> string \<Rightarrow> (string, string \<rightharpoonup> gateway provider) outcome)
      \<Rightarrow> (config \<Rightarrow> string \<Rightarrow> (string, string \<rightharpoonup> gateway provider) outcome) \<Rightarrow> (config_error, config) outcome
      \<Rightarrow> app_state \<Rightarrow> app_state" where
  "reload lib mesh lead loaded old = (case loaded of
     Ok cfg \<Rightarrow> (case build_app_state lib mesh lead cfg ''localhost'' of
         Ok app \<Rightarrow> swap_pipelines (ga_state app) old
       | _ \<Rightarrow> old)
   | _ \<Rightarrow> old)"

section \<open>Roles are well defined\<close>

lemma resolve_from_Worker:
  "resolve_from node leads cs = WorkerOf i addr \<Longrightarrow>
    \<exists>c \<in> set cs. cl_id c = i \<and> cl_leader c \<noteq> node \<and> node \<in> cn_id ` set (cl_nodes c)"
  by (induction node leads cs rule: resolve_from.induct) (auto simp: list_ex_iff split: if_splits)

lemma resolve_from_Leader:
  "resolve_from node leads cs = LeaderOf is \<Longrightarrow>
    is = leads @ map cl_id (filter (\<lambda>c. cl_leader c = node) cs)
    \<and> (\<forall>c \<in> set cs. cl_leader c = node \<or> node \<notin> cn_id ` set (cl_nodes c))"
  by (induction node leads cs rule: resolve_from.induct) (auto simp: list_ex_iff split: if_splits)

lemma resolve_from_Gateway:
  "resolve_from node leads cs = GatewayRole \<longleftrightarrow> leads = [] \<and>
    (\<forall>c \<in> set cs. cl_leader c \<noteq> node \<and> node \<notin> cn_id ` set (cl_nodes c))"
  by (induction node leads cs rule: resolve_from.induct) (auto simp: list_ex_iff split: if_splits)

section \<open>What is built\<close>

lemma build_registry_Ok:
  "list_all (\<lambda>p. \<exists>pv. make_provider lib cps p = Ok pv) ps \<Longrightarrow>
    \<exists>reg'. build_registry lib cps ps reg = Ok reg' \<and> dom reg' = dom reg \<union> pr_id ` set ps
      \<and> (distinct (map pr_id ps) \<longrightarrow>
          (\<forall>p \<in> set ps. \<exists>pv. make_provider lib cps p = Ok pv \<and> reg' (pr_id p) = Some (pv, provider_credentials p))
          \<and> (\<forall>i. i \<notin> pr_id ` set ps \<longrightarrow> reg' i = reg i))"
proof (induction ps arbitrary: reg)
  case (Cons p ps)
  then obtain pv where pv: "make_provider lib cps p = Ok pv"
    and rest: "list_all (\<lambda>p. \<exists>pv. make_provider lib cps p = Ok pv) ps" by auto
  from Cons.IH [OF rest, of "reg(pr_id p \<mapsto> (pv, provider_credentials p))"] obtain reg' where
    reg': "build_registry lib cps ps (reg(pr_id p \<mapsto> (pv, provider_credentials p))) = Ok reg'"
    "dom reg' = dom (reg(pr_id p \<mapsto> (pv, provider_credentials p))) \<union> pr_id ` set ps"
    "distinct (map pr_id ps) \<longrightarrow>
      (\<forall>p \<in> set ps. \<exists>pv. make_provider lib cps p = Ok pv \<and> reg' (pr_id p) = Some (pv, provider_credentials p))
      \<and> (\<forall>i. i \<notin> pr_id ` set ps \<longrightarrow> reg' i = (reg(pr_id p \<mapsto> (pv, provider_credentials p))) i)"
    by blast
  show ?case
  proof (intro exI [of _ reg'] conjI impI)
    show "build_registry lib cps (p # ps) reg = Ok reg'"
      using pv reg'(1) by simp
    show "dom reg' = dom reg \<union> pr_id ` set (p # ps)"
      using reg'(2) by auto
    assume dist: "distinct (map pr_id (p # ps))"
    with reg'(3) pv show "\<forall>p \<in> set (p # ps). \<exists>pv. make_provider lib cps p = Ok pv \<and> reg' (pr_id p) = Some (pv, provider_credentials p)"
      by auto
    show "\<forall>i. i \<notin> pr_id ` set (p # ps) \<longrightarrow> reg' i = reg i"
      using dist reg'(3) by auto
  qed
qed simp

lemma rules_from_strings_Ok:
  "list_all (\<lambda>(pat, prov, up). \<exists>m. glob pat = Ok m) rs \<Longrightarrow>
    \<exists>rules. rules_from_strings glob rs = Ok rules \<and> map rr_provider_id rules = map (fst \<circ> snd) rs
      \<and> map rr_pattern rules = map fst rs"
  by (induction glob rs rule: rules_from_strings.induct) auto

lemma build_pipeline_total:
  "list_all (\<lambda>i. table i \<noteq> None) ids \<Longrightarrow> build_pipeline table ids = Ok (map (the \<circ> table) ids)"
  by (induction ids) (auto simp: ok_or_def)

lemma build_pipelines_Ok:
  "list_all (\<lambda>route. case cfg route of None \<Rightarrow> True | Some ids \<Rightarrow> list_all (\<lambda>i. table i \<noteq> None) ids) routes \<Longrightarrow>
    build_pipelines table cfg routes acc
      = Ok (\<lambda>route. if route \<in> set routes \<and> cfg route \<noteq> None then map_option (map (the \<circ> table)) (cfg route) else acc route)"
proof (induction table cfg routes acc rule: build_pipelines.induct)
  case (2 table cfg route routes acc)
  show ?case
  proof (cases "cfg route")
    case None
    with 2 show ?thesis by (auto intro!: ext)
  next
    case (Some ids)
    with "2.prems" have ids: "build_pipeline table ids = Ok (map (the \<circ> table) ids)"
      by (intro build_pipeline_total) simp
    from "2.IH"(2) [OF Some this] "2.prems" have "build_pipelines table cfg routes (acc(route \<mapsto> map (the \<circ> table) ids))
        = Ok (\<lambda>r. if r \<in> set routes \<and> cfg r \<noteq> None then map_option (map (the \<circ> table)) (cfg r)
            else (acc(route \<mapsto> map (the \<circ> table) ids)) r)"
      by (simp del: fun_upd_apply)
    then show ?thesis
      using Some ids by (auto intro!: ext)
  qed
qed (auto intro!: ext)

lemma route_candidates_from_rules:
  "set (fst (route_candidates rules model)) \<subseteq> rr_provider_id ` set rules"
proof -
  have "set (fst (fold (route_step model) rs acc)) \<subseteq> set (fst acc) \<union> rr_provider_id ` set rs" for rs acc
  proof (induction rs arbitrary: acc)
    case (Cons r rs)
    have "set (fst (route_step model r acc)) \<subseteq> insert (rr_provider_id r) (set (fst acc))"
      by (cases acc) (simp add: route_step_def subset_insertI)
    with Cons.IH [of "route_step model r acc"] show ?case by auto
  qed simp
  from this [of rules "([], None)"] show ?thesis
    by (simp add: route_candidates_def)
qed

definition stage_ids :: "string list" where
  "stage_ids = [''auth'', ''content_policy'', ''model_route'', ''forward'', ''log'']"

lemma stage_table_ids:
  "stage_table lib mode policy rules reg js lg i \<noteq> None \<longleftrightarrow> i \<in> set stage_ids"
  by (simp add: stage_table_def stage_ids_def)

lemma stage_table_forward: "the (stage_table lib mode policy rules reg js lg ''forward'') = forward_stage reg js"
  and stage_table_log: "the (stage_table lib mode policy rules reg js lg ''log'') = log_stage lg"
  by (simp_all add: stage_table_def)

lemma stage_table_standard:
  "map (the \<circ> stage_table lib mode policy rules reg js lg) stage_ids = standard_pipeline lib mode policy rules reg js lg"
  by (simp add: stage_ids_def stage_table_def standard_pipeline_def)

lemma auth_mode_of_valid: "au_mode a \<in> {''passthrough'', ''shared-key''} \<Longrightarrow> \<exists>mode. auth_mode_of a = Ok mode"
  by (auto simp: auth_mode_of_def)

lemma map_of_list_all: "list_all P xs \<Longrightarrow> map_of xs k = Some v \<Longrightarrow> P (k, v)"
  by (auto simp: list_all_iff dest: map_of_SomeD)

text \<open>
  C23: a valid configuration whose patterns compile, whose in-process engines load and whose
  pipelines name known stages becomes a gateway: every provider a model can be routed to is
  registered and tracked, the endpoints served are those with a pipeline, each pipeline forwards
  and ends in a terminal stage, and the standard order of stages gives the standard pipeline.
\<close>

theorem valid_config_builds:
  assumes valid: "config_valid cfg"
    and provs: "list_all (\<lambda>p. \<exists>pv. make_provider lib cps p = Ok pv) (cf_providers cfg)"
    and globs: "list_all (\<lambda>r. \<exists>m. bl_glob lib (ro_model r) = Ok m) (cf_routes cfg)"
    and regex: "\<exists>m. bl_regex_set lib (po_prompt_injection_patterns (cf_content_policy cfg)) = Ok m"
    and stages: "list_all (\<lambda>(route, ids). set ids \<subseteq> set stage_ids) (cf_pipeline cfg)"
  shows "\<exists>app. build_gateway lib cfg cps = Ok app
    \<and> (\<forall>model. set (fst (route_candidates (ga_rules app) model)) \<subseteq> dom (ga_registry app))
    \<and> dom (ga_load app) = dom (ga_registry app) \<and> dom (ga_metrics app) = dom (ga_registry app)
    \<and> dom (ap_pipelines (ga_state app)) = set served_routes \<inter> fst ` set (cf_pipeline cfg)
    \<and> (\<forall>route sts. ap_pipelines (ga_state app) route = Some sts \<longrightarrow>
        (\<exists>js. forward_stage (ga_registry app) js \<in> set sts) \<and> (\<exists>st \<in> set sts. st_terminal st))
    \<and> (\<forall>route \<in> set served_routes. map_of (cf_pipeline cfg) route = Some stage_ids \<longrightarrow>
        (\<exists>mode policy lg. ap_pipelines (ga_state app) route =
          Some (standard_pipeline (bl_http lib) mode policy (ga_rules app) (ga_registry app) (bl_codec lib) lg)))"
proof -
  obtain reg where reg: "build_registry lib cps (cf_providers cfg) Map.empty = Ok reg" "dom reg = pr_id ` set (cf_providers cfg)"
    using build_registry_Ok [OF provs, of Map.empty] by auto
  let ?rs = "map (\<lambda>r. (ro_model r, ro_provider r, ro_upstream_model r)) (cf_routes cfg)"
  have "list_all (\<lambda>(pat, prov, up). \<exists>m. bl_glob lib pat = Ok m) ?rs"
    using globs by (simp add: list_all_iff)
  from rules_from_strings_Ok [OF this] obtain rules where rules: "rules_from_strings (bl_glob lib) ?rs = Ok rules"
    "map rr_provider_id rules = map (fst \<circ> snd) ?rs" by blast
  obtain mode where mode: "auth_mode_of (cf_auth cfg) = Ok mode"
    using auth_mode_of_valid valid by (auto simp: config_valid_def)
  obtain policy where policy: "content_policy_new (bl_regex_set lib) (po_max_request_bytes (cf_content_policy cfg))
      (po_prompt_injection_patterns (cf_content_policy cfg)) = Ok policy"
    using regex by (auto simp: content_policy_new_def)
  define lg where "lg = \<lparr>lg_activity = True, lg_metrics = True, lg_uuid = bl_uuid lib, lg_time = bl_time lib\<rparr>"
  define table where "table = stage_table (bl_http lib) mode policy rules reg (bl_codec lib) lg"
  define pls where "pls = (\<lambda>route. if route \<in> set served_routes \<and> map_of (cf_pipeline cfg) route \<noteq> None
      then map_option (map (the \<circ> table)) (map_of (cf_pipeline cfg) route) else None)"
  have known: "list_all (\<lambda>i. table i \<noteq> None) ids" if "map_of (cf_pipeline cfg) route = Some ids" for route ids
    unfolding table_def stage_table_ids list_all_iff using map_of_list_all [OF stages that] by (simp add: subset_iff)
  have "list_all (\<lambda>route. case map_of (cf_pipeline cfg) route of None \<Rightarrow> True | Some ids \<Rightarrow> list_all (\<lambda>i. table i \<noteq> None) ids)
      served_routes"
    unfolding list_all_iff [of _ served_routes] using known by (simp split: option.split)
  from build_pipelines_Ok [OF this, of Map.empty] have pipelines:
    "build_pipelines table (map_of (cf_pipeline cfg)) served_routes Map.empty = Ok pls"
    by (simp add: pls_def)
  let ?app = "\<lparr>ga_state = \<lparr>ap_pipelines = pls, ap_openai_models = map ro_model (cf_routes cfg), ap_ready = True\<rparr>,
     ga_services = build_services cfg, ga_registry = reg, ga_rules = rules,
     ga_load = tracker_new (map pr_id (cf_providers cfg)), ga_metrics = metrics_new (map pr_id (cf_providers cfg)),
     ga_activity = default_activity\<rparr>"
  have "build_gateway lib cfg cps = Ok ?app"
    using reg(1) rules(1) mode policy pipelines by (simp add: build_gateway_def Let_def table_def lg_def)
  moreover have "set (fst (route_candidates rules model)) \<subseteq> dom reg" for model
  proof -
    have "rr_provider_id ` set rules = ro_provider ` set (cf_routes cfg)"
      using arg_cong [OF rules(2), of set] by (simp add: image_image)
    moreover have "ro_provider ` set (cf_routes cfg) \<subseteq> pr_id ` set (cf_providers cfg)"
    proof (intro image_subsetI)
      fix r
      assume "r \<in> set (cf_routes cfg)"
      then have "route_valid cfg r"
        using valid by (simp add: config_valid_def list_all_iff)
      then obtain p where "p \<in> set (cf_providers cfg)" "pr_id p = ro_provider r"
        unfolding route_valid_def by blast
      then show "ro_provider r \<in> pr_id ` set (cf_providers cfg)"
        by (metis imageI)
    qed
    ultimately show ?thesis
      using route_candidates_from_rules [of rules model] reg(2) by auto
  qed
  moreover have "dom (tracker_new (map pr_id (cf_providers cfg))) = dom reg"
    "dom (metrics_new (map pr_id (cf_providers cfg))) = dom reg"
    using reg(2) by (auto simp: tracker_new_def metrics_new_def split: if_splits)
  moreover have "dom pls = set served_routes \<inter> fst ` set (cf_pipeline cfg)"
  proof (rule set_eqI)
    fix route
    have "route \<in> dom pls \<longleftrightarrow> route \<in> set served_routes \<and> map_of (cf_pipeline cfg) route \<noteq> None"
      by (simp add: pls_def domIff)
    then show "route \<in> dom pls \<longleftrightarrow> route \<in> set served_routes \<inter> fst ` set (cf_pipeline cfg)"
      unfolding map_of_eq_None_iff by simp
  qed
  moreover have "(\<exists>js. forward_stage reg js \<in> set sts) \<and> (\<exists>st \<in> set sts. st_terminal st)" if "pls route = Some sts" for route sts
  proof -
    from that obtain ids where ids: "map_of (cf_pipeline cfg) route = Some ids" "sts = map (the \<circ> table) ids"
      by (auto simp: pls_def split: if_splits)
    have "''forward'' \<in> set ids" "''log'' \<in> set ids"
      using valid map_of_list_all [OF _ ids(1)] by (auto simp: config_valid_def)
    then have "the (table ''forward'') \<in> set sts" "the (table ''log'') \<in> set sts"
      using ids(2) by auto
    then show ?thesis
      unfolding table_def stage_table_forward stage_table_log
      by (auto simp: log_stage_def intro!: bexI [of _ "log_stage lg"])
  qed
  moreover have "pls route = Some (standard_pipeline (bl_http lib) mode policy rules reg (bl_codec lib) lg)"
    if "route \<in> set served_routes" "map_of (cf_pipeline cfg) route = Some stage_ids" for route
    using that stage_table_standard by (simp add: pls_def table_def)
  ultimately show ?thesis
    by (intro exI [of _ ?app]) auto
qed


definition ex_provider_cfg :: provider_cfg where
  "ex_provider_cfg = \<lparr>pr_id = ''p'', pr_kind = ''openai'', pr_base_url = ''https://api'', pr_api_key = None,
     pr_timeout_secs = 60, pr_http2 = True, pr_extra_headers = [], pr_cluster = None, pr_weights_path = None,
     pr_device = None, pr_pool_size = None, pr_engine = None, pr_max_num_seqs = None, pr_block_size = None,
     pr_kv_cache_blocks = None\<rparr>"

definition ex_gateway_config :: config where
  "ex_gateway_config = \<lparr>cf_server = \<lparr>sv_bind = ''0.0.0.0:8080'', sv_shutdown_grace_secs = 30, sv_log_format = ''json'',
       sv_log_level = ''info''\<rparr>,
     cf_auth = \<lparr>au_mode = ''shared-key'', au_master_keys = [\<lparr>mk_key = ''k'', mk_name = ''ann''\<rparr>]\<rparr>,
     cf_content_policy = default_content_policy, cf_providers = [ex_provider_cfg],
     cf_routes = [\<lparr>ro_model = ''gpt-4'', ro_provider = ''p'', ro_upstream_model = None\<rparr>],
     cf_pipeline = [(''/v1/chat/completions'', [''auth'', ''content_policy'', ''model_route'', ''forward'', ''log''])],
     cf_clusters = [], cf_discovery = None\<rparr>"

definition ex_build_lib :: build_lib where
  "ex_build_lib =
     \<lparr>bl_http = ex_http, bl_sse = \<lparr>ss_parse = \<lambda>s. Inl ''json'', ss_utf8_error = \<lambda>b. ''utf8''\<rparr>, bl_codec = ex_codec_json,
        bl_chat_post = \<lambda>t h. (\<lambda>u h r gw. (Inl (SendOther ''refused''), gw)),
        bl_embed_post = \<lambda>t h. (\<lambda>u h r gw. (Inl (SendOther ''refused''), gw)),
        bl_messages_post = \<lambda>t. (\<lambda>u h r gw. (Inl (SendOther ''refused''), gw)),
        bl_decode_chat = \<lambda>b. Inl ''unread'', bl_decode_embed = \<lambda>b. Inl ''unread'', bl_decode_messages = \<lambda>b. Inl ''unread'',
        bl_candle_pool = None, bl_candle_paged = \<lambda>i w d a b c. Err ''no weights'', bl_rustyllm = None,
        bl_glob = \<lambda>p. Ok (\<lambda>s. s = p), bl_regex_set = \<lambda>ps. Ok (\<lambda>s. s \<in> set ps),
        bl_uuid = \<lambda>u. ''id'', bl_time = \<lambda>t. ''now''\<rparr>"

lemma ex_gateway_config_valid: "config_valid ex_gateway_config"
proof -
  have "provider_valid ex_gateway_config ex_provider_cfg"
    by (simp add: provider_valid_def ex_provider_cfg_def known_kinds_def)
  moreover have "route_valid ex_gateway_config \<lparr>ro_model = ''gpt-4'', ro_provider = ''p'', ro_upstream_model = None\<rparr>"
    by (simp add: route_valid_def ex_gateway_config_def ex_provider_cfg_def starts_with_def)
  ultimately show ?thesis
    by (simp add: config_valid_def ex_gateway_config_def)
qed

lemma valid_config_builds_witness:
  "\<exists>app. build_gateway ex_build_lib ex_gateway_config Map.empty = Ok app
    \<and> (\<forall>model. set (fst (route_candidates (ga_rules app) model)) \<subseteq> dom (ga_registry app))
    \<and> dom (ap_pipelines (ga_state app)) = {''/v1/chat/completions''}"
proof -
  have provs: "list_all (\<lambda>p. \<exists>pv. make_provider ex_build_lib Map.empty p = Ok pv) (cf_providers ex_gateway_config)"
    by (simp add: ex_gateway_config_def make_provider_def ex_provider_cfg_def)
  have globs: "list_all (\<lambda>r. \<exists>m. bl_glob ex_build_lib (ro_model r) = Ok m) (cf_routes ex_gateway_config)"
    by (simp add: ex_build_lib_def ex_gateway_config_def)
  have regex: "\<exists>m. bl_regex_set ex_build_lib (po_prompt_injection_patterns (cf_content_policy ex_gateway_config)) = Ok m"
    by (simp add: ex_build_lib_def)
  have stages: "list_all (\<lambda>(route, ids). set ids \<subseteq> set stage_ids) (cf_pipeline ex_gateway_config)"
    by (simp add: ex_gateway_config_def stage_ids_def)
  have routes: "set served_routes \<inter> fst ` set (cf_pipeline ex_gateway_config) = {''/v1/chat/completions''}"
    by (simp add: served_routes_def ex_gateway_config_def)
  obtain app where "build_gateway ex_build_lib ex_gateway_config Map.empty = Ok app"
    "\<forall>model. set (fst (route_candidates (ga_rules app) model)) \<subseteq> dom (ga_registry app)"
    "dom (ap_pipelines (ga_state app)) = set served_routes \<inter> fst ` set (cf_pipeline ex_gateway_config)"
    using valid_config_builds [OF ex_gateway_config_valid provs globs regex stages] by (elim exE conjE)
  then show ?thesis
    unfolding routes by blast
qed

end
