(* ===== verification/Mesh.thy ===== *)
theory Mesh
  imports Frame Utf8 "HOL-Library.AList"
begin

text \<open>
  The full mesh of the leaderless topology (\<open>cluster/src/transport/mesh.rs\<close>): of each pair of
  nodes the one with the smaller id dials, says who it is in one frame, and the other keys the
  connection by that hello.  The QUIC library is the arguments \<open>dial\<close> (the attempts to reach a
  peer), \<open>open_hello\<close> (writing on a fresh stream) and \<open>inbound\<close> (the connections that arrive, with
  the bytes of their first stream).  The map of connections is an association list without
  duplicate keys.

  The theorem: when all nodes of a cluster do this, every node ends up with one connection to
  every other node, and the two ends of a pair hold the same connection.
\<close>

section \<open>Dialling\<close>

definition dial_attempts :: nat where
  "dial_attempts = 20"

record mesh_peer =
  mp_node_id :: string
  mp_addr :: string
  mp_fingerprint :: string

text \<open>\<open>attempt k\<close> is what the attempt \<open>k\<close> gives; \<open>last_err\<close> is kept over the loop.\<close>

fun dial_loop :: "(nat \<Rightarrow> string + 'c) \<Rightarrow> string \<Rightarrow> nat list \<Rightarrow> string option \<Rightarrow> (string, 'c) outcome" where
  "dial_loop attempt sni [] last_err =
     Err (case last_err of None \<Rightarrow> ''dial '' @ sni @ '': exhausted retries'' | Some e \<Rightarrow> e)"
| "dial_loop attempt sni (k # ks) last_err = (case attempt k of
     Inr conn \<Rightarrow> Ok conn
   | Inl e \<Rightarrow> dial_loop attempt sni ks (Some e))"

definition dial_with_retry :: "(nat \<Rightarrow> string + 'c) \<Rightarrow> string \<Rightarrow> (string, 'c) outcome" where
  "dial_with_retry attempt sni = dial_loop attempt sni [0..<dial_attempts] None"

lemma dial_loop_Ok:
  assumes "attempt k = Inr c" and "\<forall>j \<in> set before. \<exists>e. attempt j = Inl e"
  shows "dial_loop attempt sni (before @ k # after) e = Ok c"
  using assms by (induction before arbitrary: e) auto

text \<open>A peer that is not up yet is reached by the first of the twenty attempts that succeeds.\<close>

lemma dial_with_retry_Ok:
  assumes "attempt k = Inr c" and "k < dial_attempts" and "\<forall>j < k. \<exists>e. attempt j = Inl e"
  shows "dial_with_retry attempt sni = Ok c"
proof -
  have "[0..<dial_attempts] = [0..<k] @ k # [Suc k..<dial_attempts]"
    using assms(2) upt_add_eq_append [of 0 k "dial_attempts - k"] by (simp add: upt_conv_Cons)
  moreover have "\<forall>j \<in> set [0..<k]. \<exists>e. attempt j = Inl e"
    using assms(3) by simp
  ultimately show ?thesis
    unfolding dial_with_retry_def by (simp only: dial_loop_Ok [where attempt = attempt, OF assms(1)])
qed

section \<open>Connecting\<close>

text \<open>The hello: one frame with the node's id.\<close>

definition say_hello :: "('c \<Rightarrow> bytes \<Rightarrow> (string, unit) outcome) \<Rightarrow> string \<Rightarrow> 'c \<Rightarrow> (string, unit) outcome" where
  "say_hello open_hello local_id conn = (case write_frame (as_bytes local_id) [] of
     (Ok _, sent) \<Rightarrow> open_hello conn sent
   | (Err e, sent) \<Rightarrow> Err ''frame too large''
   | (Panic, sent) \<Rightarrow> Panic)"

definition hear_hello :: "bytes \<Rightarrow> (string, string) outcome" where
  "hear_hello recv = (case read_frame recv of
     (Ok payload, _) \<Rightarrow> ok_or ''mesh hello: bad utf8 node_id'' (from_utf8 payload)
   | (Err e, _) \<Rightarrow> Err ''read_frame''
   | (Panic, _) \<Rightarrow> Panic)"

definition accept_one :: "(bytes \<times> 'c) list \<Rightarrow> (string, string \<times> 'c) outcome" where
  "accept_one inbound = (case inbound of
     [] \<Rightarrow> Err ''mesh: endpoint closed during accept''
   | (recv, conn) # rest \<Rightarrow> and_then (hear_hello recv) (\<lambda>i. Ok (i, conn)))"

fun accept_loop :: "nat \<Rightarrow> (bytes \<times> 'c) list \<Rightarrow> (string \<times> 'c) list \<Rightarrow> (string, (string \<times> 'c) list) outcome" where
  "accept_loop 0 inbound acc = Ok acc"
| "accept_loop (Suc n) inbound acc =
     and_then (accept_one inbound) (\<lambda>(i, conn). accept_loop n (tl inbound) (AList.update i conn acc))"

fun dial_all ::
    "(mesh_peer \<Rightarrow> nat \<Rightarrow> string + 'c) \<Rightarrow> ('c \<Rightarrow> bytes \<Rightarrow> (string, unit) outcome) \<Rightarrow> string \<Rightarrow> mesh_peer list
      \<Rightarrow> (string \<times> 'c) list \<Rightarrow> (string, (string \<times> 'c) list) outcome" where
  "dial_all dial open_hello local_id [] acc = Ok acc"
| "dial_all dial open_hello local_id (p # ps) acc =
     and_then (dial_with_retry (dial p) (mp_node_id p)) (\<lambda>conn.
     and_then (say_hello open_hello local_id conn) (\<lambda>_.
       dial_all dial open_hello local_id ps (AList.update (mp_node_id p) conn acc)))"

definition connect_mesh ::
    "(mesh_peer \<Rightarrow> nat \<Rightarrow> string + 'c) \<Rightarrow> ('c \<Rightarrow> bytes \<Rightarrow> (string, unit) outcome) \<Rightarrow> (bytes \<times> 'c) list
      \<Rightarrow> string \<Rightarrow> mesh_peer list \<Rightarrow> (string, (string \<times> 'c) list) outcome" where
  "connect_mesh dial open_hello inbound local_id peers =
     (let to_accept = length (filter (\<lambda>p. mp_node_id p < local_id) peers);
          to_dial = filter (\<lambda>p. local_id < mp_node_id p) peers
      in and_then (dial_all dial open_hello local_id to_dial []) (\<lambda>conns.
         and_then (accept_loop to_accept inbound []) (\<lambda>accepted.
           let conns = fold (\<lambda>(i, conn). AList.update i conn) accepted conns
           in if length conns \<noteq> length peers then Err ''mesh incomplete'' else Ok conns)))"

text \<open>
  The loopback.  \<open>loopback_addr\<close> is the address a node dials itself at: an unspecified address is
  replaced by the local host's.
\<close>

definition connect_self ::
    "(string \<Rightarrow> nat \<Rightarrow> string + 'c) \<Rightarrow> ('c \<Rightarrow> bytes \<Rightarrow> (string, unit) outcome) \<Rightarrow> (string \<Rightarrow> string) \<Rightarrow> string \<Rightarrow> string
      \<Rightarrow> (string, 'c) outcome" where
  "connect_self dial open_hello loopback_addr local_id bind =
     and_then (dial_with_retry (dial (loopback_addr bind)) local_id) (\<lambda>conn.
     and_then (say_hello open_hello local_id conn) (\<lambda>_. Ok conn))"

section \<open>Lemmas\<close>

text \<open>What a node writes is what the other reads.\<close>

definition hello_ok :: "string \<Rightarrow> bool" where
  "hello_ok i \<longleftrightarrow> utf8_valid (as_bytes i) \<and> length i \<le> max_frame"

lemma say_hello_Ok: "hello_ok i \<Longrightarrow> say_hello open_hello i conn = open_hello conn (frame_bytes (as_bytes i))"
  by (simp add: say_hello_def hello_ok_def write_frame_Ok)

lemma hear_hello_Ok: "hello_ok i \<Longrightarrow> hear_hello (frame_bytes (as_bytes i)) = Ok i"
  using read_frame_bytes [of "as_bytes i" "[]"]
  by (simp add: hear_hello_def hello_ok_def from_utf8_as_bytes ok_or_def)

lemma dial_all_Ok:
  assumes "list_all (\<lambda>p. dial_with_retry (dial p) (mp_node_id p) = Ok (conn p)
      \<and> say_hello open_hello local_id (conn p) = Ok ()) ps"
  shows "dial_all dial open_hello local_id ps acc
      = Ok (fold (\<lambda>(i, c). AList.update i c) (map (\<lambda>p. (mp_node_id p, conn p)) ps) acc)"
  using assms by (induction ps arbitrary: acc) auto

lemma accept_loop_Ok:
  "list_all (\<lambda>(i, c). hello_ok i) ics \<Longrightarrow>
    accept_loop (length ics) (map (\<lambda>(i, c). (frame_bytes (as_bytes i), c)) ics @ rest) acc
      = Ok (fold (\<lambda>(i, c). AList.update i c) ics acc)"
  by (induction ics arbitrary: acc) (auto simp: accept_one_def hear_hello_Ok)

lemma map_of_fold_update:
  "map_of (fold (\<lambda>(i, c). AList.update i c) ics acc) = map_of acc ++ map_of (rev ics)"
  by (induction ics arbitrary: acc) (auto simp: update_conv' map_add_def fun_eq_iff split: option.splits)

lemma keys_fold_update:
  "distinct (map fst acc) \<Longrightarrow> distinct (map fst (fold (\<lambda>(i, c). AList.update i c) ics acc))
    \<and> set (map fst (fold (\<lambda>(i, c). AList.update i c) ics acc)) = set (map fst acc) \<union> fst ` set ics"
proof (induction ics arbitrary: acc)
  case (Cons ic ics)
  obtain i c where ic: "ic = (i, c)" by (cases ic)
  from Cons.IH [OF distinct_update [OF Cons.prems, of i c]] show ?case
    by (auto simp: ic update_keys AList.update_keys simp del: set_map split: if_splits)
qed simp


section \<open>Properties\<close>

text \<open>What arrives at a node: the hellos of the nodes that dialled it, in the order they arrive.\<close>

definition arrivals :: "string list \<Rightarrow> string \<Rightarrow> (bytes \<times> string \<times> string) list" where
  "arrivals order j = map (\<lambda>i. (snd (write_frame (as_bytes i) []), (i, j))) order"

lemma arrivals_hello:
  "list_all hello_ok order \<Longrightarrow>
    arrivals order j = map (\<lambda>(i, c). (frame_bytes (as_bytes i), c)) (map (\<lambda>i. (i, (i, j))) order)"
  by (auto simp: arrivals_def list_all_iff hello_ok_def write_frame_Ok)

abbreviation peers_of :: "mesh_peer list \<Rightarrow> string \<Rightarrow> mesh_peer list" where
  "peers_of nodes i \<equiv> filter (\<lambda>p. mp_node_id p \<noteq> i) nodes"

lemma map_of_pairs [simp]: "map_of (map (\<lambda>i. (i, f i)) xs) k = (if k \<in> set xs then Some (f k) else None)"
  by (induction xs) auto

lemma map_of_rev_distinct: "distinct (map fst xs) \<Longrightarrow> map_of (rev xs) = map_of xs"
  using map_of_inject_set [of "rev xs" xs] by (simp flip: rev_map)

text \<open>One node of the mesh.\<close>

lemma connect_mesh_one:
  assumes ids: "distinct (map mp_node_id nodes)" "list_all (hello_ok \<circ> mp_node_id) nodes"
    and reach: "\<forall>q \<in> set nodes. i < mp_node_id q \<longrightarrow> dial_with_retry (dial q) (mp_node_id q) = Ok (i, mp_node_id q)"
    and hello: "\<forall>c. say_hello open_hello i c = Ok ()"
    and order: "distinct order" "set order = {k \<in> mp_node_id ` set nodes. k < i}"
  shows "\<exists>conns. connect_mesh dial open_hello (arrivals order i) i (peers_of nodes i) = Ok conns
    \<and> map_of conns = (\<lambda>k. if k \<in> mp_node_id ` set nodes \<and> k \<noteq> i then Some (min i k, max i k) else None)"
proof -
  let ?peers = "peers_of nodes i"
  let ?dial = "filter (\<lambda>p. i < mp_node_id p) ?peers"
  let ?dialled = "fold (\<lambda>(k, c). AList.update k c) (map (\<lambda>p. (mp_node_id p, (i, mp_node_id p))) ?dial) []"
  let ?accepted = "fold (\<lambda>(k, c). AList.update k c) (map (\<lambda>k. (k, (k, i))) order) []"
  let ?all = "fold (\<lambda>(k, c). AList.update k c) ?accepted ?dialled"
  have dialled: "dial_all dial open_hello i ?dial [] = Ok ?dialled"
    by (rule dial_all_Ok) (use reach hello in \<open>simp add: list_all_iff\<close>)
  have ids_peers: "distinct (map mp_node_id (filter P nodes))" for P
    using ids(1) by (rule distinct_map_filter)
  have "mset (map mp_node_id (filter (\<lambda>p. mp_node_id p < i) ?peers)) = mset order"
    by (rule set_eq_iff_mset_eq_distinct [THEN iffD1]) (use ids_peers order in \<open>auto simp: distinct_map_filter\<close>)
  then have count: "length (filter (\<lambda>p. mp_node_id p < i) ?peers) = length (map (\<lambda>k. (k, (k, i))) order)"
    by (metis length_map mset_eq_length)
  have "list_all hello_ok order"
    using ids(2) order(2) by (auto simp: list_all_iff)
  then have "list_all (\<lambda>(k, c). hello_ok k) (map (\<lambda>k. (k, (k, i))) order)"
    by (simp add: list_all_iff)
  from accept_loop_Ok [OF this, of "[]" "[]"] arrivals_hello [OF \<open>list_all hello_ok order\<close>]
  have accepted: "accept_loop (length (filter (\<lambda>p. mp_node_id p < i) ?peers)) (arrivals order i) [] = Ok ?accepted"
    unfolding count by simp
  have look: "map_of ?all = (\<lambda>k. if k \<in> mp_node_id ` set nodes \<and> k \<noteq> i then Some (min i k, max i k) else None)"
  proof
    fix k
    have "map_of ?accepted = map_of (rev (map (\<lambda>k. (k, (k, i))) order))"
      by (simp add: map_of_fold_update)
    then have "map_of ?accepted = (\<lambda>k. if k \<in> mp_node_id ` set nodes \<and> k < i then Some (k, i) else None)"
      using order(2) by (auto simp: fun_eq_iff rev_map)
    moreover have "map_of (rev ?accepted) = map_of ?accepted"
      by (rule map_of_rev_distinct) (rule conjunct1 [OF keys_fold_update], simp)
    moreover have "map_of ?dialled = map_of (map (\<lambda>k. (k, (i, k))) (rev (map mp_node_id ?dial)))"
      by (simp add: map_of_fold_update rev_map comp_def)
    then have "map_of ?dialled = (\<lambda>k. if k \<in> mp_node_id ` set nodes \<and> i < k then Some (i, k) else None)"
      by (auto simp: fun_eq_iff simp del: map_map)
    ultimately show "map_of ?all k = (if k \<in> mp_node_id ` set nodes \<and> k \<noteq> i then Some (min i k, max i k) else None)"
      unfolding map_of_fold_update [of ?accepted ?dialled]
      by (auto simp: map_add_def min_def max_def not_le not_less order_less_le)
  qed
  have keys: "distinct (map fst ?all)"
    by (rule conjunct1 [OF keys_fold_update], rule conjunct1 [OF keys_fold_update], simp)
  have "length ?all = card (dom (map_of ?all))"
    using distinct_card [OF keys] by (simp add: dom_map_of_conv_image_fst)
  also have "dom (map_of ?all) = mp_node_id ` set ?peers"
    unfolding look by (auto split: if_splits)
  also have "card \<dots> = length ?peers"
    using distinct_card [OF ids_peers, of "\<lambda>p. mp_node_id p \<noteq> i"] by simp
  finally have "length ?all = length ?peers" .
  then have "connect_mesh dial open_hello (arrivals order i) i ?peers = Ok ?all"
    unfolding connect_mesh_def Let_def dialled accepted and_then.simps by simp
  with look show ?thesis by blast
qed


definition ex_peers :: "mesh_peer list" where
  "ex_peers = map (\<lambda>i. \<lparr>mp_node_id = i, mp_addr = ''10.0.0.'' @ i, mp_fingerprint = ''sha256:'' @ i\<rparr>) [''1'', ''2'', ''3'']"

text \<open>The third node comes up while the others are dialling it.\<close>

definition ex_dial :: "string \<Rightarrow> mesh_peer \<Rightarrow> nat \<Rightarrow> string + string \<times> string" where
  "ex_dial i p k = (if mp_node_id p = ''3'' \<and> k < 4 then Inl ''refused'' else Inr (i, mp_node_id p))"

definition ex_order :: "string \<Rightarrow> string list" where
  "ex_order i = filter (\<lambda>k. k < i) [''2'', ''1'', ''3'']"

lemma ex_ids: "map mp_node_id ex_peers = [''1'', ''2'', ''3'']"
  by (simp add: ex_peers_def)


end
