(* ===== verification/Loader.thy ===== *)
theory Loader
  imports Names Blocks
begin

text \<open>
  Loading weights (\<open>runtime/src/loader.rs\<close>, the weight type of \<open>arch/linear.rs\<close>): the tensors a
  node needs, taken from a safetensors archive or from the bytes of a GGUF file.  What the
  safetensors crate finds in a file is an argument; GGUF files are parsed by the model of the
  reader.  Bytes are cast to floats only where their address and length allow it, as bytemuck
  does; arithmetic on numbers of the file that would overflow is a panic.

  The lemmas show that a share of the layers is loaded as the slice of what loading everything
  gives, that every weight that was loaded can be laid out and expanded without a panic, and that
  the permutation of query and key weights is undone exactly.
\<close>

section \<open>Tensors\<close>

record 'f tensor2 =
  t2_dims :: "nat \<times> nat"
  t2_data :: "'f list"

text \<open>\<open>from_data\<close>, which panics when the data does not fill the shape.\<close>

definition tensor_2d :: "'f list \<Rightarrow> nat \<times> nat \<Rightarrow> 'f tensor2 checked" where
  "tensor_2d data dims = (if length data \<noteq> fst dims * snd dims then Panic else Ok \<lparr>t2_dims = dims, t2_data = data\<rparr>)"

definition tensor_1d :: "'f list \<Rightarrow> nat \<Rightarrow> 'f list checked" where
  "tensor_1d data n = (if length data \<noteq> n then Panic else Ok data)"

definition t2_wf :: "'f tensor2 \<Rightarrow> bool" where
  "t2_wf t \<longleftrightarrow> length (t2_data t) = fst (t2_dims t) * snd (t2_dims t)"

text \<open>\<open>swap_dims(0, 1)\<close>\<close>

definition t2_swap :: "'f tensor2 \<Rightarrow> 'f tensor2" where
  "t2_swap t = (let (r, c) = t2_dims t in
     \<lparr>t2_dims = (c, r), t2_data = map (\<lambda>k. t2_data t ! (k mod r * c + k div r)) [0..<c * r]\<rparr>)"

section \<open>Weights\<close>

datatype 'f linear_weight =
    Dense "'f tensor2"
  | Quantized "'f q8_tensor"
  | Q4 "'f q4_tensor"
  | Q4Gguf "'f q4_0_tensor"

record 'f float_lib =
  fb_quant :: "'f quant_ops"
  fb_f32 :: "u32 \<Rightarrow> 'f"
  fb_bf16 :: "u16 \<Rightarrow> 'f"

text \<open>The dense values of a weight, in the order it is stored in.\<close>

definition weight_tensor :: "'f float_lib \<Rightarrow> 'f linear_weight \<Rightarrow> 'f tensor2 checked" where
  "weight_tensor lib w = (case w of
     Dense t \<Rightarrow> Ok t
   | Quantized t \<Rightarrow> Ok \<lparr>t2_dims = q8_shape t, t2_data = q8_dequantize (fb_quant lib) t\<rparr>
   | Q4 t \<Rightarrow> and_then (q4_dequantize (fb_quant lib) t) (\<lambda>data. Ok \<lparr>t2_dims = q4_shape t, t2_data = data\<rparr>)
   | Q4Gguf t \<Rightarrow> and_then (q4_0_dequantize (fb_quant lib) t) (\<lambda>data. Ok \<lparr>t2_dims = qz_shape t, t2_data = data\<rparr>))"

definition ensure_math_order :: "'f linear_weight \<Rightarrow> 'f linear_weight checked" where
  "ensure_math_order w = (case w of
     Dense t \<Rightarrow> Ok (Dense (t2_swap t))
   | Quantized t \<Rightarrow> and_then (q8_transpose t) (\<lambda>t. Ok (Quantized t))
   | Q4 t \<Rightarrow> Ok w
   | Q4Gguf t \<Rightarrow> Ok w)"

record 'f layer_weights =
  lw_attn_norm :: "'f list"
  lw_q_proj :: "'f linear_weight"
  lw_k_proj :: "'f linear_weight"
  lw_v_proj :: "'f linear_weight"
  lw_o_proj :: "'f linear_weight"
  lw_ffn_norm :: "'f list"
  lw_ffn_gate :: "'f linear_weight"
  lw_ffn_up :: "'f linear_weight"
  lw_ffn_down :: "'f linear_weight"

record 'f loaded_weights =
  lo_embedding :: "'f tensor2 option"
  lo_layers :: "'f layer_weights list"
  lo_final_norm :: "'f list option"
  lo_output_proj :: "'f linear_weight option"

text \<open>
  How both loaders end: the embedding where it is hosted, the layers in order, the final norm and
  the output projection where the output is hosted, the latter only when it is not tied.
\<close>

fun load_each :: "('i \<Rightarrow> 'a checked) \<Rightarrow> 'i list \<Rightarrow> 'a list checked" where
  "load_each f [] = Ok []"
| "load_each f (i # is) = and_then (f i) (\<lambda>a. and_then (load_each f is) (\<lambda>as. Ok (a # as)))"

definition load_when :: "bool \<Rightarrow> 'a checked \<Rightarrow> 'a option checked" where
  "load_when hosted x = (if hosted then and_then x (\<lambda>a. Ok (Some a)) else Ok None)"

definition collect_weights ::
    "'f tensor2 checked \<Rightarrow> (nat \<Rightarrow> 'f layer_weights checked) \<Rightarrow> 'f list checked \<Rightarrow> 'f linear_weight checked
      \<Rightarrow> model_config \<Rightarrow> nat \<times> nat \<Rightarrow> bool \<Rightarrow> bool \<Rightarrow> 'f loaded_weights checked" where
  "collect_weights embedding layer final_norm output cfg rng hosts_embedding hosts_output =
     and_then (load_when hosts_embedding embedding) (\<lambda>emb.
     and_then (load_each layer [fst rng..<snd rng]) (\<lambda>layers.
     and_then (load_when hosts_output final_norm) (\<lambda>norm.
     and_then (load_when (hosts_output \<and> \<not> mc_tie_word_embeddings cfg) output) (\<lambda>out.
       Ok \<lparr>lo_embedding = emb, lo_layers = layers, lo_final_norm = norm, lo_output_proj = out\<rparr>))))"


section \<open>Bytes to floats\<close>

text \<open>
  \<open>bytemuck::cast_slice\<close> to items of \<open>n\<close> bytes: a panic unless the address is aligned and the
  length is a multiple.  Mapped files start at a page, so an address is an offset in the file.
\<close>

record mapped =
  mb_addr :: nat
  mb_bytes :: bytes

definition cast_words :: "nat \<Rightarrow> mapped \<Rightarrow> ('a::len) word list checked" where
  "cast_words n s =
     (if mb_addr s mod n \<noteq> 0 \<or> length (mb_bytes s) mod n \<noteq> 0 then Panic
      else Ok (map (\<lambda>i. word_of_nat (from_le (take n (drop (i * n) (mb_bytes s))))) [0..<length (mb_bytes s) div n]))"

definition floats_f32 :: "'f float_lib \<Rightarrow> mapped \<Rightarrow> 'f list checked" where
  "floats_f32 lib s = and_then (cast_words 4 s) (\<lambda>ws. Ok (map (fb_f32 lib) ws))"

definition floats_f16 :: "'f float_lib \<Rightarrow> mapped \<Rightarrow> 'f list checked" where
  "floats_f16 lib s = and_then (cast_words 2 s) (\<lambda>ws. Ok (map (qf_f16 (fb_quant lib)) ws))"

definition floats_bf16 :: "'f float_lib \<Rightarrow> mapped \<Rightarrow> 'f list checked" where
  "floats_bf16 lib s = and_then (cast_words 2 s) (\<lambda>ws. Ok (map (fb_bf16 lib) ws))"

section \<open>Safetensors\<close>

datatype st_dtype = StF32 | StF16 | StBF16 | StI8 | StU8 | StOther string

record st_view =
  sv_dtype :: st_dtype
  sv_shape :: "nat list"
  sv_data :: mapped

type_synonym archive = "string \<rightharpoonup> st_view"

definition bytes_to_f32_vec :: "'f float_lib \<Rightarrow> mapped \<Rightarrow> st_dtype \<Rightarrow> 'f list checked" where
  "bytes_to_f32_vec lib raw dtype = (case dtype of
     StF32 \<Rightarrow> floats_f32 lib raw
   | StF16 \<Rightarrow> floats_f16 lib raw
   | StBF16 \<Rightarrow> floats_bf16 lib raw
   | StI8 \<Rightarrow> Err ''int8 tensors are handled via load_linear_weight''
   | _ \<Rightarrow> Err ''unsupported safetensors dtype'')"

definition view_of :: "archive \<Rightarrow> string \<Rightarrow> st_view checked" where
  "view_of st name = ok_or (''missing tensor '' @ name) (st name)"

definition st_load_2d :: "'f float_lib \<Rightarrow> archive \<Rightarrow> string \<Rightarrow> 'f tensor2 checked" where
  "st_load_2d lib st name =
     and_then (view_of st name) (\<lambda>view. case sv_shape view of
       [r, c] \<Rightarrow> and_then (bytes_to_f32_vec lib (sv_data view) (sv_dtype view)) (\<lambda>data. tensor_2d data (r, c))
     | _ \<Rightarrow> Err (''expected 2D: '' @ name))"

definition st_load_1d :: "'f float_lib \<Rightarrow> archive \<Rightarrow> string \<Rightarrow> 'f list checked" where
  "st_load_1d lib st name =
     and_then (view_of st name) (\<lambda>view. case sv_shape view of
       [n] \<Rightarrow> and_then (bytes_to_f32_vec lib (sv_data view) (sv_dtype view)) (\<lambda>data. tensor_1d data n)
     | _ \<Rightarrow> Err (''expected 1D: '' @ name))"

text \<open>The names of a weight, its scale, and its packed form with its scales.\<close>

record weight_names =
  wn_weight :: string
  wn_scale :: string
  wn_q4_weight :: string
  wn_q4_scale :: string

definition load_q4 :: "'f float_lib \<Rightarrow> archive \<Rightarrow> weight_names \<Rightarrow> st_view \<Rightarrow> 'f linear_weight checked" where
  "load_q4 lib st nm packed_view =
     (if sv_dtype packed_view \<noteq> StU8 then Err (''expected U8: '' @ wn_q4_weight nm)
      else case sv_shape packed_view of
        [in_dim, half] \<Rightarrow>
          let out_dim = half * 2 in
          and_then (ok_or (''missing scale of '' @ wn_q4_weight nm) (st (wn_q4_scale nm))) (\<lambda>scale_view.
          if sv_dtype scale_view \<noteq> StF32 then Err (''expected F32: '' @ wn_q4_scale nm)
          else case sv_shape scale_view of
            [groups, outs] \<Rightarrow>
              if in_dim mod q4_group \<noteq> 0 then Err (''not divisible by group size: '' @ wn_q4_weight nm)
              else if groups \<noteq> in_dim div q4_group \<or> outs \<noteq> out_dim then Err (''scale shape mismatch: '' @ wn_q4_scale nm)
              else and_then (floats_f32 lib (sv_data scale_view)) (\<lambda>scales.
                   and_then (q4_from_packed (mb_bytes (sv_data packed_view)) scales (in_dim, out_dim)) (\<lambda>t. Ok (Q4 t)))
          | _ \<Rightarrow> Err (''expected 2D: '' @ wn_q4_scale nm))
      | _ \<Rightarrow> Err (''expected 2D: '' @ wn_q4_weight nm))"

definition load_q8 :: "'f float_lib \<Rightarrow> archive \<Rightarrow> weight_names \<Rightarrow> st_view \<Rightarrow> nat \<times> nat \<Rightarrow> 'f linear_weight checked" where
  "load_q8 lib st nm view shape =
     and_then (ok_or (''missing scale of '' @ wn_weight nm) (st (wn_scale nm))) (\<lambda>scale_view.
     if sv_dtype scale_view \<noteq> StF32 then Err (''expected F32: '' @ wn_scale nm)
     else and_then (floats_f32 lib (sv_data scale_view)) (\<lambda>scale. case scale of
         [s] \<Rightarrow> and_then (q8_from_packed (mb_bytes (sv_data view)) s shape) (\<lambda>t. Ok (Quantized t))
       | _ \<Rightarrow> Err (''must be 1 element: '' @ wn_scale nm)))"

definition load_linear_weight :: "'f float_lib \<Rightarrow> archive \<Rightarrow> weight_names \<Rightarrow> 'f linear_weight checked" where
  "load_linear_weight lib st nm = (case st (wn_q4_weight nm) of
     Some packed_view \<Rightarrow> load_q4 lib st nm packed_view
   | None \<Rightarrow> and_then (view_of st (wn_weight nm)) (\<lambda>view. case sv_shape view of
       [r, c] \<Rightarrow>
         if sv_dtype view = StI8 then load_q8 lib st nm view (r, c)
         else and_then (bytes_to_f32_vec lib (sv_data view) (sv_dtype view)) (\<lambda>data.
              and_then (tensor_2d data (r, c)) (\<lambda>t. Ok (Dense t)))
     | _ \<Rightarrow> Err (''expected 2D: '' @ wn_weight nm)))"

definition load_2d_dequantizing :: "'f float_lib \<Rightarrow> archive \<Rightarrow> weight_names \<Rightarrow> 'f tensor2 checked" where
  "load_2d_dequantizing lib st nm =
     and_then (load_linear_weight lib st nm) (\<lambda>w. case w of
       Dense t \<Rightarrow> Ok t
     | Quantized t \<Rightarrow> weight_tensor lib (Quantized t)
     | Q4 t \<Rightarrow> and_then (weight_tensor lib (Q4 t)) (\<lambda>t. Ok (t2_swap t))
     | Q4Gguf t \<Rightarrow> Panic)"

definition output_names :: "model_family \<Rightarrow> weight_names" where
  "output_names family = \<lparr>wn_weight = lookup_name family OutputProjection, wn_scale = lookup_name family OutputProjectionScale,
     wn_q4_weight = lookup_name family OutputProjectionQ4Weight, wn_q4_scale = lookup_name family OutputProjectionQ4Scale\<rparr>"

definition st_embedding :: "'f float_lib \<Rightarrow> archive \<Rightarrow> model_config \<Rightarrow> 'f tensor2 checked" where
  "st_embedding lib st cfg =
     (let name = lookup_name (mc_family cfg) Embedding in
      case st_load_2d lib st name of
        Ok t \<Rightarrow> Ok t
      | Err e \<Rightarrow>
          if mc_tie_word_embeddings cfg \<and> st name = None then load_2d_dequantizing lib st (output_names (mc_family cfg))
          else Err e
      | Panic \<Rightarrow> Panic)"

definition st_layer :: "'f float_lib \<Rightarrow> archive \<Rightarrow> model_family \<Rightarrow> nat \<Rightarrow> 'f layer_weights checked" where
  "st_layer lib st family i =
     (let nm = lookup_name family; linear = (\<lambda>w s p q. load_linear_weight lib st
          \<lparr>wn_weight = nm w, wn_scale = nm s, wn_q4_weight = nm p, wn_q4_scale = nm q\<rparr>)
      in and_then (st_load_1d lib st (nm (LayerAttnNorm i))) (\<lambda>attn_norm.
         and_then (linear (LayerQProj i) (LayerQProjScale i) (LayerQProjQ4Weight i) (LayerQProjQ4Scale i)) (\<lambda>q.
         and_then (linear (LayerKProj i) (LayerKProjScale i) (LayerKProjQ4Weight i) (LayerKProjQ4Scale i)) (\<lambda>k.
         and_then (linear (LayerVProj i) (LayerVProjScale i) (LayerVProjQ4Weight i) (LayerVProjQ4Scale i)) (\<lambda>v.
         and_then (linear (LayerOProj i) (LayerOProjScale i) (LayerOProjQ4Weight i) (LayerOProjQ4Scale i)) (\<lambda>oo.
         and_then (st_load_1d lib st (nm (LayerFfnNorm i))) (\<lambda>ffn_norm.
         and_then (linear (LayerFfnGate i) (LayerFfnGateScale i) (LayerFfnGateQ4Weight i) (LayerFfnGateQ4Scale i)) (\<lambda>gate.
         and_then (linear (LayerFfnUp i) (LayerFfnUpScale i) (LayerFfnUpQ4Weight i) (LayerFfnUpQ4Scale i)) (\<lambda>up.
         and_then (linear (LayerFfnDown i) (LayerFfnDownScale i) (LayerFfnDownQ4Weight i) (LayerFfnDownQ4Scale i)) (\<lambda>down.
           Ok \<lparr>lw_attn_norm = attn_norm, lw_q_proj = q, lw_k_proj = k, lw_v_proj = v, lw_o_proj = oo,
               lw_ffn_norm = ffn_norm, lw_ffn_gate = gate, lw_ffn_up = up, lw_ffn_down = down\<rparr>))))))))))"

definition load_range ::
    "'f float_lib \<Rightarrow> (bytes \<Rightarrow> archive checked) \<Rightarrow> bytes \<Rightarrow> model_config \<Rightarrow> nat \<times> nat \<Rightarrow> bool \<Rightarrow> bool
      \<Rightarrow> 'f loaded_weights checked" where
  "load_range lib deserialize file cfg rng hosts_embedding hosts_output =
     and_then (deserialize file) (\<lambda>st.
       collect_weights (st_embedding lib st cfg) (st_layer lib st (mc_family cfg))
         (st_load_1d lib st (lookup_name (mc_family cfg) FinalNorm)) (load_linear_weight lib st (output_names (mc_family cfg)))
         cfg rng hosts_embedding hosts_output)"


section \<open>GGUF\<close>

definition tensor_data_align :: nat where
  "tensor_data_align = 32"

text \<open>\<open>(cursor + a - 1) & !(a - 1)\<close> for the power of two \<open>a\<close>\<close>

definition align_up :: "nat \<Rightarrow> nat" where
  "align_up cursor = (let c = cursor + tensor_data_align - 1 in c - c mod tensor_data_align)"

definition mul_u64 :: "nat \<Rightarrow> nat \<Rightarrow> nat checked" where
  "mul_u64 a b = (if a * b < 2 ^ 64 then Ok (a * b) else Panic)"

definition add_u64 :: "nat \<Rightarrow> nat \<Rightarrow> nat checked" where
  "add_u64 a b = (if a + b < 2 ^ 64 then Ok (a + b) else Panic)"

fun product_u64 :: "nat \<Rightarrow> nat list \<Rightarrow> nat checked" where
  "product_u64 acc [] = Ok acc"
| "product_u64 acc (n # ns) = and_then (mul_u64 acc n) (\<lambda>acc. product_u64 acc ns)"

definition gguf_tensor_bytes :: "tensor_desc \<Rightarrow> nat checked" where
  "gguf_tensor_bytes d = and_then (product_u64 1 (map unat (td_shape d))) (\<lambda>count. case td_type d of
     GgmlF32 \<Rightarrow> mul_u64 count 4
   | GgmlF16 \<Rightarrow> mul_u64 count 2
   | GgmlBF16 \<Rightarrow> mul_u64 count 2
   | GgmlQ4_0 \<Rightarrow> if count mod q4_0_block \<noteq> 0 then Err ''Q4_0: not multiple of 32 elements''
       else mul_u64 (count div q4_0_block) q4_0_bytes
   | GgmlQ4_1 \<Rightarrow> if count mod q4_1_block \<noteq> 0 then Err ''Q4_1: not multiple of 32 elements''
       else mul_u64 (count div q4_1_block) q4_1_bytes
   | GgmlQ6_K \<Rightarrow> if count mod q6_k_size \<noteq> 0 then Err ''Q6_K: not multiple of 256 elements''
       else mul_u64 (count div q6_k_size) q6_k_bytes)"

definition bytes_to_f32_vec_gguf :: "'f float_lib \<Rightarrow> mapped \<Rightarrow> ggml_type \<Rightarrow> nat \<Rightarrow> 'f list checked" where
  "bytes_to_f32_vec_gguf lib raw ty expected_elements = (case ty of
     GgmlF32 \<Rightarrow> and_then (floats_f32 lib raw) (\<lambda>v.
       if length v \<noteq> expected_elements then Err ''F32 element count mismatch'' else Ok v)
   | GgmlF16 \<Rightarrow> floats_f16 lib raw
   | GgmlBF16 \<Rightarrow> floats_bf16 lib raw
   | GgmlQ4_0 \<Rightarrow> Err ''Q4_0 cannot be loaded as dense; use the Q4Gguf path''
   | GgmlQ4_1 \<Rightarrow> dequant_q4_1_tensor (fb_quant lib) (mb_bytes raw) expected_elements
   | GgmlQ6_K \<Rightarrow> dequant_q6_k_tensor (fb_quant lib) (mb_bytes raw) expected_elements)"

type_synonym gguf_tensor = "tensor_desc \<times> mapped"

definition load_dense_2d_gguf :: "'f float_lib \<Rightarrow> gguf_tensor \<Rightarrow> 'f tensor2 checked" where
  "load_dense_2d_gguf lib t = (case td_shape (fst t) of
     [a, b] \<Rightarrow>
       let in_dim = unat a; out_dim = unat b in
       and_then (bytes_to_f32_vec_gguf lib (snd t) (td_type (fst t)) (in_dim * out_dim)) (\<lambda>f32_data.
       and_then (to_row_major (fb_quant lib) (in_dim, out_dim) f32_data) (\<lambda>burn_flat.
         tensor_2d burn_flat (in_dim, out_dim)))
   | _ \<Rightarrow> Err (''expected 2D: '' @ td_name (fst t)))"

definition load_dense_1d_gguf :: "'f float_lib \<Rightarrow> gguf_tensor \<Rightarrow> 'f list checked" where
  "load_dense_1d_gguf lib t = (case td_shape (fst t) of
     [a] \<Rightarrow> and_then (bytes_to_f32_vec_gguf lib (snd t) (td_type (fst t)) (unat a)) (\<lambda>f32_data. tensor_1d f32_data (unat a))
   | _ \<Rightarrow> Err (''expected 1D: '' @ td_name (fst t)))"

definition load_q4_0 :: "gguf_tensor \<Rightarrow> 'f q4_0_tensor checked" where
  "load_q4_0 t =
     and_then (index (td_shape (fst t)) 0) (\<lambda>a. and_then (index (td_shape (fst t)) 1) (\<lambda>b.
       q4_0_from_blocks (mb_bytes (snd t)) (unat a, unat b)))"

type_synonym gguf_table = "string \<rightharpoonup> gguf_tensor"

definition gguf_entry :: "gguf_table \<Rightarrow> string \<Rightarrow> gguf_tensor checked" where
  "gguf_entry by_hf name = ok_or (''missing tensor in GGUF: '' @ name) (by_hf name)"

definition gguf_lin :: "'f float_lib \<Rightarrow> gguf_table \<Rightarrow> string \<Rightarrow> 'f linear_weight checked" where
  "gguf_lin lib by_hf name =
     and_then (gguf_entry by_hf name) (\<lambda>t.
       if td_type (fst t) = GgmlQ4_0 then and_then (load_q4_0 t) (\<lambda>w. Ok (Q4Gguf w))
       else and_then (load_dense_2d_gguf lib t) (\<lambda>w. Ok (Dense (t2_swap w))))"

definition gguf_embedding :: "'f float_lib \<Rightarrow> gguf_table \<Rightarrow> 'f tensor2 checked" where
  "gguf_embedding lib by_hf =
     (case and_then (gguf_entry by_hf ''model.embed_tokens.weight'') (load_dense_2d_gguf lib) of
        Ok t \<Rightarrow> Ok (t2_swap t)
      | Panic \<Rightarrow> Panic
      | Err e \<Rightarrow>
          and_then (ok_or ''neither model.embed_tokens.weight nor lm_head.weight found in GGUF'' (by_hf ''lm_head.weight'')) (\<lambda>t.
          if td_type (fst t) = GgmlQ4_0
          then and_then (load_q4_0 t) (\<lambda>w. and_then (weight_tensor lib (Q4Gguf w)) (\<lambda>x. Ok (t2_swap x)))
          else and_then (load_dense_2d_gguf lib t) (\<lambda>w. Ok (t2_swap w))))"

text \<open>
  Undoing the permutation of query and key weights: of the \<open>head_dim\<close> columns of a head, the
  pairs \<open>(2p, 2p + 1)\<close> go to \<open>p\<close> and \<open>p + head_dim / 2\<close>.
\<close>

definition unpermuted :: "nat \<Rightarrow> nat \<Rightarrow> 'f list \<Rightarrow> 'f list" where
  "unpermuted out head_dim data =
     map (\<lambda>k. let i = k div out; h = k mod out div head_dim; r = k mod out mod head_dim;
              c = r div (head_dim div 2); p = r mod (head_dim div 2)
          in data ! (i * out + h * head_dim + p * 2 + c)) [0..<length data]"

definition unpermute_qk :: "'f float_lib \<Rightarrow> 'f linear_weight \<Rightarrow> nat \<Rightarrow> nat \<Rightarrow> 'f linear_weight checked" where
  "unpermute_qk lib w heads head_dim =
     and_then (weight_tensor lib w) (\<lambda>t.
       let (hidden, out) = t2_dims t in
       if out \<noteq> heads * head_dim then Panic
       else if head_dim mod 2 \<noteq> 0 then Panic
       else Ok (Dense (t2_swap \<lparr>t2_dims = (hidden, out), t2_data = unpermuted out head_dim (t2_data t)\<rparr>)))"

definition gguf_layer :: "'f float_lib \<Rightarrow> gguf_table \<Rightarrow> model_config \<Rightarrow> nat \<Rightarrow> 'f layer_weights checked" where
  "gguf_layer lib by_hf cfg i =
     (let name = (\<lambda>s. ''model.layers.'' @ decimal i @ s); lin = (\<lambda>s. gguf_lin lib by_hf (name s));
          load_1d = (\<lambda>s. and_then (gguf_entry by_hf (name s)) (load_dense_1d_gguf lib));
          unpermute = (\<lambda>w heads. if mc_family cfg = Llama3 then unpermute_qk lib w heads (mc_head_dim cfg) else Ok w)
      in and_then (lin ''.self_attn.q_proj.weight'') (\<lambda>q_raw.
         and_then (lin ''.self_attn.k_proj.weight'') (\<lambda>k_raw.
         and_then (unpermute q_raw (mc_n_heads cfg)) (\<lambda>q.
         and_then (unpermute k_raw (mc_n_kv_heads cfg)) (\<lambda>k.
         and_then (load_1d ''.input_layernorm.weight'') (\<lambda>attn_norm.
         and_then (lin ''.self_attn.v_proj.weight'') (\<lambda>v.
         and_then (lin ''.self_attn.o_proj.weight'') (\<lambda>oo.
         and_then (load_1d ''.post_attention_layernorm.weight'') (\<lambda>ffn_norm.
         and_then (lin ''.mlp.gate_proj.weight'') (\<lambda>gate.
         and_then (lin ''.mlp.up_proj.weight'') (\<lambda>up.
         and_then (lin ''.mlp.down_proj.weight'') (\<lambda>down.
           Ok \<lparr>lw_attn_norm = attn_norm, lw_q_proj = q, lw_k_proj = k, lw_v_proj = v, lw_o_proj = oo,
               lw_ffn_norm = ffn_norm, lw_ffn_gate = gate, lw_ffn_up = up, lw_ffn_down = down\<rparr>))))))))))))"

text \<open>The table of the tensors, by the names the model uses; a later tensor of a name replaces an earlier one.\<close>

fun index_tensors :: "bytes \<Rightarrow> nat \<Rightarrow> tensor_desc list \<Rightarrow> gguf_table \<Rightarrow> gguf_table checked" where
  "index_tensors file data_start [] by_hf = Ok by_hf"
| "index_tensors file data_start (d # ds) by_hf = (case hf_from_gguf (td_name d) of
     None \<Rightarrow> index_tensors file data_start ds by_hf
   | Some hf_name \<Rightarrow>
       and_then (add_u64 data_start (unat (td_offset d))) (\<lambda>off.
       and_then (gguf_tensor_bytes d) (\<lambda>sz.
       and_then (add_u64 off sz) (\<lambda>end_off.
       if end_off > length file then Err (''extends past file end: '' @ td_name d)
       else index_tensors file data_start ds
         (by_hf(hf_name \<mapsto> (d, \<lparr>mb_addr = off, mb_bytes = take sz (drop off file)\<rparr>)))))))"

definition gguf_failure :: "(gguf_error \<Rightarrow> string) \<Rightarrow> (gguf_error, 'a) outcome \<Rightarrow> 'a checked" where
  "gguf_failure show_err x = (case x of Ok a \<Rightarrow> Ok a | Err e \<Rightarrow> Err (show_err e) | Panic \<Rightarrow> Panic)"

text \<open>\<open>descs_fit\<close> says for which counts the table of descriptors can be allocated.\<close>

definition read_gguf_table :: "(gguf_error \<Rightarrow> string) \<Rightarrow> (nat \<Rightarrow> bool) \<Rightarrow> bytes \<Rightarrow> gguf_table checked" where
  "read_gguf_table show_err descs_fit file =
     and_then (gguf_failure show_err (parse_header file)) (\<lambda>(hdr, cursor).
     and_then (gguf_failure show_err (parse_many parse_kv (gh_metadata_count hdr) (drop cursor file))) (\<lambda>(metadata, consumed).
     let cursor = cursor + consumed in
     if \<not> descs_fit (gh_tensor_count hdr) then Panic
     else and_then (gguf_failure show_err (parse_many parse_tensor_desc (gh_tensor_count hdr) (drop cursor file))) (\<lambda>(descs, consumed).
       index_tensors file (align_up (cursor + consumed)) descs Map.empty)))"

definition load_gguf ::
    "'f float_lib \<Rightarrow> (gguf_error \<Rightarrow> string) \<Rightarrow> (nat \<Rightarrow> bool) \<Rightarrow> bytes \<Rightarrow> model_config \<Rightarrow> nat \<times> nat \<Rightarrow> bool \<Rightarrow> bool
      \<Rightarrow> 'f loaded_weights checked" where
  "load_gguf lib show_err descs_fit file cfg rng hosts_embedding hosts_output =
     and_then (read_gguf_table show_err descs_fit file) (\<lambda>by_hf.
       collect_weights (gguf_embedding lib by_hf) (gguf_layer lib by_hf cfg)
         (and_then (gguf_entry by_hf ''model.norm.weight'') (load_dense_1d_gguf lib)) (gguf_lin lib by_hf ''lm_head.weight'')
         cfg rng hosts_embedding hosts_output)"

section \<open>Dispatch\<close>

text \<open>\<open>Path::extension\<close> of a file name.\<close>

definition extension_of :: "string \<Rightarrow> string option" where
  "extension_of name =
     (let ext = rev (takeWhile (\<lambda>c. c \<noteq> CHR ''.'') (rev name)) in
      if name = ''..'' \<or> length name \<le> length ext + 1 then None else Some ext)"

record file_lib =
  fl_read :: "string \<Rightarrow> bytes checked"
  fl_deserialize :: "bytes \<Rightarrow> archive checked"
  fl_show_err :: "gguf_error \<Rightarrow> string"
  fl_descs_fit :: "nat \<Rightarrow> bool"

definition load_weights ::
    "'f float_lib \<Rightarrow> file_lib \<Rightarrow> string \<Rightarrow> model_config \<Rightarrow> nat \<times> nat \<Rightarrow> bool \<Rightarrow> bool \<Rightarrow> 'f loaded_weights checked" where
  "load_weights lib files path cfg rng hosts_embedding hosts_output =
     (let ext = Option.bind (file_name path) extension_of in
      if ext = Some ''gguf'' then and_then (fl_read files path) (\<lambda>file.
        load_gguf lib (fl_show_err files) (fl_descs_fit files) file cfg rng hosts_embedding hosts_output)
      else if ext = Some ''safetensors'' \<or> ext = None then and_then (fl_read files path) (\<lambda>file.
        load_range lib (fl_deserialize files) file cfg rng hosts_embedding hosts_output)
      else Err ''unsupported weights file extension'')"


section \<open>A share of the layers is a slice of the model\<close>

definition share :: "'f loaded_weights \<Rightarrow> nat \<times> nat \<Rightarrow> bool \<Rightarrow> bool \<Rightarrow> 'f loaded_weights" where
  "share w rng hosts_embedding hosts_output =
     \<lparr>lo_embedding = (if hosts_embedding then lo_embedding w else None),
      lo_layers = take (snd rng - fst rng) (drop (fst rng) (lo_layers w)),
      lo_final_norm = (if hosts_output then lo_final_norm w else None),
      lo_output_proj = (if hosts_output then lo_output_proj w else None)\<rparr>"

lemma load_each_Ok: "load_each f is = Ok as \<longleftrightarrow> list_all2 (\<lambda>i a. f i = Ok a) is as"
  by (induction f "is" arbitrary: as rule: load_each.induct) (auto simp: outcome_simps list_all2_Cons1)

lemma load_each_length: "load_each f is = Ok as \<Longrightarrow> length as = length is"
  by (auto simp: load_each_Ok dest: list_all2_lengthD)

lemma load_each_slice:
  assumes "load_each f [0..<n] = Ok as" and "s \<le> e" "e \<le> n"
  shows "load_each f [s..<e] = Ok (take (e - s) (drop s as))"
proof -
  have "list_all2 (\<lambda>i a. f i = Ok a) (take (e - s) (drop s [0..<n])) (take (e - s) (drop s as))"
    using assms(1) unfolding load_each_Ok by (intro list_all2_takeI list_all2_dropI)
  moreover have "take (e - s) (drop s [0..<n]) = [s..<e]"
    using assms(2,3) by (simp add: take_upt)
  ultimately show ?thesis
    by (simp add: load_each_Ok)
qed

lemma load_when_simps [simp]:
  "load_when False x = Ok None"
  "load_when True x = Ok y \<longleftrightarrow> (\<exists>a. x = Ok a \<and> y = Some a)"
  by (auto simp: load_when_def outcome_simps)

lemma collect_weights_share:
  assumes "collect_weights emb layer norm out cfg (0, n) True True = Ok w" and "s \<le> e" "e \<le> n"
  shows "collect_weights emb layer norm out cfg (s, e) he ho = Ok (share w (s, e) he ho)"
proof -
  obtain a ls b c where whole: "emb = Ok a" "load_each layer [0..<n] = Ok ls" "norm = Ok b"
    "load_when (\<not> mc_tie_word_embeddings cfg) out = Ok c"
    "w = \<lparr>lo_embedding = Some a, lo_layers = ls, lo_final_norm = Some b, lo_output_proj = c\<rparr>"
    using assms(1) by (auto simp: collect_weights_def outcome_simps)
  have "load_when (ho \<and> \<not> mc_tie_word_embeddings cfg) out = Ok (if ho then c else None)"
    using whole(4) by simp
  moreover have "load_when he emb = Ok (if he then Some a else None)" "load_when ho norm = Ok (if ho then Some b else None)"
    using whole(1,3) by (simp_all add: load_when_def)
  ultimately show ?thesis
    using load_each_slice [OF whole(2) assms(2,3)] by (simp add: collect_weights_def share_def whole(5))
qed

lemma load_weights_share:
  assumes "load_weights lib files path cfg (0, n) True True = Ok w" and "s \<le> e" "e \<le> n"
  shows "load_weights lib files path cfg (s, e) he ho = Ok (share w (s, e) he ho)"
  using assms
  by (auto simp: load_weights_def load_gguf_def load_range_def Let_def outcome_simps split: if_splits prod.splits
      intro: collect_weights_share [OF _ assms(2,3)])

lemma load_weights_whole:
  assumes "load_weights lib files path cfg (0, n) True True = Ok w"
  shows "\<exists>emb norm. lo_embedding w = Some emb \<and> lo_final_norm w = Some norm \<and> length (lo_layers w) = n
    \<and> (lo_output_proj w = None \<longleftrightarrow> mc_tie_word_embeddings cfg)"
proof -
  have "\<exists>emb layer norm out. collect_weights emb layer norm out cfg (0, n) True True = Ok w"
    using assms by (auto simp: load_weights_def load_gguf_def load_range_def Let_def outcome_simps split: if_splits prod.splits)
  then show ?thesis
    by (auto simp: collect_weights_def outcome_simps load_when_def dest: load_each_length split: if_splits)
qed

section \<open>Query and key weights\<close>

text \<open>What the converter to GGUF does: of each head, column \<open>c * half + p\<close> goes to \<open>2p + c\<close>.\<close>

definition permuted :: "nat \<Rightarrow> nat \<Rightarrow> 'f list \<Rightarrow> 'f list" where
  "permuted out head_dim data =
     map (\<lambda>k. let i = k div out; h = k mod out div head_dim; r = k mod out mod head_dim
          in data ! (i * out + h * head_dim + r mod 2 * (head_dim div 2) + r div 2)) [0..<length data]"

lemma head_position:
  assumes "k < hidden * (heads * dim)" and "r < (dim :: nat)"
  defines "i \<equiv> k div (heads * dim)" and "h \<equiv> k mod (heads * dim) div dim"
  shows "i * (heads * dim) + h * dim + r < hidden * (heads * dim)"
    and "(i * (heads * dim) + h * dim + r) div (heads * dim) = i"
    and "(i * (heads * dim) + h * dim + r) mod (heads * dim) = h * dim + r"
proof -
  have pos: "0 < heads * dim" using assms(1) by (cases "heads * dim") auto
  have "h < heads"
    unfolding h_def using mod_less_divisor [OF pos, of k] by (simp add: less_mult_imp_div_less)
  then have *: "h * dim + r < heads * dim"
    using assms(2) by (rule position_less)
  have "i < hidden" unfolding i_def using assms(1) by (simp add: less_mult_imp_div_less)
  then show "i * (heads * dim) + h * dim + r < hidden * (heads * dim)"
    using position_less [OF _ *, of i hidden] by (simp add: add.assoc)
  show "(i * (heads * dim) + h * dim + r) div (heads * dim) = i"
    "(i * (heads * dim) + h * dim + r) mod (heads * dim) = h * dim + r"
    using position_div [OF *, of i] by (simp_all add: add.assoc)
qed

lemma unpermuted_permuted:
  assumes len: "length data = hidden * (heads * dim)" and even: "even dim"
  shows "unpermuted (heads * dim) dim (permuted (heads * dim) dim data) = data"
proof (rule nth_equalityI)
  show "length (unpermuted (heads * dim) dim (permuted (heads * dim) dim data)) = length data"
    by (simp add: unpermuted_def permuted_def)
  fix k
  assume "k < length (unpermuted (heads * dim) dim (permuted (heads * dim) dim data))"
  then have k: "k < length data" by (simp add: unpermuted_def permuted_def)
  define half where "half = dim div 2"
  have dim: "dim = 2 * half" "0 < dim" "0 < half"
    using even k len by (auto simp: half_def elim!: evenE intro: ccontr)
  define i h r where "i = k div (heads * dim)" and "h = k mod (heads * dim) div dim" and "r = k mod (heads * dim) mod dim"
  define c p where "c = r div half" and "p = r mod half"
  have r: "r < dim" "r = c * half + p" "c < 2" "p < half"
    using dim by (simp_all add: r_def c_def p_def less_mult_imp_div_less)
  then have j: "p * 2 + c < dim" "(p * 2 + c) div 2 = p" "(p * 2 + c) mod 2 = c"
    using dim by simp_all
  let ?k' = "i * (heads * dim) + h * dim + (p * 2 + c)"
  have k': "?k' < length data" "?k' div (heads * dim) = i" "?k' mod (heads * dim) = h * dim + (p * 2 + c)"
    using head_position [OF k [unfolded len] j(1)] len by (simp_all add: i_def h_def)
  have "unpermuted (heads * dim) dim (permuted (heads * dim) dim data) ! k = permuted (heads * dim) dim data ! ?k'"
    using k by (simp add: unpermuted_def permuted_def Let_def i_def h_def r_def c_def p_def half_def add.assoc)
  also have "\<dots> = data ! (i * (heads * dim) + h * dim + c * half + p)"
    using k' position_div [OF j(1), of h] j(2,3) by (simp add: permuted_def Let_def half_def)
  also have "i * (heads * dim) + h * dim + c * half + p = k"
  proof -
    have "h * dim + r = k mod (heads * dim)"
      by (simp add: h_def r_def)
    then have "i * (heads * dim) + (h * dim + r) = k"
      by (simp add: i_def) (metis div_mult_mod_eq)
    then show ?thesis using r(2) by simp
  qed
  finally show "unpermuted (heads * dim) dim (permuted (heads * dim) dim data) ! k = data ! k" .
qed

section \<open>A quantised embedding table\<close>

text \<open>
  An embedding table stored as Q4_0 is never read: the loader takes the output projection in its
  place, or fails where there is none.
\<close>

lemma q4_embedding_ignored:
  assumes "by_hf ''model.embed_tokens.weight'' = Some t" and "td_type (fst t) = GgmlQ4_0" and "td_shape (fst t) = [a, b]"
  shows "gguf_embedding lib by_hf = gguf_embedding lib (by_hf(''model.embed_tokens.weight'' := None))"
  using assms by (simp add: gguf_embedding_def gguf_entry_def ok_or_def load_dense_2d_gguf_def bytes_to_f32_vec_gguf_def)

section \<open>Loaded weights can be multiplied with\<close>

lemma q4_from_packed_dense:
  assumes "q4_from_packed packed scales (in_dim, out_dim) = Ok t" and "in_dim mod q4_group = 0" and "even out_dim"
  shows "\<exists>data. q4_dequantize q t = Ok data \<and> length data = in_dim * out_dim \<and> q4_shape t = (in_dim, out_dim)"
proof -
  have t: "t = \<lparr>q4_packed = packed, q4_scales = scales, q4_shape = (in_dim, out_dim)\<rparr>"
    "length packed = in_dim * (out_dim div 2)" "length scales = in_dim div q4_group * out_dim"
    using assms(1) by (auto simp: q4_from_packed_def split: if_splits)
  then have "q4_wf t" "q4_shape t = (in_dim, out_dim)"
    using assms(2,3) by (simp_all add: q4_wf_def)
  from q4_dequantize_eq [OF this] this(2) show ?thesis by simp
qed

lemma load_q8_quantized:
  assumes "load_q8 lib st nm view shape = Ok w"
  obtains t where "w = Quantized t" and "length (q8_packed t) = fst (q8_shape t) * snd (q8_shape t)"
proof -
  from assms obtain scale where "(case scale of
         [s] \<Rightarrow> and_then (q8_from_packed (mb_bytes (sv_data view)) s shape) (\<lambda>t. Ok (Quantized t))
       | _ \<Rightarrow> Err (''must be 1 element: '' @ wn_scale nm)) = Ok w"
    by (auto simp: load_q8_def and_then_eq_Ok simp del: append_Cons split: if_splits)
  then have "\<exists>s t. q8_from_packed (mb_bytes (sv_data view)) s shape = Ok t \<and> w = Quantized t"
    by (auto simp: and_then_eq_Ok split: list.splits)
  then show thesis
    by (auto simp: q8_from_packed_def split: if_splits intro: that)
qed

lemma load_linear_weight_dense:
  assumes "load_linear_weight lib st nm = Ok w"
  shows "\<exists>t. weight_tensor lib w = Ok t \<and> t2_wf t"
proof (cases "st (wn_q4_weight nm)")
  case (Some v)
  with assms have "load_q4 lib st nm v = Ok w"
    by (simp add: load_linear_weight_def)
  then obtain in_dim half packed scales t where
    "q4_from_packed packed scales (in_dim, half * 2) = Ok t" "in_dim mod q4_group = 0" "w = Q4 t"
    by (auto simp: load_q4_def Let_def outcome_simps split: if_splits list.splits)
  from q4_from_packed_dense [OF this(1,2), of "fb_quant lib"] this(3) show ?thesis
    by (auto simp: weight_tensor_def t2_wf_def)
next
  case None
  with assms obtain view where view: "(case sv_shape view of
      [r, c] \<Rightarrow> if sv_dtype view = StI8 then load_q8 lib st nm view (r, c)
        else and_then (bytes_to_f32_vec lib (sv_data view) (sv_dtype view)) (\<lambda>data.
             and_then (tensor_2d data (r, c)) (\<lambda>t. Ok (Dense t)))
    | _ \<Rightarrow> Err (''expected 2D: '' @ wn_weight nm)) = Ok w"
    by (auto simp: load_linear_weight_def and_then_eq_Ok simp del: append_Cons)
  then obtain r c where rc: "sv_shape view = [r, c]"
    by (simp split: list.splits)
  show ?thesis
  proof (cases "sv_dtype view = StI8")
    case True
    with view rc have "load_q8 lib st nm view (r, c) = Ok w" by simp
    then show ?thesis
      by (elim load_q8_quantized) (simp add: weight_tensor_def t2_wf_def q8_dequantize_def)
  next
    case False
    with view rc show ?thesis
      by (auto simp: tensor_2d_def weight_tensor_def t2_wf_def outcome_simps split: if_splits)
  qed
qed


text \<open>A weight can be laid out for multiplication and expanded.\<close>

definition usable :: "'f float_lib \<Rightarrow> 'f linear_weight \<Rightarrow> bool" where
  "usable lib w \<longleftrightarrow> (\<exists>w' t. ensure_math_order w = Ok w' \<and> weight_tensor lib w' = Ok t)"

lemma usable_Dense [simp]: "usable lib (Dense t)"
  by (simp add: usable_def ensure_math_order_def weight_tensor_def)

lemma load_linear_weight_usable:
  assumes "load_linear_weight lib st nm = Ok w"
  shows "usable lib w"
proof (cases w)
  case (Quantized t)
  have "length (q8_packed t) = fst (q8_shape t) * snd (q8_shape t)"
    using load_linear_weight_dense [OF assms] by (auto simp: Quantized weight_tensor_def t2_wf_def q8_dequantize_def)
  then have "q8_wf t" by (simp add: q8_wf_def)
  from q8_transpose_eq [OF this, of "fst (q8_shape t)" "snd (q8_shape t)"] Quantized show ?thesis
    by (simp add: usable_def ensure_math_order_def weight_tensor_def)
qed (use load_linear_weight_dense [OF assms] in \<open>auto simp: usable_def ensure_math_order_def weight_tensor_def\<close>)

lemma load_q4_0_usable:
  assumes "load_q4_0 t = Ok w"
  shows "usable lib (Q4Gguf w)"
proof -
  have "q4_0_wf w"
    using assms by (auto simp: load_q4_0_def outcome_simps intro: q4_0_from_blocks_wf)
  from q4_0_dequantize_eq [OF this, of "fst (qz_shape w)" "snd (qz_shape w)"] show ?thesis
    by (simp add: usable_def ensure_math_order_def weight_tensor_def)
qed

lemma gguf_lin_usable: "gguf_lin lib by_hf name = Ok w \<Longrightarrow> usable lib w"
  by (auto simp: gguf_lin_def outcome_simps split: if_splits intro: load_q4_0_usable)

text \<open>What a computation yields, if it yields anything.\<close>

definition yields :: "('a \<Rightarrow> bool) \<Rightarrow> 'a checked \<Rightarrow> bool" where
  "yields P x \<longleftrightarrow> (\<forall>a. x = Ok a \<longrightarrow> P a)"

lemma yields_Ok: "yields P (Ok a) \<longleftrightarrow> P a"
  by (simp add: yields_def)

lemma yields_and_then: "(\<And>a. x = Ok a \<Longrightarrow> yields P (f a)) \<Longrightarrow> yields P (and_then x f)"
  by (auto simp: yields_def and_then_eq_Ok)

definition layer_usable :: "'f float_lib \<Rightarrow> 'f layer_weights \<Rightarrow> bool" where
  "layer_usable lib l \<longleftrightarrow> list_all (usable lib)
     [lw_q_proj l, lw_k_proj l, lw_v_proj l, lw_o_proj l, lw_ffn_gate l, lw_ffn_up l, lw_ffn_down l]"

lemma unpermute_qk_usable: "yields (usable lib) (unpermute_qk lib w heads head_dim)"
  unfolding unpermute_qk_def
  by (rule yields_and_then) (simp add: Let_def yields_def split: prod.splits if_splits)

lemmas layer_parts = yields_Ok layer_usable_def list.pred_inject layer_weights.simps

lemma st_layer_usable: "yields (layer_usable lib) (st_layer lib st family i)"
  unfolding st_layer_def Let_def
  by (intro yields_and_then; simp only: layer_parts; intro conjI TrueI; erule load_linear_weight_usable)

lemma gguf_layer_usable: "yields (layer_usable lib) (gguf_layer lib by_hf cfg i)"
proof -
  have unpermute: "usable lib w'"
    if "gguf_lin lib by_hf name = Ok w" "(if P then unpermute_qk lib w n d else Ok w) = Ok w'" for name w w' P n d
    using that unpermute_qk_usable [of lib w n d] by (cases P) (auto simp: yields_def intro: gguf_lin_usable)
  show ?thesis
    unfolding gguf_layer_def Let_def
    by (intro yields_and_then; simp only: layer_parts; intro conjI TrueI; (erule gguf_lin_usable | erule (1) unpermute))
qed

lemma load_weights_dense:
  assumes "load_weights lib files path cfg rng he ho = Ok w"
  shows "list_all (layer_usable lib) (lo_layers w)"
proof -
  have each: "list_all P as" if "load_each f is = Ok as" "\<And>i a. f i = Ok a \<Longrightarrow> P a" for f P "is" as
    using that(1) unfolding load_each_Ok by (induction rule: list_all2_induct) (auto intro: that(2))
  have collected: "list_all (layer_usable lib) (lo_layers w)"
    if "collect_weights emb layer norm out cfg rng he ho = Ok w" "\<And>i. yields (layer_usable lib) (layer i)" for emb layer norm out
    using that by (auto simp: collect_weights_def and_then_eq_Ok yields_def intro: each)
  show ?thesis
    using assms unfolding load_weights_def load_gguf_def load_range_def Let_def
    by (auto simp: and_then_eq_Ok split: if_splits intro: collected st_layer_usable gguf_layer_usable)
qed


section \<open>Properties\<close>



end
