(* ===== verification/Assemble.thy ===== *)
theory Assemble
  imports Loader Distributed Leader
begin

text \<open>
  From loaded weights to what a node runs: the model of one machine (\<open>from_loaded\<close> of
  \<open>arch/model.rs\<close>), the stages of a peer (\<open>build_peer_stages\<close> of \<open>peer.rs\<close>), the model of a leader
  (\<open>build_leader_model\<close> of \<open>leader.rs\<close>) and the blocks of a worker (\<open>worker.rs\<close>).  Floats are their
  bits, as on the wire.  Normalising a row and multiplying it by a matrix are arguments; which
  weight goes where, in which order it is laid out and what is checked is the code's.

  The code expands quantised weights when they are first used; here this is part of building, and
  \<open>load_weights_dense\<close> shows that no weight that was loaded fails it.

  The theorem: nodes that each load their own share of a checkpoint hold, together, the model that
  one machine builds from it, so a coordinator over them generates what that machine does.
\<close>

section \<open>Layers\<close>

record build_ops =
  bo_lib :: "u32 float_lib"
  bo_rms_norm :: "u32 \<Rightarrow> row \<Rightarrow> row \<Rightarrow> row"
  bo_matmul :: "u32 tensor2 \<Rightarrow> row \<Rightarrow> row"

text \<open>The rows of an embedding table, and the product with a weight.\<close>

definition embedding_rows :: "u32 tensor2 \<Rightarrow> row list" where
  "embedding_rows t = rows_of (fst (t2_dims t)) (snd (t2_dims t)) (t2_data t)"

definition projection :: "build_ops \<Rightarrow> u32 linear_weight \<Rightarrow> (row \<Rightarrow> row) checked" where
  "projection bo w = and_then (weight_tensor (bo_lib bo) w) (\<lambda>t. Ok (bo_matmul bo t))"

definition math_projection :: "build_ops \<Rightarrow> u32 linear_weight \<Rightarrow> (row \<Rightarrow> row) checked" where
  "math_projection bo w = and_then (ensure_math_order w) (projection bo)"

text \<open>\<open>RotaryEmbedding::new\<close> and \<open>Attention::new\<close> assert; a remainder by zero panics.\<close>

definition heads_ok :: "model_config \<Rightarrow> bool" where
  "heads_ok cfg \<longleftrightarrow> even (mc_head_dim cfg) \<and> mc_n_kv_heads cfg \<noteq> 0 \<and> mc_n_heads cfg mod mc_n_kv_heads cfg = 0"

definition build_block :: "build_ops \<Rightarrow> model_config \<Rightarrow> u32 layer_weights \<Rightarrow> row decoder_block checked" where
  "build_block bo cfg layer =
     (if \<not> heads_ok cfg then Panic
      else
        and_then (math_projection bo (lw_q_proj layer)) (\<lambda>q.
        and_then (math_projection bo (lw_k_proj layer)) (\<lambda>k.
        and_then (math_projection bo (lw_v_proj layer)) (\<lambda>v.
        and_then (math_projection bo (lw_o_proj layer)) (\<lambda>oo.
        and_then (math_projection bo (lw_ffn_gate layer)) (\<lambda>gate.
        and_then (math_projection bo (lw_ffn_up layer)) (\<lambda>up.
        and_then (math_projection bo (lw_ffn_down layer)) (\<lambda>down.
          Ok \<lparr>bk_attn_norm = bo_rms_norm bo (mc_rms_norm_eps cfg) (lw_attn_norm layer),
              bk_attn = \<lparr>at_q_proj = q, at_k_proj = k, at_v_proj = v, at_o_proj = oo,
                at_max_seq = mc_max_position_embeddings cfg\<rparr>,
              bk_ffn_norm = bo_rms_norm bo (mc_rms_norm_eps cfg) (lw_ffn_norm layer),
              bk_ffn = \<lparr>ff_gate = gate, ff_up = up, ff_down = down\<rparr>\<rparr>))))))))"

section \<open>The model of one machine\<close>

definition output_weight :: "model_config \<Rightarrow> u32 tensor2 \<Rightarrow> u32 linear_weight option \<Rightarrow> u32 linear_weight checked" where
  "output_weight cfg emb out =
     (if mc_tie_word_embeddings cfg then Ok (Dense (t2_swap emb))
      else and_then (ok_or ''untied output projection missing'' out) ensure_math_order)"

definition from_loaded :: "build_ops \<Rightarrow> model_config \<Rightarrow> u32 loaded_weights \<Rightarrow> row rt_model checked" where
  "from_loaded bo cfg weights =
     and_then (ok_or ''embedding required but not loaded'' (lo_embedding weights)) (\<lambda>emb.
     and_then (ok_or ''final_norm required but not loaded'' (lo_final_norm weights)) (\<lambda>norm.
     and_then (output_weight cfg emb (lo_output_proj weights)) (\<lambda>w.
     and_then (projection bo w) (\<lambda>out.
     if length (lo_layers weights) \<noteq> mc_n_layers cfg then Err ''unexpected number of layers''
     else and_then (load_each (build_block bo cfg) (lo_layers weights)) (\<lambda>blocks.
       Ok \<lparr>rm_embedding = embedding_rows emb, rm_blocks = blocks,
           rm_final_norm = bo_rms_norm bo (mc_rms_norm_eps cfg) norm, rm_output = out,
           rm_max_seq = mc_max_position_embeddings cfg\<rparr>)))))"

section \<open>The nodes of a cluster\<close>

text \<open>
  A peer: the embedding is also read where the output is tied to it.  \<open>ps_hidden\<close> is the width of
  the rows the embedding gives, used only where there is one.
\<close>

definition build_peer_stages ::
    "build_ops \<Rightarrow> file_lib \<Rightarrow> string \<Rightarrow> model_config \<Rightarrow> layer_range \<Rightarrow> bool \<Rightarrow> bool \<Rightarrow> peer_stages checked" where
  "build_peer_stages bo files path cfg rng hosts_embedding hosts_output =
     (let load_embedding = hosts_embedding \<or> hosts_output \<and> mc_tie_word_embeddings cfg in
      and_then (load_weights (bo_lib bo) files path cfg rng load_embedding hosts_output) (\<lambda>weights.
      let embed_tensor = lo_embedding weights in
      and_then (load_when hosts_embedding (ok_or ''embedding required for embedding host'' embed_tensor)) (\<lambda>embedding.
      and_then (load_when hosts_output (ok_or ''final_norm required for output host'' (lo_final_norm weights))) (\<lambda>final_norm.
      and_then (load_when hosts_output
          (and_then (if mc_tie_word_embeddings cfg
              then and_then (ok_or ''tied output needs embedding on the output host'' embed_tensor) (\<lambda>emb. Ok (Dense (t2_swap emb)))
              else and_then (ok_or ''untied output projection missing'' (lo_output_proj weights)) ensure_math_order)
            (projection bo))) (\<lambda>output.
      and_then (load_each (build_block bo cfg) (lo_layers weights)) (\<lambda>blocks.
        Ok \<lparr>ps_blocks = blocks, ps_embedding = map_option embedding_rows embedding,
            ps_final_norm = map_option (bo_rms_norm bo (mc_rms_norm_eps cfg)) final_norm, ps_output = output,
            ps_max_seq = mc_max_position_embeddings cfg,
            ps_hidden = (case embedding of Some t \<Rightarrow> snd (t2_dims t) | None \<Rightarrow> 0), ps_vocab = mc_vocab_size cfg\<rparr>))))))"

definition build_leader_model ::
    "build_ops \<Rightarrow> file_lib \<Rightarrow> string \<Rightarrow> model_config \<Rightarrow> layer_range \<Rightarrow> leader_model checked" where
  "build_leader_model bo files path cfg leader_layers =
     and_then (load_weights (bo_lib bo) files path cfg leader_layers True True) (\<lambda>weights.
     and_then (ok_or ''embedding required for leader'' (lo_embedding weights)) (\<lambda>emb.
     and_then (ok_or ''final_norm required for leader'' (lo_final_norm weights)) (\<lambda>norm.
     and_then (output_weight cfg emb (lo_output_proj weights)) (\<lambda>w.
     and_then (projection bo w) (\<lambda>out.
     and_then (load_each (build_block bo cfg) (lo_layers weights)) (\<lambda>blocks.
       Ok \<lparr>lm_embedding = embedding_rows emb, lm_blocks = blocks,
           lm_final_norm = bo_rms_norm bo (mc_rms_norm_eps cfg) norm, lm_output = out,
           lm_max_seq = mc_max_position_embeddings cfg, lm_hidden = snd (t2_dims emb), lm_vocab = mc_vocab_size cfg\<rparr>))))))"

definition build_worker_stages ::
    "build_ops \<Rightarrow> file_lib \<Rightarrow> string \<Rightarrow> model_config \<Rightarrow> layer_range \<Rightarrow> worker_stages checked" where
  "build_worker_stages bo files path cfg layer_range =
     and_then (load_weights (bo_lib bo) files path cfg layer_range False False) (\<lambda>weights.
     and_then (load_each (build_block bo cfg) (lo_layers weights)) (\<lambda>blocks.
       Ok \<lparr>wk_blocks = blocks, wk_max_seq = mc_max_position_embeddings cfg\<rparr>))"


section \<open>Shares of a model\<close>

definition loaded_width :: "u32 loaded_weights \<Rightarrow> nat" where
  "loaded_width weights = (case lo_embedding weights of Some t \<Rightarrow> snd (t2_dims t) | None \<Rightarrow> 0)"

text \<open>What the node with the layers \<open>rng\<close> of a model holds.\<close>

definition peer_share :: "row rt_model \<Rightarrow> nat \<Rightarrow> nat \<Rightarrow> layer_range \<Rightarrow> bool \<Rightarrow> bool \<Rightarrow> peer_stages" where
  "peer_share mdl w vocab rng hosts_embedding hosts_output =
     \<lparr>ps_blocks = take (snd rng - fst rng) (drop (fst rng) (rm_blocks mdl)),
      ps_embedding = (if hosts_embedding then Some (rm_embedding mdl) else None),
      ps_final_norm = (if hosts_output then Some (rm_final_norm mdl) else None),
      ps_output = (if hosts_output then Some (rm_output mdl) else None),
      ps_max_seq = rm_max_seq mdl, ps_hidden = (if hosts_embedding then w else 0), ps_vocab = vocab\<rparr>"

lemma load_each_take_drop:
  assumes "load_each f xs = Ok ys"
  shows "load_each f (take k (drop s xs)) = Ok (take k (drop s ys))"
  using assms unfolding load_each_Ok by (intro list_all2_takeI list_all2_dropI)

lemma from_loaded_parts:
  assumes "from_loaded bo cfg weights = Ok mdl"
  obtains emb norm w blocks out where "lo_embedding weights = Some emb" and "lo_final_norm weights = Some norm"
    and "output_weight cfg emb (lo_output_proj weights) = Ok w" and "projection bo w = Ok out"
    and "length (lo_layers weights) = mc_n_layers cfg" and "load_each (build_block bo cfg) (lo_layers weights) = Ok blocks"
    and "mdl = \<lparr>rm_embedding = embedding_rows emb, rm_blocks = blocks,
      rm_final_norm = bo_rms_norm bo (mc_rms_norm_eps cfg) norm, rm_output = out, rm_max_seq = mc_max_position_embeddings cfg\<rparr>"
  using assms by (auto simp: from_loaded_def outcome_simps split: if_splits)

lemma build_peer_stages_share:
  assumes load: "load_weights (bo_lib bo) files path cfg (0, mc_n_layers cfg) True True = Ok weights"
    and "from_loaded bo cfg weights = Ok mdl" and "s \<le> e" and "e \<le> mc_n_layers cfg"
  shows "build_peer_stages bo files path cfg (s, e) he ho
    = Ok (peer_share mdl (loaded_width weights) (mc_vocab_size cfg) (s, e) he ho)"
  using assms(2)
proof (rule from_loaded_parts)
  fix emb norm w blocks out
  assume whole: "lo_embedding weights = Some emb" "lo_final_norm weights = Some norm"
      "output_weight cfg emb (lo_output_proj weights) = Ok w" "projection bo w = Ok out"
      "load_each (build_block bo cfg) (lo_layers weights) = Ok blocks"
    and mdl: "mdl = \<lparr>rm_embedding = embedding_rows emb, rm_blocks = blocks,
      rm_final_norm = bo_rms_norm bo (mc_rms_norm_eps cfg) norm, rm_output = out, rm_max_seq = mc_max_position_embeddings cfg\<rparr>"
  note part = load_weights_share [OF load assms(3,4), of "he \<or> ho \<and> mc_tie_word_embeddings cfg" ho]
  note blocks = load_each_take_drop [OF whole(5), of "e - s" s]
  show ?thesis
    using whole(1-4) unfolding build_peer_stages_def Let_def part
    by (cases he; cases ho; cases "mc_tie_word_embeddings cfg")
      (auto simp: share_def blocks load_when_def outcome_simps output_weight_def peer_share_def mdl loaded_width_def)
qed


lemma build_leader_model_share:
  assumes load: "load_weights (bo_lib bo) files path cfg (0, mc_n_layers cfg) True True = Ok weights"
    and "from_loaded bo cfg weights = Ok mdl" and "s \<le> e" and "e \<le> mc_n_layers cfg"
  shows "build_leader_model bo files path cfg (s, e)
    = Ok \<lparr>lm_embedding = rm_embedding mdl, lm_blocks = take (e - s) (drop s (rm_blocks mdl)),
      lm_final_norm = rm_final_norm mdl, lm_output = rm_output mdl, lm_max_seq = rm_max_seq mdl,
      lm_hidden = loaded_width weights, lm_vocab = mc_vocab_size cfg\<rparr>"
  using assms(2)
proof (rule from_loaded_parts)
  fix emb norm w blocks out
  assume whole: "lo_embedding weights = Some emb" "lo_final_norm weights = Some norm"
      "output_weight cfg emb (lo_output_proj weights) = Ok w" "projection bo w = Ok out"
      "load_each (build_block bo cfg) (lo_layers weights) = Ok blocks"
    and mdl: "mdl = \<lparr>rm_embedding = embedding_rows emb, rm_blocks = blocks,
      rm_final_norm = bo_rms_norm bo (mc_rms_norm_eps cfg) norm, rm_output = out, rm_max_seq = mc_max_position_embeddings cfg\<rparr>"
  note part = load_weights_share [OF load assms(3,4), of True True]
  note blocks = load_each_take_drop [OF whole(5), of "e - s" s]
  show ?thesis
    unfolding build_leader_model_def part by (simp add: share_def blocks outcome_simps whole(1-4) mdl loaded_width_def)
qed

lemma build_worker_stages_share:
  assumes load: "load_weights (bo_lib bo) files path cfg (0, mc_n_layers cfg) True True = Ok weights"
    and "from_loaded bo cfg weights = Ok mdl" and "s \<le> e" and "e \<le> mc_n_layers cfg"
  shows "build_worker_stages bo files path cfg (s, e)
    = Ok \<lparr>wk_blocks = take (e - s) (drop s (rm_blocks mdl)), wk_max_seq = rm_max_seq mdl\<rparr>"
  using assms(2)
proof (rule from_loaded_parts)
  fix emb norm w blocks out
  assume whole: "load_each (build_block bo cfg) (lo_layers weights) = Ok blocks"
    and mdl: "mdl = \<lparr>rm_embedding = embedding_rows emb, rm_blocks = blocks,
      rm_final_norm = bo_rms_norm bo (mc_rms_norm_eps cfg) norm, rm_output = out, rm_max_seq = mc_max_position_embeddings cfg\<rparr>"
  note part = load_weights_share [OF load assms(3,4), of False False]
  note blocks = load_each_take_drop [OF whole, of "e - s" s]
  show ?thesis
    unfolding build_worker_stages_def part by (simp add: share_def blocks outcome_simps mdl)
qed

lemma from_loaded_blocks:
  assumes "from_loaded bo cfg weights = Ok mdl"
  shows "length (rm_blocks mdl) = mc_n_layers cfg"
  using assms by (rule from_loaded_parts) (auto dest: load_each_length)

section \<open>A mesh started from a checkpoint\<close>

lemma covers_from_slices:
  "covers_from s n rs \<Longrightarrow> n = length xs \<Longrightarrow> concat (map (\<lambda>r. take (snd r - fst r) (drop (fst r) xs)) rs) = drop s xs \<and> s \<le> n"
proof (induction rs arbitrary: s)
  case (Cons r rs)
  then have "fst r = s" "s \<le> snd r"
    and rest: "concat (map (\<lambda>r. take (snd r - fst r) (drop (fst r) xs)) rs) = drop (snd r) xs" "snd r \<le> n"
    by auto
  moreover have "take (snd r - s) (drop s xs) @ drop (snd r) xs = drop s xs"
    using append_take_drop_id [of "snd r - s" "drop s xs"] \<open>s \<le> snd r\<close> by simp
  ultimately show ?case by simp
qed simp

lemma wf_manifest_slices:
  assumes "wf_manifest (length xs) m"
  shows "concat (map (\<lambda>a. take (snd (na_range a) - fst (na_range a)) (drop (fst (na_range a)) xs)) (mf_assignments m)) = xs"
proof -
  have "covers_from 0 (length xs) (map na_range (mf_assignments m))"
    using assms unfolding wf_manifest_def by blast
  from covers_from_slices [OF this refl] show ?thesis
    by (simp add: comp_def)
qed

text \<open>The stages the nodes of a manifest hold.\<close>

definition manifest_stages :: "row rt_model \<Rightarrow> nat \<Rightarrow> nat \<Rightarrow> manifest \<Rightarrow> stage_list" where
  "manifest_stages mdl w vocab m =
     map (\<lambda>a. (na_node_id a, peer_share mdl w vocab (na_range a) (na_hosts_embedding a) (na_hosts_output a))) (mf_assignments m)"

lemma manifest_stages_hold:
  assumes wf: "wf_manifest (length (rm_blocks mdl)) m" and "distinct (mf_ids m)" and "2 \<le> length (mf_assignments m)"
  shows "holds_model mdl w vocab (manifest_stages mdl w vocab m)"
proof -
  let ?as = "mf_assignments m"
  have ne: "?as \<noteq> []" using assms(3) by auto
  note wf_manifest_slices [OF wf]
  moreover have "na_hosts_embedding (hd ?as)"
    using wf_manifest_nth(1) [OF wf, of 0] ne by (simp add: hd_conv_nth)
  moreover have "na_hosts_output (last ?as)"
    using wf_manifest_nth(2) [OF wf, of "length ?as - 1"] ne by (simp add: last_conv_nth)
  ultimately show ?thesis
    using assms(2,3) ne
    by (simp add: holds_model_def manifest_stages_def peer_share_def comp_def list_all_iff hd_map last_map)
qed

text \<open>A peer as it starts: it builds its stages and serves a new connection.\<close>

definition start_peer ::
    "codec \<Rightarrow> row tensor_ops \<Rightarrow> build_ops \<Rightarrow> file_lib \<Rightarrow> string \<Rightarrow> model_config \<Rightarrow> node_assignment \<Rightarrow> link option" where
  "start_peer cd ops bo files path cfg a =
     (case build_peer_stages bo files path cfg (na_range a) (na_hosts_embedding a) (na_hosts_output a) of
        Ok st \<Rightarrow> Some \<lparr>lk_serve = handle_stream cd ops st, lk_caches = Some Map.empty\<rparr>
      | _ \<Rightarrow> None)"

lemma started_ready:
  assumes load: "load_weights (bo_lib bo) files path cfg (0, mc_n_layers cfg) True True = Ok weights"
    and "from_loaded bo cfg weights = Ok mdl" and wf: "wf_manifest (mc_n_layers cfg) m"
    and "\<forall>a \<in> set (mf_assignments m). p (na_node_id a) = start_peer cd ops bo files path cfg a"
  shows "ready cd ops (manifest_stages mdl (loaded_width weights) (mc_vocab_size cfg) m) r p"
  unfolding ready_def manifest_stages_def
proof (clarsimp)
  fix a
  assume a: "a \<in> set (mf_assignments m)"
  obtain s e where se: "na_range a = (s, e)" by (cases "na_range a")
  with wf_manifest_range_bound [OF wf a] have "s \<le> e" "e \<le> mc_n_layers cfg" by simp_all
  note built = build_peer_stages_share [OF load assms(2) this]
  show "\<exists>l. p (na_node_id a) = Some l
      \<and> lk_serve l = handle_stream cd ops (peer_share mdl (loaded_width weights) (mc_vocab_size cfg) (na_range a)
          (na_hosts_embedding a) (na_hosts_output a))
      \<and> (\<exists>caches. lk_caches l = Some caches \<and> caches r = None)"
    using assms(4) a by (simp add: start_peer_def se built)
qed


section \<open>A star started from a checkpoint\<close>

text \<open>
  The application gives the leader no layers of its own; the workers build the ranges of the
  manifest, and the leader keeps a connection to each.
\<close>

definition start_worker ::
    "codec \<Rightarrow> row tensor_ops \<Rightarrow> build_ops \<Rightarrow> file_lib \<Rightarrow> string \<Rightarrow> model_config \<Rightarrow> node_assignment \<Rightarrow> link checked" where
  "start_worker cd ops bo files path cfg a =
     and_then (build_worker_stages bo files path cfg (na_range a)) (\<lambda>wk.
       Ok \<lparr>lk_serve = worker_stream cd ops wk, lk_caches = Some Map.empty\<rparr>)"

lemma started_workers:
  assumes load: "load_weights (bo_lib bo) files path cfg (0, mc_n_layers cfg) True True = Ok weights"
    and "from_loaded bo cfg weights = Ok mdl"
    and "\<forall>r \<in> set (map na_range as). fst r \<le> snd r \<and> snd r \<le> mc_n_layers cfg"
  shows "load_each (start_worker cd ops bo files path cfg) as
    = Ok (map (\<lambda>a. \<lparr>lk_serve = worker_stream cd ops
          \<lparr>wk_blocks = take (snd (na_range a) - fst (na_range a)) (drop (fst (na_range a)) (rm_blocks mdl)), wk_max_seq = rm_max_seq mdl\<rparr>,
        lk_caches = Some Map.empty\<rparr>) as)"
  using assms(3)
proof (induction as)
  case (Cons a as)
  obtain s e where se: "na_range a = (s, e)" by (cases "na_range a")
  with Cons.prems have "s \<le> e" "e \<le> mc_n_layers cfg" by simp_all
  from build_worker_stages_share [OF load assms(2) this] Cons show ?case
    by (simp add: start_worker_def se)
qed simp


section \<open>Properties\<close>

text \<open>
  C1: nodes that find the same peers, agree on a manifest and each load only their own share of
  one checkpoint form a mesh on which a coordinator generates exactly the tokens that a single
  machine generates after loading the whole checkpoint: whatever the file format, the
  quantisation of each tensor and whether the output is tied to the embedding.
\<close>

theorem checkpoint_mesh_is_local:
  assumes "codec_ok cd" "mask_neutral ops" "width_ok ops"
    and "load_weights (bo_lib bo) files path cfg (0, mc_n_layers cfg) True True = Ok weights"
    and "from_loaded bo cfg weights = Ok mdl"
    and "agreed_manifest sha model_id caps (mc_n_layers cfg) lb eo po = Ok (co_manifest co)" and "mc_n_layers cfg \<le> 2 ^ 52"
    and "distinct (map cap_node_id caps)" and "2 \<le> length caps"
    and "\<forall>a \<in> set (mf_assignments (co_manifest co)). p (na_node_id a) = start_peer cd ops bo files path cfg a"
    and "model_sends mdl (loaded_width weights) (mc_vocab_size cfg)"
    and "generation_ok mdl (loaded_width weights) prompt (max 1 n)" and "sc_top_k scfg \<noteq> Some 0"
  shows "\<exists>toks q. generate cd co fl scfg r prompt n p = (Ok toks, q)
    \<and> local_generate ops mdl (mc_vocab_size cfg) fl scfg prompt (max 1 n) = (Ok toks :: (unit, _) outcome)
    \<and> length toks = max 1 n"
proof -
  let ?m = "co_manifest co" and ?w = "loaded_width weights"
  let ?sts = "manifest_stages mdl ?w (mc_vocab_size cfg) ?m"
  note wf = auto_partition_wf [OF assms(6) [unfolded agreed_manifest_def] assms(7)]
  have "mset (map cap_node_id (sort_key cap_node_id caps)) = mset (map cap_node_id caps)" by simp
  then have dist: "distinct (mf_ids ?m)"
    using assms(8) unfolding wf(2) by (metis mset_eq_imp_distinct_iff)
  have two: "2 \<le> length (mf_assignments ?m)"
    using arg_cong [OF wf(2), of length] assms(9) by simp
  have holds: "holds_model mdl ?w (mc_vocab_size cfg) ?sts"
    using manifest_stages_hold [OF _ dist two] wf(1) by (simp add: from_loaded_blocks [OF assms(5)])
  have plan: "pipeline_order ?m = Some (map fst ?sts)"
    using pipeline_order_wf [OF wf(1) dist] by (simp add: manifest_stages_def comp_def)
  have ready: "ready cd ops ?sts r p"
    by (rule started_ready [OF assms(4,5) wf(1) assms(10)])
  from drive_local [where 'e = unit and fl = fl, OF assms(1-3) holds assms(11-13) plan ready] show ?thesis
    by (auto simp: generate_def)
qed

text \<open>
  C11: a leader without layers of its own, connected in the order of the layers to workers that
  each load the range the manifest gives them, generates what one machine generates from the
  whole checkpoint.
\<close>

theorem checkpoint_star_is_local:
  assumes "codec_ok cd" "mask_neutral ops" "width_ok ops"
    and "load_weights (bo_lib bo) files path cfg (0, mc_n_layers cfg) True True = Ok weights"
    and "from_loaded bo cfg weights = Ok mdl" and "wf_manifest (mc_n_layers cfg) m"
    and "build_leader_model bo files path cfg (0, 0) = Ok lm"
    and "load_each (start_worker cd ops bo files path cfg) (mf_assignments m) = Ok conns"
    and "model_sends mdl (loaded_width weights) (mc_vocab_size cfg)"
    and "generation_ok mdl (loaded_width weights) prompt (max 1 n)" and "sc_top_k scfg \<noteq> Some 0"
  shows "\<exists>toks. fst (leader_generate cd ops lm fl scfg r conns prompt n) = Ok toks
    \<and> local_generate ops mdl (mc_vocab_size cfg) fl scfg prompt (max 1 n) = (Ok toks :: (unit, _) outcome)
    \<and> length toks = max 1 n"
proof -
  let ?w = "loaded_width weights"
  define wks where "wks = map (\<lambda>a. \<lparr>wk_blocks = take (snd (na_range a) - fst (na_range a)) (drop (fst (na_range a)) (rm_blocks mdl)),
    wk_max_seq = rm_max_seq mdl\<rparr>) (mf_assignments m)"
  have "\<forall>r \<in> set (map na_range (mf_assignments m)). fst r \<le> snd r \<and> snd r \<le> mc_n_layers cfg"
    using wf_manifest_range_bound [OF assms(6)] by auto
  from started_workers [OF assms(4,5) this, of cd ops] assms(8)
  have conns: "conns = map (\<lambda>wk. \<lparr>lk_serve = worker_stream cd ops wk, lk_caches = Some Map.empty\<rparr>) wks"
    by (simp add: wks_def comp_def)
  have layers: "concat (map wk_blocks wks) = rm_blocks mdl"
    using wf_manifest_slices [of "rm_blocks mdl" m] assms(6) by (simp add: wks_def comp_def from_loaded_blocks [OF assms(5)])
  have max_seq: "\<forall>wk \<in> set wks. wk_max_seq wk = rm_max_seq mdl" by (auto simp: wks_def)
  note lm = build_leader_model_share [OF assms(4,5) order_refl le0, unfolded assms(7) outcome.inject]
  have star: "star_holds mdl ?w (mc_vocab_size cfg) lm wks"
    using layers max_seq by (simp add: star_holds_def lm)
  have served: "length conns = length wks" "list_all2 (\<lambda>l wk. lk_serve l = worker_stream cd ops wk
      \<and> (\<exists>caches. lk_caches l = Some caches \<and> caches r = None)) conns wks"
    by (simp_all add: conns list_all2_map1 list_all2_same)
  show ?thesis
    by (rule leader_run_local [OF assms(1-3) star assms(9-11) served])
qed


section \<open>A checkpoint of three layers\<close>

definition ex_quant_words :: "u32 quant_ops" where
  "ex_quant_words = \<lparr>qf_int = of_int, qf_abs = (\<lambda>x. x), qf_max = max, qf_lt = (<), qf_eq = (=), qf_mul = (*), qf_add = (+),
     qf_div = (\<lambda>x y. x), qf_round = (\<lambda>x. x), qf_clamp = (\<lambda>x lo hi. x), qf_to_i32 = uint, qf_to_i8 = ucast, qf_f16 = ucast\<rparr>"

definition ex_build_ops :: build_ops where
  "ex_build_ops = \<lparr>bo_lib = \<lparr>fb_quant = ex_quant_words, fb_f32 = (\<lambda>x. x), fb_bf16 = ucast\<rparr>, bo_rms_norm = (\<lambda>eps w x. x),
     bo_matmul = (\<lambda>t x. map (\<lambda>j. sum_list (map2 (\<lambda>i v. v * t2_data t ! (i * snd (t2_dims t) + j)) [0..<length x] x))
       [0..<snd (t2_dims t)])\<rparr>"

definition ex_model_config :: model_config where
  "ex_model_config = \<lparr>mc_hidden_size = 2, mc_intermediate_size = 2, mc_n_layers = 3, mc_n_heads = 1, mc_n_kv_heads = 1,
     mc_head_dim = 2, mc_vocab_size = 3, mc_max_position_embeddings = 8, mc_rope_theta = 0, mc_rms_norm_eps = 0,
     mc_tie_word_embeddings = True, mc_family = Mistral\<rparr>"

definition ex_f32_view :: "nat list \<Rightarrow> u32 list \<Rightarrow> st_view" where
  "ex_f32_view shape ws = \<lparr>sv_dtype = StF32, sv_shape = shape,
     sv_data = \<lparr>mb_addr = 8, mb_bytes = concat (map (\<lambda>w. to_le 4 (unat w)) ws)\<rparr>\<rparr>"

definition ex_archive :: archive where
  "ex_archive name =
     (if name = ''model.embed_tokens.weight'' then Some (ex_f32_view [3, 2] [1, 2, 3, 4, 5, 6])
      else if drop (length name - 11) name = ''norm.weight'' then Some (ex_f32_view [2] [1, 1])
      else if drop (length name - 7) name = ''.weight'' then Some (ex_f32_view [2, 2] [1, 0, 2, 1])
      else None)"

definition ex_files :: file_lib where
  "ex_files = \<lparr>fl_read = (\<lambda>path. Ok []), fl_deserialize = (\<lambda>file. Ok ex_archive), fl_show_err = (\<lambda>e. ''gguf''),
     fl_descs_fit = (\<lambda>n. True)\<rparr>"

definition ex_layer_weights :: "u32 layer_weights" where
  "ex_layer_weights = (let w = Dense \<lparr>t2_dims = (2, 2), t2_data = [1, 0, 2, 1]\<rparr> in
     \<lparr>lw_attn_norm = [1, 1], lw_q_proj = w, lw_k_proj = w, lw_v_proj = w, lw_o_proj = w, lw_ffn_norm = [1, 1],
      lw_ffn_gate = w, lw_ffn_up = w, lw_ffn_down = w\<rparr>)"

definition ex_loaded :: "u32 loaded_weights" where
  "ex_loaded = \<lparr>lo_embedding = Some \<lparr>t2_dims = (3, 2), t2_data = [1, 2, 3, 4, 5, 6]\<rparr>,
     lo_layers = [ex_layer_weights, ex_layer_weights, ex_layer_weights], lo_final_norm = Some [1, 1], lo_output_proj = None\<rparr>"

lemma ex_cfg:
  "mc_n_layers ex_model_config = 3" "mc_n_heads ex_model_config = 1" "mc_n_kv_heads ex_model_config = 1"
  "mc_head_dim ex_model_config = 2" "mc_vocab_size ex_model_config = 3" "mc_max_position_embeddings ex_model_config = 8"
  "mc_tie_word_embeddings ex_model_config" "mc_family ex_model_config = Mistral"
  by (simp_all add: ex_model_config_def)

lemma ex_norm: "bo_rms_norm ex_build_ops eps w = (\<lambda>x. x)"
  by (simp add: ex_build_ops_def)

lemma ex_layers:
  "st_layer (bo_lib ex_build_ops) ex_archive Mistral 0 = Ok ex_layer_weights"
  "st_layer (bo_lib ex_build_ops) ex_archive Mistral (Suc 0) = Ok ex_layer_weights"
  "st_layer (bo_lib ex_build_ops) ex_archive Mistral 2 = Ok ex_layer_weights"
  by code_simp+

lemma ex_ends:
  "st_embedding (bo_lib ex_build_ops) ex_archive ex_model_config = Ok \<lparr>t2_dims = (3, 2), t2_data = [1, 2, 3, 4, 5, 6]\<rparr>"
  "st_load_1d (bo_lib ex_build_ops) ex_archive (lookup_name Mistral FinalNorm) = Ok [1, 1]"
  by code_simp+

lemma ex_load: "load_weights (bo_lib ex_build_ops) ex_files ''m.safetensors'' ex_model_config (0, mc_n_layers ex_model_config) True True
    = Ok ex_loaded"
proof -
  have "Option.bind (file_name ''m.safetensors'') extension_of = Some ''safetensors''" by code_simp
  moreover have "[0..<3] = [0, Suc 0, 2 :: nat]" by (simp add: upt_rec)
  ultimately show ?thesis
    by (simp add: load_weights_def load_range_def collect_weights_def ex_files_def ex_ends ex_layers load_when_def ex_loaded_def ex_cfg)
qed

definition ex_checkpoint_block :: "row decoder_block" where
  "ex_checkpoint_block = (let f = bo_matmul ex_build_ops (t2_swap \<lparr>t2_dims = (2, 2), t2_data = [1, 0, 2, 1]\<rparr>) in
     \<lparr>bk_attn_norm = (\<lambda>x. x), bk_attn = \<lparr>at_q_proj = f, at_k_proj = f, at_v_proj = f, at_o_proj = f, at_max_seq = 8\<rparr>,
      bk_ffn_norm = (\<lambda>x. x), bk_ffn = \<lparr>ff_gate = f, ff_up = f, ff_down = f\<rparr>\<rparr>)"

definition ex_checkpoint_model :: "row rt_model" where
  "ex_checkpoint_model = \<lparr>rm_embedding = [[1, 2], [3, 4], [5, 6]], rm_blocks = [ex_checkpoint_block, ex_checkpoint_block, ex_checkpoint_block],
     rm_final_norm = (\<lambda>x. x), rm_output = bo_matmul ex_build_ops (t2_swap \<lparr>t2_dims = (3, 2), t2_data = [1, 2, 3, 4, 5, 6]\<rparr>),
     rm_max_seq = 8\<rparr>"

lemma ex_built: "from_loaded ex_build_ops ex_model_config ex_loaded = Ok ex_checkpoint_model"
proof -
  have "build_block ex_build_ops ex_model_config ex_layer_weights = Ok ex_checkpoint_block"
    by (simp add: build_block_def heads_ok_def ex_cfg ex_layer_weights_def Let_def math_projection_def
        projection_def ensure_math_order_def weight_tensor_def ex_checkpoint_block_def ex_norm)
  moreover have "embedding_rows \<lparr>t2_dims = (3, 2), t2_data = [1, 2, 3, 4, 5, 6]\<rparr> = [[1, 2], [3, 4], [5, 6]]"
    by code_simp
  ultimately show ?thesis
    by (simp add: from_loaded_def ex_loaded_def output_weight_def ex_cfg projection_def weight_tensor_def ok_or_def
        ex_checkpoint_model_def ex_norm)
qed

lemma ex_model_fits: "model_sends ex_checkpoint_model (loaded_width ex_loaded) (mc_vocab_size ex_model_config)"
  by (simp add: model_sends_def model_ok_def block_ok_def ex_checkpoint_model_def ex_checkpoint_block_def Let_def
      loaded_width_def ex_loaded_def ex_cfg rows_fit_def max_frame_def ex_build_ops_def t2_swap_def)

lemma ex_request_fits: "generation_ok ex_checkpoint_model (loaded_width ex_loaded) [0, 2] (max 1 3)"
  by (simp add: generation_ok_def ex_checkpoint_model_def loaded_width_def ex_loaded_def max_frame_def)

definition ex_checkpoint_coordinator :: coordinator where
  "ex_checkpoint_coordinator = \<lparr>co_local_id = ''c'', co_manifest = ex_agreed\<rparr>"

definition ex_checkpoint_mesh :: mesh where
  "ex_checkpoint_mesh = (\<lambda>i. case for_node ex_agreed i of None \<Rightarrow> None
     | Some a \<Rightarrow> start_peer ex_codec ex_row_ops ex_build_ops ex_files ''m.safetensors'' ex_model_config a)"

lemma checkpoint_mesh_is_local_witness:
  "\<exists>toks q. generate ex_codec ex_checkpoint_coordinator ex_word_floats ex_greedy 7 [0, 2] 3 ex_checkpoint_mesh = (Ok toks, q)
    \<and> local_generate ex_row_ops ex_checkpoint_model 3 ex_word_floats ex_greedy [0, 2] 3 = (Ok toks :: (unit, _) outcome)
    \<and> length toks = 3"
proof -
  have agreed: "agreed_manifest (\<lambda>b. b) ''m'' ex_caps (mc_n_layers ex_model_config) 10 5 1 = Ok (co_manifest ex_checkpoint_coordinator)"
    using ex_agreed by (simp add: ex_cfg ex_checkpoint_coordinator_def)
  have small: "mc_n_layers ex_model_config \<le> 2 ^ 52" by (simp add: ex_cfg)
  have ids: "distinct (map cap_node_id ex_caps)" "2 \<le> length ex_caps" by (simp_all add: ex_caps_def)
  have "list_all (\<lambda>a. for_node ex_agreed (na_node_id a) = Some a) (mf_assignments ex_agreed)" by code_simp
  then have mesh: "\<forall>a \<in> set (mf_assignments (co_manifest ex_checkpoint_coordinator)). ex_checkpoint_mesh (na_node_id a)
      = start_peer ex_codec ex_row_ops ex_build_ops ex_files ''m.safetensors'' ex_model_config a"
    by (simp add: list_all_iff ex_checkpoint_mesh_def ex_checkpoint_coordinator_def)
  from checkpoint_mesh_is_local [where fl = ex_word_floats, OF ex_codec_ok ex_row_mask_neutral ex_row_width_ok ex_load ex_built
      agreed small ids mesh ex_model_fits ex_request_fits ex_greedy_top_k]
  show ?thesis by (simp add: ex_cfg)
qed

lemma checkpoint_star_is_local_witness:
  "\<exists>lm conns toks. build_leader_model ex_build_ops ex_files ''m.safetensors'' ex_model_config (0, 0) = Ok lm
    \<and> load_each (start_worker ex_codec ex_row_ops ex_build_ops ex_files ''m.safetensors'' ex_model_config) (mf_assignments ex_agreed) = Ok conns
    \<and> fst (leader_generate ex_codec ex_row_ops lm ex_word_floats ex_greedy 7 conns [0, 2] 3) = Ok toks
    \<and> local_generate ex_row_ops ex_checkpoint_model 3 ex_word_floats ex_greedy [0, 2] 3 = (Ok toks :: (unit, _) outcome)"
proof -
  have wf: "wf_manifest (mc_n_layers ex_model_config) ex_agreed"
    using auto_partition_wf(1) [OF ex_agreed [unfolded agreed_manifest_def]] by (simp add: ex_cfg)
  have "\<forall>r \<in> set (map na_range (mf_assignments ex_agreed)). fst r \<le> snd r \<and> snd r \<le> mc_n_layers ex_model_config"
    using wf_manifest_range_bound [OF wf] by auto
  note conns = started_workers [OF ex_load ex_built this, of ex_codec ex_row_ops]
  note leader = build_leader_model_share [OF ex_load ex_built order_refl le0]
  from checkpoint_star_is_local [where fl = ex_word_floats, OF ex_codec_ok ex_row_mask_neutral ex_row_width_ok ex_load ex_built
      wf leader conns ex_model_fits ex_request_fits ex_greedy_top_k, of 7] leader conns
  show ?thesis by (auto simp: ex_cfg)
qed

end
