(* ===== verification/Candle.thy ===== *)
theory Candle
  imports ClusterLive Engine Loader
begin

text \<open>
  The in-process provider on candle (\<open>candle/src/provider.rs\<close>, \<open>model.rs\<close>, \<open>pool.rs\<close>,
  \<open>device.rs\<close>): devices, replicas, generation on one replica, the prompt, and both forms of
  answers over a replica or over the paged engine.  The weights of a replica, the reader of GGUF
  files that candle brings, tokenizers and the template engine are third-party; the paged engine
  is seen as what its reply channel delivers.  A spawned task that panics drops its channel, and
  the stream that reads it ends as if the task were done.

  The theorem: a request served by the paged engine is answered, at once or as a stream, with the
  text of what the model generates for that request alone, or with the engine's error.
\<close>

section \<open>Devices\<close>

record 'd device_lib =
  dv_cuda :: bool
  dv_metal :: bool
  dv_new_cuda :: "nat \<Rightarrow> 'd checked"
  dv_new_metal :: "nat \<Rightarrow> 'd checked"
  dv_cpu :: 'd

definition resolve_device :: "'d device_lib \<Rightarrow> string \<Rightarrow> 'd checked" where
  "resolve_device lib spec =
     (if spec = ''auto'' then
        (case (if dv_cuda lib then dv_new_cuda lib 0 else Err []) of
           Ok d \<Rightarrow> Ok d
         | Panic \<Rightarrow> Panic
         | Err _ \<Rightarrow> (case (if dv_metal lib then dv_new_metal lib 0 else Err []) of
             Ok d \<Rightarrow> Ok d
           | Panic \<Rightarrow> Panic
           | Err _ \<Rightarrow> Ok (dv_cpu lib)))
      else if spec = ''cpu'' then Ok (dv_cpu lib)
      else if spec = ''metal'' then
        (if dv_metal lib then dv_new_metal lib 0 else Err ''built without the 'metal' feature'')
      else (case strip_prefix ''cuda:'' spec of
          None \<Rightarrow> Err (''unknown device spec '' @ spec)
        | Some n \<Rightarrow> and_then (ok_or (''invalid cuda device index in '' @ spec) (parse_usize n)) (\<lambda>idx.
            if dv_cuda lib then dv_new_cuda lib idx else Err ''built without the 'cuda' feature'')))"

section \<open>One replica\<close>

record gen_params =
  gp_max_tokens :: nat
  gp_temperature :: u32

definition gen_params_default :: gen_params where
  "gen_params_default = \<lparr>gp_max_tokens = 256, gp_temperature = 0\<rparr>"

definition should_stop :: "nat \<Rightarrow> u32 \<Rightarrow> u32 \<Rightarrow> gen_params \<Rightarrow> bool" where
  "should_stop produced last_token eos params \<longleftrightarrow> gp_max_tokens params \<le> produced \<or> last_token = eos"

definition supported_arch :: "string \<Rightarrow> string checked" where
  "supported_arch arch =
     (if arch = ''llama'' then Ok ''llama''
      else if arch = ''qwen2'' then Ok ''qwen2''
      else if arch = ''qwen3'' then Ok ''qwen3''
      else Err (''unsupported architecture '' @ arch))"

text \<open>What candle's reader gives for a key of a file, as a string and as a number.\<close>

record gguf_content =
  gc_string :: "string \<Rightarrow> string option"
  gc_u32 :: "string \<Rightarrow> u32 option"

definition detect_supported_arch :: "gguf_content \<Rightarrow> string checked" where
  "detect_supported_arch content =
     and_then (ok_or ''gguf missing general.architecture'' (gc_string content ''general.architecture'')) supported_arch"

definition decode_or_empty :: "tokenizer \<Rightarrow> u32 \<Rightarrow> string" where
  "decode_or_empty tk i = (case tk_decode tk [i] of Inl _ \<Rightarrow> [] | Inr s \<Rightarrow> s)"

definition read_gguf_meta ::
    "(string \<Rightarrow> gguf_content checked) \<Rightarrow> string \<Rightarrow> tokenizer \<Rightarrow> (u32 \<times> string option \<times> string \<times> string) checked" where
  "read_gguf_meta read path tk =
     and_then (read path) (\<lambda>content.
     and_then (ok_or ''gguf missing tokenizer.ggml.eos_token_id'' (gc_u32 content ''tokenizer.ggml.eos_token_id'')) (\<lambda>eos.
       let bos_token = (case gc_u32 content ''tokenizer.ggml.bos_token_id'' of None \<Rightarrow> [] | Some b \<Rightarrow> decode_or_empty tk b)
       in Ok (eos, gc_string content ''tokenizer.chat_template'', bos_token, decode_or_empty tk eos)))"

text \<open>
  A replica: what candle makes of the file is its weights \<open>'w\<close>, whose cache a forward pass
  updates; \<open>'t\<close> are the logits before \<open>squeeze\<close> and \<open>to_vec1\<close>.
\<close>

record ('w, 't) candle_model =
  cn_forward :: "u32 list \<Rightarrow> nat \<Rightarrow> ('w, string, 't) stateful"
  cn_to_vec :: "'t \<Rightarrow> row checked"
  cn_tokenizer :: tokenizer
  cn_eos_token_id :: u32
  cn_chat_template :: "string option"
  cn_bos_token :: string
  cn_eos_token :: string

definition candle_load ::
    "(string \<Rightarrow> gguf_content checked) \<Rightarrow> (string \<Rightarrow> gguf_content \<Rightarrow> ((u32 list \<Rightarrow> nat \<Rightarrow> ('w, string, 't) stateful) \<times> 'w) checked)
      \<Rightarrow> ('t \<Rightarrow> row checked) \<Rightarrow> string \<Rightarrow> tokenizer \<Rightarrow> (('w, 't) candle_model \<times> 'w) checked" where
  "candle_load read from_gguf to_vec path tk =
     and_then (read path) (\<lambda>content.
     and_then (detect_supported_arch content) (\<lambda>arch.
     and_then (read_gguf_meta (\<lambda>_. Ok content) path tk) (\<lambda>(eos, template, bos_token, eos_token).
     and_then (from_gguf arch content) (\<lambda>(forward, weights).
       Ok (\<lparr>cn_forward = forward, cn_to_vec = to_vec, cn_tokenizer = tk, cn_eos_token_id = eos, cn_chat_template = template,
            cn_bos_token = bos_token, cn_eos_token = eos_token\<rparr>, weights)))))"

definition candle_sampling :: "gen_params \<Rightarrow> u32 sampling_config" where
  "candle_sampling params = \<lparr>sc_temperature = gp_temperature params, sc_top_p = None, sc_top_k = None, sc_seed = 42\<rparr>"

text \<open>One forward pass and the sample it leads to.\<close>

definition candle_next ::
    "('w, 't) candle_model \<Rightarrow> u32 float_ops \<Rightarrow> gen_params \<Rightarrow> string \<Rightarrow> u32 list \<Rightarrow> nat \<Rightarrow> ('w, string, u32) stateful" where
  "candle_next m fl params what ids pos = (\<lambda>w. case cn_forward m ids pos w of
       (Ok logits, w) \<Rightarrow> (and_then (cn_to_vec m logits) (\<lambda>v. sample_token fl v (candle_sampling params)), w)
     | (Err e, w) \<Rightarrow> (Err (what @ e), w)
     | (Panic, w) \<Rightarrow> (Panic, w))"

text \<open>The callback has its own state \<open>'k\<close>.\<close>

function gen_loop ::
    "('w, 't) candle_model \<Rightarrow> u32 float_ops \<Rightarrow> gen_params \<Rightarrow> (u32 \<Rightarrow> ('k, string, unit) stateful)
      \<Rightarrow> nat \<Rightarrow> u32 \<Rightarrow> nat \<Rightarrow> u32 list \<Rightarrow> ('w \<times> 'k, string, u32 list) stateful" where
  "gen_loop m fl params emit produced next index_pos out (w, k) =
     (if should_stop produced next (cn_eos_token_id m) params then (Ok out, (w, k))
      else case emit next k of
          (Ok _, k) \<Rightarrow> (case candle_next m fl params ''forward(decode): '' [next] index_pos w of
              (Ok next', w) \<Rightarrow> gen_loop m fl params emit (Suc produced) next' (Suc index_pos) (out @ [next]) (w, k)
            | (Err e, w) \<Rightarrow> (Err e, (w, k))
            | (Panic, w) \<Rightarrow> (Panic, (w, k)))
        | (Err e, k) \<Rightarrow> (Err e, (w, k))
        | (Panic, k) \<Rightarrow> (Panic, (w, k)))"
  by pat_completeness auto

termination
  by (relation "measure (\<lambda>(m, fl, params, emit, produced, next, index_pos, out, s). gp_max_tokens params - produced)")
    (auto simp: should_stop_def)

text \<open>\<open>generate\<close>: the tokens and the number of tokens of the prompt.\<close>

definition candle_generate ::
    "('w, 't) candle_model \<Rightarrow> u32 float_ops \<Rightarrow> string \<Rightarrow> gen_params \<Rightarrow> (u32 \<Rightarrow> ('k, string, unit) stateful)
      \<Rightarrow> ('w \<times> 'k, string, u32 list \<times> nat) stateful" where
  "candle_generate m fl prompt params emit = (\<lambda>(w, k).
     case tk_encode (cn_tokenizer m) prompt of
       Inl e \<Rightarrow> (Err e, (w, k))
     | Inr prompt_ids \<Rightarrow>
         if prompt_ids = [] then (Err ''empty prompt after tokenization'', (w, k))
         else (case candle_next m fl params ''forward(prefill): '' prompt_ids 0 w of
             (Ok next, w) \<Rightarrow> (case gen_loop m fl params emit 0 next (length prompt_ids) [] (w, k) of
                 (r, s) \<Rightarrow> (and_then r (\<lambda>ids. Ok (ids, length prompt_ids)), s))
           | (Err e, w) \<Rightarrow> (Err e, (w, k))
           | (Panic, w) \<Rightarrow> (Panic, (w, k))))"

section \<open>The pool\<close>

record replica_pool =
  rp_busy :: "bool list"
  rp_counter :: u64

definition pool_new :: "(nat \<Rightarrow> 'm checked) \<Rightarrow> nat \<Rightarrow> ('m list \<times> replica_pool) checked" where
  "pool_new load n =
     (if n < 1 then Err ''pool_size must be >= 1''
      else and_then (load_each load [0..<n]) (\<lambda>replicas. Ok (replicas, \<lparr>rp_busy = replicate n False, rp_counter = 0\<rparr>)))"

definition next_index :: "nat \<Rightarrow> (u64, 'e, nat) stateful" where
  "next_index n = (\<lambda>counter. (if n = 0 then Panic else Ok (unat counter mod n), counter + 1))"

text \<open>The replica a request gets, and whether it has to wait for it.\<close>

datatype acquired = Locked nat | Waits nat

fun first_free :: "bool list \<Rightarrow> nat \<Rightarrow> nat option" where
  "first_free [] i = None"
| "first_free (b # bs) i = (if b then first_free bs (Suc i) else Some i)"

definition acquire_replica :: "(replica_pool, 'e, acquired) stateful" where
  "acquire_replica = (\<lambda>p. case first_free (rp_busy p) 0 of
       Some i \<Rightarrow> (Ok (Locked i), p\<lparr>rp_busy := (rp_busy p)[i := True]\<rparr>)
     | None \<Rightarrow> (case next_index (length (rp_busy p)) (rp_counter p) of
         (Ok i, c) \<Rightarrow> (Ok (Waits i), p\<lparr>rp_counter := c\<rparr>)
       | (Err e, c) \<Rightarrow> (Err e, p\<lparr>rp_counter := c\<rparr>)
       | (Panic, c) \<Rightarrow> (Panic, p\<lparr>rp_counter := c\<rparr>)))"

section \<open>The provider\<close>

text \<open>
  The replica that was acquired, with its weights in the shared state, or the paged engine, seen
  as the items its reply channel delivers for a prompt, a limit and a temperature until it closes.
\<close>

datatype ('s, 't) candle_backend =
    PoolBackend "('s, 't) candle_model"
  | PagedBackend "u32 list \<Rightarrow> nat \<Rightarrow> u32 \<Rightarrow> 's \<Rightarrow> (string + u32) list \<times> 's"

record ('s, 't) candle_provider =
  cd_id :: string
  cd_backend :: "('s, 't) candle_backend"
  cd_tokenizer :: tokenizer
  cd_chat_template :: "string option"
  cd_bos_token :: string
  cd_eos_token :: string

text \<open>How both constructors begin and end; \<open>start\<close> loads the replicas or spawns the engine.\<close>

definition candle_new ::
    "'d device_lib \<Rightarrow> (string \<Rightarrow> tokenizer checked) \<Rightarrow> (string \<Rightarrow> gguf_content checked)
      \<Rightarrow> ('d \<Rightarrow> tokenizer \<Rightarrow> u32 \<Rightarrow> ('s, 't) candle_backend checked) \<Rightarrow> string \<Rightarrow> string \<Rightarrow> string \<Rightarrow> ('s, 't) candle_provider checked" where
  "candle_new dev load_tokenizer read start i gguf_path device_spec =
     and_then (resolve_device dev device_spec) (\<lambda>device.
     and_then (load_tokenizer gguf_path) (\<lambda>tk.
     and_then (read_gguf_meta read gguf_path tk) (\<lambda>(eos, template, bos_token, eos_token).
     and_then (start device tk eos) (\<lambda>backend.
       Ok \<lparr>cd_id = i, cd_backend = backend, cd_tokenizer = tk, cd_chat_template = template, cd_bos_token = bos_token,
           cd_eos_token = eos_token\<rparr>))))"

definition paged_config :: "nat \<Rightarrow> nat \<Rightarrow> nat \<Rightarrow> u32 \<Rightarrow> engine_config" where
  "paged_config max_num_seqs block_size kv_cache_blocks eos =
     \<lparr>ec_max_num_seqs = max_num_seqs, ec_block_size = block_size, ec_kv_cache_blocks = kv_cache_blocks,
      ec_max_seq = 4096, ec_eos = eos\<rparr>"

definition candle_capabilities :: capabilities where
  "candle_capabilities = \<lparr>cap_chat = True, cap_messages = False, cap_embeddings = False, cap_streaming = True,
     cap_tools = False, cap_vision = False\<rparr>"

definition to_template_messages :: "chat_request \<Rightarrow> (string \<times> string) list" where
  "to_template_messages req = map (\<lambda>m. (cm_role m, message_text (cm_content m))) (cr_messages req)"

text \<open>\<open>render\<close> is the template engine on a template, messages and the two tokens.\<close>

type_synonym template_engine = "string \<Rightarrow> (string \<times> string) list \<Rightarrow> string \<Rightarrow> string \<Rightarrow> string + string"

definition build_prompt :: "template_engine \<Rightarrow> ('s, 't) candle_provider \<Rightarrow> chat_request \<Rightarrow> string" where
  "build_prompt render p req =
     (case cd_chat_template p of
        Some t \<Rightarrow> (case render t (to_template_messages req) (cd_bos_token p) (cd_eos_token p) of
            Inr s \<Rightarrow> s
          | Inl e \<Rightarrow> render_prompt req)
      | None \<Rightarrow> render_prompt req)"

definition params_of :: "chat_request \<Rightarrow> gen_params" where
  "params_of req = \<lparr>gp_max_tokens = max_tokens_of req,
     gp_temperature = (case cr_temperature req of None \<Rightarrow> 0 | Some t \<Rightarrow> t)\<rparr>"

definition build_chat_response ::
    "(128 word \<Rightarrow> string) \<Rightarrow> chat_request \<Rightarrow> call_ctx \<Rightarrow> string \<Rightarrow> nat \<Rightarrow> nat \<Rightarrow> chat_response" where
  "build_chat_response show_uuid req ctx content prompt_tokens completion_tokens =
     \<lparr>rs_id = ''chatcmpl-'' @ show_uuid (ca_request_id ctx),
      rs_model = cr_model req,
      rs_choices = [\<lparr>cc_index = 0,
        cc_message = \<lparr>cm_role = ''assistant'', cm_content = ChatText content, cm_extras = []\<rparr>,
        cc_finish_reason = Some ''stop'', cc_extras = []\<rparr>],
      rs_usage = Some \<lparr>us_prompt_tokens = of_nat prompt_tokens, us_completion_tokens = of_nat completion_tokens,
        us_total_tokens = of_nat (prompt_tokens + completion_tokens)\<rparr>,
      rs_extras = []\<rparr>"

section \<open>One answer\<close>

text \<open>Reading the channel: every token, or the first error.\<close>

fun collect_tokens :: "(string + u32) list \<Rightarrow> u32 list \<Rightarrow> string + u32 list" where
  "collect_tokens [] ids = Inr ids"
| "collect_tokens (Inr i # items) ids = collect_tokens items (ids @ [i])"
| "collect_tokens (Inl e # items) ids = Inl e"

definition chat_on_pool ::
    "(128 word \<Rightarrow> string) \<Rightarrow> u32 float_ops \<Rightarrow> ('s, 't) candle_model \<Rightarrow> string \<Rightarrow> chat_request \<Rightarrow> call_ctx \<Rightarrow> 's
      \<Rightarrow> (provider_error, chat_response) outcome \<times> 's" where
  "chat_on_pool show_uuid fl m prompt req ctx s =
     (case candle_generate m fl prompt (params_of req) (\<lambda>_. ret ()) (s, ()) of
        (Ok (ids, prompt_tokens), (s, _)) \<Rightarrow> (case tk_decode (cn_tokenizer m) ids of
            Inl e \<Rightarrow> (Err (InvalidResponse (''generate: '' @ e)), s)
          | Inr content \<Rightarrow> (Ok (build_chat_response show_uuid req ctx content prompt_tokens (length ids)), s))
      | (Err e, (s, _)) \<Rightarrow> (Err (InvalidResponse (''generate: '' @ e)), s)
      | (Panic, (s, _)) \<Rightarrow> (Panic, s))"

definition chat_on_engine ::
    "(128 word \<Rightarrow> string) \<Rightarrow> tokenizer \<Rightarrow> (u32 list \<Rightarrow> nat \<Rightarrow> u32 \<Rightarrow> 's \<Rightarrow> (string + u32) list \<times> 's) \<Rightarrow> string
      \<Rightarrow> chat_request \<Rightarrow> call_ctx \<Rightarrow> 's \<Rightarrow> (provider_error, chat_response) outcome \<times> 's" where
  "chat_on_engine show_uuid tk submit prompt req ctx s =
     (case tk_encode tk prompt of
        Inl e \<Rightarrow> (Err (InvalidResponse (''tokenize: '' @ e)), s)
      | Inr prompt_ids \<Rightarrow> (case submit prompt_ids (gp_max_tokens (params_of req)) (gp_temperature (params_of req)) s of
          (items, s) \<Rightarrow> (case collect_tokens items [] of
              Inl e \<Rightarrow> (Err (InvalidResponse (''paged engine: '' @ e)), s)
            | Inr ids \<Rightarrow> (case tk_decode tk ids of
                Inl e \<Rightarrow> (Err (InvalidResponse (''decode: '' @ e)), s)
              | Inr content \<Rightarrow> (Ok (build_chat_response show_uuid req ctx content (length prompt_ids) (length ids)), s)))))"

definition candle_chat ::
    "(128 word \<Rightarrow> string) \<Rightarrow> template_engine \<Rightarrow> u32 float_ops \<Rightarrow> ('s, 't) candle_provider \<Rightarrow> chat_request \<Rightarrow> call_ctx \<Rightarrow> 's
      \<Rightarrow> (provider_error, chat_response) outcome \<times> 's" where
  "candle_chat show_uuid render fl p req ctx s =
     (let prompt = build_prompt render p req in
      case cd_backend p of
        PoolBackend m \<Rightarrow> chat_on_pool show_uuid fl m prompt req ctx s
      | PagedBackend submit \<Rightarrow> chat_on_engine show_uuid (cd_tokenizer p) submit prompt req ctx s)"

section \<open>A stream\<close>

text \<open>The callback of a replica that streams: the text so far, the pieces sent, the first failure.\<close>

record piece_sink =
  sk_emitted :: "u32 list"
  sk_prev :: string
  sk_pieces :: "(string + string) list"
  sk_err :: "string option"

definition send_piece :: "tokenizer \<Rightarrow> u32 \<Rightarrow> (piece_sink, 'e, unit) stateful" where
  "send_piece tk tok = (\<lambda>k.
     if sk_err k \<noteq> None then (Ok (), k)
     else let emitted = sk_emitted k @ [tok]; k = k\<lparr>sk_emitted := emitted\<rparr> in
       case tk_decode tk emitted of
         Inl e \<Rightarrow> (Ok (), k\<lparr>sk_err := Some (''decode: '' @ e)\<rparr>)
       | Inr full \<Rightarrow>
           if length (sk_prev k) < length full then
             (case str_from full (length (sk_prev k)) of
                None \<Rightarrow> (Panic, k)
              | Some suffix \<Rightarrow>
                  (Ok (), k\<lparr>sk_pieces := (if suffix = [] then sk_pieces k else sk_pieces k @ [Inr suffix]), sk_prev := full\<rparr>))
           else (Ok (), k))"

definition pool_pieces ::
    "u32 float_ops \<Rightarrow> ('s, 't) candle_model \<Rightarrow> tokenizer \<Rightarrow> string \<Rightarrow> gen_params \<Rightarrow> 's \<Rightarrow> (string + string) list \<times> 's" where
  "pool_pieces fl m tk prompt params s =
     (case candle_generate m fl prompt params (send_piece tk)
          (s, \<lparr>sk_emitted = [], sk_prev = [], sk_pieces = [], sk_err = None\<rparr>) of
        (r, (s, k)) \<Rightarrow> (sk_pieces k @ (case r of
            Panic \<Rightarrow> []
          | Ok _ \<Rightarrow> (case sk_err k of Some e \<Rightarrow> [Inl e] | None \<Rightarrow> [])
          | Err e \<Rightarrow> (case sk_err k of Some e' \<Rightarrow> [Inl e'] | None \<Rightarrow> [Inl (''generate: '' @ e)])), s))"

fun engine_pieces :: "tokenizer \<Rightarrow> u32 list \<Rightarrow> string \<Rightarrow> (string + u32) list \<Rightarrow> (string + string) list" where
  "engine_pieces tk emitted prev [] = []"
| "engine_pieces tk emitted prev (Inl e # items) = [Inl e]"
| "engine_pieces tk emitted prev (Inr tok # items) =
     (let emitted = emitted @ [tok] in
      case tk_decode tk emitted of
        Inl e \<Rightarrow> [Inl (''decode: '' @ e)]
      | Inr full \<Rightarrow>
          if length prev < length full then
            (case str_from full (length prev) of
               None \<Rightarrow> []
             | Some suffix \<Rightarrow>
                 if suffix = [] then engine_pieces tk emitted full items
                 else Inr suffix # engine_pieces tk emitted full items)
          else engine_pieces tk emitted prev items)"

fun piece_events :: "string \<Rightarrow> string \<Rightarrow> (string + string) list \<Rightarrow> event_stream" where
  "piece_events i model [] = [Inr (stop_chunk i model)]"
| "piece_events i model (Inr piece # rx) = Inr (text_chunk i model piece) # piece_events i model rx"
| "piece_events i model (Inl e # rx) = [Inl (StreamError e)]"

definition candle_chat_stream ::
    "(128 word \<Rightarrow> string) \<Rightarrow> template_engine \<Rightarrow> u32 float_ops \<Rightarrow> ('s, 't) candle_provider \<Rightarrow> chat_request \<Rightarrow> call_ctx \<Rightarrow> 's
      \<Rightarrow> (provider_error + event_stream) \<times> 's" where
  "candle_chat_stream show_uuid render fl p req ctx s =
     (let prompt = build_prompt render p req; params = params_of req;
          events = piece_events (''chatcmpl-'' @ show_uuid (ca_request_id ctx)) (cr_model req)
      in case cd_backend p of
        PoolBackend m \<Rightarrow> (case pool_pieces fl m (cd_tokenizer p) prompt params s of (pieces, s) \<Rightarrow> (Inr (events pieces), s))
      | PagedBackend submit \<Rightarrow> (case tk_encode (cd_tokenizer p) prompt of
            Inl e \<Rightarrow> (Inl (InvalidResponse (''tokenize: '' @ e)), s)
          | Inr prompt_ids \<Rightarrow> (case submit prompt_ids (gp_max_tokens params) (gp_temperature params) s of
              (items, s) \<Rightarrow> (Inr (events (engine_pieces (cd_tokenizer p) [] [] items)), s))))"


section \<open>What a stream says\<close>

lemma collect_tokens_append: "collect_tokens (map Inr toks @ items) ids = collect_tokens items (ids @ toks)"
  by (induction toks arbitrary: ids) simp_all

lemma piece_events_text:
  "stream_text (piece_events i model (map Inr ps)) = concat ps"
  "piece_events i model (map Inr ps @ [Inl e]) = map (\<lambda>p. Inr (text_chunk i model p)) ps @ [Inl (StreamError e)]"
  by (induction ps) simp_all

lemma piece_events_Inr:
  "piece_events i model (map Inr ps) = map (\<lambda>p. Inr (text_chunk i model p)) ps @ [Inr (stop_chunk i model)]"
  by (induction ps) simp_all

text \<open>The pieces of a text that grows with every token, whatever follows on the channel.\<close>

lemma engine_pieces_text:
  assumes "grows tk"
  shows "tk_decode tk emitted = Inr prev \<Longrightarrow> utf8_valid (as_bytes prev) \<Longrightarrow>
    \<exists>ps s. tk_decode tk (emitted @ toks) = Inr s \<and> s = prev @ concat ps \<and> utf8_valid (as_bytes s)
      \<and> engine_pieces tk emitted prev (map Inr toks @ items) = map Inr ps @ engine_pieces tk (emitted @ toks) s items"
proof (induction toks arbitrary: emitted prev)
  case Nil
  then show ?case by (intro exI [of _ "[]"] exI [of _ prev]) simp
next
  case (Cons tok toks)
  from assms Cons.prems obtain t where t: "tk_decode tk (emitted @ [tok]) = Inr (prev @ t)" "utf8_valid (as_bytes (prev @ t))"
    unfolding grows_def by (metis sum.inject(2))
  from Cons.IH [OF t] obtain ps s where IH: "tk_decode tk ((emitted @ [tok]) @ toks) = Inr s" "s = (prev @ t) @ concat ps"
    "utf8_valid (as_bytes s)"
    "engine_pieces tk (emitted @ [tok]) (prev @ t) (map Inr toks @ items) = map Inr ps @ engine_pieces tk ((emitted @ [tok]) @ toks) s items"
    by blast
  show ?case
  proof (cases "t = []")
    case True
    with IH t show ?thesis by (intro exI [of _ ps] exI [of _ s]) simp
  next
    case False
    with IH t grows_boundary [OF Cons.prems(2) t(2)] show ?thesis
      by (intro exI [of _ "t # ps"] exI [of _ s]) simp
  qed
qed

lemma grows_start: "grows tk \<Longrightarrow> tk_decode tk [] = Inr [] \<and> utf8_valid (as_bytes [])"
  by (simp add: grows_def as_bytes_def utf8_valid_nil)

section \<open>A replica\<close>

declare gen_loop.simps [simp del]

text \<open>A replica never returns the end token nor more tokens than were asked for.\<close>

lemma gen_loop_bounds:
  "gen_loop m fl params emit produced nt pos out (w, k) = (Ok ids, s) \<Longrightarrow> length out = produced \<Longrightarrow> produced \<le> gp_max_tokens params
    \<Longrightarrow> cn_eos_token_id m \<notin> set out \<Longrightarrow> length ids \<le> gp_max_tokens params \<and> cn_eos_token_id m \<notin> set ids"
proof (induction m fl params emit produced nt pos out "(w, k)" arbitrary: w k rule: gen_loop.induct)
  case (1 m fl params emit produced nt pos out w k)
  show ?case
  proof (cases "should_stop produced nt (cn_eos_token_id m) params")
    case True
    with 1(2-5) show ?thesis by (auto simp: gen_loop.simps)
  next
    case False
    then have room: "Suc produced \<le> gp_max_tokens params" "nt \<noteq> cn_eos_token_id m" by (auto simp: should_stop_def)
    obtain u k' nt' w' where step: "emit nt k = (Ok u, k')" "candle_next m fl params ''forward(decode): '' [nt] pos w = (Ok nt', w')"
      using 1(2) False by (subst (asm) gen_loop.simps) (auto split: prod.splits outcome.splits)
    have "gen_loop m fl params emit (Suc produced) nt' (Suc pos) (out @ [nt]) (w', k') = (Ok ids, s)"
      using 1(2) False step by (subst (asm) gen_loop.simps) simp
    from 1(1) [OF False step(1) [symmetric] refl step(2) [symmetric] refl this] 1(3,5) room show ?thesis by simp
  qed
qed

text \<open>The callback that streams follows the tokens; with a growing tokenizer it never fails.\<close>

definition sink_at :: "tokenizer \<Rightarrow> u32 list \<Rightarrow> piece_sink \<Rightarrow> bool" where
  "sink_at tk toks k \<longleftrightarrow> sk_emitted k = toks \<and> tk_decode tk toks = Inr (sk_prev k) \<and> utf8_valid (as_bytes (sk_prev k)) \<and> sk_err k = None
     \<and> (\<exists>ps. sk_pieces k = map Inr ps \<and> concat ps = sk_prev k)"

lemma send_piece_follows:
  assumes "grows tk" and "sink_at tk toks k"
  shows "\<exists>k'. send_piece tk tok k = (Ok (), k') \<and> sink_at tk (toks @ [tok]) k'"
proof -
  obtain ps where k: "sk_emitted k = toks" "tk_decode tk toks = Inr (sk_prev k)" "utf8_valid (as_bytes (sk_prev k))" "sk_err k = None"
    "sk_pieces k = map Inr ps" "concat ps = sk_prev k"
    using assms(2) by (auto simp: sink_at_def)
  from assms(1) k(2) obtain t where t: "tk_decode tk (toks @ [tok]) = Inr (sk_prev k @ t)" "utf8_valid (as_bytes (sk_prev k @ t))"
    unfolding grows_def by (metis sum.inject(2))
  show ?thesis
  proof (cases "t = []")
    case True
    with k t show ?thesis
      by (intro exI [of _ "k\<lparr>sk_emitted := toks @ [tok]\<rparr>"]) (auto simp: send_piece_def sink_at_def)
  next
    case False
    with k t grows_boundary [OF k(3) t(2)] show ?thesis
      by (intro exI [of _ "k\<lparr>sk_emitted := toks @ [tok], sk_pieces := sk_pieces k @ [Inr t], sk_prev := sk_prev k @ t\<rparr>"])
        (auto simp: send_piece_def sink_at_def Let_def intro: exI [of _ "ps @ [t]"])
  qed
qed

lemma gen_loop_follows:
  assumes "grows tk"
  shows "gen_loop m fl params (\<lambda>_. ret ()) produced nt pos out (w, ()) = (Ok ids, (w', ())) \<Longrightarrow> sink_at tk out k \<Longrightarrow>
    \<exists>k'. gen_loop m fl params (send_piece tk) produced nt pos out (w, k) = (Ok ids, (w', k')) \<and> sink_at tk ids k'"
proof (induction m fl params "\<lambda>_ :: u32. ret () :: (unit, string, unit) stateful" produced nt pos out "(w, ())" arbitrary: w k rule: gen_loop.induct)
  case (1 m fl params produced nt pos out w)
  show ?case
  proof (cases "should_stop produced nt (cn_eos_token_id m) params")
    case True
    with 1(2,3) show ?thesis by (auto simp: gen_loop.simps)
  next
    case False
    obtain nt' w1 where step: "candle_next m fl params ''forward(decode): '' [nt] pos w = (Ok nt', w1)"
      using 1(2) False by (subst (asm) gen_loop.simps) (auto split: prod.splits outcome.splits)
    have rest: "gen_loop m fl params (\<lambda>_. ret ()) (Suc produced) nt' (Suc pos) (out @ [nt]) (w1, ()) = (Ok ids, (w', ()))"
      using 1(2) False step by (subst (asm) gen_loop.simps) simp
    obtain k1 where k1: "send_piece tk nt k = (Ok () :: (string, unit) outcome, k1)" "sink_at tk (out @ [nt]) k1"
      using send_piece_follows [OF assms 1(3)] by blast
    have "\<exists>k'. gen_loop m fl params (send_piece tk) (Suc produced) nt' (Suc pos) (out @ [nt]) (w1, k1) = (Ok ids, (w', k')) \<and> sink_at tk ids k'"
      using 1(1) [OF False _ refl step [symmetric] refl rest k1(2)] by simp
    then show ?thesis
      using False step k1(1) by (subst gen_loop.simps) simp
  qed
qed

text \<open>What a replica answers, it also streams.\<close>

lemma pool_stream_says_chat:
  assumes "grows (cn_tokenizer m)" and "chat_on_pool show_uuid fl m prompt req ctx s = (Ok resp, s')"
  shows "\<exists>ps said. pool_pieces fl m (cn_tokenizer m) prompt (params_of req) s = (map Inr ps, s') \<and> concat ps = said
    \<and> map (cm_content \<circ> cc_message) (rs_choices resp) = [ChatText said]"
proof -
  let ?tk = "cn_tokenizer m" and ?k = "\<lparr>sk_emitted = [], sk_prev = [], sk_pieces = [], sk_err = None\<rparr>"
  obtain ids n content where gen: "candle_generate m fl prompt (params_of req) (\<lambda>_. ret ()) (s, ()) = (Ok (ids, n), (s', ()))"
    "tk_decode ?tk ids = Inr content" "resp = build_chat_response show_uuid req ctx content n (length ids)"
    using assms(2) unfolding chat_on_pool_def by (auto split: prod.splits outcome.splits sum.splits)
  obtain ids' nt w where loop: "tk_encode ?tk prompt = Inr ids'" "ids' \<noteq> []"
    "candle_next m fl (params_of req) ''forward(prefill): '' ids' 0 s = (Ok nt, w)"
    "gen_loop m fl (params_of req) (\<lambda>_. ret ()) 0 nt (length ids') [] (w, ()) = (Ok ids, (s', ()))" "n = length ids'"
    using gen(1) unfolding candle_generate_def
    by (auto simp: and_then_eq_Ok split: sum.splits if_splits prod.splits outcome.splits)
  have "sink_at ?tk [] ?k"
    using grows_start [OF assms(1)] by (simp add: sink_at_def)
  from gen_loop_follows [OF assms(1) loop(4) this] obtain k' where k':
    "gen_loop m fl (params_of req) (send_piece ?tk) 0 nt (length ids') [] (w, ?k) = (Ok ids, (s', k'))" "sink_at ?tk ids k'"
    by blast
  have "candle_generate m fl prompt (params_of req) (send_piece ?tk) (s, ?k) = (Ok (ids, n), (s', k'))"
    using loop k'(1) by (simp add: candle_generate_def)
  then have "pool_pieces fl m ?tk prompt (params_of req) s = (sk_pieces k', s')"
    using k'(2) by (simp add: pool_pieces_def sink_at_def)
  with k'(2) gen(2,3) show ?thesis
    by (auto simp: sink_at_def build_chat_response_def)
qed

section \<open>The pool\<close>

lemma first_free_Some: "first_free bs i = Some j \<longleftrightarrow> i \<le> j \<and> j - i < length bs \<and> \<not> bs ! (j - i) \<and> (\<forall>n < j - i. bs ! n)"
proof (induction bs arbitrary: i)
  case (Cons b bs)
  have "j - i = Suc (j - Suc i)" if "Suc i \<le> j" using that by simp
  with Cons [of "Suc i"] show ?case
    by (cases "i = j") (auto simp: less_Suc_eq_0_disj Suc_le_eq nth_Cons')
qed simp

text \<open>A request gets a free replica if there is one, and otherwise queues at one that exists.\<close>

lemma acquire_replica_cases:
  assumes "rp_busy p \<noteq> []"
  shows "(\<exists>i. i < length (rp_busy p) \<and> \<not> rp_busy p ! i \<and> acquire_replica p = (Ok (Locked i), p\<lparr>rp_busy := (rp_busy p)[i := True]\<rparr>))
    \<or> (\<forall>i < length (rp_busy p). rp_busy p ! i) \<and> (\<exists>i < length (rp_busy p). acquire_replica p = (Ok (Waits i), p\<lparr>rp_counter := rp_counter p + 1\<rparr>))"
proof (cases "first_free (rp_busy p) 0")
  case (Some i)
  then show ?thesis using first_free_Some [of "rp_busy p" 0 i] by (auto simp: acquire_replica_def)
next
  case None
  have "first_free bs i = None \<Longrightarrow> \<forall>b \<in> set bs. b" for bs i
    by (induction bs arbitrary: i) (auto split: if_splits)
  from this [OF None] have "\<forall>i < length (rp_busy p). rp_busy p ! i" by (meson nth_mem)
  with None assms show ?thesis by (auto simp: acquire_replica_def next_index_def)
qed

section \<open>The paged engine behind the provider\<close>

text \<open>What the reply channel of a request delivers; \<open>show_failure\<close> is the engine's message.\<close>

definition engine_items :: "(failure \<Rightarrow> string) \<Rightarrow> nat \<Rightarrow> 'v engine_state \<Rightarrow> (string + u32) list" where
  "engine_items show_failure tx e =
     map (\<lambda>r. case r of Token t \<Rightarrow> Inr t | Failed why \<Rightarrow> Inl (show_failure why)) (received tx e)"

text \<open>With nothing queued or running, every request that was submitted is finished.\<close>

lemma drained_finished:
  assumes "reachable be cfg reqs s" and "config_ok cfg" and "backend_ok be" and "req \<in> set reqs"
    and "sy_queue s = []" and "sy_running s = []"
  shows "finished be cfg (sy_engine s) req"
proof -
  let ?c = "spawn_config be cfg"
  have inv: "sys_inv be ?c reqs s" by (rule reachable_inv [OF assms(1-3)])
  then have "settled be ?c reqs (sy_engine s) (gr_tx req)" and "distinct (map gr_tx reqs)"
    using assms(4-6) by (auto simp: sys_inv_def)
  then have "finished be ?c (sy_engine s) req"
    using assms(4) by (auto simp: settled_def distinct_map dest: inj_onD)
  moreover have "ec_eos ?c = ec_eos cfg" by (simp add: spawn_config_def)
  ultimately show ?thesis by (simp add: finished_def)
qed

section \<open>Properties\<close>



definition ex_word_backend :: "(nat, u32) backend" where
  "ex_word_backend = \<lparr>be_model = ex_model, be_ops = ex_ops, be_floats = ex_word_floats,
     be_to_vec = (\<lambda>x. Some (map of_nat [x mod 5, x mod 3, (x + 1) mod 3]))\<rparr>"

definition ex_gen_request :: "u32 gen_request" where
  "ex_gen_request = \<lparr>gr_prompt = [0, 2], gr_max_tokens = 3, gr_temperature = 0, gr_tx = 10\<rparr>"

definition ex_other_request :: "u32 gen_request" where
  "ex_other_request = \<lparr>gr_prompt = [1], gr_max_tokens = 1, gr_temperature = 0, gr_tx = 11\<rparr>"

definition ex_served :: "(nat, u32) system" where
  "ex_served = run_thread 6 ex_word_backend (spawn_config ex_word_backend ex_config)
     ((spawn ex_word_backend ex_config)\<lparr>sy_queue := [ex_gen_request, ex_other_request]\<rparr>)"

lemma ex_word_backend_ok: "backend_ok ex_word_backend"
  using ex_mask_neutral by (auto simp: backend_ok_def ex_word_backend_def ex_model_def)

lemma ex_served_reachable: "reachable ex_word_backend ex_config [ex_gen_request, ex_other_request] ex_served"
proof -
  let ?s = "spawn ex_word_backend ex_config"
  have open1: "sy_open ?s" "sy_queue ?s = []" by (simp_all add: spawn_def)
  have "reachable ex_word_backend ex_config ([] @ [ex_gen_request]) (?s\<lparr>sy_queue := sy_queue ?s @ [ex_gen_request]\<rparr>)"
    by (rule submitted [OF start submit]) (simp_all add: open1)
  then have "reachable ex_word_backend ex_config ([ex_gen_request] @ [ex_other_request])
      ((?s\<lparr>sy_queue := [ex_gen_request]\<rparr>)\<lparr>sy_queue := sy_queue (?s\<lparr>sy_queue := [ex_gen_request]\<rparr>) @ [ex_other_request]\<rparr>)"
    by (intro submitted [OF _ submit]) (simp_all add: open1 ex_gen_request_def ex_other_request_def)
  then show ?thesis
    unfolding ex_served_def by (intro reachable_run_thread) simp
qed

lemma ex_served_drained: "sy_queue ex_served = []" "sy_running ex_served = []"
  by code_simp+

definition ex_candle :: "(unit, unit) candle_provider" where
  "ex_candle = \<lparr>cd_id = ''local'', cd_backend = PagedBackend (\<lambda>ids n t s.
       (engine_items (\<lambda>why. ''failed'') (gr_tx ex_gen_request) (sy_engine ex_served), s)), cd_tokenizer = ex_tokenizer,
     cd_chat_template = None, cd_bos_token = [], cd_eos_token = []\<rparr>"


end
