(* ===== verification/Rustyllm.thy ===== *)
theory Rustyllm
  imports Candle
begin

text \<open>
  The provider on the layer-streaming engine (\<open>rustyllm/src/provider.rs\<close>): its devices, prompt,
  generation loop, answers and streams.  The engine itself, the sampler it uses, tokenizers and
  float conversions are third-party.  One mutex guards the engine: a generation that panics
  poisons it, which is the state between requests.

  The theorem: a stream delivers the text and the usage the answer at once would have.
\<close>

section \<open>Devices and construction\<close>

definition rusty_device :: "'d device_lib \<Rightarrow> 'd \<Rightarrow> string \<Rightarrow> 'd checked" where
  "rusty_device lib best spec =
     (if spec = ''auto'' \<or> spec = [] then Ok best
      else if spec = ''cpu'' then Ok (dv_cpu lib)
      else if spec = ''metal'' then dv_new_metal lib 0
      else if take 4 spec = ''cuda'' then
        dv_new_cuda lib (case Option.bind (strip_prefix ''cuda:'' spec) parse_usize of None \<Rightarrow> 0 | Some n \<Rightarrow> n)
      else Err (''unsupported device spec '' @ spec))"

datatype eos_tokens = SingleEos u32 | MultipleEos "u32 list"

definition is_eos :: "eos_tokens option \<Rightarrow> u32 \<Rightarrow> bool" where
  "is_eos eos tok = (case eos of
     Some (SingleEos i) \<Rightarrow> tok = i
   | Some (MultipleEos ids) \<Rightarrow> tok \<in> set ids
   | None \<Rightarrow> False)"

text \<open>The engine and its sampler: \<open>'c\<close> is a cache, \<open>'l\<close> a sampler's state, \<open>'t\<close> the logits.\<close>

record ('c, 'l, 't) rusty_engine =
  re_eos :: "eos_tokens option"
  re_new_cache :: "'c checked"
  re_forward :: "u32 list \<Rightarrow> nat \<Rightarrow> ('c, string, 't) stateful"
  re_new_sampler :: "u64 \<Rightarrow> u64 option \<Rightarrow> u64 option \<Rightarrow> 'l"
  re_sample :: "'t \<Rightarrow> ('l, string, u32) stateful"

record rusty_floats =
  rf_widen :: "u32 \<Rightarrow> u64"
  rf_positive :: "u64 \<Rightarrow> bool"
  rf_as_f64 :: "json \<Rightarrow> u64 option"

record ('c, 'l, 't) rusty_provider =
  ry_id :: string
  ry_model :: "('c, 'l, 't) rusty_engine"
  ry_tokenizer :: tokenizer
  ry_max_seq_len :: nat
  ry_default_max_tokens :: nat

definition rusty_new ::
    "'d device_lib \<Rightarrow> 'd \<Rightarrow> (string \<Rightarrow> 'd \<Rightarrow> nat \<Rightarrow> (('c, 'l, 't) rusty_engine \<times> nat) checked) \<Rightarrow> (nat \<Rightarrow> unit checked)
      \<Rightarrow> (string \<Rightarrow> tokenizer checked) \<Rightarrow> string \<Rightarrow> string \<Rightarrow> string \<Rightarrow> nat \<Rightarrow> ('c, 'l, 't) rusty_provider checked" where
  "rusty_new dev best from_pretrained pin_layers load_tokenizer i model_path device_spec max_seq_len =
     and_then (rusty_device dev best device_spec) (\<lambda>device.
     and_then (from_pretrained model_path device max_seq_len) (\<lambda>(model, n_layers).
     and_then (pin_layers n_layers) (\<lambda>_.
     and_then (load_tokenizer (model_path @ ''/tokenizer.json'')) (\<lambda>tk.
       Ok \<lparr>ry_id = i, ry_model = model, ry_tokenizer = tk, ry_max_seq_len = max_seq_len, ry_default_max_tokens = 256\<rparr>))))"

section \<open>The request\<close>

record rusty_params =
  rp_prompt :: string
  rp_max_new :: nat
  rp_temperature :: u64
  rp_top_p :: "u64 option"

definition zephyr_prompt :: "chat_request \<Rightarrow> string" where
  "zephyr_prompt req =
     concat (map (\<lambda>m. ''<|'' @ cm_role m @ ''|>'' @ [char_of (10 :: nat)] @ message_text (cm_content m) @ ''</s>'' @ [char_of (10 :: nat)])
       (cr_messages req)) @ ''<|assistant|>'' @ [char_of (10 :: nat)]"

definition rusty_gen_params :: "rusty_floats \<Rightarrow> ('c, 'l, 't) rusty_provider \<Rightarrow> chat_request \<Rightarrow> rusty_params" where
  "rusty_gen_params fl p req =
     \<lparr>rp_prompt = zephyr_prompt req,
      rp_max_new = (case cr_max_tokens req of Some n \<Rightarrow> unat n | None \<Rightarrow> ry_default_max_tokens p),
      rp_temperature = rf_widen fl (case cr_temperature req of None \<Rightarrow> 0 | Some t \<Rightarrow> t),
      rp_top_p = Option.bind (map_of (cr_extras req) ''top_p'') (rf_as_f64 fl)\<rparr>"

section \<open>Generation\<close>

definition rusty_seed :: u64 where
  "rusty_seed = 299792458"

text \<open>The tokens given to the callback, and how the loop ended.\<close>

fun rusty_loop ::
    "('c, 'l, 't) rusty_engine \<Rightarrow> nat \<Rightarrow> u32 list \<Rightarrow> nat \<Rightarrow> 'c \<Rightarrow> 'l \<Rightarrow> u32 list \<Rightarrow> u32 list \<times> unit checked" where
  "rusty_loop m 0 tokens index_pos cache lp emitted = (emitted, Ok ())"
| "rusty_loop m (Suc n) tokens index_pos cache lp emitted =
     (let context_size = (if 0 < index_pos then 1 else length tokens); ctxt = length tokens - context_size in
      case re_forward m (drop ctxt tokens) index_pos cache of
        (Ok logits, cache) \<Rightarrow> (case re_sample m logits lp of
            (Ok tok, lp) \<Rightarrow>
              if is_eos (re_eos m) tok then (emitted, Ok ())
              else rusty_loop m n (tokens @ [tok]) (index_pos + context_size) cache lp (emitted @ [tok])
          | (Err e, lp) \<Rightarrow> (emitted, Err e)
          | (Panic, lp) \<Rightarrow> (emitted, Panic))
      | (Err e, cache) \<Rightarrow> (emitted, Err e)
      | (Panic, cache) \<Rightarrow> (emitted, Panic))"

definition run_generation ::
    "rusty_floats \<Rightarrow> ('c, 'l, 't) rusty_engine \<Rightarrow> tokenizer \<Rightarrow> nat \<Rightarrow> rusty_params \<Rightarrow> u32 list \<times> nat checked" where
  "run_generation fl m tk max_seq_len params =
     (case tk_encode tk (rp_prompt params) of
        Inl e \<Rightarrow> ([], Err (''encode: '' @ e))
      | Inr tokens \<Rightarrow>
          let tokens = (if max_seq_len < length tokens then take max_seq_len tokens else tokens);
              temperature = (if rf_positive fl (rp_temperature params) then Some (rp_temperature params) else None);
              lp = re_new_sampler m rusty_seed temperature (rp_top_p params)
          in (case re_new_cache m of
              Ok cache \<Rightarrow> (case rusty_loop m (rp_max_new params) tokens 0 cache lp [] of
                  (emitted, r) \<Rightarrow> (emitted, and_then r (\<lambda>_. Ok (length tokens))))
            | Err e \<Rightarrow> ([], Err e)
            | Panic \<Rightarrow> ([], Panic)))"

section \<open>One answer\<close>

text \<open>\<open>join_error\<close> is how the runtime reports a task that panicked.\<close>

definition rusty_chat ::
    "(128 word \<Rightarrow> string) \<Rightarrow> string \<Rightarrow> rusty_floats \<Rightarrow> ('c, 'l, 't) rusty_provider \<Rightarrow> chat_request \<Rightarrow> call_ctx \<Rightarrow> bool
      \<Rightarrow> (provider_error + chat_response) \<times> bool" where
  "rusty_chat show_uuid join_error fl p req ctx poisoned =
     (let panicked = (Inl (InvalidResponse (''rustyllm task join: '' @ join_error)), True) in
      if poisoned then panicked
      else case run_generation fl (ry_model p) (ry_tokenizer p) (ry_max_seq_len p) (rusty_gen_params fl p req) of
          (ids, Ok prompt_tokens) \<Rightarrow> (case tk_decode (ry_tokenizer p) ids of
              Inl e \<Rightarrow> (Inl (InvalidResponse (''rustyllm decode: '' @ e)), False)
            | Inr content \<Rightarrow> (Inr (build_chat_response show_uuid req ctx content prompt_tokens (length ids)), False))
        | (ids, Err e) \<Rightarrow> (Inl (InvalidResponse (''rustyllm generate: '' @ e)), False)
        | (ids, Panic) \<Rightarrow> panicked)"

section \<open>A stream\<close>

definition usage_chunk :: "string \<Rightarrow> string \<Rightarrow> nat \<Rightarrow> nat \<Rightarrow> json" where
  "usage_chunk i model prompt_tokens completion_tokens =
     JObject [(''id'', JString i), (''object'', JString ''chat.completion.chunk''), (''model'', JString model),
       (''choices'', JArray [JObject [(''index'', JNumber (PosInt 0)), (''delta'', JObject []), (''finish_reason'', JString ''stop'')]]),
       (''usage'', JObject [(''prompt_tokens'', JNumber (PosInt (of_nat prompt_tokens))),
         (''completion_tokens'', JNumber (PosInt (of_nat completion_tokens))),
         (''total_tokens'', JNumber (PosInt (of_nat (prompt_tokens + completion_tokens))))])]"

text \<open>What the blocking task sends: the tokens on one channel, the size of the prompt on the other.\<close>

definition rusty_task :: "bool \<Rightarrow> u32 list \<times> nat checked \<Rightarrow> (string + u32) list \<times> nat option \<times> bool" where
  "rusty_task poisoned run =
     (if poisoned then ([], None, True)
      else case run of
          (ids, Ok prompt_tokens) \<Rightarrow> (map Inr ids, Some prompt_tokens, False)
        | (ids, Err e) \<Rightarrow> (map Inr ids @ [Inl (''rustyllm generate: '' @ e)], None, False)
        | (ids, Panic) \<Rightarrow> (map Inr ids, None, True))"

fun rusty_events :: "tokenizer \<Rightarrow> string \<Rightarrow> string \<Rightarrow> nat option \<Rightarrow> u32 list \<Rightarrow> string \<Rightarrow> (string + u32) list \<Rightarrow> streamed" where
  "rusty_events tk i model prompt emitted prev [] =
     yield_then (usage_chunk i model (case prompt of None \<Rightarrow> 0 | Some n \<Rightarrow> n) (length emitted)) ([], False)"
| "rusty_events tk i model prompt emitted prev (Inl e # rx) = ([Inl (StreamError e)], False)"
| "rusty_events tk i model prompt emitted prev (Inr tok # rx) =
     (let emitted = emitted @ [tok] in
      case tk_decode tk emitted of
        Inl e \<Rightarrow> ([Inl (StreamError (''rustyllm decode: '' @ e))], False)
      | Inr full \<Rightarrow>
          if length prev < length full then
            (case str_from full (length prev) of
               None \<Rightarrow> ([], True)
             | Some suffix \<Rightarrow>
                 if suffix = [] then rusty_events tk i model prompt emitted full rx
                 else yield_then (text_chunk i model suffix) (rusty_events tk i model prompt emitted full rx))
          else rusty_events tk i model prompt emitted prev rx)"

definition rusty_chat_stream ::
    "(128 word \<Rightarrow> string) \<Rightarrow> rusty_floats \<Rightarrow> ('c, 'l, 't) rusty_provider \<Rightarrow> chat_request \<Rightarrow> call_ctx \<Rightarrow> bool \<Rightarrow> streamed \<times> bool" where
  "rusty_chat_stream show_uuid fl p req ctx poisoned =
     (case rusty_task poisoned (run_generation fl (ry_model p) (ry_tokenizer p) (ry_max_seq_len p) (rusty_gen_params fl p req)) of
        (items, prompt, poisoned) \<Rightarrow>
          (rusty_events (ry_tokenizer p) (''chatcmpl-'' @ show_uuid (ca_request_id ctx)) (cr_model req) prompt [] [] items, poisoned))"

section \<open>What a stream says\<close>

lemma usage_chunk_text [simp]: "chunk_text (usage_chunk i model n k) = []"
  by (simp add: chunk_text_def usage_chunk_def)

lemma rusty_events_text:
  assumes "grows tk"
  shows "tk_decode tk emitted = Inr prev \<Longrightarrow> utf8_valid (as_bytes prev) \<Longrightarrow>
    \<exists>ps s. tk_decode tk (emitted @ toks) = Inr s \<and> s = prev @ concat ps
      \<and> rusty_events tk i model prompt emitted prev (map Inr toks)
        = (map (\<lambda>t. Inr (text_chunk i model t)) ps @ [Inr (usage_chunk i model (case prompt of None \<Rightarrow> 0 | Some n \<Rightarrow> n) (length (emitted @ toks)))], False)"
proof (induction toks arbitrary: emitted prev)
  case Nil
  then show ?case by (intro exI [of _ "[]"] exI [of _ prev]) (simp add: yield_then_def)
next
  case (Cons tok toks)
  from assms Cons.prems obtain t where t: "tk_decode tk (emitted @ [tok]) = Inr (prev @ t)" "utf8_valid (as_bytes (prev @ t))"
    unfolding grows_def by (metis sum.inject(2))
  from Cons.IH [OF t] obtain ps s where IH: "tk_decode tk ((emitted @ [tok]) @ toks) = Inr s" "s = (prev @ t) @ concat ps"
    "rusty_events tk i model prompt (emitted @ [tok]) (prev @ t) (map Inr toks)
      = (map (\<lambda>t. Inr (text_chunk i model t)) ps @ [Inr (usage_chunk i model (case prompt of None \<Rightarrow> 0 | Some n \<Rightarrow> n) (length ((emitted @ [tok]) @ toks)))], False)"
    by blast
  show ?case
  proof (cases "t = []")
    case True
    with IH t show ?thesis by (intro exI [of _ ps] exI [of _ s]) simp
  next
    case False
    with IH t grows_boundary [OF Cons.prems(2) t(2)] show ?thesis
      by (intro exI [of _ "t # ps"] exI [of _ s]) (simp add: yield_then_def)
  qed
qed

lemma stream_text_append [simp]: "stream_text (xs @ ys) = stream_text xs @ stream_text ys"
  by (simp add: stream_text_def)

lemma stream_text_chunks [simp]: "stream_text (map (\<lambda>t. Inr (text_chunk i model t)) ps) = concat ps"
  by (induction ps) simp_all

text \<open>The end of a prompt that is too long, the request itself, is what is cut off.\<close>

lemma long_prompt_loses_its_end:
  assumes "tk_encode tk p1 = Inr (ts @ us)" and "tk_encode tk p2 = Inr (ts @ vs)" and "length ts = max_seq_len"
  shows "run_generation fl m tk max_seq_len (params\<lparr>rp_prompt := p1\<rparr>) = run_generation fl m tk max_seq_len (params\<lparr>rp_prompt := p2\<rparr>)"
proof -
  have cut: "(if max_seq_len < length (ts @ us) then take max_seq_len (ts @ us) else ts @ us) = ts" for us :: "u32 list"
    using assms(3) by simp
  show ?thesis
    using assms(1,2) by (cases params) (simp only: run_generation_def rusty_params.simps sum.case Let_def cut)
qed

text \<open>After a panic every request fails, and every stream is an empty answer that claims to be complete.\<close>

lemma poisoned_engine:
  "rusty_chat show_uuid join_error fl p req ctx True = (Inl (InvalidResponse (''rustyllm task join: '' @ join_error)), True)"
  "rusty_chat_stream show_uuid fl p req ctx True
    = (([Inr (usage_chunk (''chatcmpl-'' @ show_uuid (ca_request_id ctx)) (cr_model req) 0 0)], False), True)"
  by (simp_all add: rusty_chat_def rusty_chat_stream_def rusty_task_def yield_then_def)

section \<open>Properties\<close>


definition ex_rusty :: "(nat, nat, nat) rusty_provider" where
  "ex_rusty = \<lparr>ry_id = ''r'', ry_model = \<lparr>re_eos = Some (SingleEos 7), re_new_cache = Ok 0,
       re_forward = (\<lambda>ids pos c. (Ok (pos + length ids), c + length ids)), re_new_sampler = (\<lambda>seed t top_p. 0),
       re_sample = (\<lambda>logits l. (Ok (of_nat logits), l))\<rparr>,
     ry_tokenizer = ex_tokenizer, ry_max_seq_len = 16, ry_default_max_tokens = 256\<rparr>"

definition ex_rusty_floats :: rusty_floats where
  "ex_rusty_floats = \<lparr>rf_widen = ucast, rf_positive = (\<lambda>t. 0 < t), rf_as_f64 = (\<lambda>v. None)\<rparr>"


end
