(* ===== verification/Spec2Isabelle.thy ===== *)
theory Spec2Isabelle
  imports Prelude Partition BlockTable PagedKv Transformer Sample Engine Arch Frame Wire Peer Hop Coordinator Distributed Leader Join
    Api Gateway Stages Forward Failover StreamTap InFlight Http Requests Utf8 Sse Upstream Gguf Names Quant Blocks Config
    ClusterChat ClusterLive App Mesh Loader Assemble Candle Rustyllm
begin

text \<open>Work in progress.\<close>

end
